(* ===== verification/Prelude.thy ===== *)
theory Prelude
  imports Main "HOL-Library.Word" "HOL-Library.Monad_Syntax"
begin

text \<open>
  Shared vocabulary of the development: the machine integers of the C sources, the errors the
  library returns, the result of a call that may abort, and the generic lemmas on options, lists
  and words that the component theories use.

  Two failure channels are kept apart everywhere:
  \<^item> a call that returns \<open>-E...\<close> yields \<open>Inl E...\<close>, a call that returns a non-negative
    value yields \<open>Inr\<close>;
  \<^item> a failed \<open>nn_assert\<close>, \<open>errnum_assert\<close>, \<open>nn_fsm_bad_action\<close> and the like abort the process,
    and a read or write outside an object is undefined behaviour: both yield \<open>None\<close>.
  A theorem that an operation returns \<open>Some\<close> therefore states that it neither trips an
  assertion nor leaves the bounds of its buffers.
\<close>

unbundle bit_operations_syntax

section \<open>Types\<close>

type_synonym u8 = "8 word"
type_synonym u16 = "16 word"
type_synonym u32 = "32 word"
type_synonym u64 = "64 word"
type_synonym bytes = "u8 list"

text \<open>A \<open>struct nn_pipe *\<close>. Null pointers are \<open>None\<close> of \<open>pipe option\<close>.\<close>

type_synonym pipe = nat

datatype errno =
    EAGAIN | EINVAL | EFSM | ENOPROTOOPT | EISCONN | ETIMEDOUT | ENOTSUP | EBADF | EINTR | EMFILE
  | ECONNRESET | ENOMEM | ENOBUFS | EADDRINUSE | ENODEV | ENAMETOOLONG | EPROTONOSUPPORT

section \<open>Assertions\<close>

definition nn_assert :: "bool \<Rightarrow> unit option" where
  "nn_assert b = (if b then Some () else None)"

lemma nn_assert_simps [simp]:
  "nn_assert True = Some ()"
  "nn_assert False = None"
  "(nn_assert b = Some u) = b"
  "(nn_assert b = None) = (\<not> b)"
  by (simp_all add: nn_assert_def)

lemma nn_assert_bind_Some [simp]:
  "(nn_assert b \<bind> f = Some x) \<longleftrightarrow> b \<and> f () = Some x"
  by (simp add: nn_assert_def)

lemma bind_Some_iff: "(m \<bind> f = Some y) \<longleftrightarrow> (\<exists>x. m = Some x \<and> f x = Some y)"
  by (cases m) auto

lemma case_sum_Some_iff:
  "((case x of Inl e \<Rightarrow> None | Inr b \<Rightarrow> f b) = Some y) \<longleftrightarrow> (\<exists>b. x = Inr b \<and> f b = Some y)"
  by (cases x) auto

lemma option_eq_iff_Some: "x = y \<longleftrightarrow> (\<forall>a. x = Some a \<longleftrightarrow> y = Some a)"
  by (cases x; cases y) auto

lemma find_SomeD: "find P xs = Some x \<Longrightarrow> x \<in> set xs \<and> P x"
  by (induction xs) (auto split: if_splits)

lemma in_set_nthD: "x \<in> set xs \<Longrightarrow> \<exists>i < length xs. xs ! i = x"
  by (simp add: in_set_conv_nth)

section \<open>Collections of simplification rules\<close>

named_theorems proto_defs "definitions of the socket operations"
named_theorems inv_simps "facts that carry invariants through updates"

section \<open>Lists\<close>

lemma drop_append_take_same [simp]: "take n xs @ drop n xs = xs"
  by (rule append_take_drop_id)

lemma length4_obtain:
  assumes "4 \<le> length xs"
  obtains a b c d rest where "xs = a # b # c # d # rest"
proof -
  from assms obtain a ys where "xs = a # ys" "3 \<le> length ys" by (cases xs) auto
  moreover then obtain b zs where "ys = b # zs" "2 \<le> length zs" by (cases ys) auto
  moreover then obtain c us where "zs = c # us" "1 \<le> length us" by (cases zs) auto
  moreover then obtain d vs where "us = d # vs" by (cases us) auto
  ultimately show thesis using that by simp
qed

lemma length2_obtain:
  assumes "2 \<le> length xs"
  obtains a b rest where "xs = a # b # rest"
proof -
  from assms obtain a ys where "xs = a # ys" "1 \<le> length ys" by (cases xs) auto
  moreover then obtain b zs where "ys = b # zs" by (cases ys) auto
  ultimately show thesis using that by simp
qed

lemma last_notin_iff: "last xs \<notin> set xs \<longleftrightarrow> xs = []"
  by (cases xs) auto

lemma distinct_remove1_notin: "distinct xs \<Longrightarrow> x \<notin> set (remove1 x xs)"
  by simp

lemma remove1_split:
  "x \<notin> set ys \<Longrightarrow> remove1 x (ys @ x # zs) = ys @ zs"
  by (induction ys) auto

lemma distinct_split_unique:
  assumes "distinct (ys @ x # zs)" and "ys @ x # zs = ys' @ x # zs'"
  shows "ys = ys' \<and> zs = zs'"
proof -
  have x: "x \<notin> set ys" using assms(1) by simp
  have x': "x \<notin> set ys'" using assms(1) unfolding assms(2) by simp
  have "takeWhile (\<lambda>y. y \<noteq> x) (ys @ x # zs) = ys" using x
    by (subst takeWhile_append2) auto
  moreover have "takeWhile (\<lambda>y. y \<noteq> x) (ys' @ x # zs') = ys'" using x'
    by (subst takeWhile_append2) auto
  ultimately have "ys = ys'" using assms(2) by simp
  then show ?thesis using assms(2) by simp
qed

end
