(* ===== verification/Wire.thy ===== *)
theory Wire
  imports Prelude
begin

text \<open>
  The network byte order codec of \<open>src/utils/wire.c\<close>: each \<open>nn_get*\<close> reads a big-endian
  integer from the start of a buffer and each \<open>nn_put*\<close> stores one there. A buffer that is too
  short is an access outside the object (\<open>None\<close>). The locale \<open>wire_codec\<close> is the interface
  that the protocol headers rely on, and it is interpreted for the three widths.
\<close>

definition nn_gets :: "bytes \<Rightarrow> u16 option" where
  "nn_gets buf = (if length buf < 2 then None
     else Some (push_bit 8 (ucast (buf ! 0)) OR ucast (buf ! 1)))"

definition nn_puts :: "bytes \<Rightarrow> u16 \<Rightarrow> bytes option" where
  "nn_puts buf val = (if length buf < 2 then None
     else Some (buf[0 := ucast (drop_bit 8 val AND 0xff), 1 := ucast (val AND 0xff)]))"

definition nn_getl :: "bytes \<Rightarrow> u32 option" where
  "nn_getl buf = (if length buf < 4 then None
     else Some (push_bit 24 (ucast (buf ! 0)) OR push_bit 16 (ucast (buf ! 1)) OR
                push_bit 8 (ucast (buf ! 2)) OR ucast (buf ! 3)))"

definition nn_putl :: "bytes \<Rightarrow> u32 \<Rightarrow> bytes option" where
  "nn_putl buf val = (if length buf < 4 then None
     else Some (buf[0 := ucast (drop_bit 24 val AND 0xff), 1 := ucast (drop_bit 16 val AND 0xff),
                    2 := ucast (drop_bit 8 val AND 0xff), 3 := ucast (val AND 0xff)]))"

definition nn_getll :: "bytes \<Rightarrow> u64 option" where
  "nn_getll buf = (if length buf < 8 then None
     else Some (push_bit 56 (ucast (buf ! 0)) OR push_bit 48 (ucast (buf ! 1)) OR
                push_bit 40 (ucast (buf ! 2)) OR push_bit 32 (ucast (buf ! 3)) OR
                push_bit 24 (ucast (buf ! 4)) OR push_bit 16 (ucast (buf ! 5)) OR
                push_bit 8 (ucast (buf ! 6)) OR push_bit 0 (ucast (buf ! 7))))"

definition nn_putll :: "bytes \<Rightarrow> u64 \<Rightarrow> bytes option" where
  "nn_putll buf val = (if length buf < 8 then None
     else Some (buf[0 := ucast (drop_bit 56 val AND 0xff), 1 := ucast (drop_bit 48 val AND 0xff),
                    2 := ucast (drop_bit 40 val AND 0xff), 3 := ucast (drop_bit 32 val AND 0xff),
                    4 := ucast (drop_bit 24 val AND 0xff), 5 := ucast (drop_bit 16 val AND 0xff),
                    6 := ucast (drop_bit 8 val AND 0xff), 7 := ucast (val AND 0xff)]))"

section \<open>The codec interface\<close>

locale wire_codec =
  fixes n :: nat
    and get :: "bytes \<Rightarrow> 'w option"
    and put :: "bytes \<Rightarrow> 'w \<Rightarrow> bytes option"
  assumes put_bounds: "put buf v \<noteq> None \<longleftrightarrow> n \<le> length buf"
    and get_bounds: "get buf \<noteq> None \<longleftrightarrow> n \<le> length buf"
    and get_local: "n \<le> length buf \<Longrightarrow> get (take n buf @ rest) = get buf"
    and put_frame: "put buf v = Some buf' \<Longrightarrow> length buf' = length buf \<and> drop n buf' = drop n buf"
    and put_overwrites: "put buf v = Some b1 \<Longrightarrow> put buf' v = Some b2 \<Longrightarrow> take n b1 = take n b2"
    and get_put: "put buf v = Some buf' \<Longrightarrow> get buf' = Some v"
    and put_get: "get buf = Some v \<Longrightarrow> put buf v = Some buf"
begin

lemma put_total: "n \<le> length buf \<Longrightarrow> \<exists>buf'. put buf v = Some buf'"
  using put_bounds [of buf v] by auto

lemma get_total: "n \<le> length buf \<Longrightarrow> \<exists>v. get buf = Some v"
  using get_bounds [of buf] by auto

lemma put_injective:
  assumes "put buf v = Some b" and "put buf w = Some b"
  shows "v = w"
  using get_put [OF assms(1)] get_put [OF assms(2)] by simp

lemma get_injective:
  assumes "length a = n" and "length b = n" and "get a = get b"
  shows "a = b"
proof -
  from assms obtain v where v: "get a = Some v" "get b = Some v"
    using get_total [of a] by auto
  have "take n a = take n b"
    using put_overwrites [OF put_get [OF v(1)] put_get [OF v(2)]] .
  then show ?thesis using assms by simp
qed

lemma get_after_put_append:
  assumes "put buf v = Some buf'"
  shows "get (buf' @ rest) = Some v"
proof -
  have n: "n \<le> length buf'"
    using put_frame [OF assms] put_bounds [of buf v] assms by auto
  have "get (take n (buf' @ rest) @ drop n buf') = get (buf' @ rest)"
    using n by (intro get_local) simp
  moreover have "take n (buf' @ rest) @ drop n buf' = buf'" using n by simp
  ultimately show ?thesis using get_put [OF assms] by simp
qed

lemma put_spec:
  "case put buf v of None \<Rightarrow> length buf < n
     | Some b \<Rightarrow> length b = length buf \<and> drop n b = drop n buf \<and> get (b @ rest) = Some v"
  using put_bounds [of buf v] put_frame [of buf v] get_after_put_append [of buf v _ rest]
  by (cases "put buf v") auto

lemma get_spec:
  "case get buf of None \<Rightarrow> length buf < n | Some v \<Rightarrow> put buf v = Some buf"
  using get_bounds [of buf] put_get [of buf] by (cases "get buf") auto

end

section \<open>Bit-level facts\<close>

lemma byte_mask [simp]: "(ucast (x AND 0xff :: 'a::len word) :: u8) = ucast x"
proof -
  have m: "(0xff :: 'a word) = mask 8" by (simp add: mask_eq_exp_minus_1)
  show ?thesis
    unfolding m by (intro bit_word_eqI) (auto simp: bit_simps dest: bit_imp_le_length)
qed

lemma bit_byte_lane:
  fixes v :: "'a::len word"
  shows "bit (push_bit k (ucast (ucast (drop_bit k v) :: u8) :: 'a word)) m \<longleftrightarrow>
    k \<le> m \<and> m < k + 8 \<and> bit v m"
  by (auto simp: bit_simps dest: bit_imp_le_length)

lemma bit_byte_lane0:
  fixes v :: "'a::len word"
  shows "bit (ucast (ucast v :: u8) :: 'a word) m \<longleftrightarrow> m < 8 \<and> bit v m"
  by (auto simp: bit_simps dest: bit_imp_le_length)

lemma split_u16:
  "(push_bit 8 (ucast (ucast (drop_bit 8 v) :: u8)) OR ucast (ucast v :: u8)) = (v :: u16)"
  by (rule bit_word_eqI) (simp only: bit_or_iff bit_byte_lane bit_byte_lane0, auto)

lemma split_u32:
  "(push_bit 24 (ucast (ucast (drop_bit 24 v) :: u8)) OR push_bit 16 (ucast (ucast (drop_bit 16 v) :: u8)) OR
    push_bit 8 (ucast (ucast (drop_bit 8 v) :: u8)) OR ucast (ucast v :: u8)) = (v :: u32)"
  by (rule bit_word_eqI) (simp only: bit_or_iff bit_byte_lane bit_byte_lane0, auto)

lemma split_u64:
  "(push_bit 56 (ucast (ucast (drop_bit 56 v) :: u8)) OR push_bit 48 (ucast (ucast (drop_bit 48 v) :: u8)) OR
    push_bit 40 (ucast (ucast (drop_bit 40 v) :: u8)) OR push_bit 32 (ucast (ucast (drop_bit 32 v) :: u8)) OR
    push_bit 24 (ucast (ucast (drop_bit 24 v) :: u8)) OR push_bit 16 (ucast (ucast (drop_bit 16 v) :: u8)) OR
    push_bit 8 (ucast (ucast (drop_bit 8 v) :: u8)) OR push_bit 0 (ucast (ucast v :: u8))) = (v :: u64)"
  by (rule bit_word_eqI) (simp only: push_bit_0_id id_apply bit_or_iff bit_byte_lane bit_byte_lane0, auto)

lemma bit_byte_high:
  fixes a :: u8
  shows "bit a m \<Longrightarrow> m < 8"
  by (auto dest: bit_imp_le_length)

lemma join_byte:
  fixes a :: u8
  assumes "\<And>m. m < 8 \<Longrightarrow> bit v (k + m) \<longleftrightarrow> bit a m" and "k + 8 \<le> LENGTH('a)"
  shows "ucast (drop_bit k (v :: 'a::len word)) = a"
  using assms by (intro bit_word_eqI) (auto simp: bit_simps)

lemma join_u16:
  fixes a b :: u8
  defines "v \<equiv> (push_bit 8 (ucast a) OR ucast b :: u16)"
  shows "ucast (drop_bit 8 v) = a" and "ucast (drop_bit 0 v) = b"
  unfolding v_def
  by (rule join_byte; auto simp: bit_simps dest: bit_byte_high)+

lemma join_u32:
  fixes a b c d :: u8
  defines "v \<equiv> (push_bit 24 (ucast a) OR push_bit 16 (ucast b) OR push_bit 8 (ucast c) OR ucast d :: u32)"
  shows "ucast (drop_bit 24 v) = a" and "ucast (drop_bit 16 v) = b"
    and "ucast (drop_bit 8 v) = c" and "ucast (drop_bit 0 v) = d"
  unfolding v_def
  by (rule join_byte; auto simp: bit_simps dest: bit_byte_high)+

lemma join_u64:
  fixes a b c d e f g h :: u8
  defines "v \<equiv> (push_bit 56 (ucast a) OR push_bit 48 (ucast b) OR push_bit 40 (ucast c) OR
    push_bit 32 (ucast d) OR push_bit 24 (ucast e) OR push_bit 16 (ucast f) OR
    push_bit 8 (ucast g) OR push_bit 0 (ucast h) :: u64)"
  shows "ucast (drop_bit 56 v) = a" and "ucast (drop_bit 48 v) = b" and "ucast (drop_bit 40 v) = c"
    and "ucast (drop_bit 32 v) = d" and "ucast (drop_bit 24 v) = e" and "ucast (drop_bit 16 v) = f"
    and "ucast (drop_bit 8 v) = g" and "ucast (drop_bit 0 v) = h"
  unfolding v_def
  by (rule join_byte; auto simp: bit_simps dest: bit_byte_high)+

section \<open>The three widths implement the interface\<close>

lemmas wire_defs = nn_gets_def nn_puts_def nn_getl_def nn_putl_def nn_getll_def nn_putll_def

lemma length8_obtain:
  assumes "8 \<le> length xs"
  obtains a b c d e f g h rest where "xs = a # b # c # d # e # f # g # h # rest"
proof -
  from assms have "4 \<le> length xs" by simp
  then obtain a b c d ys where xs: "xs = a # b # c # d # ys" by (rule length4_obtain)
  with assms have "4 \<le> length ys" by simp
  then obtain e f g h zs where "ys = e # f # g # h # zs" by (rule length4_obtain)
  with xs show thesis using that by simp
qed

lemma wire16_Cons [simp]:
  "nn_gets (a # b # rest) = Some (push_bit 8 (ucast a) OR ucast b)"
  "nn_puts (a # b # rest) v = Some (ucast (drop_bit 8 v) # ucast v # rest)"
  by (simp_all add: wire_defs)

lemma wire16_short: "length buf < 2 \<Longrightarrow> nn_gets buf = None \<and> nn_puts buf v = None"
  by (simp add: wire_defs)

interpretation wire16: wire_codec 2 nn_gets nn_puts
proof unfold_locales
  fix buf :: bytes and v
  show "nn_puts buf v \<noteq> None \<longleftrightarrow> 2 \<le> length buf" and "nn_gets buf \<noteq> None \<longleftrightarrow> 2 \<le> length buf"
    by (auto simp: wire_defs)
next
  fix buf rest :: bytes assume "2 \<le> length buf"
  then show "nn_gets (take 2 buf @ rest) = nn_gets buf"
    by (rule length2_obtain) simp
next
  fix buf buf' :: bytes and v assume put: "nn_puts buf v = Some buf'"
  then have n: "2 \<le> length buf" by (auto simp: wire_defs split: if_splits)
  then show "length buf' = length buf \<and> drop 2 buf' = drop 2 buf"
    using put by (elim length2_obtain) auto
  show "nn_gets buf' = Some v"
    using put n by (elim length2_obtain) (auto simp: split_u16)
next
  fix buf buf' b1 b2 :: bytes and v assume put: "nn_puts buf v = Some b1" "nn_puts buf' v = Some b2"
  then have "2 \<le> length buf" "2 \<le> length buf'" by (auto simp: wire_defs split: if_splits)
  then show "take 2 b1 = take 2 b2" using put by (elim length2_obtain) auto
next
  fix buf :: bytes and v assume get: "nn_gets buf = Some v"
  then have "2 \<le> length buf" by (auto simp: wire_defs split: if_splits)
  then show "nn_puts buf v = Some buf" using get by (elim length2_obtain) (auto simp: join_u16 [simplified])
qed

lemma wire32_Cons [simp]:
  "nn_getl (a # b # c # d # rest) = Some (push_bit 24 (ucast a) OR push_bit 16 (ucast b) OR push_bit 8 (ucast c) OR ucast d)"
  "nn_putl (a # b # c # d # rest) v = Some (ucast (drop_bit 24 v) # ucast (drop_bit 16 v) # ucast (drop_bit 8 v) # ucast v # rest)"
  by (simp_all add: wire_defs)

lemma wire32_short: "length buf < 4 \<Longrightarrow> nn_getl buf = None \<and> nn_putl buf v = None"
  by (simp add: wire_defs)

interpretation wire32: wire_codec 4 nn_getl nn_putl
proof unfold_locales
  fix buf :: bytes and v
  show "nn_putl buf v \<noteq> None \<longleftrightarrow> 4 \<le> length buf" and "nn_getl buf \<noteq> None \<longleftrightarrow> 4 \<le> length buf"
    by (auto simp: wire_defs)
next
  fix buf rest :: bytes assume "4 \<le> length buf"
  then show "nn_getl (take 4 buf @ rest) = nn_getl buf"
    by (rule length4_obtain) simp
next
  fix buf buf' :: bytes and v assume put: "nn_putl buf v = Some buf'"
  then have n: "4 \<le> length buf" by (auto simp: wire_defs split: if_splits)
  then show "length buf' = length buf \<and> drop 4 buf' = drop 4 buf"
    using put by (elim length4_obtain) auto
  show "nn_getl buf' = Some v"
    using put n by (elim length4_obtain) (auto simp: split_u32)
next
  fix buf buf' b1 b2 :: bytes and v assume put: "nn_putl buf v = Some b1" "nn_putl buf' v = Some b2"
  then have "4 \<le> length buf" "4 \<le> length buf'" by (auto simp: wire_defs split: if_splits)
  then show "take 4 b1 = take 4 b2" using put by (elim length4_obtain) auto
next
  fix buf :: bytes and v assume get: "nn_getl buf = Some v"
  then have "4 \<le> length buf" by (auto simp: wire_defs split: if_splits)
  then show "nn_putl buf v = Some buf" using get by (elim length4_obtain) (auto simp: join_u32 [simplified])
qed

lemma wire64_Cons [simp]:
  "nn_getll (a # b # c # d # e # f # g # h # rest) = Some (push_bit 56 (ucast a) OR push_bit 48 (ucast b) OR push_bit 40 (ucast c) OR push_bit 32 (ucast d) OR push_bit 24 (ucast e) OR push_bit 16 (ucast f) OR push_bit 8 (ucast g) OR push_bit 0 (ucast h))"
  "nn_putll (a # b # c # d # e # f # g # h # rest) v = Some (ucast (drop_bit 56 v) # ucast (drop_bit 48 v) # ucast (drop_bit 40 v) # ucast (drop_bit 32 v) # ucast (drop_bit 24 v) # ucast (drop_bit 16 v) # ucast (drop_bit 8 v) # ucast v # rest)"
  by (simp_all add: wire_defs)

lemma wire64_short: "length buf < 8 \<Longrightarrow> nn_getll buf = None \<and> nn_putll buf v = None"
  by (simp add: wire_defs)

interpretation wire64: wire_codec 8 nn_getll nn_putll
proof unfold_locales
  fix buf :: bytes and v
  show "nn_putll buf v \<noteq> None \<longleftrightarrow> 8 \<le> length buf" and "nn_getll buf \<noteq> None \<longleftrightarrow> 8 \<le> length buf"
    by (auto simp: wire_defs)
next
  fix buf rest :: bytes assume "8 \<le> length buf"
  then show "nn_getll (take 8 buf @ rest) = nn_getll buf"
    by (rule length8_obtain) simp
next
  fix buf buf' :: bytes and v assume put: "nn_putll buf v = Some buf'"
  then have n: "8 \<le> length buf" by (auto simp: wire_defs split: if_splits)
  then show "length buf' = length buf \<and> drop 8 buf' = drop 8 buf"
    using put by (elim length8_obtain) auto
  show "nn_getll buf' = Some v"
    using put n by (elim length8_obtain) (auto simp: split_u64 [simplified])
next
  fix buf buf' b1 b2 :: bytes and v assume put: "nn_putll buf v = Some b1" "nn_putll buf' v = Some b2"
  then have "8 \<le> length buf" "8 \<le> length buf'" by (auto simp: wire_defs split: if_splits)
  then show "take 8 b1 = take 8 b2" using put by (elim length8_obtain) auto
next
  fix buf :: bytes and v assume get: "nn_getll buf = Some v"
  then have "8 \<le> length buf" by (auto simp: wire_defs split: if_splits)
  then show "nn_putll buf v = Some buf" using get by (elim length8_obtain) (auto simp: join_u64 [simplified])
qed

end
