(* ===== verification/Nn_List.thy ===== *)
theory Nn_List
  imports Prelude
begin

text \<open>
  The intrusive doubly linked list of \<open>src/utils/list.c\<close>, modelled on an explicit store: a heap
  maps the address of a \<open>struct nn_list_item\<close> to its two links, and a \<open>struct nn_list\<close> holds the
  two end pointers. The pointer value \<open>-1\<close> (\<open>NN_LIST_NOTINLIST\<close>) is a constructor of its own;
  following it is undefined behaviour (\<open>None\<close>).

  \<open>lrep h l xs\<close> says that the list object \<open>l\<close> represents the sequence of addresses \<open>xs\<close>.
  The theorems show that every operation refines the corresponding operation on sequences
  (\<open>ins_before\<close>, \<open>remove1\<close>, \<open>next_of\<close>) and leaves items of other lists alone, which justifies the
  use of plain sequences for \<open>nn_list\<close> in the other theories. The locale \<open>intrusive_list\<close> states
  that contract and derives the iteration idioms used by the clients.
\<close>

section \<open>The store\<close>

datatype ptr = NULL | NN_LIST_NOTINLIST | Item nat

record nn_list_item =
  next_ptr :: ptr
  prev_ptr :: ptr

record nn_list =
  first_ptr :: ptr
  last_ptr :: ptr

type_synonym list_heap = "nat \<Rightarrow> nn_list_item"

text \<open>\<open>if (p) p->next = v\<close> and \<open>if (p) p->prev = v\<close>.\<close>

definition set_next :: "ptr \<Rightarrow> ptr \<Rightarrow> list_heap \<Rightarrow> list_heap option" where
  "set_next p v h = (case p of NULL \<Rightarrow> Some h | NN_LIST_NOTINLIST \<Rightarrow> None
     | Item a \<Rightarrow> Some (h(a := (h a)\<lparr>next_ptr := v\<rparr>)))"

definition set_prev :: "ptr \<Rightarrow> ptr \<Rightarrow> list_heap \<Rightarrow> list_heap option" where
  "set_prev p v h = (case p of NULL \<Rightarrow> Some h | NN_LIST_NOTINLIST \<Rightarrow> None
     | Item a \<Rightarrow> Some (h(a := (h a)\<lparr>prev_ptr := v\<rparr>)))"

section \<open>Operations\<close>

definition nn_list_init :: "nn_list" where
  "nn_list_init = \<lparr>first_ptr = NULL, last_ptr = NULL\<rparr>"

definition nn_list_term :: "nn_list \<Rightarrow> unit option" where
  "nn_list_term l = do { nn_assert (first_ptr l = NULL); nn_assert (last_ptr l = NULL) }"

definition nn_list_empty :: "nn_list \<Rightarrow> bool" where
  "nn_list_empty l = (first_ptr l = NULL)"

definition nn_list_begin :: "nn_list \<Rightarrow> ptr" where
  "nn_list_begin l = first_ptr l"

definition nn_list_end :: "nn_list \<Rightarrow> ptr" where
  "nn_list_end l = NULL"

definition nn_list_prev :: "list_heap \<Rightarrow> nn_list \<Rightarrow> ptr \<Rightarrow> ptr option" where
  "nn_list_prev h l it = (case it of NULL \<Rightarrow> Some (last_ptr l) | NN_LIST_NOTINLIST \<Rightarrow> None
     | Item a \<Rightarrow> do { nn_assert (prev_ptr (h a) \<noteq> NN_LIST_NOTINLIST); Some (prev_ptr (h a)) })"

definition nn_list_next :: "list_heap \<Rightarrow> ptr \<Rightarrow> ptr option" where
  "nn_list_next h it = (case it of NULL \<Rightarrow> None | NN_LIST_NOTINLIST \<Rightarrow> None
     | Item a \<Rightarrow> do { nn_assert (next_ptr (h a) \<noteq> NN_LIST_NOTINLIST); Some (next_ptr (h a)) })"

definition nn_list_item_isinlist :: "list_heap \<Rightarrow> nat \<Rightarrow> bool" where
  "nn_list_item_isinlist h a = (prev_ptr (h a) \<noteq> NN_LIST_NOTINLIST)"

definition nn_list_item_init :: "nat \<Rightarrow> list_heap \<Rightarrow> list_heap" where
  "nn_list_item_init a h = h(a := (h a)\<lparr>prev_ptr := NN_LIST_NOTINLIST, next_ptr := NN_LIST_NOTINLIST\<rparr>)"

definition nn_list_item_term :: "list_heap \<Rightarrow> nat \<Rightarrow> unit option" where
  "nn_list_item_term h a = nn_assert (\<not> nn_list_item_isinlist h a)"

definition nn_list_insert ::
  "list_heap \<Rightarrow> nn_list \<Rightarrow> nat \<Rightarrow> ptr \<Rightarrow> (list_heap \<times> nn_list) option" where
  "nn_list_insert h l item it = do {
     nn_assert (\<not> nn_list_item_isinlist h item);
     p \<leftarrow> (case it of NULL \<Rightarrow> Some (last_ptr l) | NN_LIST_NOTINLIST \<Rightarrow> None
           | Item i \<Rightarrow> Some (prev_ptr (h i)));
     let h = h(item := (h item)\<lparr>prev_ptr := p, next_ptr := it\<rparr>);
     h \<leftarrow> set_next p (Item item) h;
     h \<leftarrow> set_prev it (Item item) h;
     let l = (if first_ptr l = NULL \<or> first_ptr l = it then l\<lparr>first_ptr := Item item\<rparr> else l);
     let l = (if it = NULL then l\<lparr>last_ptr := Item item\<rparr> else l);
     Some (h, l) }"

definition nn_list_erase ::
  "list_heap \<Rightarrow> nn_list \<Rightarrow> nat \<Rightarrow> (list_heap \<times> nn_list \<times> ptr) option" where
  "nn_list_erase h l item = do {
     nn_assert (nn_list_item_isinlist h item);
     let p = prev_ptr (h item); let n = next_ptr (h item);
     h \<leftarrow> set_next p n h;
     let l = (if p = NULL then l\<lparr>first_ptr := n\<rparr> else l);
     h \<leftarrow> set_prev n p h;
     let l = (if n = NULL then l\<lparr>last_ptr := p\<rparr> else l);
     Some (h(item := (h item)\<lparr>prev_ptr := NN_LIST_NOTINLIST, next_ptr := NN_LIST_NOTINLIST\<rparr>), l, n) }"

lemmas nn_list_defs = nn_list_init_def nn_list_term_def nn_list_empty_def nn_list_begin_def
  nn_list_end_def nn_list_prev_def nn_list_next_def nn_list_item_isinlist_def nn_list_item_init_def
  nn_list_item_term_def set_next_def set_prev_def

section \<open>Sequences\<close>

fun ptr_of :: "nat option \<Rightarrow> ptr" where
  "ptr_of None = NULL"
| "ptr_of (Some a) = Item a"

definition begin_of :: "nat list \<Rightarrow> nat option" where
  "begin_of xs = (case xs of [] \<Rightarrow> None | x # _ \<Rightarrow> Some x)"

fun next_of :: "'a list \<Rightarrow> 'a \<Rightarrow> 'a option" where
  "next_of [] x = None"
| "next_of (y # ys) x = (if x = y then (case ys of [] \<Rightarrow> None | z # _ \<Rightarrow> Some z) else next_of ys x)"

fun ins_before :: "nat \<Rightarrow> nat option \<Rightarrow> nat list \<Rightarrow> nat list" where
  "ins_before x None ys = ys @ [x]"
| "ins_before x (Some a) [] = [x]"
| "ins_before x (Some a) (y # ys) = (if y = a then x # y # ys else y # ins_before x (Some a) ys)"

lemma next_of_split: "x \<notin> set ys \<Longrightarrow> next_of (ys @ x # zs) x = (case zs of [] \<Rightarrow> None | z # _ \<Rightarrow> Some z)"
  by (induction ys) auto

lemma next_of_in: "next_of xs x = Some y \<Longrightarrow> y \<in> set xs"
  by (induction xs) (auto split: if_splits list.splits)

lemma ins_before_split: "a \<notin> set ys \<Longrightarrow> ins_before x (Some a) (ys @ a # zs) = ys @ x # a # zs"
  by (induction ys) auto

lemma set_ins_before [simp]: "set (ins_before x it ys) = insert x (set ys)"
  by (induction x it ys rule: ins_before.induct) auto

lemma distinct_ins_before: "distinct ys \<Longrightarrow> x \<notin> set ys \<Longrightarrow> distinct (ins_before x it ys)"
  by (induction x it ys rule: ins_before.induct) auto

section \<open>Representation\<close>

definition head_ptr :: "nat list \<Rightarrow> ptr \<Rightarrow> ptr" where
  "head_ptr xs q = (case xs of [] \<Rightarrow> q | x # _ \<Rightarrow> Item x)"

definition tail_ptr :: "ptr \<Rightarrow> nat list \<Rightarrow> ptr" where
  "tail_ptr p xs = (if xs = [] then p else Item (last xs))"

fun dseg :: "list_heap \<Rightarrow> ptr \<Rightarrow> nat list \<Rightarrow> ptr \<Rightarrow> bool" where
  "dseg h p [] q = True"
| "dseg h p (x # xs) q = (prev_ptr (h x) = p \<and> next_ptr (h x) = head_ptr xs q \<and> dseg h (Item x) xs q)"

definition lrep :: "list_heap \<Rightarrow> nn_list \<Rightarrow> nat list \<Rightarrow> bool" where
  "lrep h l xs \<longleftrightarrow> distinct xs \<and> first_ptr l = head_ptr xs NULL \<and> last_ptr l = tail_ptr NULL xs
     \<and> dseg h NULL xs NULL"

lemma head_tail_simps [simp]:
  "head_ptr [] q = q" "head_ptr (x # xs) q = Item x" "tail_ptr p [] = p"
  "tail_ptr p (xs @ [x]) = Item x" "tail_ptr p [x] = Item x"
  "tail_ptr p (x # y # ys) = tail_ptr (Item x) (y # ys)"
  by (simp_all add: head_ptr_def tail_ptr_def)

lemma head_ptr_append: "head_ptr (xs @ ys) q = head_ptr xs (head_ptr ys q)"
  by (cases xs) auto

lemma tail_ptr_Cons: "tail_ptr p (x # xs) = tail_ptr (Item x) xs"
  by (cases xs) (auto simp: tail_ptr_def)

lemma tail_ptr_append: "tail_ptr p (xs @ ys) = tail_ptr (tail_ptr p xs) ys"
  by (auto simp: tail_ptr_def)

lemma dseg_append: "dseg h p (xs @ ys) q \<longleftrightarrow> dseg h p xs (head_ptr ys q) \<and> dseg h (tail_ptr p xs) ys q"
  by (induction xs arbitrary: p) (auto simp: head_ptr_append tail_ptr_Cons)

lemma dseg_cong: "(\<And>a. a \<in> set xs \<Longrightarrow> h' a = h a) \<Longrightarrow> dseg h' p xs q = dseg h p xs q"
  by (induction xs arbitrary: p) auto

lemma dseg_upd [simp]: "a \<notin> set xs \<Longrightarrow> dseg (h(a := v)) p xs q = dseg h p xs q"
  by (rule dseg_cong) auto

lemma dseg_set_next_last:
  "dseg h p (xs @ [a]) q \<Longrightarrow> a \<notin> set xs \<Longrightarrow> dseg (h(a := (h a)\<lparr>next_ptr := r\<rparr>)) p (xs @ [a]) r"
  by (auto simp: dseg_append)

lemma dseg_set_prev_hd:
  "dseg h p (a # xs) q \<Longrightarrow> a \<notin> set xs \<Longrightarrow> dseg (h(a := (h a)\<lparr>prev_ptr := r\<rparr>)) r (a # xs) q"
  by auto

lemma dseg_links:
  assumes "dseg h p xs q" and "a \<in> set xs" and "p \<noteq> NN_LIST_NOTINLIST" and "q \<noteq> NN_LIST_NOTINLIST"
  shows "prev_ptr (h a) \<noteq> NN_LIST_NOTINLIST \<and> next_ptr (h a) \<noteq> NN_LIST_NOTINLIST"
  using assms
proof (induction xs arbitrary: p)
  case (Cons x xs)
  then show ?case by (cases xs) auto
qed simp

lemma lrep_isinlist: "lrep h l xs \<Longrightarrow> a \<in> set xs \<Longrightarrow> nn_list_item_isinlist h a"
  by (auto simp: lrep_def nn_list_item_isinlist_def dest!: dseg_links)

lemma lrep_init: "lrep h nn_list_init []"
  by (simp add: lrep_def nn_list_init_def)

lemma lrep_frame: "(\<And>a. a \<in> set xs \<Longrightarrow> h' a = h a) \<Longrightarrow> lrep h' l xs = lrep h l xs"
  by (simp add: lrep_def dseg_cong [of xs h' h])

lemma head_ptr_eq [simp]:
  "(head_ptr xs NULL = NULL) = (xs = [])" "(tail_ptr NULL xs = NULL) = (xs = [])"
  "head_ptr xs NULL \<noteq> NN_LIST_NOTINLIST" "tail_ptr NULL xs \<noteq> NN_LIST_NOTINLIST"
  by (auto simp: head_ptr_def tail_ptr_def split: list.splits)


section \<open>Refinement of the operations\<close>

lemma nn_list_insert_end:
  assumes rep: "lrep h l xs" and new: "\<not> nn_list_item_isinlist h item"
  shows "\<exists>h' l'. nn_list_insert h l item NULL = Some (h', l') \<and> lrep h' l' (xs @ [item])
    \<and> (\<forall>a. a \<notin> set xs \<longrightarrow> a \<noteq> item \<longrightarrow> h' a = h a)"
proof -
  have notin: "item \<notin> set xs" using rep new lrep_isinlist by blast
  show ?thesis
  proof (cases xs rule: rev_cases)
    case Nil
    then show ?thesis using rep new
      by (simp add: nn_list_insert_def nn_list_defs lrep_def)
  next
    case (snoc ys y)
    have fst: "first_ptr l \<noteq> NULL" using rep snoc by (simp add: lrep_def)
    have seg: "dseg h NULL (ys @ [y]) NULL" "y \<notin> set ys" "y \<noteq> item" "item \<notin> set ys"
      using rep snoc notin by (auto simp: lrep_def)
    let ?h = "(h(item := (h item)\<lparr>prev_ptr := Item y, next_ptr := NULL\<rparr>))
       (y := (h y)\<lparr>next_ptr := Item item\<rparr>)"
    have "dseg ?h NULL (ys @ [y]) (Item item)"
      using dseg_set_next_last [of "h(item := (h item)\<lparr>prev_ptr := Item y, next_ptr := NULL\<rparr>)"
          NULL ys y NULL "Item item"] seg by simp
    moreover have "dseg ?h (Item y) [item] NULL" using seg by simp
    ultimately have "dseg ?h NULL ((ys @ [y]) @ [item]) NULL"
      by (subst dseg_append) simp
    then show ?thesis using rep new snoc seg fst
      by (auto simp: nn_list_insert_def nn_list_defs lrep_def head_ptr_append tail_ptr_append)
  qed
qed

lemma nn_list_insert_before:
  assumes rep: "lrep h l (ys @ a # zs)" and new: "\<not> nn_list_item_isinlist h item"
  shows "\<exists>h' l'. nn_list_insert h l item (Item a) = Some (h', l') \<and> lrep h' l' (ys @ item # a # zs)
    \<and> (\<forall>b. b \<notin> set (ys @ a # zs) \<longrightarrow> b \<noteq> item \<longrightarrow> h' b = h b)"
proof -
  have notin: "item \<notin> set (ys @ a # zs)" using rep new lrep_isinlist by blast
  have d: "distinct (ys @ a # zs)" using rep by (simp add: lrep_def)
  have seg: "dseg h NULL ys (Item a)" "dseg h (tail_ptr NULL ys) (a # zs) NULL"
    using rep by (auto simp: lrep_def dseg_append)
  have prev: "prev_ptr (h a) = tail_ptr NULL ys" using seg by simp
  show ?thesis
  proof (cases ys rule: rev_cases)
    case Nil
    then show ?thesis using rep new notin d seg
      by (auto simp: nn_list_insert_def nn_list_defs lrep_def tail_ptr_Cons)
  next
    case (snoc us u)
    let ?h0 = "h(item := (h item)\<lparr>prev_ptr := Item u, next_ptr := Item a\<rparr>)"
    let ?h1 = "?h0(u := (?h0 u)\<lparr>next_ptr := Item item\<rparr>)"
    let ?h2 = "?h1(a := (?h1 a)\<lparr>prev_ptr := Item item\<rparr>)"
    have ne: "u \<noteq> a" "u \<noteq> item" "a \<noteq> item" "u \<notin> set us" "a \<notin> set us" "a \<notin> set zs" "u \<notin> set zs"
      "item \<notin> set us" "item \<notin> set zs"
      using d notin snoc by auto
    have "dseg ?h0 NULL (us @ [u]) (Item a)" using seg(1) snoc ne by (subst dseg_upd) auto
    then have "dseg ?h1 NULL (us @ [u]) (Item item)" using ne by (intro dseg_set_next_last) auto
    then have left: "dseg ?h2 NULL (us @ [u]) (Item item)" using ne by (subst dseg_upd) auto
    have right: "dseg ?h2 (Item item) (a # zs) NULL" using seg(2) ne by simp
    have "dseg ?h2 NULL ((us @ [u]) @ item # a # zs) NULL"
      using left right ne by (subst dseg_append) simp
    moreover have "first_ptr l \<noteq> Item a" "first_ptr l \<noteq> NULL"
      using rep snoc d by (auto simp: lrep_def head_ptr_append split: if_splits) (cases us; simp)+
    ultimately show ?thesis using rep new snoc ne prev d notin
      by (auto simp: nn_list_insert_def nn_list_defs lrep_def head_ptr_append tail_ptr_append tail_ptr_Cons)
  qed
qed

lemma nn_list_erase_split:
  assumes rep: "lrep h l (ys @ a # zs)"
  shows "\<exists>h' l'. nn_list_erase h l a = Some (h', l', head_ptr zs NULL) \<and> lrep h' l' (ys @ zs)
    \<and> \<not> nn_list_item_isinlist h' a \<and> (\<forall>b. b \<notin> set (ys @ a # zs) \<longrightarrow> h' b = h b)"
proof -
  have isin: "nn_list_item_isinlist h a" using rep lrep_isinlist by fastforce
  have d: "distinct (ys @ a # zs)" using rep by (simp add: lrep_def)
  have seg: "dseg h NULL ys (Item a)" "dseg h (tail_ptr NULL ys) (a # zs) NULL"
    using rep by (auto simp: lrep_def dseg_append)
  have links: "prev_ptr (h a) = tail_ptr NULL ys" "next_ptr (h a) = head_ptr zs NULL"
    using seg by simp_all
  define h1 where "h1 = (if ys = [] then h else h(last ys := (h (last ys))\<lparr>next_ptr := head_ptr zs NULL\<rparr>))"
  have n1: "set_next (tail_ptr NULL ys) (head_ptr zs NULL) h = Some h1"
    by (simp add: h1_def set_next_def tail_ptr_def)
  have s1: "dseg h1 NULL ys (head_ptr zs NULL)" and s1': "dseg h1 (Item a) zs NULL"
    and u1: "\<forall>b. b \<notin> set ys \<longrightarrow> h1 b = h b"
  proof -
    show "dseg h1 NULL ys (head_ptr zs NULL)"
    proof (cases ys rule: rev_cases)
      case (snoc us u)
      then have "dseg (h(u := (h u)\<lparr>next_ptr := head_ptr zs NULL\<rparr>)) NULL (us @ [u]) (head_ptr zs NULL)"
        using seg(1) d by (intro dseg_set_next_last) auto
      then show ?thesis using snoc by (simp add: h1_def)
    qed simp
    show "\<forall>b. b \<notin> set ys \<longrightarrow> h1 b = h b" by (simp add: h1_def)
    then show "dseg h1 (Item a) zs NULL" using seg(2) d
      by (subst dseg_cong [where h = h]) auto
  qed
  define h2 where "h2 = (case zs of [] \<Rightarrow> h1 | z # _ \<Rightarrow> h1(z := (h1 z)\<lparr>prev_ptr := tail_ptr NULL ys\<rparr>))"
  have n2: "set_prev (head_ptr zs NULL) (tail_ptr NULL ys) h1 = Some h2"
    by (simp add: h2_def set_prev_def head_ptr_def split: list.split)
  have u2: "\<forall>b. b \<notin> set zs \<longrightarrow> h2 b = h1 b" by (auto simp: h2_def split: list.split)
  have s2: "dseg h2 NULL ys (head_ptr zs NULL)"
    using s1 u2 d by (subst dseg_cong [where h = h1]) auto
  have s2': "dseg h2 (tail_ptr NULL ys) zs NULL"
    using s1' d by (cases zs) (auto simp: h2_def)
  let ?h3 = "h2(a := (h2 a)\<lparr>prev_ptr := NN_LIST_NOTINLIST, next_ptr := NN_LIST_NOTINLIST\<rparr>)"
  have s3: "dseg ?h3 NULL (ys @ zs) NULL" using s2 s2' d by (simp add: dseg_append)
  let ?l = "let l = (if ys = [] then l\<lparr>first_ptr := head_ptr zs NULL\<rparr> else l)
     in if zs = [] then l\<lparr>last_ptr := tail_ptr NULL ys\<rparr> else l"
  have "nn_list_erase h l a = Some (?h3, ?l, head_ptr zs NULL)"
    using isin n1 n2 by (simp add: nn_list_erase_def links Let_def)
  moreover have "lrep ?h3 ?l (ys @ zs)"
    using s3 rep d by (cases ys; cases zs) (auto simp: lrep_def Let_def tail_ptr_append tail_ptr_Cons)
  moreover have "\<forall>b. b \<notin> set (ys @ a # zs) \<longrightarrow> ?h3 b = h b" using u1 u2 by simp
  ultimately show ?thesis by (auto simp: nn_list_item_isinlist_def)
qed

section \<open>The contract of the intrusive list\<close>

text \<open>
  Removing a given sequence of items one after the other, as the loops over
  \<open>nn_list_begin\<close>/\<open>nn_list_erase\<close> do.
\<close>

fun erase_all :: "('h \<Rightarrow> 'l \<Rightarrow> nat \<Rightarrow> ('h \<times> 'l \<times> 'p) option) \<Rightarrow> 'h \<Rightarrow> 'l \<Rightarrow> nat list \<Rightarrow> ('h \<times> 'l) option" where
  "erase_all er h l [] = Some (h, l)"
| "erase_all er h l (a # as) = do { (h, l, _) \<leftarrow> er h l a; erase_all er h l as }"

locale intrusive_list =
  fixes rep :: "'h \<Rightarrow> 'l \<Rightarrow> nat list \<Rightarrow> bool"
    and enc :: "nat option \<Rightarrow> 'p"
    and isin :: "'h \<Rightarrow> nat \<Rightarrow> bool"
    and first :: "'l \<Rightarrow> 'p"
    and next_it :: "'h \<Rightarrow> 'p \<Rightarrow> 'p option"
    and ins :: "'h \<Rightarrow> 'l \<Rightarrow> nat \<Rightarrow> 'p \<Rightarrow> ('h \<times> 'l) option"
    and er :: "'h \<Rightarrow> 'l \<Rightarrow> nat \<Rightarrow> ('h \<times> 'l \<times> 'p) option"
  assumes rep_distinct: "rep h l xs \<Longrightarrow> distinct xs"
    and rep_isin: "rep h l xs \<Longrightarrow> a \<in> set xs \<Longrightarrow> isin h a"
    and first_rep: "rep h l xs \<Longrightarrow> first l = enc (begin_of xs)"
    and next_rep: "rep h l xs \<Longrightarrow> a \<in> set xs \<Longrightarrow> next_it h (enc (Some a)) = Some (enc (next_of xs a))"
    and insert_rep: "rep h l xs \<Longrightarrow> \<not> isin h x \<Longrightarrow> set_option it \<subseteq> set xs \<Longrightarrow>
      \<exists>h' l'. ins h l x (enc it) = Some (h', l') \<and> rep h' l' (ins_before x it xs)
        \<and> (\<forall>k ys. rep h k ys \<longrightarrow> set ys \<inter> set xs = {} \<longrightarrow> rep h' k ys)
        \<and> (\<forall>b. b \<notin> set xs \<longrightarrow> b \<noteq> x \<longrightarrow> isin h' b = isin h b)"
    and erase_rep: "rep h l xs \<Longrightarrow> a \<in> set xs \<Longrightarrow>
      \<exists>h' l'. er h l a = Some (h', l', enc (next_of xs a)) \<and> rep h' l' (remove1 a xs) \<and> \<not> isin h' a
        \<and> (\<forall>k ys. rep h k ys \<longrightarrow> set ys \<inter> set xs = {} \<longrightarrow> rep h' k ys)
        \<and> (\<forall>b. b \<notin> set xs \<longrightarrow> isin h' b = isin h b)"
begin

text \<open>Moving an item from one list to the end of another, as \<open>nn_hash_rehash\<close> and
  \<open>nn_sock_rm_ep\<close> do.\<close>

lemma move_to_end:
  assumes src: "rep h l xs" and dst: "rep h k ys" and disj: "set xs \<inter> set ys = {}" and a: "a \<in> set xs"
  shows "\<exists>h1 l1 nxt h2 k2. er h l a = Some (h1, l1, nxt) \<and> ins h1 k a (enc None) = Some (h2, k2)
    \<and> rep h2 l1 (remove1 a xs) \<and> rep h2 k2 (ys @ [a])"
proof -
  from erase_rep [OF src a] obtain h1 l1 where
    er: "er h l a = Some (h1, l1, enc (next_of xs a))" and l1: "rep h1 l1 (remove1 a xs)"
    and out: "\<not> isin h1 a" and k: "rep h1 k ys"
    using dst disj by blast
  from insert_rep [OF k out, of None] obtain h2 k2 where
    ins: "ins h1 k a (enc None) = Some (h2, k2)" and k2: "rep h2 k2 (ys @ [a])"
    and keep: "\<forall>l zs. rep h1 l zs \<longrightarrow> set zs \<inter> set ys = {} \<longrightarrow> rep h2 l zs"
    by auto
  have "set (remove1 a xs) \<inter> set ys = {}" using disj set_remove1_subset [of a xs] by blast
  with keep l1 have "rep h2 l1 (remove1 a xs)" by blast
  with er ins k2 show ?thesis by blast
qed

text \<open>The loop that empties a list from the front never fails.\<close>

lemma erase_all_rep:
  "rep h l xs \<Longrightarrow> \<exists>h' l'. erase_all er h l xs = Some (h', l') \<and> rep h' l' []"
proof (induction xs arbitrary: h l)
  case (Cons a as)
  from erase_rep [OF Cons.prems, of a] obtain h1 l1 nxt where
    er: "er h l a = Some (h1, l1, nxt)" and l1: "rep h1 l1 as"
    by auto
  from Cons.IH [OF l1] er show ?case by simp
qed simp

end

lemma dseg_next:
  "dseg h p xs NULL \<Longrightarrow> distinct xs \<Longrightarrow> a \<in> set xs \<Longrightarrow> next_ptr (h a) = ptr_of (next_of xs a)"
proof (induction xs arbitrary: p)
  case (Cons x xs)
  then show ?case by (cases xs) auto
qed simp

interpretation nnl: intrusive_list lrep ptr_of nn_list_item_isinlist nn_list_begin nn_list_next
  nn_list_insert nn_list_erase
proof unfold_locales
  fix h l xs a assume rep: "lrep h l xs"
  show "distinct xs" using rep by (simp add: lrep_def)
  show "nn_list_begin l = ptr_of (begin_of xs)" using rep
    by (simp add: lrep_def nn_list_begin_def begin_of_def split: list.split)
  assume a: "a \<in> set xs"
  show "nn_list_item_isinlist h a" using rep a by (rule lrep_isinlist)
  show "nn_list_next h (ptr_of (Some a)) = Some (ptr_of (next_of xs a))"
    using rep a dseg_next [of h NULL xs a] dseg_links [of h NULL xs NULL a]
    by (simp add: nn_list_next_def lrep_def)
next
  fix h l xs x it
  assume rep: "lrep h l xs" and new: "\<not> nn_list_item_isinlist h x" and it: "set_option it \<subseteq> set xs"
  have "\<exists>h' l'. nn_list_insert h l x (ptr_of it) = Some (h', l') \<and> lrep h' l' (ins_before x it xs)
    \<and> (\<forall>b. b \<notin> set xs \<longrightarrow> b \<noteq> x \<longrightarrow> h' b = h b)"
  proof (cases it)
    case None
    then show ?thesis using nn_list_insert_end [OF rep new] by simp
  next
    case (Some a)
    then obtain ys zs where xs: "xs = ys @ a # zs" "a \<notin> set ys"
      using it by (auto dest: split_list_first)
    then show ?thesis using nn_list_insert_before [of h l ys a zs x] rep new Some
      by (simp add: ins_before_split)
  qed
  then obtain h' l' where ok: "nn_list_insert h l x (ptr_of it) = Some (h', l')"
    "lrep h' l' (ins_before x it xs)" and same: "\<forall>b. b \<notin> set xs \<longrightarrow> b \<noteq> x \<longrightarrow> h' b = h b"
    by blast
  moreover have "lrep h' k ys" if "lrep h k ys" "set ys \<inter> set xs = {}" for k ys
    using that same new lrep_isinlist [OF that(1)] by (subst lrep_frame [where h = h]) auto
  ultimately show "\<exists>h' l'. nn_list_insert h l x (ptr_of it) = Some (h', l') \<and> lrep h' l' (ins_before x it xs)
     \<and> (\<forall>k ys. lrep h k ys \<longrightarrow> set ys \<inter> set xs = {} \<longrightarrow> lrep h' k ys)
     \<and> (\<forall>b. b \<notin> set xs \<longrightarrow> b \<noteq> x \<longrightarrow> nn_list_item_isinlist h' b = nn_list_item_isinlist h b)"
    by (auto simp: nn_list_item_isinlist_def)
next
  fix h l xs a
  assume rep: "lrep h l xs" and a: "a \<in> set xs"
  then obtain ys zs where xs: "xs = ys @ a # zs" "a \<notin> set ys" by (auto dest: split_list_first)
  obtain h' l' where ok: "nn_list_erase h l a = Some (h', l', head_ptr zs NULL)" "lrep h' l' (ys @ zs)"
    "\<not> nn_list_item_isinlist h' a" and same: "\<forall>b. b \<notin> set xs \<longrightarrow> h' b = h b"
    using nn_list_erase_split [of h l ys a zs] rep xs by auto
  moreover have "lrep h' k us" if "lrep h k us" "set us \<inter> set xs = {}" for k us
    using that same by (subst lrep_frame [where h = h]) auto
  moreover have "head_ptr zs NULL = ptr_of (next_of xs a)" "remove1 a xs = ys @ zs"
    using xs by (simp_all add: next_of_split remove1_split head_ptr_def split: list.split)
  ultimately show "\<exists>h' l'. nn_list_erase h l a = Some (h', l', ptr_of (next_of xs a))
     \<and> lrep h' l' (remove1 a xs) \<and> \<not> nn_list_item_isinlist h' a
     \<and> (\<forall>k ys. lrep h k ys \<longrightarrow> set ys \<inter> set xs = {} \<longrightarrow> lrep h' k ys)
     \<and> (\<forall>b. b \<notin> set xs \<longrightarrow> nn_list_item_isinlist h' b = nn_list_item_isinlist h b)"
    by (auto simp: nn_list_item_isinlist_def)
qed

end
