(* ===== verification/Nn_Queue.thy ===== *)
theory Nn_Queue
  imports Prelude
begin

text \<open>
  The intrusive singly linked queue of \<open>src/utils/queue.c\<close> (the event queues of \<open>nn_ctx\<close> and
  \<open>nn_worker\<close> are of this type), on an explicit store like the list of \<open>Nn_List\<close>. The loop of
  \<open>nn_queue_remove\<close> follows \<open>next\<close> pointers and would not end on a cyclic store, so it is a
  \<open>partial_function\<close>; that it returns on every well-formed queue is part of its theorem.

  The locale \<open>fifo\<close> is the contract of a first-in first-out queue; it is interpreted here for
  \<open>nn_queue\<close> and in \<open>Msgqueue\<close> for the chunked message queue of the inproc transport.
\<close>

section \<open>First-in first-out queues\<close>

datatype 'a queue_op = Push 'a | Pop

fun run_ops :: "('s \<Rightarrow> 'a \<Rightarrow> 's option) \<Rightarrow> ('s \<Rightarrow> ('s \<times> 'a) option) \<Rightarrow> 's \<Rightarrow> 'a queue_op list
  \<Rightarrow> ('s \<times> 'a list) option" where
  "run_ops push pop s [] = Some (s, [])"
| "run_ops push pop s (Push x # ops) = do { s \<leftarrow> push s x; run_ops push pop s ops }"
| "run_ops push pop s (Pop # ops) = do { (s, x) \<leftarrow> pop s; (s, out) \<leftarrow> run_ops push pop s ops; Some (s, x # out) }"

fun pushed :: "'a queue_op list \<Rightarrow> 'a list" where
  "pushed [] = []"
| "pushed (Push x # ops) = x # pushed ops"
| "pushed (Pop # ops) = pushed ops"

locale fifo =
  fixes rep :: "'s \<Rightarrow> 'a list \<Rightarrow> bool"
    and push :: "'s \<Rightarrow> 'a \<Rightarrow> 's option"
    and pop :: "'s \<Rightarrow> ('s \<times> 'a) option"
    and is_empty :: "'s \<Rightarrow> bool"
  assumes push_rep: "rep s xs \<Longrightarrow> push s x = Some s' \<Longrightarrow> rep s' (xs @ [x])"
    and pop_Nil: "rep s [] \<Longrightarrow> pop s = None"
    and pop_Cons: "rep s (x # xs) \<Longrightarrow> \<exists>s'. pop s = Some (s', x) \<and> rep s' xs"
    and empty_rep: "rep s xs \<Longrightarrow> is_empty s = (xs = [])"
begin

lemma pop_rep:
  assumes "rep s xs" and "pop s = Some (s', x)"
  shows "\<exists>ys. xs = x # ys \<and> rep s' ys"
proof (cases xs)
  case Nil
  then show ?thesis using assms pop_Nil by auto
next
  case (Cons y ys)
  then show ?thesis using assms pop_Cons [of s y ys] by auto
qed

text \<open>Over any run the values taken out, followed by what is left, are what was there at the
  start followed by the values put in: nothing is lost, duplicated or reordered.\<close>

lemma run_ops_order:
  "rep s xs \<Longrightarrow> run_ops push pop s ops = Some (s', out) \<Longrightarrow>
    \<exists>ys. rep s' ys \<and> out @ ys = xs @ pushed ops"
proof (induction ops arbitrary: s xs out)
  case (Cons q ops)
  show ?case
  proof (cases q)
    case (Push x)
    with Cons.prems obtain s1 where "push s x = Some s1" "run_ops push pop s1 ops = Some (s', out)"
      by (auto simp: bind_Some_iff)
    with Cons.IH [of s1 "xs @ [x]" out] push_rep [OF Cons.prems(1)] Push show ?thesis by auto
  next
    case Pop
    with Cons.prems obtain s1 x out' where
      *: "pop s = Some (s1, x)" "run_ops push pop s1 ops = Some (s', out')" "out = x # out'"
      by (auto simp: bind_Some_iff)
    from pop_rep [OF Cons.prems(1) *(1)] obtain zs where "xs = x # zs" "rep s1 zs" by blast
    with Cons.IH [of s1 zs out'] * Pop show ?thesis by auto
  qed
qed auto

lemma push_pop_empty:
  assumes "rep s []" and "push s x = Some s'"
  shows "\<exists>s''. pop s' = Some (s'', x) \<and> rep s'' []"
  using push_rep [OF assms] pop_Cons by simp

end

section \<open>The store\<close>

datatype qptr = QNULL | NN_QUEUE_NOTINQUEUE | QItem nat

record nn_queue =
  q_head :: qptr
  q_tail :: qptr

type_synonym queue_heap = "nat \<Rightarrow> qptr"

section \<open>Operations\<close>

definition nn_queue_init :: nn_queue where
  "nn_queue_init = \<lparr>q_head = QNULL, q_tail = QNULL\<rparr>"

definition nn_queue_term :: "nn_queue \<Rightarrow> nn_queue" where
  "nn_queue_term q = q\<lparr>q_head := QNULL, q_tail := QNULL\<rparr>"

definition nn_queue_empty :: "nn_queue \<Rightarrow> bool" where
  "nn_queue_empty q = (q_head q = QNULL)"

definition set_qnext :: "qptr \<Rightarrow> qptr \<Rightarrow> queue_heap \<Rightarrow> queue_heap option" where
  "set_qnext p v h = (case p of QNULL \<Rightarrow> Some h | NN_QUEUE_NOTINQUEUE \<Rightarrow> None | QItem a \<Rightarrow> Some (h(a := v)))"

definition nn_queue_push :: "queue_heap \<Rightarrow> nn_queue \<Rightarrow> nat \<Rightarrow> (queue_heap \<times> nn_queue) option" where
  "nn_queue_push h q item = do {
     nn_assert (h item = NN_QUEUE_NOTINQUEUE);
     let h = h(item := QNULL);
     let q = (if q_head q = QNULL then q\<lparr>q_head := QItem item\<rparr> else q);
     h \<leftarrow> set_qnext (q_tail q) (QItem item) h;
     Some (h, q\<lparr>q_tail := QItem item\<rparr>) }"

definition nn_queue_pop :: "queue_heap \<Rightarrow> nn_queue \<Rightarrow> (queue_heap \<times> nn_queue \<times> nat option) option" where
  "nn_queue_pop h q = (case q_head q of
     QNULL \<Rightarrow> Some (h, q, None)
   | NN_QUEUE_NOTINQUEUE \<Rightarrow> None
   | QItem result \<Rightarrow>
       (let q = q\<lparr>q_head := h result\<rparr>;
            q = (if q_head q = QNULL then q\<lparr>q_tail := QNULL\<rparr> else q)
        in Some (h(result := NN_QUEUE_NOTINQUEUE), q, Some result)))"

text \<open>The \<open>for\<close> loop of \<open>nn_queue_remove\<close>, from iterator \<open>it\<close> with predecessor \<open>prev\<close>.\<close>

partial_function (option) remove_loop ::
  "queue_heap \<Rightarrow> nn_queue \<Rightarrow> nat \<Rightarrow> qptr \<Rightarrow> qptr \<Rightarrow> (queue_heap \<times> nn_queue) option" where
  "remove_loop h q item prev it = (case it of
     QNULL \<Rightarrow> Some (h, q)
   | NN_QUEUE_NOTINQUEUE \<Rightarrow> None
   | QItem a \<Rightarrow>
       (if a = item then
          (let q1 = (if q_head q = it then q\<lparr>q_head := h a\<rparr> else q);
               q2 = (if q_tail q1 = it then q1\<lparr>q_tail := prev\<rparr> else q1)
           in do { h1 \<leftarrow> set_qnext prev (h a) h; Some (h1(item := NN_QUEUE_NOTINQUEUE), q2) })
        else remove_loop h q item it (h a)))"

definition nn_queue_remove :: "queue_heap \<Rightarrow> nn_queue \<Rightarrow> nat \<Rightarrow> (queue_heap \<times> nn_queue) option" where
  "nn_queue_remove h q item =
     (if h item = NN_QUEUE_NOTINQUEUE then Some (h, q) else remove_loop h q item QNULL (q_head q))"

definition nn_queue_item_init :: "nat \<Rightarrow> queue_heap \<Rightarrow> queue_heap" where
  "nn_queue_item_init a h = h(a := NN_QUEUE_NOTINQUEUE)"

definition nn_queue_item_term :: "queue_heap \<Rightarrow> nat \<Rightarrow> unit option" where
  "nn_queue_item_term h a = nn_assert (h a = NN_QUEUE_NOTINQUEUE)"

definition nn_queue_item_isinqueue :: "queue_heap \<Rightarrow> nat \<Rightarrow> bool" where
  "nn_queue_item_isinqueue h a = (h a \<noteq> NN_QUEUE_NOTINQUEUE)"

section \<open>Representation\<close>

definition qhead_ptr :: "nat list \<Rightarrow> qptr \<Rightarrow> qptr" where
  "qhead_ptr xs r = (case xs of [] \<Rightarrow> r | x # _ \<Rightarrow> QItem x)"

fun qseg :: "queue_heap \<Rightarrow> nat list \<Rightarrow> qptr \<Rightarrow> bool" where
  "qseg h [] r = True"
| "qseg h (x # xs) r = (h x = qhead_ptr xs r \<and> qseg h xs r)"

definition qrep :: "queue_heap \<Rightarrow> nn_queue \<Rightarrow> nat list \<Rightarrow> bool" where
  "qrep h q xs \<longleftrightarrow> distinct xs \<and> q_head q = qhead_ptr xs QNULL
     \<and> q_tail q = (if xs = [] then QNULL else QItem (last xs)) \<and> qseg h xs QNULL"

lemma qhead_simps [simp]: "qhead_ptr [] r = r" "qhead_ptr (x # xs) r = QItem x"
  by (simp_all add: qhead_ptr_def)

lemma qhead_append: "qhead_ptr (xs @ ys) r = qhead_ptr xs (qhead_ptr ys r)"
  by (cases xs) auto

lemma qhead_eq [simp]: "(qhead_ptr xs QNULL = QNULL) = (xs = [])" "qhead_ptr xs QNULL \<noteq> NN_QUEUE_NOTINQUEUE"
  "(QNULL = qhead_ptr xs QNULL) = (xs = [])" "NN_QUEUE_NOTINQUEUE \<noteq> qhead_ptr xs QNULL"
  "qhead_ptr xs (QItem y) \<noteq> QNULL"
  by (cases xs; simp)+

lemma qseg_append: "qseg h (xs @ ys) r \<longleftrightarrow> qseg h xs (qhead_ptr ys r) \<and> qseg h ys r"
  by (induction xs) (auto simp: qhead_append)

lemma qseg_upd [simp]: "a \<notin> set xs \<Longrightarrow> qseg (h(a := v)) xs r = qseg h xs r"
  by (induction xs) auto

lemma qseg_in: "qseg h xs QNULL \<Longrightarrow> a \<in> set xs \<Longrightarrow> h a \<noteq> NN_QUEUE_NOTINQUEUE"
  by (induction xs) auto

lemma qrep_init: "qrep h nn_queue_init []"
  by (simp add: qrep_def nn_queue_init_def)

lemma nn_queue_push_rep:
  assumes "qrep h q xs" and "h x = NN_QUEUE_NOTINQUEUE"
  shows "\<exists>h' q'. nn_queue_push h q x = Some (h', q') \<and> qrep h' q' (xs @ [x])"
proof -
  have x: "x \<notin> set xs" using assms qseg_in by (auto simp: qrep_def)
  show ?thesis
  proof (cases xs rule: rev_cases)
    case Nil
    then show ?thesis using assms by (simp add: nn_queue_push_def set_qnext_def qrep_def)
  next
    case (snoc ys y)
    then show ?thesis using assms x
      by (auto simp: nn_queue_push_def set_qnext_def qrep_def qseg_append qhead_append)
  qed
qed

lemma nn_queue_pop_Cons:
  assumes "qrep h q (x # xs)"
  shows "\<exists>h' q'. nn_queue_pop h q = Some (h', q', Some x) \<and> qrep h' q' xs \<and> h' x = NN_QUEUE_NOTINQUEUE"
  using assms by (cases xs) (auto simp: nn_queue_pop_def qrep_def Let_def)

lemma nn_queue_pop_Nil: "qrep h q [] \<Longrightarrow> nn_queue_pop h q = Some (h, q, None)"
  by (simp add: nn_queue_pop_def qrep_def)

text \<open>The state of a queue is its store and its end pointers; popping is refused when it is empty.\<close>

definition queue_take :: "queue_heap \<times> nn_queue \<Rightarrow> ((queue_heap \<times> nn_queue) \<times> nat) option" where
  "queue_take s = do { (h, q, r) \<leftarrow> nn_queue_pop (fst s) (snd s);
     (case r of None \<Rightarrow> None | Some x \<Rightarrow> Some ((h, q), x)) }"

interpretation evq: fifo "\<lambda>s. qrep (fst s) (snd s)" "\<lambda>s. nn_queue_push (fst s) (snd s)" queue_take
  "\<lambda>s. nn_queue_empty (snd s)"
proof unfold_locales
  fix s xs x s'
  assume "qrep (fst s) (snd s) xs" "nn_queue_push (fst s) (snd s) x = Some s'"
  then show "qrep (fst s') (snd s') (xs @ [x])"
    using nn_queue_push_rep [of "fst s" "snd s" xs x]
    by (cases "fst s x = NN_QUEUE_NOTINQUEUE") (auto simp: nn_queue_push_def)
next
  fix s x xs assume "qrep (fst s) (snd s) (x # xs)"
  then show "\<exists>s'. queue_take s = Some (s', x) \<and> qrep (fst s') (snd s') xs"
    using nn_queue_pop_Cons [of "fst s" "snd s" x xs] by (auto simp: queue_take_def)
qed (auto simp: queue_take_def nn_queue_pop_Nil nn_queue_empty_def qrep_def)

section \<open>Removal from the middle\<close>

lemma remove_loop_rep:
  assumes "qrep h q (ys @ zs)" and "item \<in> set zs"
  shows "\<exists>h' q'. remove_loop h q item (if ys = [] then QNULL else QItem (last ys)) (qhead_ptr zs QNULL)
     = Some (h', q') \<and> qrep h' q' (ys @ remove1 item zs) \<and> h' item = NN_QUEUE_NOTINQUEUE"
  using assms
proof (induction zs arbitrary: ys)
  case (Cons z zs)
  show ?case
  proof (cases "z = item")
    case True
    have d: "item \<notin> set ys" "item \<notin> set zs" "distinct ys" "distinct zs" "set ys \<inter> set zs = {}"
      using Cons.prems True by (auto simp: qrep_def)
    show ?thesis
    proof (cases ys rule: rev_cases)
      case Nil
      then show ?thesis using Cons.prems True d
        by (subst remove_loop.simps) (auto simp: qrep_def set_qnext_def Let_def last_notin_iff)
    next
      case (snoc us u)
      have "q_head q \<noteq> QItem item" using Cons.prems True d snoc
        by (cases us) (auto simp: qrep_def)
      then show ?thesis using Cons.prems True d snoc
        by (subst remove_loop.simps)
          (auto simp: qrep_def set_qnext_def Let_def qseg_append qhead_append)
    qed
  next
    case False
    then have "item \<in> set zs" using Cons.prems by simp
    with Cons.IH [of "ys @ [z]"] Cons.prems False show ?thesis
      by (subst remove_loop.simps) (auto simp: qrep_def qseg_append)
  qed
qed simp

lemma nn_queue_remove_rep:
  assumes "qrep h q xs" and "item \<in> set xs"
  shows "\<exists>h' q'. nn_queue_remove h q item = Some (h', q') \<and> qrep h' q' (remove1 item xs)
     \<and> \<not> nn_queue_item_isinqueue h' item"
proof -
  have "h item \<noteq> NN_QUEUE_NOTINQUEUE" using assms qseg_in by (auto simp: qrep_def)
  moreover have "q_head q = qhead_ptr xs QNULL" using assms by (simp add: qrep_def)
  ultimately show ?thesis using remove_loop_rep [of h q "[]" xs item] assms
    by (auto simp: nn_queue_remove_def nn_queue_item_isinqueue_def)
qed

end
