(* ===== verification/Nn_Hash.thy ===== *)
theory Nn_Hash
  imports Prelude "HOL-Library.Multiset"
begin

text \<open>
  The hash table of \<open>src/utils/hash.c\<close>. A slot is the list of the items linked in it (the
  intrusive list operations are those of \<open>Nn_List\<close>, read through its representation relation);
  the store holds what the items embed: the key and whether the list item is linked.

  The locale \<open>key_map\<close> is what the raw REP and RESPONDENT sockets rely on when they route
  replies by the 32-bit key of a pipe.
\<close>

section \<open>Finite maps from keys to items\<close>

locale key_map =
  fixes inv :: "'s \<Rightarrow> bool"
    and room :: "'s \<Rightarrow> bool"
    and has :: "'s \<Rightarrow> nat \<Rightarrow> bool"
    and get :: "'s \<Rightarrow> u32 \<Rightarrow> nat option"
    and ins :: "'s \<Rightarrow> u32 \<Rightarrow> nat \<Rightarrow> 's option"
    and del :: "'s \<Rightarrow> nat \<Rightarrow> 's option"
  assumes ins_ok: "inv s \<Longrightarrow> room s \<Longrightarrow> get s k = None \<Longrightarrow> \<not> has s it \<Longrightarrow>
        \<exists>s'. ins s k it = Some s' \<and> inv s' \<and> get s' = (get s)(k \<mapsto> it) \<and> has s' = (has s)(it := True)"
    and ins_dup: "inv s \<Longrightarrow> get s k = Some it' \<Longrightarrow> ins s k it = None"
    and del_ok: "inv s \<Longrightarrow> get s k = Some it \<Longrightarrow>
        \<exists>s'. del s it = Some s' \<and> inv s' \<and> get s' = (get s)(k := None) \<and> has s' = (has s)(it := False)"
    and get_inj: "inv s \<Longrightarrow> get s k = Some it \<Longrightarrow> get s k' = Some it \<Longrightarrow> k = k'"
begin

lemma ins_then_del:
  assumes "inv s" and "room s" and "get s k = None" and "\<not> has s it"
  shows "\<exists>s1 s2. ins s k it = Some s1 \<and> del s1 it = Some s2 \<and> get s2 = get s \<and> has s2 = has s"
proof -
  from ins_ok [OF assms] obtain s1 where
    1: "ins s k it = Some s1" "inv s1" "get s1 = (get s)(k \<mapsto> it)" "has s1 = (has s)(it := True)" by blast
  then have "get s1 k = Some it" by simp
  from del_ok [OF 1(2) this] obtain s2 where
    "del s1 it = Some s2" "get s2 = (get s1)(k := None)" "has s2 = (has s1)(it := False)" by blast
  with 1 assms(3,4) show ?thesis by (auto simp: fun_eq_iff)
qed

lemma ins_Some_absent:
  assumes "inv s" and "ins s k it = Some s'"
  shows "get s k = None"
  using assms ins_dup [of s k _ it] by (cases "get s k") auto

end

section \<open>The table\<close>

record hash_item =
  hi_key :: u32
  hi_inlist :: bool

type_synonym hash_store = "nat \<Rightarrow> hash_item"

record nn_hash =
  h_slots :: u32
  h_items :: u32
  h_array :: "nat list list"

definition NN_HASH_INITIAL_SLOTS :: u32 where
  "NN_HASH_INITIAL_SLOTS = 32"

definition nn_hash_key :: "u32 \<Rightarrow> u32" where
  "nn_hash_key key =
    (let key = (key XOR 61) XOR (drop_bit 16 key);
         key = key + push_bit 3 key;
         key = key XOR drop_bit 4 key;
         key = key * 0x27d4eb2d
     in key XOR drop_bit 15 key)"

definition hash_slot :: "u32 \<Rightarrow> u32 \<Rightarrow> nat" where
  "hash_slot slots key = unat (nn_hash_key key mod slots)"

definition nn_hash_init :: nn_hash where
  "nn_hash_init = \<lparr>h_slots = NN_HASH_INITIAL_SLOTS, h_items = 0,
     h_array = replicate (unat NN_HASH_INITIAL_SLOTS) []\<rparr>"

text \<open>\<open>nn_list_term\<close> asserts that each slot is empty.\<close>

definition nn_hash_term :: "nn_hash \<Rightarrow> unit option" where
  "nn_hash_term self = nn_assert (list_all (\<lambda>l. l = []) (h_array self))"

text \<open>Appending an item to the list of a slot; the erase and insert of \<open>nn_list\<close> leave the item
  linked, so the store does not change over a rehash.\<close>

definition move_item :: "hash_store \<Rightarrow> u32 \<Rightarrow> nat \<Rightarrow> nat list list \<Rightarrow> nat list list" where
  "move_item st slots it arr =
     (let newslot = hash_slot slots (hi_key (st it)) in arr[newslot := arr ! newslot @ [it]])"

primrec move_slot :: "hash_store \<Rightarrow> u32 \<Rightarrow> nat list \<Rightarrow> nat list list \<Rightarrow> nat list list" where
  "move_slot st slots [] arr = arr"
| "move_slot st slots (it # its) arr = move_slot st slots its (move_item st slots it arr)"

primrec move_slots :: "hash_store \<Rightarrow> u32 \<Rightarrow> nat list list \<Rightarrow> nat list list \<Rightarrow> nat list list" where
  "move_slots st slots [] arr = arr"
| "move_slots st slots (l # old) arr = move_slots st slots old (move_slot st slots l arr)"

definition nn_hash_rehash :: "hash_store \<Rightarrow> nn_hash \<Rightarrow> nn_hash" where
  "nn_hash_rehash st self =
     (let slots = h_slots self * 2
      in self\<lparr>h_slots := slots,
              h_array := move_slots st slots (h_array self) (replicate (unat slots) [])\<rparr>)"

definition nn_hash_insert :: "hash_store \<Rightarrow> nn_hash \<Rightarrow> u32 \<Rightarrow> nat \<Rightarrow> (hash_store \<times> nn_hash) option" where
  "nn_hash_insert st self key item = do {
     let i = hash_slot (h_slots self) key;
     nn_assert (list_all (\<lambda>it. hi_key (st it) \<noteq> key) (h_array self ! i));
     let st = st(item := (st item)\<lparr>hi_key := key\<rparr>);
     nn_assert (\<not> hi_inlist (st item));
     let st = st(item := (st item)\<lparr>hi_inlist := True\<rparr>);
     let self = self\<lparr>h_array := (h_array self)[i := h_array self ! i @ [item]],
                     h_items := h_items self + 1\<rparr>;
     Some (st, if h_items self * 2 > h_slots self \<and> h_slots self < 0x80000000
               then nn_hash_rehash st self else self) }"

definition nn_hash_erase :: "hash_store \<Rightarrow> nn_hash \<Rightarrow> nat \<Rightarrow> (hash_store \<times> nn_hash) option" where
  "nn_hash_erase st self item = do {
     let slot = hash_slot (h_slots self) (hi_key (st item));
     nn_assert (hi_inlist (st item));
     Some (st(item := (st item)\<lparr>hi_inlist := False\<rparr>),
           self\<lparr>h_array := (h_array self)[slot := remove1 item (h_array self ! slot)],
                h_items := h_items self - 1\<rparr>) }"

definition nn_hash_get :: "hash_store \<Rightarrow> nn_hash \<Rightarrow> u32 \<Rightarrow> nat option" where
  "nn_hash_get st self key =
     find (\<lambda>it. hi_key (st it) = key) (h_array self ! hash_slot (h_slots self) key)"

definition nn_hash_item_init :: "hash_store \<Rightarrow> nat \<Rightarrow> hash_store" where
  "nn_hash_item_init st item = st(item := (st item)\<lparr>hi_inlist := False\<rparr>)"

definition nn_hash_item_term :: "hash_store \<Rightarrow> nat \<Rightarrow> unit option" where
  "nn_hash_item_term st item = nn_assert (\<not> hi_inlist (st item))"

section \<open>Well-formed tables\<close>

definition hash_members :: "nn_hash \<Rightarrow> nat list" where
  "hash_members h = concat (h_array h)"

definition slots_wf :: "hash_store \<Rightarrow> u32 \<Rightarrow> nat list list \<Rightarrow> bool" where
  "slots_wf st slots arr \<longleftrightarrow> length arr = unat slots \<and>
     (\<forall>i < length arr. \<forall>it \<in> set (arr ! i). hash_slot slots (hi_key (st it)) = i)"

definition hash_inv :: "hash_store \<Rightarrow> nn_hash \<Rightarrow> bool" where
  "hash_inv st h \<longleftrightarrow> 0 < h_slots h \<and> slots_wf st (h_slots h) (h_array h)
     \<and> distinct (hash_members h) \<and> inj_on (\<lambda>it. hi_key (st it)) (set (hash_members h))
     \<and> (\<forall>it. hi_inlist (st it) \<longleftrightarrow> it \<in> set (hash_members h))
     \<and> unat (h_items h) = length (hash_members h)"

lemma hash_slot_less: "0 < slots \<Longrightarrow> hash_slot slots key < unat slots"
  unfolding hash_slot_def by (metis unat_mono word_gt_0 word_mod_less_divisor)

lemma mset_concat_update:
  "i < length arr \<Longrightarrow> mset (concat (arr[i := arr ! i @ [it]])) = add_mset it (mset (concat arr))"
proof (induction arr arbitrary: i)
  case (Cons a arr) then show ?case by (cases i) auto
qed simp

lemma mset_concat_remove1:
  "i < length arr \<Longrightarrow> it \<in> set (arr ! i) \<Longrightarrow>
    mset (concat arr) = add_mset it (mset (concat (arr[i := remove1 it (arr ! i)])))"
proof (induction arr arbitrary: i)
  case (Cons a arr) then show ?case by (cases i) auto
qed simp

lemma mset_same_set_distinct:
  assumes "mset xs = mset ys"
  shows "set xs = set ys" "distinct xs = distinct ys" "length xs = length ys"
  using assms by (metis set_mset_mset, metis mset_eq_imp_distinct_iff, metis size_mset)

lemma slots_wf_update:
  assumes "slots_wf st slots arr" and "0 < slots" and "i = hash_slot slots (hi_key (st it))"
  shows "slots_wf st slots (arr[i := arr ! i @ [it]])"
proof -
  have i: "i < length arr" using assms hash_slot_less [of slots] by (simp add: slots_wf_def)
  show ?thesis using assms(1) unfolding slots_wf_def
    by (auto simp: nth_list_update [OF i] assms(3) [symmetric] split: if_splits)
qed

lemma move_item_wf:
  assumes "slots_wf st slots arr" and "0 < slots"
  shows "slots_wf st slots (move_item st slots it arr)"
    and "mset (concat (move_item st slots it arr)) = add_mset it (mset (concat arr))"
proof -
  let ?i = "hash_slot slots (hi_key (st it))"
  show "slots_wf st slots (move_item st slots it arr)"
    using slots_wf_update [OF assms refl] by (simp add: move_item_def Let_def)
  have "?i < length arr" using assms hash_slot_less [of slots] by (simp add: slots_wf_def)
  then show "mset (concat (move_item st slots it arr)) = add_mset it (mset (concat arr))"
    using mset_concat_update [of ?i arr it] by (simp add: move_item_def Let_def)
qed

lemma move_slot_wf:
  "slots_wf st slots arr \<Longrightarrow> 0 < slots \<Longrightarrow>
    slots_wf st slots (move_slot st slots l arr) \<and>
    mset (concat (move_slot st slots l arr)) = mset l + mset (concat arr)"
proof (induction l arbitrary: arr)
  case (Cons it l)
  from Cons.IH [OF move_item_wf(1) [OF Cons.prems] Cons.prems(2)] show ?case
    by (simp add: move_item_wf(2) [OF Cons.prems])
qed simp

lemma move_slots_wf:
  "slots_wf st slots arr \<Longrightarrow> 0 < slots \<Longrightarrow>
    slots_wf st slots (move_slots st slots old arr) \<and>
    mset (concat (move_slots st slots old arr)) = mset (concat old) + mset (concat arr)"
proof (induction old arbitrary: arr)
  case (Cons l old)
  from move_slot_wf [OF Cons.prems, of l] Cons.IH [of "move_slot st slots l arr"] Cons.prems(2)
  show ?case by simp
qed simp

lemma slots_wf_replicate: "slots_wf st slots (replicate (unat slots) [])"
  by (simp add: slots_wf_def)

lemma double_slots_pos: "0 < (slots :: u32) \<Longrightarrow> slots < 0x80000000 \<Longrightarrow> 0 < slots * 2"
  by (auto simp: word_less_nat_alt unat_word_ariths)

lemma rehash_inv:
  assumes "hash_inv st h" and "h_slots h < 0x80000000"
  shows "hash_inv st (nn_hash_rehash st h)"
    and "mset (hash_members (nn_hash_rehash st h)) = mset (hash_members h)"
proof -
  let ?n = "h_slots h * 2" and ?h = "nn_hash_rehash st h"
  have pos: "0 < ?n" using assms double_slots_pos by (simp add: hash_inv_def)
  have wf: "slots_wf st (h_slots ?h) (h_array ?h)" and ms: "mset (hash_members ?h) = mset (hash_members h)"
    using move_slots_wf [OF slots_wf_replicate pos, of st "h_array h"]
    by (auto simp: nn_hash_rehash_def Let_def hash_members_def concat_eq_Nil_conv)
  from mset_same_set_distinct [OF ms] wf pos assms(1)
  show "hash_inv st ?h" unfolding hash_inv_def
    by (auto simp: nn_hash_rehash_def Let_def)
  show "mset (hash_members ?h) = mset (hash_members h)" by (rule ms)
qed

section \<open>The table is a finite map\<close>

lemma hash_slot_members:
  assumes "hash_inv st h" and "it \<in> set (hash_members h)"
  shows "it \<in> set (h_array h ! hash_slot (h_slots h) (hi_key (st it)))"
proof -
  from assms(2) obtain i where "i < length (h_array h)" "it \<in> set (h_array h ! i)"
    by (auto simp: hash_members_def dest: in_set_nthD)
  with assms(1) show ?thesis by (auto simp: hash_inv_def slots_wf_def)
qed

lemma slot_subset_members:
  assumes "hash_inv st h"
  shows "set (h_array h ! hash_slot (h_slots h) key) \<subseteq> set (hash_members h)"
proof -
  have "hash_slot (h_slots h) key < length (h_array h)"
    using assms hash_slot_less by (simp add: hash_inv_def slots_wf_def)
  then have "h_array h ! hash_slot (h_slots h) key \<in> set (h_array h)" by (rule nth_mem)
  then show ?thesis by (auto simp: hash_members_def)
qed

lemma nn_hash_get_iff:
  assumes inv: "hash_inv st h"
  shows "nn_hash_get st h key = Some it \<longleftrightarrow> it \<in> set (hash_members h) \<and> hi_key (st it) = key"
proof
  assume "nn_hash_get st h key = Some it"
  then show "it \<in> set (hash_members h) \<and> hi_key (st it) = key"
    using slot_subset_members [OF inv, of key]
    by (auto simp: nn_hash_get_def dest!: find_SomeD)
next
  assume it: "it \<in> set (hash_members h) \<and> hi_key (st it) = key"
  then have "it \<in> set (h_array h ! hash_slot (h_slots h) key)" using hash_slot_members [OF inv] by blast
  then have "nn_hash_get st h key \<noteq> None" using it by (auto simp: nn_hash_get_def find_None_iff)
  then obtain it' where g: "nn_hash_get st h key = Some it'" by blast
  then have "it' \<in> set (hash_members h)" "hi_key (st it') = key"
    using slot_subset_members [OF inv, of key]
    by (auto simp: nn_hash_get_def dest!: find_SomeD)
  with it have "it' = it" using inv by (auto simp: hash_inv_def inj_on_def)
  with g show "nn_hash_get st h key = Some it" by simp
qed

lemma nn_hash_get_None:
  assumes "hash_inv st h"
  shows "nn_hash_get st h key = None \<longleftrightarrow> (\<forall>it \<in> set (hash_members h). hi_key (st it) \<noteq> key)"
  using nn_hash_get_iff [OF assms, of key] by (cases "nn_hash_get st h key") auto

lemma hash_get_eqI:
  assumes "hash_inv st h" and "\<And>it. m k = Some it \<longleftrightarrow> it \<in> set (hash_members h) \<and> hi_key (st it) = k"
  shows "nn_hash_get st h k = m k"
  by (rule iffD2 [OF option_eq_iff_Some]) (simp add: assms(2) nn_hash_get_iff [OF assms(1)])

lemma mset_add_facts:
  assumes "mset xs = add_mset a (mset ys)"
  shows "set xs = insert a (set ys)" "length xs = Suc (length ys)" "distinct xs \<longleftrightarrow> a \<notin> set ys \<and> distinct ys"
proof -
  have m: "mset xs = mset (a # ys)" using assms by simp
  show "set xs = insert a (set ys)" using mset_same_set_distinct(1) [OF m] by simp
  show "length xs = Suc (length ys)" using mset_same_set_distinct(3) [OF m] by simp
  show "distinct xs \<longleftrightarrow> a \<notin> set ys \<and> distinct ys" using mset_same_set_distinct(2) [OF m] by simp
qed

definition hash_room :: "nn_hash \<Rightarrow> bool" where
  "hash_room h \<longleftrightarrow> length (hash_members h) < 2 ^ 32 - 1"

lemma hash_link_inv:
  assumes inv: "hash_inv st h" and fresh: "item \<notin> set (hash_members h)"
    and absent: "nn_hash_get st h key = None" and room: "hash_room h"
  defines "i \<equiv> hash_slot (h_slots h) key"
  defines "st' \<equiv> st(item := \<lparr>hi_key = key, hi_inlist = True\<rparr>)"
  defines "h' \<equiv> h\<lparr>h_array := (h_array h)[i := h_array h ! i @ [item]], h_items := h_items h + 1\<rparr>"
  shows "hash_inv st' h'" and "set (hash_members h') = insert item (set (hash_members h))"
proof -
  have pos: "0 < h_slots h" and wf: "slots_wf st (h_slots h) (h_array h)" using inv by (auto simp: hash_inv_def)
  have i: "i < length (h_array h)" using pos wf hash_slot_less by (simp add: i_def slots_wf_def)
  have ms: "mset (hash_members h') = add_mset item (mset (hash_members h))"
    using mset_concat_update [OF i] by (simp add: h'_def hash_members_def)
  note mf = mset_add_facts [OF ms]
  show "set (hash_members h') = insert item (set (hash_members h))" by (rule mf(1))
  have wf_st': "slots_wf st' (h_slots h) (h_array h)"
    using wf fresh by (auto simp: slots_wf_def st'_def hash_members_def)
  have "slots_wf st' (h_slots h) (h_array h')"
    using slots_wf_update [OF wf_st' pos, of i item] by (simp add: h'_def i_def st'_def)
  moreover have "inj_on (\<lambda>it. hi_key (st' it)) (set (hash_members h'))"
    using inv absent fresh nn_hash_get_None [OF inv, of key]
    by (auto simp: mf(1) st'_def hash_inv_def inj_on_def)
  moreover have "unat (h_items h + 1) = Suc (length (hash_members h))"
    using inv room by (auto simp: hash_inv_def hash_room_def unat_word_ariths)
  ultimately show "hash_inv st' h'"
    using inv fresh mf by (auto simp: hash_inv_def h'_def st'_def)
qed

lemma hash_grow:
  assumes "hash_inv st h"
  defines "h' \<equiv> (if h_items h * 2 > h_slots h \<and> h_slots h < 0x80000000 then nn_hash_rehash st h else h)"
  shows "hash_inv st h'" and "set (hash_members h') = set (hash_members h)"
  using assms rehash_inv [of st h] mset_same_set_distinct(1) by auto

lemma nn_hash_insert_ok:
  assumes inv: "hash_inv st h" and room: "hash_room h" and absent: "nn_hash_get st h key = None"
    and fresh: "\<not> hi_inlist (st item)"
  shows "\<exists>st' h'. nn_hash_insert st h key item = Some (st', h') \<and> hash_inv st' h'
     \<and> nn_hash_get st' h' = (nn_hash_get st h)(key \<mapsto> item)
     \<and> (\<forall>it. hi_inlist (st' it) \<longleftrightarrow> hi_inlist (st it) \<or> it = item)
     \<and> (\<forall>it. it \<noteq> item \<longrightarrow> st' it = st it)"
proof -
  let ?i = "hash_slot (h_slots h) key"
  let ?st = "st(item := \<lparr>hi_key = key, hi_inlist = True\<rparr>)"
  let ?h = "h\<lparr>h_array := (h_array h)[?i := h_array h ! ?i @ [item]], h_items := h_items h + 1\<rparr>"
  let ?g = "if h_items ?h * 2 > h_slots ?h \<and> h_slots ?h < 0x80000000 then nn_hash_rehash ?st ?h else ?h"
  have nm: "item \<notin> set (hash_members h)" using inv fresh by (auto simp: hash_inv_def)
  note link = hash_link_inv [OF inv nm absent room]
  obtain g where g: "g = ?g" by blast
  have ginv: "hash_inv ?st g" and gmem: "set (hash_members g) = insert item (set (hash_members h))"
    using hash_grow [OF link(1)] link(2) unfolding g by auto
  have chk: "list_all (\<lambda>it. hi_key (st it) \<noteq> key) (h_array h ! ?i)"
    using absent slot_subset_members [OF inv, of key] nn_hash_get_None [OF inv]
    by (auto simp: list_all_iff)
  have res: "nn_hash_insert st h key item = Some (?st, g)"
    using chk fresh unfolding g by (cases "st item") (simp add: nn_hash_insert_def Let_def)
  have get: "nn_hash_get ?st g = (nn_hash_get st h)(key \<mapsto> item)"
  proof
    fix k show "nn_hash_get ?st g k = ((nn_hash_get st h)(key \<mapsto> item)) k"
      using nm absent nn_hash_get_iff [OF inv] nn_hash_get_None [OF inv, of key]
      by (intro hash_get_eqI [OF ginv]) (auto simp: gmem)
  qed
  show ?thesis using res ginv get by auto
qed

lemma nn_hash_insert_dup:
  assumes "hash_inv st h" and "nn_hash_get st h key = Some it"
  shows "nn_hash_insert st h key item = None"
proof -
  have "it \<in> set (h_array h ! hash_slot (h_slots h) key)" "hi_key (st it) = key"
    using assms(2) by (auto simp: nn_hash_get_def dest!: find_SomeD)
  then have "\<not> list_all (\<lambda>it. hi_key (st it) \<noteq> key) (h_array h ! hash_slot (h_slots h) key)"
    by (auto simp: list_all_iff)
  then show ?thesis by (simp add: nn_hash_insert_def Let_def nn_assert_def)
qed

lemma nn_hash_erase_ok:
  assumes inv: "hash_inv st h" and it: "nn_hash_get st h key = Some item"
  shows "\<exists>st' h'. nn_hash_erase st h item = Some (st', h') \<and> hash_inv st' h'
     \<and> nn_hash_get st' h' = (nn_hash_get st h)(key := None)
     \<and> (\<forall>j. hi_inlist (st' j) \<longleftrightarrow> hi_inlist (st j) \<and> j \<noteq> item)
     \<and> (\<forall>j. j \<noteq> item \<longrightarrow> st' j = st j)"
proof -
  let ?i = "hash_slot (h_slots h) key"
  let ?st = "st(item := (st item)\<lparr>hi_inlist := False\<rparr>)"
  let ?h = "h\<lparr>h_array := (h_array h)[?i := remove1 item (h_array h ! ?i)], h_items := h_items h - 1\<rparr>"
  have mem: "item \<in> set (hash_members h)" and key: "hi_key (st item) = key"
    using nn_hash_get_iff [OF inv] it by auto
  have i: "?i < length (h_array h)" using inv hash_slot_less by (simp add: hash_inv_def slots_wf_def)
  have slot: "item \<in> set (h_array h ! ?i)" using hash_slot_members [OF inv mem] key by simp
  have ms: "mset (hash_members h) = add_mset item (mset (hash_members ?h))"
    using mset_concat_remove1 [OF i slot] by (simp add: hash_members_def)
  note mf = mset_add_facts [OF ms]
  have d: "item \<notin> set (hash_members ?h)" "distinct (hash_members ?h)" using inv mf(3) by (auto simp: hash_inv_def)
  have "slots_wf ?st (h_slots h) (h_array ?h)"
    using inv key by (auto simp: hash_inv_def slots_wf_def nth_list_update [OF i] dest: notin_set_remove1 split: if_splits)
  moreover have "inj_on (\<lambda>it. hi_key (?st it)) (set (hash_members ?h))"
  proof (rule inj_onI)
    fix x y assume "x \<in> set (hash_members ?h)" "y \<in> set (hash_members ?h)" "hi_key (?st x) = hi_key (?st y)"
    moreover have "inj_on (\<lambda>it. hi_key (st it)) (set (hash_members h))" using inv by (simp add: hash_inv_def)
    ultimately show "x = y" using d(1) equalityD2 [OF mf(1)] by (auto dest!: inj_onD split: if_splits)
  qed
  moreover have "unat (h_items h - 1) = length (hash_members ?h)"
  proof -
    have u: "unat (h_items h) = Suc (length (hash_members ?h))" using inv mf(2) unfolding hash_inv_def by argo
    then have "h_items h \<noteq> 0" by (metis unat_0 Zero_not_Suc)
    then show ?thesis using unat_minus_one [of "h_items h"] u by linarith
  qed
  ultimately have inv': "hash_inv ?st ?h"
    using inv d mf(1) by (simp add: hash_inv_def)
  have get: "nn_hash_get ?st ?h = (nn_hash_get st h)(key := None)"
  proof
    fix k show "nn_hash_get ?st ?h k = ((nn_hash_get st h)(key := None)) k"
    proof (rule hash_get_eqI [OF inv'])
      fix j
      have "j \<in> set (hash_members h) \<Longrightarrow> hi_key (st j) = key \<Longrightarrow> j = item"
        using inv mem key by (auto simp: hash_inv_def inj_on_def)
      then show "((nn_hash_get st h)(key := None)) k = Some j \<longleftrightarrow>
          j \<in> set (hash_members ?h) \<and> hi_key (?st j) = k"
        using mf(1) d(1) key nn_hash_get_iff [OF inv] by auto
    qed
  qed
  have "hi_inlist (st item)" using inv mem by (simp add: hash_inv_def)
  then have "nn_hash_erase st h item = Some (?st, ?h)" using key by (simp add: nn_hash_erase_def Let_def)
  then show ?thesis using inv' get by auto
qed

interpretation nnh: key_map "\<lambda>s. hash_inv (fst s) (snd s)" "\<lambda>s. hash_room (snd s)"
  "\<lambda>s it. hi_inlist (fst s it)" "\<lambda>s. nn_hash_get (fst s) (snd s)"
  "\<lambda>s. nn_hash_insert (fst s) (snd s)" "\<lambda>s. nn_hash_erase (fst s) (snd s)"
proof unfold_locales
  fix s :: "hash_store \<times> nn_hash" and k it it' k'
  assume inv: "hash_inv (fst s) (snd s)"
  show "nn_hash_get (fst s) (snd s) k = Some it \<Longrightarrow> nn_hash_get (fst s) (snd s) k' = Some it \<Longrightarrow> k = k'"
    using nn_hash_get_iff [OF inv] by auto
  show "nn_hash_get (fst s) (snd s) k = Some it' \<Longrightarrow> nn_hash_insert (fst s) (snd s) k it = None"
    by (rule nn_hash_insert_dup [OF inv])
  show "\<exists>s'. nn_hash_insert (fst s) (snd s) k it = Some s' \<and> hash_inv (fst s') (snd s')
      \<and> nn_hash_get (fst s') (snd s') = (nn_hash_get (fst s) (snd s))(k \<mapsto> it)
      \<and> (\<lambda>j. hi_inlist (fst s' j)) = (\<lambda>j. hi_inlist (fst s j))(it := True)"
    if "hash_room (snd s)" "nn_hash_get (fst s) (snd s) k = None" "\<not> hi_inlist (fst s it)"
    using nn_hash_insert_ok [OF inv that] by (force simp: fun_eq_iff)
  show "\<exists>s'. nn_hash_erase (fst s) (snd s) it = Some s' \<and> hash_inv (fst s') (snd s')
      \<and> nn_hash_get (fst s') (snd s') = (nn_hash_get (fst s) (snd s))(k := None)
      \<and> (\<lambda>j. hi_inlist (fst s' j)) = (\<lambda>j. hi_inlist (fst s j))(it := False)"
    if "nn_hash_get (fst s) (snd s) k = Some it"
    using nn_hash_erase_ok [OF inv that] by (force simp: fun_eq_iff)
qed

lemma hash_inv_init:
  assumes "\<And>it. \<not> hi_inlist (st it)"
  shows "hash_inv st nn_hash_init"
  using assms by (simp add: hash_inv_def nn_hash_init_def NN_HASH_INITIAL_SLOTS_def hash_members_def slots_wf_def)

text \<open>The table is empty again, and may be terminated, when every item has been erased.\<close>

lemma nn_hash_term_iff: "nn_hash_term h = Some () \<longleftrightarrow> hash_members h = []"
  by (simp add: nn_hash_term_def hash_members_def list_all_iff)

end
