(* ===== verification/Nn_Chunk.thy ===== *)
theory Nn_Chunk
  imports Wire "HOL-Library.Multiset"
begin

text \<open>
  Reference-counted message chunks (\<open>src/utils/chunk.c\<close>), chunk references
  (\<open>src/utils/chunkref.c\<close>) and messages (\<open>src/utils/msg.c\<close>) on an explicit heap. A chunk is the
  header fields and the bytes that follow the header: the 32-bit length of the empty space, the
  32-bit tag and the data, as the source lays them out; a pointer into a chunk is its block and
  the offset into those bytes, so that \<open>nn_chunk_getptr\<close> and \<open>nn_chunk_trim\<close> read and write the
  hidden prefix through \<open>nn_getl\<close> and \<open>nn_putl\<close>.

  \<open>malloc\<close> is a parameter: given a size it returns memory of that size with unspecified content,
  or null. The invariant \<open>heap_inv\<close> ties the reference counts to the multiset of live
  references; the last section abstracts messages to their values, the view the protocols have.
\<close>

section \<open>Chunks\<close>

definition NN_CHUNK_TAG :: u32 where "NN_CHUNK_TAG = 0xdeadcafe"
definition NN_CHUNK_TAG_DEALLOCATED :: u32 where "NN_CHUNK_TAG_DEALLOCATED = 0xbeadfeed"

record nn_chunk =
  c_refcount :: u32
  c_size :: u64
  c_mem :: bytes

type_synonym chunk_ptr = "nat \<times> nat"

record chunk_heap =
  chunks :: "nat \<Rightarrow> nn_chunk option"
  next_block :: nat

type_synonym malloc = "u64 \<Rightarrow> bytes option"

text \<open>\<open>sizeof (struct nn_chunk)\<close> on an LP64 platform.\<close>

definition sizeof_nn_chunk :: u64 where "sizeof_nn_chunk = 24"

definition nn_chunk_hdrsize :: u64 where
  "nn_chunk_hdrsize = sizeof_nn_chunk + 2 * 4"

definition mem_getl :: "bytes \<Rightarrow> nat \<Rightarrow> u32 option" where
  "mem_getl mem k = nn_getl (drop k mem)"

definition mem_putl :: "bytes \<Rightarrow> nat \<Rightarrow> u32 \<Rightarrow> bytes option" where
  "mem_putl mem k v = do { b \<leftarrow> nn_putl (drop k mem) v; Some (take k mem @ b) }"

text \<open>The bytes behind the \<open>struct nn_chunk\<close> start at offset 0, so the structure is found when the
  two prefix words and the empty space lead back there.\<close>

definition nn_chunk_getptr :: "chunk_heap \<Rightarrow> chunk_ptr \<Rightarrow> nn_chunk option" where
  "nn_chunk_getptr H p = do {
     ch \<leftarrow> chunks H (fst p);
     nn_assert (8 \<le> snd p);
     tag \<leftarrow> mem_getl (c_mem ch) (snd p - 4);
     nn_assert (tag = NN_CHUNK_TAG);
     off \<leftarrow> mem_getl (c_mem ch) (snd p - 8);
     nn_assert (snd p = 8 + unat off);
     Some ch }"

definition nn_chunk_getdata :: "nat \<Rightarrow> chunk_ptr" where
  "nn_chunk_getdata block = (block, 8)"

definition set_chunk :: "chunk_heap \<Rightarrow> nat \<Rightarrow> nn_chunk \<Rightarrow> chunk_heap" where
  "set_chunk H c ch = H\<lparr>chunks := (chunks H)(c \<mapsto> ch)\<rparr>"

definition nn_chunk_alloc :: "malloc \<Rightarrow> chunk_heap \<Rightarrow> u64 \<Rightarrow> int \<Rightarrow> (chunk_heap \<times> (errno + chunk_ptr)) option" where
  "nn_chunk_alloc malloc H csize type =
    (let sz = nn_chunk_hdrsize + csize in
     if sz < nn_chunk_hdrsize then Some (H, Inl ENOMEM)
     else if type \<noteq> 0 then Some (H, Inl EINVAL)
     else (case malloc sz of
         None \<Rightarrow> Some (H, Inl ENOMEM)
       | Some block \<Rightarrow> do {
           mem \<leftarrow> mem_putl (drop (unat sizeof_nn_chunk) block) 0 0;
           mem \<leftarrow> mem_putl mem 4 NN_CHUNK_TAG;
           let self = next_block H;
           Some (H\<lparr>chunks := (chunks H)(self \<mapsto> \<lparr>c_refcount = 1, c_size = csize, c_mem = mem\<rparr>),
                   next_block := self + 1\<rparr>,
                 Inr (nn_chunk_getdata self)) }))"

definition nn_chunk_free :: "chunk_heap \<Rightarrow> chunk_ptr \<Rightarrow> chunk_heap option" where
  "nn_chunk_free H p = do {
     self \<leftarrow> nn_chunk_getptr H p;
     let old = c_refcount self;
     let self = self\<lparr>c_refcount := old - 1\<rparr>;
     if old \<le> 1 then do {
       _ \<leftarrow> mem_putl (c_mem self) (snd p - 4) NN_CHUNK_TAG_DEALLOCATED;
       Some (H\<lparr>chunks := (chunks H)(fst p := None)\<rparr>) }
     else Some (set_chunk H (fst p) self) }"

definition nn_chunk_addref :: "chunk_heap \<Rightarrow> chunk_ptr \<Rightarrow> u32 \<Rightarrow> chunk_heap option" where
  "nn_chunk_addref H p n = do {
     self \<leftarrow> nn_chunk_getptr H p;
     Some (set_chunk H (fst p) (self\<lparr>c_refcount := c_refcount self + n\<rparr>)) }"

definition nn_chunk_size :: "chunk_heap \<Rightarrow> chunk_ptr \<Rightarrow> u64 option" where
  "nn_chunk_size H p = do { self \<leftarrow> nn_chunk_getptr H p; Some (c_size self) }"

definition nn_chunk_trim :: "chunk_heap \<Rightarrow> chunk_ptr \<Rightarrow> u64 \<Rightarrow> (chunk_heap \<times> chunk_ptr) option" where
  "nn_chunk_trim H p n = do {
     self \<leftarrow> nn_chunk_getptr H p;
     nn_assert (n \<le> c_size self);
     let p = (fst p, snd p + unat n);
     mem \<leftarrow> mem_putl (c_mem self) (snd p - 4) NN_CHUNK_TAG;
     let empty_space = snd p - 8;
     nn_assert (empty_space < 2 ^ 32 - 1);
     mem \<leftarrow> mem_putl mem (snd p - 8) (of_nat empty_space);
     Some (set_chunk H (fst p) (self\<lparr>c_mem := mem, c_size := c_size self - n\<rparr>), p) }"

text \<open>Bytes copied to a destination: out of its bounds is undefined behaviour.\<close>

definition mem_write :: "bytes \<Rightarrow> nat \<Rightarrow> bytes \<Rightarrow> bytes option" where
  "mem_write mem k bs = (if k + length bs \<le> length mem
     then Some (take k mem @ bs @ drop (k + length bs) mem) else None)"

text \<open>\<open>nn_realloc\<close> keeps the leading bytes of the block that fit in the new one; the rest of the
  new block is unspecified and taken from the fresh memory. \<open>nn_chunk_realloc\<close> keeps the size
  of the prefix it returns a pointer behind at zero only when the chunk was never trimmed.\<close>

definition nn_chunk_realloc :: "malloc \<Rightarrow> chunk_heap \<Rightarrow> u64 \<Rightarrow> chunk_ptr \<Rightarrow> (chunk_heap \<times> (errno + chunk_ptr)) option" where
  "nn_chunk_realloc malloc H csize p = do {
     self \<leftarrow> nn_chunk_getptr H p;
     if c_refcount self = 1 then
       (let new_size = nn_chunk_hdrsize + csize in
        if new_size < nn_chunk_hdrsize then Some (H, Inl ENOMEM)
        else (case malloc new_size of
            None \<Rightarrow> Some (H, Inl ENOMEM)
          | Some block \<Rightarrow>
              (let area = drop (unat sizeof_nn_chunk) block;
                   keep = min (length area) (length (c_mem self));
                   mem = take keep (c_mem self) @ drop keep area
               in Some (set_chunk H (fst p) (self\<lparr>c_size := csize, c_mem := mem\<rparr>),
                        Inr (nn_chunk_getdata (fst p))))))
     else do {
       (H1, r) \<leftarrow> nn_chunk_alloc malloc H csize 0;
       (case r of
          Inl e \<Rightarrow> Some (H1, Inl e)
        | Inr new_ptr \<Rightarrow> do {
            new \<leftarrow> chunks H1 (fst new_ptr);
            let src = take (unat (c_size self)) (drop 8 (c_mem self));
            mem \<leftarrow> mem_write (c_mem new) (snd new_ptr) src;
            let H2 = set_chunk H1 (fst new_ptr) (new\<lparr>c_mem := mem\<rparr>);
            Some (set_chunk H2 (fst p) (self\<lparr>c_refcount := c_refcount self - 1\<rparr>), Inr new_ptr) }) } }"

section \<open>Chunk references\<close>

definition NN_CHUNKREF_MAX :: u64 where "NN_CHUNKREF_MAX = 32"

text \<open>The first byte of the union is the length of an embedded small message, or \<open>0xff\<close> for a
  reference to a chunk.\<close>

datatype nn_chunkref = Vsm u8 bytes | Ref chunk_ptr

definition nn_chunkref_init :: "malloc \<Rightarrow> chunk_heap \<Rightarrow> bytes \<Rightarrow> u64 \<Rightarrow> (chunk_heap \<times> nn_chunkref) option" where
  "nn_chunkref_init malloc H raw csize =
     (if csize < NN_CHUNKREF_MAX then Some (H, Vsm (ucast csize) raw)
      else do {
        (H, r) \<leftarrow> nn_chunk_alloc malloc H csize 0;
        (case r of Inl _ \<Rightarrow> None | Inr p \<Rightarrow> Some (H, Ref p)) })"

definition nn_chunkref_init_chunk :: "chunk_ptr \<Rightarrow> nn_chunkref" where
  "nn_chunkref_init_chunk chunk = Ref chunk"

definition nn_chunkref_term :: "chunk_heap \<Rightarrow> nn_chunkref \<Rightarrow> chunk_heap option" where
  "nn_chunkref_term H self = (case self of Ref p \<Rightarrow> nn_chunk_free H p | Vsm _ _ \<Rightarrow> Some H)"

definition nn_chunkref_getchunk :: "malloc \<Rightarrow> chunk_heap \<Rightarrow> nn_chunkref \<Rightarrow> (chunk_heap \<times> nn_chunkref \<times> chunk_ptr) option" where
  "nn_chunkref_getchunk malloc H self = (case self of
     Ref p \<Rightarrow> Some (H, Vsm 0 [], p)
   | Vsm n raw \<Rightarrow> do {
       (H, r) \<leftarrow> nn_chunk_alloc malloc H (ucast n) 0;
       (case r of
          Inl _ \<Rightarrow> None
        | Inr p \<Rightarrow> do {
            ch \<leftarrow> chunks H (fst p);
            mem \<leftarrow> mem_write (c_mem ch) (snd p) (take (unat n) raw);
            Some (set_chunk H (fst p) (ch\<lparr>c_mem := mem\<rparr>), Vsm 0 raw, p) }) })"

definition nn_chunkref_mv :: "bytes \<Rightarrow> nn_chunkref \<Rightarrow> nn_chunkref" where
  "nn_chunkref_mv dst src = (case src of
     Ref p \<Rightarrow> Ref p
   | Vsm n raw \<Rightarrow> Vsm n (take (unat n) raw @ drop (unat n) dst))"

definition nn_chunkref_cp :: "chunk_heap \<Rightarrow> nn_chunkref \<Rightarrow> (chunk_heap \<times> nn_chunkref) option" where
  "nn_chunkref_cp H src = (case src of
     Ref p \<Rightarrow> do { H \<leftarrow> nn_chunk_addref H p 1; Some (H, Ref p) }
   | Vsm n raw \<Rightarrow> Some (H, Vsm n raw))"

definition nn_chunkref_size :: "chunk_heap \<Rightarrow> nn_chunkref \<Rightarrow> u64 option" where
  "nn_chunkref_size H self = (case self of Ref p \<Rightarrow> nn_chunk_size H p | Vsm n _ \<Rightarrow> Some (ucast n))"

text \<open>The bytes at \<open>nn_chunkref_data\<close>, as many as \<open>nn_chunkref_size\<close> says.\<close>

definition nn_chunkref_data :: "chunk_heap \<Rightarrow> nn_chunkref \<Rightarrow> bytes option" where
  "nn_chunkref_data H self = (case self of
     Ref p \<Rightarrow> do { ch \<leftarrow> nn_chunk_getptr H p; Some (take (unat (c_size ch)) (drop (snd p) (c_mem ch))) }
   | Vsm n raw \<Rightarrow> Some (take (unat n) raw))"

definition nn_chunkref_trim :: "chunk_heap \<Rightarrow> nn_chunkref \<Rightarrow> u64 \<Rightarrow> (chunk_heap \<times> nn_chunkref) option" where
  "nn_chunkref_trim H self n = (case self of
     Ref p \<Rightarrow> do { (H, p) \<leftarrow> nn_chunk_trim H p n; Some (H, Ref p) }
   | Vsm k raw \<Rightarrow> do {
       nn_assert (n \<le> ucast k);
       let moved = take (unat k - unat n) (drop (unat n) raw);
       Some (H, Vsm (k - ucast n) (moved @ drop (unat k - unat n) raw)) })"

definition nn_chunkref_bulkcopy_start :: "chunk_heap \<Rightarrow> nn_chunkref \<Rightarrow> u32 \<Rightarrow> chunk_heap option" where
  "nn_chunkref_bulkcopy_start H self copies = (case self of
     Ref p \<Rightarrow> nn_chunk_addref H p copies | Vsm _ _ \<Rightarrow> Some H)"

definition nn_chunkref_bulkcopy_cp :: "nn_chunkref \<Rightarrow> nn_chunkref" where
  "nn_chunkref_bulkcopy_cp src = src"

section \<open>Reading and writing the hidden prefix\<close>

lemma mem_putl_facts:
  assumes "mem_putl mem k v = Some mem'"
  shows "length mem' = length mem" "mem_getl mem' k = Some v" "drop (k + 4) mem' = drop (k + 4) mem"
    "k + 4 \<le> length mem"
proof -
  from assms obtain b where b: "nn_putl (drop k mem) v = Some b" "mem' = take k mem @ b"
    by (auto simp: mem_putl_def bind_Some_iff)
  have k: "4 \<le> length (drop k mem)" using wire32.put_bounds [of "drop k mem" v] b by simp
  then show le: "k + 4 \<le> length mem" by simp
  note fr = wire32.put_frame [OF b(1)]
  show "length mem' = length mem" using fr k b(2) by simp
  show "mem_getl mem' k = Some v" using wire32.get_put [OF b(1)] le b(2) by (simp add: mem_getl_def)
  have "drop (k + 4) mem' = drop 4 b" using b(2) le by simp
  also have "\<dots> = drop (k + 4) mem" using fr by (simp add: add.commute)
  finally show "drop (k + 4) mem' = drop (k + 4) mem" .
qed

lemma mem_putl_total: "k + 4 \<le> length mem \<Longrightarrow> \<exists>mem'. mem_putl mem k v = Some mem'"
  using wire32.put_total [of "drop k mem" v] by (fastforce simp: mem_putl_def)

lemma mem_getl_after:
  assumes "mem_putl mem k v = Some mem'" and "k + 4 \<le> j"
  shows "mem_getl mem' j = mem_getl mem j"
proof -
  have "drop j mem' = drop (j - (k + 4)) (drop (k + 4) mem')" using assms(2) by simp
  also have "\<dots> = drop j mem" using mem_putl_facts(3) [OF assms(1)] assms(2) by simp
  finally show ?thesis by (simp add: mem_getl_def)
qed

section \<open>Well-formed chunks and reference counts\<close>

definition chunk_ok :: "nn_chunk \<Rightarrow> nat \<Rightarrow> bool" where
  "chunk_ok ch off \<longleftrightarrow> 8 \<le> off \<and> off < 2 ^ 32 \<and> mem_getl (c_mem ch) (off - 4) = Some NN_CHUNK_TAG
     \<and> (case mem_getl (c_mem ch) (off - 8) of None \<Rightarrow> False | Some e \<Rightarrow> off = 8 + unat e) \<and> off + unat (c_size ch) = length (c_mem ch)"

definition chunk_data :: "nn_chunk \<Rightarrow> bytes" where
  "chunk_data ch = drop (length (c_mem ch) - unat (c_size ch)) (c_mem ch)"

fun points_to :: "nat \<Rightarrow> nn_chunkref \<Rightarrow> bool" where
  "points_to c (Ref p) = (fst p = c)"
| "points_to c (Vsm _ _) = False"

definition ref_count :: "nat \<Rightarrow> nn_chunkref multiset \<Rightarrow> nat" where
  "ref_count c R = size (filter_mset (points_to c) R)"

fun ref_ok :: "chunk_heap \<Rightarrow> nn_chunkref \<Rightarrow> bool" where
  "ref_ok H (Ref p) = (\<exists>ch. chunks H (fst p) = Some ch \<and> chunk_ok ch (snd p))"
| "ref_ok H (Vsm n raw) = (unat n < 32 \<and> length raw = 31)"

text \<open>\<open>extra c\<close> counts the references to \<open>c\<close> that a bulk copy has reserved but not made yet.\<close>

definition block_ok :: "(nat \<Rightarrow> nat) \<Rightarrow> chunk_heap \<Rightarrow> nn_chunkref multiset \<Rightarrow> nat \<Rightarrow> bool" where
  "block_ok extra H R c \<longleftrightarrow> (case chunks H c of
     None \<Rightarrow> ref_count c R + extra c = 0
   | Some ch \<Rightarrow> c < next_block H \<and> 0 < ref_count c R + extra c
       \<and> unat (c_refcount ch) = ref_count c R + extra c)"

definition heap_inv_extra :: "(nat \<Rightarrow> nat) \<Rightarrow> chunk_heap \<Rightarrow> nn_chunkref multiset \<Rightarrow> bool" where
  "heap_inv_extra extra H R \<longleftrightarrow> (\<forall>r \<in># R. ref_ok H r) \<and> (\<forall>c. block_ok extra H R c)"

definition heap_inv :: "chunk_heap \<Rightarrow> nn_chunkref multiset \<Rightarrow> bool" where
  "heap_inv = heap_inv_extra (\<lambda>_. 0)"

lemma ref_count_simps [simp]:
  "ref_count c {#} = 0"
  "ref_count c (add_mset r R) = (if points_to c r then Suc (ref_count c R) else ref_count c R)"
  by (simp_all add: ref_count_def)

lemma heap_inv_extraI:
  assumes "\<And>r. r \<in># R \<Longrightarrow> ref_ok H r" and "\<And>c. block_ok extra H R c"
  shows "heap_inv_extra extra H R"
  using assms by (simp add: heap_inv_extra_def)

lemma heap_inv_extraD:
  assumes "heap_inv_extra extra H R"
  shows "r \<in># R \<Longrightarrow> ref_ok H r" and "block_ok extra H R c"
  using assms by (auto simp: heap_inv_extra_def)

lemma chunk_ok_offset: "chunk_ok ch off \<Longrightarrow> off = length (c_mem ch) - unat (c_size ch)"
  by (auto simp: chunk_ok_def)

lemma nn_chunk_getptr_ok:
  assumes "chunks H (fst p) = Some ch" and "chunk_ok ch (snd p)"
  shows "nn_chunk_getptr H p = Some ch"
  using assms by (auto simp: nn_chunk_getptr_def chunk_ok_def split: option.splits)

lemma chunk_ok_fields [simp]: "chunk_ok (ch\<lparr>c_refcount := n\<rparr>) off = chunk_ok ch off"
  by (simp add: chunk_ok_def)

lemma ref_ok_set_chunk:
  assumes "ref_ok H r" and "chunks H c = Some ch" and "\<And>off. chunk_ok ch off \<Longrightarrow> chunk_ok ch' off"
  shows "ref_ok (set_chunk H c ch') r"
  using assms by (cases r) (auto simp: set_chunk_def)

lemma ref_ok_free:
  assumes "ref_ok H r" and "\<not> points_to c r"
  shows "ref_ok (H\<lparr>chunks := (chunks H)(c := None)\<rparr>) r"
  using assms by (cases r) auto

lemma ref_count_zero: "ref_count c R = 0 \<longleftrightarrow> (\<forall>r \<in># R. \<not> points_to c r)"
  by (induction R) auto

lemma nn_chunkref_data_ok:
  assumes "chunks H (fst p) = Some ch" and "chunk_ok ch (snd p)"
  shows "nn_chunkref_data H (Ref p) = Some (chunk_data ch)"
  using assms chunk_ok_offset [OF assms(2)]
  by (simp add: nn_chunkref_data_def nn_chunk_getptr_ok chunk_data_def)

lemma set_chunk_inv:
  assumes inv: "heap_inv_extra ex H R" and ch: "chunks H c = Some ch"
    and mono: "\<And>off. chunk_ok ch off \<Longrightarrow> chunk_ok ch' off"
    and sub: "\<And>r. r \<in># R' \<Longrightarrow> r \<in># R \<or> ref_ok (set_chunk H c ch') r"
    and same: "\<And>d. d \<noteq> c \<Longrightarrow> ref_count d R' + ex' d = ref_count d R + ex d"
    and rc: "unat (c_refcount ch') = ref_count c R' + ex' c" "0 < ref_count c R' + ex' c"
  shows "heap_inv_extra ex' (set_chunk H c ch') R'"
proof (rule heap_inv_extraI)
  fix r assume "r \<in># R'"
  then show "ref_ok (set_chunk H c ch') r"
    using sub heap_inv_extraD(1) [OF inv] ref_ok_set_chunk [OF _ ch mono] by blast
next
  fix d show "block_ok ex' (set_chunk H c ch') R' d"
    using heap_inv_extraD(2) [OF inv, of d] same [of d] rc ch
    by (cases "d = c") (auto simp: block_ok_def set_chunk_def split: option.splits)
qed

lemma nn_chunkref_data_refcount:
  assumes "chunks H c = Some ch"
  shows "nn_chunkref_data (set_chunk H c (ch\<lparr>c_refcount := n\<rparr>)) r = nn_chunkref_data H r"
  using assms by (auto simp: nn_chunkref_data_def nn_chunk_getptr_def set_chunk_def
      split: nn_chunkref.splits)

lemma nn_chunkref_data_free:
  assumes "\<not> points_to c r"
  shows "nn_chunkref_data (H\<lparr>chunks := (chunks H)(c := None)\<rparr>) r = nn_chunkref_data H r"
  using assms by (cases r) (auto simp: nn_chunkref_data_def nn_chunk_getptr_def)

lemma nn_chunk_free_ok:
  assumes inv: "heap_inv H (add_mset (Ref p) R)"
  shows "\<exists>H'. nn_chunk_free H p = Some H' \<and> heap_inv H' R
     \<and> (\<forall>r \<in># R. nn_chunkref_data H' r = nn_chunkref_data H r)"
proof -
  note inv = inv [unfolded heap_inv_def]
  from heap_inv_extraD(1) [OF inv, of "Ref p"] obtain ch where
    ch: "chunks H (fst p) = Some ch" "chunk_ok ch (snd p)" by auto
  have rc: "unat (c_refcount ch) = Suc (ref_count (fst p) R)"
    using heap_inv_extraD(2) [OF inv, of "fst p"] ch(1) by (simp add: block_ok_def)
  obtain m where m: "mem_putl (c_mem ch) (snd p - 4) NN_CHUNK_TAG_DEALLOCATED = Some m"
    using mem_putl_total [of "snd p - 4" "c_mem ch"] ch(2) by (auto simp: chunk_ok_def)
  show ?thesis
  proof (cases "ref_count (fst p) R = 0")
    case True
    let ?H = "H\<lparr>chunks := (chunks H)(fst p := None)\<rparr>"
    have np: "\<And>r. r \<in># R \<Longrightarrow> \<not> points_to (fst p) r" using True ref_count_zero by blast
    have "c_refcount ch \<le> 1" using rc True by (simp add: word_le_nat_alt)
    then have "nn_chunk_free H p = Some ?H"
      using nn_chunk_getptr_ok [OF ch] m by (simp add: nn_chunk_free_def Let_def)
    moreover have "heap_inv ?H R" unfolding heap_inv_def
    proof (rule heap_inv_extraI)
      fix r assume "r \<in># R"
      then show "ref_ok ?H r" using np heap_inv_extraD(1) [OF inv, of r] by (simp add: ref_ok_free)
    next
      fix c show "block_ok (\<lambda>_. 0) ?H R c"
        using heap_inv_extraD(2) [OF inv, of c] True
        by (cases "c = fst p") (auto simp: block_ok_def split: option.splits)
    qed
    moreover have "\<forall>r \<in># R. nn_chunkref_data ?H r = nn_chunkref_data H r"
      using np nn_chunkref_data_free by blast
    ultimately show ?thesis by blast
  next
    case False
    let ?H = "set_chunk H (fst p) (ch\<lparr>c_refcount := c_refcount ch - 1\<rparr>)"
    have "\<not> c_refcount ch \<le> 1" using rc False by (simp add: word_le_nat_alt)
    then have "nn_chunk_free H p = Some ?H"
      using nn_chunk_getptr_ok [OF ch] by (simp add: nn_chunk_free_def Let_def)
    moreover have "unat (c_refcount ch - 1) = ref_count (fst p) R"
      using rc unat_minus_one [of "c_refcount ch"] by fastforce
    then have "heap_inv ?H R" unfolding heap_inv_def
      using False by (intro set_chunk_inv [OF inv ch(1)]) auto
    ultimately show ?thesis using nn_chunkref_data_refcount [OF ch(1)] by blast
  qed
qed

lemma nn_chunk_addref_ok:
  assumes inv: "heap_inv_extra ex H R" and p: "Ref p \<in># R"
    and bound: "ref_count (fst p) R + ex (fst p) + unat n < 2 ^ 32"
  shows "\<exists>H'. nn_chunk_addref H p n = Some H' \<and> heap_inv_extra (ex(fst p := ex (fst p) + unat n)) H' R
     \<and> (\<forall>r. nn_chunkref_data H' r = nn_chunkref_data H r)"
proof -
  from heap_inv_extraD(1) [OF inv p] obtain ch where
    ch: "chunks H (fst p) = Some ch" "chunk_ok ch (snd p)" by auto
  have rc: "unat (c_refcount ch) = ref_count (fst p) R + ex (fst p)" "0 < ref_count (fst p) R + ex (fst p)"
    using heap_inv_extraD(2) [OF inv, of "fst p"] ch(1) by (auto simp: block_ok_def)
  let ?H = "set_chunk H (fst p) (ch\<lparr>c_refcount := c_refcount ch + n\<rparr>)"
  have "unat (c_refcount ch + n) = ref_count (fst p) R + ex (fst p) + unat n"
    using rc(1) bound by (simp add: unat_word_ariths)
  then have "heap_inv_extra (ex(fst p := ex (fst p) + unat n)) ?H R"
    using rc(2) by (intro set_chunk_inv [OF inv ch(1)]) auto
  moreover have "nn_chunk_addref H p n = Some ?H"
    using nn_chunk_getptr_ok [OF ch] by (simp add: nn_chunk_addref_def)
  ultimately show ?thesis using nn_chunkref_data_refcount [OF ch(1)] by blast
qed


text \<open>What the source relies on of \<open>malloc\<close>: a block it returns has the size asked for.\<close>

definition malloc_ok :: "malloc \<Rightarrow> bool" where
  "malloc_ok malloc \<longleftrightarrow> (\<forall>sz block. malloc sz = Some block \<longrightarrow> length block = unat sz)"

lemma chunk_ok_alloc:
  assumes "mem_putl area 0 0 = Some m1" and "mem_putl m1 4 NN_CHUNK_TAG = Some m2"
    and "length area = 8 + unat csize"
  shows "chunk_ok \<lparr>c_refcount = n, c_size = csize, c_mem = m2\<rparr> 8"
proof -
  note f1 = mem_putl_facts [OF assms(1)] and f2 = mem_putl_facts [OF assms(2)]
  have "mem_getl m2 0 = mem_getl m1 0"
    using assms(2) f2(4) unfolding mem_getl_def mem_putl_def
    by (auto simp: bind_Some_iff intro!: wire32.get_local)
  then show ?thesis using f1 f2 assms(3) by (simp add: chunk_ok_def)
qed

lemma hdrsize_no_overflow:
  assumes "\<not> nn_chunk_hdrsize + csize < nn_chunk_hdrsize"
  shows "unat (nn_chunk_hdrsize + csize) = 32 + unat csize"
proof -
  have "unat (nn_chunk_hdrsize + csize) = unat nn_chunk_hdrsize + unat csize"
    using assms unat_plus_simple [of nn_chunk_hdrsize csize] by (simp only: not_less)
  then show ?thesis by (simp add: nn_chunk_hdrsize_def sizeof_nn_chunk_def)
qed

lemma nn_chunkref_data_alloc:
  assumes "chunks H c = None" and "ref_ok H r"
  shows "nn_chunkref_data (H\<lparr>chunks := (chunks H)(c \<mapsto> ch), next_block := n\<rparr>) r = nn_chunkref_data H r"
  using assms by (cases r) (auto simp: nn_chunkref_data_def nn_chunk_getptr_def)

lemma nn_chunk_alloc_total:
  assumes "malloc_ok malloc"
  shows "\<exists>H' r. nn_chunk_alloc malloc H csize ty = Some (H', r)"
proof -
  let ?sz = "nn_chunk_hdrsize + csize"
  show ?thesis
  proof (cases "malloc ?sz")
    case (Some block)
    show ?thesis
    proof (cases "?sz < nn_chunk_hdrsize")
      case False
      from hdrsize_no_overflow [OF this] Some assms have len: "length block = 32 + unat csize"
        by (auto simp: malloc_ok_def)
      obtain m1 where m1: "mem_putl (drop (unat sizeof_nn_chunk) block) 0 0 = Some m1"
        using mem_putl_total [of 0 "drop (unat sizeof_nn_chunk) block" 0] len by (auto simp: sizeof_nn_chunk_def)
      obtain m2 where "mem_putl m1 4 NN_CHUNK_TAG = Some m2"
        using mem_putl_total [of 4 m1 NN_CHUNK_TAG] mem_putl_facts(1) [OF m1] len
        by (auto simp: sizeof_nn_chunk_def)
      then show ?thesis using m1 Some False by (simp add: nn_chunk_alloc_def Let_def)
    qed (simp add: nn_chunk_alloc_def)
  qed (simp add: nn_chunk_alloc_def Let_def)
qed

lemma nn_chunk_alloc_ok:
  assumes mal: "malloc_ok malloc" and inv: "heap_inv H R"
    and res: "nn_chunk_alloc malloc H csize ty = Some (H', Inr p)"
  shows "heap_inv H' (add_mset (Ref p) R)" and "\<exists>d. nn_chunkref_data H' (Ref p) = Some d \<and> length d = unat csize"
    and "\<And>r. r \<in># R \<Longrightarrow> nn_chunkref_data H' r = nn_chunkref_data H r"
proof -
  let ?sz = "nn_chunk_hdrsize + csize"
  from res obtain block m1 m2 where
    o: "\<not> ?sz < nn_chunk_hdrsize" "malloc ?sz = Some block"
    and m: "mem_putl (drop (unat sizeof_nn_chunk) block) 0 0 = Some m1" "mem_putl m1 4 NN_CHUNK_TAG = Some m2"
    and H': "H' = H\<lparr>chunks := (chunks H)(next_block H \<mapsto> \<lparr>c_refcount = 1, c_size = csize, c_mem = m2\<rparr>),
                   next_block := next_block H + 1\<rparr>" and p: "p = (next_block H, 8)"
    by (auto simp: nn_chunk_alloc_def Let_def bind_Some_iff nn_chunk_getdata_def split: if_splits option.splits)
  let ?ch = "\<lparr>c_refcount = 1, c_size = csize, c_mem = m2\<rparr>"
  have len: "length (drop (unat sizeof_nn_chunk) block) = 8 + unat csize"
    using hdrsize_no_overflow [OF o(1)] o(2) mal by (auto simp: malloc_ok_def sizeof_nn_chunk_def)
  note ok = chunk_ok_alloc [OF m len, of 1]
  have fresh: "chunks H (next_block H) = None" "ref_count (next_block H) R = 0"
    using heap_inv_extraD(2) [OF inv [unfolded heap_inv_def], of "next_block H"]
    by (auto simp: block_ok_def split: option.splits)
  show "heap_inv H' (add_mset (Ref p) R)" unfolding heap_inv_def
  proof (rule heap_inv_extraI)
    fix r assume "r \<in># add_mset (Ref p) R"
    then show "ref_ok H' r" using ok fresh(1) heap_inv_extraD(1) [OF inv [unfolded heap_inv_def], of r]
      by (cases r) (auto simp: H' p)
  next
    fix c show "block_ok (\<lambda>_. 0) H' (add_mset (Ref p) R) c"
      using heap_inv_extraD(2) [OF inv [unfolded heap_inv_def], of c] fresh
      by (auto simp: block_ok_def H' p split: option.splits)
  qed
  have "nn_chunkref_data H' (Ref p) = Some (chunk_data ?ch)"
    using ok by (intro nn_chunkref_data_ok) (auto simp: H' p)
  moreover have "length (chunk_data ?ch) = unat csize" using ok by (auto simp: chunk_data_def chunk_ok_def)
  ultimately show "\<exists>d. nn_chunkref_data H' (Ref p) = Some d \<and> length d = unat csize" by blast
  show "nn_chunkref_data H' r = nn_chunkref_data H r" if "r \<in># R" for r
    using nn_chunkref_data_alloc [OF fresh(1)] heap_inv_extraD(1) [OF inv [unfolded heap_inv_def] that]
    by (simp add: H')
qed

lemma chunk_ok_trim:
  assumes ok: "chunk_ok ch off" and n: "n \<le> c_size ch" and b: "off + unat n < 2 ^ 32"
    and m1: "mem_putl (c_mem ch) (off + unat n - 4) NN_CHUNK_TAG = Some m1"
    and m2: "mem_putl m1 (off + unat n - 8) (of_nat (off + unat n - 8)) = Some m2"
  defines "ch' \<equiv> ch\<lparr>c_mem := m2, c_size := c_size ch - n\<rparr>"
  shows "chunk_ok ch' (off + unat n)" and "chunk_data ch' = drop (unat n) (chunk_data ch)"
proof -
  let ?o = "off + unat n"
  have o8: "8 \<le> ?o" and len: "off + unat (c_size ch) = length (c_mem ch)" using ok by (auto simp: chunk_ok_def)
  note f1 = mem_putl_facts [OF m1] and f2 = mem_putl_facts [OF m2]
  have sz: "unat (c_size ch - n) = unat (c_size ch) - unat n" using n by (rule unat_sub)
  have nle: "unat n \<le> unat (c_size ch)" using n by (simp add: word_le_nat_alt)
  have tag: "mem_getl m2 (?o - 4) = Some NN_CHUNK_TAG"
    using mem_getl_after [OF m2, of "?o - 4"] f1(2) o8 by simp
  have e: "unat (of_nat (?o - 8) :: u32) = ?o - 8" using b by (simp add: unat_of_nat)
  have l2: "length m2 = length (c_mem ch)" using f1(1) f2(1) by simp
  show "chunk_ok ch' ?o" using tag f2(2) e o8 b sz len nle l2 by (simp add: chunk_ok_def ch'_def)
  have s8: "?o - 8 + 4 = ?o - 4" and s4: "?o - 4 + 4 = ?o" using o8 by auto
  have "drop ?o m2 = drop ?o m1"
    using f2(3) unfolding s8 by (metis (no_types) drop_drop s4 add.commute)
  also have "\<dots> = drop ?o (c_mem ch)" using f1(3) unfolding s4 .
  finally have "drop ?o m2 = drop ?o (c_mem ch)" .
  moreover have "length m2 - unat (c_size ch - n) = ?o" using l2 len sz nle by simp
  moreover have "drop (unat n) (chunk_data ch) = drop ?o (c_mem ch)"
    using len by (simp add: chunk_data_def add.commute flip: len)
  ultimately show "chunk_data ch' = drop (unat n) (chunk_data ch)" by (simp add: chunk_data_def ch'_def)
qed

lemma nn_chunk_trim_ok:
  assumes inv: "heap_inv H (add_mset (Ref p) R)" and sole: "ref_count (fst p) R = 0"
    and dat: "nn_chunkref_data H (Ref p) = Some d"
    and n: "unat n \<le> length d" and b: "snd p + unat n < 2 ^ 32"
  shows "\<exists>H' p'. nn_chunk_trim H p n = Some (H', p') \<and> heap_inv H' (add_mset (Ref p') R)
     \<and> nn_chunkref_data H' (Ref p') = Some (drop (unat n) d)
     \<and> (\<forall>r \<in># R. nn_chunkref_data H' r = nn_chunkref_data H r)"
proof -
  note inv' = inv [unfolded heap_inv_def]
  from heap_inv_extraD(1) [OF inv', of "Ref p"] obtain ch where
    ch: "chunks H (fst p) = Some ch" "chunk_ok ch (snd p)" by auto
  let ?o = "snd p + unat n"
  have d: "d = chunk_data ch" using nn_chunkref_data_ok [OF ch] dat by simp
  have len: "length d = unat (c_size ch)" "8 \<le> snd p" "snd p + unat (c_size ch) = length (c_mem ch)"
    using ch(2) by (auto simp: d chunk_data_def chunk_ok_def)
  have le: "n \<le> c_size ch" using n len by (simp add: word_le_nat_alt)
  obtain m1 where m1: "mem_putl (c_mem ch) (?o - 4) NN_CHUNK_TAG = Some m1"
    using mem_putl_total [of "?o - 4" "c_mem ch"] len n by auto
  obtain m2 where m2: "mem_putl m1 (?o - 8) (of_nat (?o - 8)) = Some m2"
    using mem_putl_total [of "?o - 8" m1] mem_putl_facts(1,4) [OF m1] len n by auto
  note t = chunk_ok_trim [OF ch(2) le b m1 m2]
  let ?ch = "ch\<lparr>c_mem := m2, c_size := c_size ch - n\<rparr>" and ?p = "(fst p, ?o)"
  let ?H = "set_chunk H (fst p) ?ch"
  have np: "\<And>r. r \<in># R \<Longrightarrow> \<not> points_to (fst p) r" using sole ref_count_zero by blast
  have res: "nn_chunk_trim H p n = Some (?H, ?p)"
    using nn_chunk_getptr_ok [OF ch] le m1 m2 b len(2) by (simp add: nn_chunk_trim_def Let_def)
  have "heap_inv ?H (add_mset (Ref ?p) R)" unfolding heap_inv_def
  proof (rule heap_inv_extraI)
    fix r assume "r \<in># add_mset (Ref ?p) R"
    then show "ref_ok ?H r" using t(1) np [of r] heap_inv_extraD(1) [OF inv', of r]
      by (cases r) (auto simp: set_chunk_def)
  next
    fix c show "block_ok (\<lambda>_. 0) ?H (add_mset (Ref ?p) R) c"
      using heap_inv_extraD(2) [OF inv', of c] ch(1)
      by (auto simp: block_ok_def set_chunk_def split: option.splits)
  qed
  moreover have "nn_chunkref_data ?H (Ref ?p) = Some (drop (unat n) d)"
    using nn_chunkref_data_ok [of ?H ?p ?ch] t by (simp add: set_chunk_def d)
  moreover have "nn_chunkref_data ?H r = nn_chunkref_data H r" if "r \<in># R" for r
    using np [OF that] by (cases r) (auto simp: nn_chunkref_data_def nn_chunk_getptr_def set_chunk_def)
  ultimately show ?thesis using res by blast
qed

section \<open>Operations on references\<close>

lemma vsm_ok_data: "ref_ok H (Vsm n raw) \<Longrightarrow> nn_chunkref_data H (Vsm n raw) = Some (take (unat n) raw)"
  by (simp add: nn_chunkref_data_def)

lemma heap_inv_Vsm:
  "heap_inv H (add_mset (Vsm n raw) R) \<longleftrightarrow> unat n < 32 \<and> length raw = 31 \<and> heap_inv H R"
  by (auto simp: heap_inv_def heap_inv_extra_def block_ok_def split: option.splits)

lemma ref_ok_data:
  assumes "ref_ok H r"
  shows "\<exists>d. nn_chunkref_data H r = Some d"
  using assms nn_chunkref_data_ok by (cases r) (auto simp: nn_chunkref_data_def)

lemma nn_chunkref_size_data:
  assumes ok: "ref_ok H r" and d: "nn_chunkref_data H r = Some d"
  shows "nn_chunkref_size H r = Some (of_nat (length d))"
proof (cases r)
  case (Vsm n raw)
  then have "length d = unat n" using assms by (auto simp: nn_chunkref_data_def)
  then show ?thesis using Vsm by (simp add: nn_chunkref_size_def)
next
  case (Ref p)
  then obtain ch where ch: "chunks H (fst p) = Some ch" "chunk_ok ch (snd p)" using ok by auto
  have "length d = unat (c_size ch)"
    using nn_chunkref_data_ok [OF ch] d Ref ch(2) by (auto simp: chunk_data_def chunk_ok_def)
  then show ?thesis using Ref nn_chunk_getptr_ok [OF ch] by (simp add: nn_chunkref_size_def nn_chunk_size_def)
qed

lemma nn_chunkref_init_ok:
  assumes mal: "malloc_ok malloc" and inv: "heap_inv H R" and raw: "length raw = 31"
    and res: "nn_chunkref_init malloc H raw csize = Some (H', r)"
  shows "heap_inv H' (add_mset r R)" and "\<exists>d. nn_chunkref_data H' r = Some d \<and> length d = unat csize"
    and "\<And>q. q \<in># R \<Longrightarrow> nn_chunkref_data H' q = nn_chunkref_data H q"
proof -
  show "heap_inv H' (add_mset r R)"
    and "\<exists>d. nn_chunkref_data H' r = Some d \<and> length d = unat csize"
    and "\<And>q. q \<in># R \<Longrightarrow> nn_chunkref_data H' q = nn_chunkref_data H q"
  proof (atomize (full), cases "csize < NN_CHUNKREF_MAX")
    case True
    then have u: "unat csize < 32" by (simp add: NN_CHUNKREF_MAX_def word_less_nat_alt)
    then have "unat (ucast csize :: u8) = unat csize" by (simp add: unsigned_ucast_eq take_bit_nat_eq_self)
    with u True res inv raw show "heap_inv H' (add_mset r R)
      \<and> (\<exists>d. nn_chunkref_data H' r = Some d \<and> length d = unat csize)
      \<and> (\<forall>q. q \<in># R \<longrightarrow> nn_chunkref_data H' q = nn_chunkref_data H q)"
      by (auto simp: nn_chunkref_init_def heap_inv_Vsm nn_chunkref_data_def)
  next
    case False
    with res obtain p where a: "nn_chunk_alloc malloc H csize 0 = Some (H', Inr p)" and r: "r = Ref p"
      by (auto simp: nn_chunkref_init_def bind_Some_iff case_sum_Some_iff)
    from nn_chunk_alloc_ok [OF mal inv a] r show "heap_inv H' (add_mset r R)
      \<and> (\<exists>d. nn_chunkref_data H' r = Some d \<and> length d = unat csize)
      \<and> (\<forall>q. q \<in># R \<longrightarrow> nn_chunkref_data H' q = nn_chunkref_data H q)" by blast
  qed
qed

lemma nn_chunkref_term_ok:
  assumes "heap_inv H (add_mset r R)"
  shows "\<exists>H'. nn_chunkref_term H r = Some H' \<and> heap_inv H' R
     \<and> (\<forall>q \<in># R. nn_chunkref_data H' q = nn_chunkref_data H q)"
  using assms nn_chunk_free_ok [of H _ R] by (cases r) (auto simp: nn_chunkref_term_def heap_inv_Vsm)

lemma heap_inv_reserved:
  "heap_inv_extra (ex(fst p := ex (fst p) + k)) H R \<longleftrightarrow> heap_inv_extra ex H (R + replicate_mset k (Ref p))"
  if "Ref p \<in># R"
proof -
  have c: "ref_count c (R + replicate_mset k (Ref p)) = ref_count c R + (if c = fst p then k else 0)" for c
    by (induction k) auto
  have "(\<forall>r \<in># R. ref_ok H r) \<longleftrightarrow> (\<forall>r \<in># R + replicate_mset k (Ref p). ref_ok H r)"
    using that by (auto split: if_splits)
  moreover have "block_ok (ex(fst p := ex (fst p) + k)) H R d = block_ok ex H (R + replicate_mset k (Ref p)) d" for d
    by (simp add: block_ok_def c ac_simps split: option.splits)
  ultimately show ?thesis by (simp add: heap_inv_extra_def)
qed

text \<open>A bulk copy: reserving \<open>n\<close> references and then copying the reference \<open>n\<close> times accounts for
  exactly the copies; a single copy is the case \<open>n = 1\<close>.\<close>

lemma nn_chunkref_bulkcopy_ok:
  assumes inv: "heap_inv H R" and r: "r \<in># R" and b: "size R + unat n < 2 ^ 32"
  shows "\<exists>H'. nn_chunkref_bulkcopy_start H r n = Some H'
     \<and> heap_inv H' (R + replicate_mset (unat n) (nn_chunkref_bulkcopy_cp r))
     \<and> (\<forall>q. nn_chunkref_data H' q = nn_chunkref_data H q)"
proof (cases r)
  case (Vsm k raw)
  have "heap_inv H (R + replicate_mset m r)" for m
    using inv r heap_inv_extraD(1) [OF inv [unfolded heap_inv_def] r] Vsm
    by (induction m) (auto simp: heap_inv_Vsm)
  then show ?thesis using Vsm by (simp add: nn_chunkref_bulkcopy_start_def nn_chunkref_bulkcopy_cp_def)
next
  case (Ref p)
  have "ref_count (fst p) R \<le> size R" by (simp add: ref_count_def size_filter_mset_lesseq)
  then obtain H' where H': "nn_chunk_addref H p n = Some H'"
    "heap_inv_extra ((\<lambda>_. 0)(fst p := 0 + unat n)) H' R" "\<forall>q. nn_chunkref_data H' q = nn_chunkref_data H q"
    using nn_chunk_addref_ok [OF inv [unfolded heap_inv_def], of p n] r Ref b by auto
  have "heap_inv H' (R + replicate_mset (unat n) (Ref p))"
    using H'(2) heap_inv_reserved [of p R "\<lambda>_. 0" "unat n" H'] r Ref by (simp add: heap_inv_def)
  then show ?thesis using H' Ref by (simp add: nn_chunkref_bulkcopy_start_def nn_chunkref_bulkcopy_cp_def)
qed

lemma nn_chunkref_cp_bulk:
  "nn_chunkref_cp H r = do { H \<leftarrow> nn_chunkref_bulkcopy_start H r 1; Some (H, nn_chunkref_bulkcopy_cp r) }"
  by (cases r) (simp_all add: nn_chunkref_cp_def nn_chunkref_bulkcopy_start_def nn_chunkref_bulkcopy_cp_def)

lemma nn_chunkref_cp_ok:
  assumes "heap_inv H R" and "r \<in># R" and "size R + 1 < 2 ^ 32"
  shows "\<exists>H'. nn_chunkref_cp H r = Some (H', r) \<and> heap_inv H' (add_mset r R)
     \<and> (\<forall>q. nn_chunkref_data H' q = nn_chunkref_data H q)"
  using nn_chunkref_bulkcopy_ok [OF assms(1,2), of 1] assms(3)
  by (auto simp: nn_chunkref_cp_bulk nn_chunkref_bulkcopy_cp_def)

lemma nn_chunkref_mv_ok:
  assumes "heap_inv H (add_mset r R)" and "length dst = 31"
  shows "heap_inv H (add_mset (nn_chunkref_mv dst r) R)"
    and "nn_chunkref_data H (nn_chunkref_mv dst r) = nn_chunkref_data H r"
  using assms by (cases r; auto simp: nn_chunkref_mv_def heap_inv_Vsm nn_chunkref_data_def min_def)+

lemma nn_chunkref_trim_ok:
  assumes inv: "heap_inv H (add_mset r R)" and d: "nn_chunkref_data H r = Some d"
    and n: "unat n \<le> length d"
    and sole: "\<And>p. r = Ref p \<Longrightarrow> ref_count (fst p) R = 0 \<and> snd p + unat n < 2 ^ 32"
  shows "\<exists>H' r'. nn_chunkref_trim H r n = Some (H', r') \<and> heap_inv H' (add_mset r' R)
     \<and> nn_chunkref_data H' r' = Some (drop (unat n) d)
     \<and> (\<forall>q \<in># R. nn_chunkref_data H' q = nn_chunkref_data H q)"
proof (cases r)
  case (Ref p)
  then show ?thesis using nn_chunk_trim_ok [of H p R d n] inv d n sole [OF Ref]
    by (auto simp: nn_chunkref_trim_def)
next
  case (Vsm k raw)
  have k: "unat k < 32" "length raw = 31" "heap_inv H R" using inv Vsm by (auto simp: heap_inv_Vsm)
  have d': "d = take (unat k) raw" using d Vsm by (simp add: nn_chunkref_data_def)
  have nk: "unat n \<le> unat k" using n d' by simp
  have un: "unat (ucast n :: u8) = unat n" using nk k by (simp add: unsigned_ucast_eq take_bit_nat_eq_self)
  have "(ucast n :: u8) \<le> k" using nk un by (simp add: word_le_nat_alt)
  then have uk: "unat (k - ucast n) = unat k - unat n" using un by (simp add: unat_sub)
  have le: "n \<le> ucast k" using nk k(1) by (simp add: word_le_nat_alt unsigned_ucast_eq take_bit_nat_eq_self)
  let ?raw = "take (unat k - unat n) (drop (unat n) raw) @ drop (unat k - unat n) raw"
  have len: "length ?raw = 31" using k nk by simp
  have "take (unat k - unat n) ?raw = drop (unat n) d" using k nk d' by (simp add: drop_take)
  then show ?thesis using Vsm le len k uk
    by (simp add: nn_chunkref_trim_def Let_def heap_inv_Vsm nn_chunkref_data_def)
qed

section \<open>Messages\<close>

record nn_msg_ref =
  r_sphdr :: nn_chunkref
  r_hdrs :: nn_chunkref
  r_body :: nn_chunkref

definition nn_msg_init :: "malloc \<Rightarrow> chunk_heap \<Rightarrow> bytes \<Rightarrow> u64 \<Rightarrow> (chunk_heap \<times> nn_msg_ref) option" where
  "nn_msg_init malloc H raw csize = do {
     (H, s) \<leftarrow> nn_chunkref_init malloc H raw 0;
     (H, h) \<leftarrow> nn_chunkref_init malloc H raw 0;
     (H, b) \<leftarrow> nn_chunkref_init malloc H raw csize;
     Some (H, \<lparr>r_sphdr = s, r_hdrs = h, r_body = b\<rparr>) }"

definition nn_msg_init_chunk :: "malloc \<Rightarrow> chunk_heap \<Rightarrow> bytes \<Rightarrow> chunk_ptr \<Rightarrow> (chunk_heap \<times> nn_msg_ref) option" where
  "nn_msg_init_chunk malloc H raw chunk = do {
     (H, s) \<leftarrow> nn_chunkref_init malloc H raw 0;
     (H, h) \<leftarrow> nn_chunkref_init malloc H raw 0;
     Some (H, \<lparr>r_sphdr = s, r_hdrs = h, r_body = nn_chunkref_init_chunk chunk\<rparr>) }"

definition nn_msg_term :: "chunk_heap \<Rightarrow> nn_msg_ref \<Rightarrow> chunk_heap option" where
  "nn_msg_term H self = do {
     H \<leftarrow> nn_chunkref_term H (r_sphdr self);
     H \<leftarrow> nn_chunkref_term H (r_hdrs self);
     nn_chunkref_term H (r_body self) }"

definition nn_msg_mv :: "bytes \<Rightarrow> nn_msg_ref \<Rightarrow> nn_msg_ref" where
  "nn_msg_mv dst src = \<lparr>r_sphdr = nn_chunkref_mv dst (r_sphdr src), r_hdrs = nn_chunkref_mv dst (r_hdrs src),
     r_body = nn_chunkref_mv dst (r_body src)\<rparr>"

definition nn_msg_cp :: "chunk_heap \<Rightarrow> nn_msg_ref \<Rightarrow> (chunk_heap \<times> nn_msg_ref) option" where
  "nn_msg_cp H src = do {
     (H, s) \<leftarrow> nn_chunkref_cp H (r_sphdr src);
     (H, h) \<leftarrow> nn_chunkref_cp H (r_hdrs src);
     (H, b) \<leftarrow> nn_chunkref_cp H (r_body src);
     Some (H, \<lparr>r_sphdr = s, r_hdrs = h, r_body = b\<rparr>) }"

definition nn_msg_bulkcopy_start :: "chunk_heap \<Rightarrow> nn_msg_ref \<Rightarrow> u32 \<Rightarrow> chunk_heap option" where
  "nn_msg_bulkcopy_start H self copies = do {
     H \<leftarrow> nn_chunkref_bulkcopy_start H (r_sphdr self) copies;
     H \<leftarrow> nn_chunkref_bulkcopy_start H (r_hdrs self) copies;
     nn_chunkref_bulkcopy_start H (r_body self) copies }"

definition nn_msg_bulkcopy_cp :: "nn_msg_ref \<Rightarrow> nn_msg_ref" where
  "nn_msg_bulkcopy_cp src = \<lparr>r_sphdr = nn_chunkref_bulkcopy_cp (r_sphdr src),
     r_hdrs = nn_chunkref_bulkcopy_cp (r_hdrs src), r_body = nn_chunkref_bulkcopy_cp (r_body src)\<rparr>"

definition nn_msg_replace_body :: "chunk_heap \<Rightarrow> nn_msg_ref \<Rightarrow> nn_chunkref \<Rightarrow> (chunk_heap \<times> nn_msg_ref) option" where
  "nn_msg_replace_body H self new_body = do {
     H \<leftarrow> nn_chunkref_term H (r_body self);
     Some (H, self\<lparr>r_body := new_body\<rparr>) }"

text \<open>The value of a message, which is how the protocols see it.\<close>

record nn_msg =
  sphdr :: bytes
  hdrs :: bytes
  body :: bytes

definition empty_msg :: nn_msg where "empty_msg = \<lparr>sphdr = [], hdrs = [], body = []\<rparr>"

definition msg_refs :: "nn_msg_ref \<Rightarrow> nn_chunkref multiset" where
  "msg_refs m = {# r_sphdr m, r_hdrs m, r_body m #}"

definition msg_value :: "chunk_heap \<Rightarrow> nn_msg_ref \<Rightarrow> nn_msg option" where
  "msg_value H m = do {
     s \<leftarrow> nn_chunkref_data H (r_sphdr m);
     h \<leftarrow> nn_chunkref_data H (r_hdrs m);
     b \<leftarrow> nn_chunkref_data H (r_body m);
     Some \<lparr>sphdr = s, hdrs = h, body = b\<rparr> }"

lemma msg_value_cong:
  assumes "\<And>r. r \<in># msg_refs m \<Longrightarrow> nn_chunkref_data H' r = nn_chunkref_data H r"
  shows "msg_value H' m = msg_value H m"
  using assms by (simp add: msg_value_def msg_refs_def)

lemma nn_msg_term_ok:
  assumes "heap_inv H (msg_refs m + R)"
  shows "\<exists>H'. nn_msg_term H m = Some H' \<and> heap_inv H' R
     \<and> (\<forall>q \<in># R. nn_chunkref_data H' q = nn_chunkref_data H q)"
proof -
  have inv: "heap_inv H (add_mset (r_sphdr m) (add_mset (r_hdrs m) (add_mset (r_body m) R)))"
    using assms by (simp add: msg_refs_def add_mset_commute)
  from nn_chunkref_term_ok [OF inv] obtain H1 where
    H1: "nn_chunkref_term H (r_sphdr m) = Some H1" "heap_inv H1 (add_mset (r_hdrs m) (add_mset (r_body m) R))"
      "\<forall>q \<in># R. nn_chunkref_data H1 q = nn_chunkref_data H q" by auto
  from nn_chunkref_term_ok [OF H1(2)] obtain H2 where
    H2: "nn_chunkref_term H1 (r_hdrs m) = Some H2" "heap_inv H2 (add_mset (r_body m) R)"
      "\<forall>q \<in># R. nn_chunkref_data H2 q = nn_chunkref_data H1 q" by auto
  from nn_chunkref_term_ok [OF H2(2)] show ?thesis using H1 H2 by (fastforce simp: nn_msg_term_def)
qed

lemma nn_msg_bulkcopy_ok:
  assumes inv: "heap_inv H R" and sub: "msg_refs m \<subseteq># R" and b: "size R + 3 * unat n < 2 ^ 32"
  shows "\<exists>H'. nn_msg_bulkcopy_start H m n = Some H'
     \<and> heap_inv H' (R + repeat_mset (unat n) (msg_refs (nn_msg_bulkcopy_cp m)))
     \<and> (\<forall>q. nn_chunkref_data H' q = nn_chunkref_data H q)"
proof -
  let ?k = "unat n" and ?s = "r_sphdr m" and ?h = "r_hdrs m" and ?b = "r_body m"
  have mem: "?s \<in># R" "?h \<in># R" "?b \<in># R" using sub by (auto simp: msg_refs_def insert_subset_eq_iff dest: in_diffD)
  obtain H1 where H1: "nn_chunkref_bulkcopy_start H ?s n = Some H1" "heap_inv H1 (R + replicate_mset ?k ?s)"
    "\<forall>q. nn_chunkref_data H1 q = nn_chunkref_data H q"
    using nn_chunkref_bulkcopy_ok [OF inv mem(1), of n] b by (auto simp: nn_chunkref_bulkcopy_cp_def)
  obtain H2 where H2: "nn_chunkref_bulkcopy_start H1 ?h n = Some H2"
    "heap_inv H2 (R + replicate_mset ?k ?s + replicate_mset ?k ?h)"
    "\<forall>q. nn_chunkref_data H2 q = nn_chunkref_data H1 q"
    using nn_chunkref_bulkcopy_ok [OF H1(2), of ?h n] mem b by (auto simp: nn_chunkref_bulkcopy_cp_def)
  obtain H3 where H3: "nn_chunkref_bulkcopy_start H2 ?b n = Some H3"
    "heap_inv H3 (R + replicate_mset ?k ?s + replicate_mset ?k ?h + replicate_mset ?k ?b)"
    "\<forall>q. nn_chunkref_data H3 q = nn_chunkref_data H2 q"
    using nn_chunkref_bulkcopy_ok [OF H2(2), of ?b n] mem b by (auto simp: nn_chunkref_bulkcopy_cp_def)
  have eq: "R + replicate_mset ?k ?s + replicate_mset ?k ?h + replicate_mset ?k ?b
      = R + repeat_mset ?k (msg_refs (nn_msg_bulkcopy_cp m))"
    by (simp add: msg_refs_def nn_msg_bulkcopy_cp_def nn_chunkref_bulkcopy_cp_def repeat_mset_distrib_add_mset ac_simps)
  show ?thesis using H1(1,3) H2(1,3) H3(1,3) H3(2) [unfolded eq] by (simp add: nn_msg_bulkcopy_start_def)
qed

end
