(* ===== verification/Msgqueue.thy ===== *)
theory Msgqueue
  imports Nn_Queue Nn_Chunk
begin

text \<open>
  The message queue of the inproc transport (\<open>src/transports/inproc/msgqueue.c\<close>): a linked list of
  chunks of 126 messages with a write position in the last chunk, a read position in the first one,
  and one spare chunk. The chunks live in a store private to the queue; a freed chunk is \<open>None\<close>
  there, so an access to it shows as an abort. The queue interprets the \<open>fifo\<close> interface.
\<close>

definition NN_MSGQUEUE_GRANULARITY :: nat where "NN_MSGQUEUE_GRANULARITY = 126"

record nn_msgqueue_chunk =
  mc_msgs :: "nn_msg list"
  mc_next :: "nat option"

record nn_msgqueue =
  mq_out_chunk :: nat
  mq_out_pos :: nat
  mq_in_chunk :: nat
  mq_in_pos :: nat
  mq_count :: u64
  mq_mem :: u64
  mq_maxmem :: u64
  mq_cache :: "nat option"
  mq_heap :: "nat \<Rightarrow> nn_msgqueue_chunk option"
  mq_fresh :: nat

definition msg_size :: "nn_msg \<Rightarrow> u64" where
  "msg_size m = of_nat (length (sphdr m)) + of_nat (length (body m))"

text \<open>A new chunk holds unspecified messages; \<open>junk\<close> stands for them.\<close>

definition new_chunk :: "nn_msg \<Rightarrow> nn_msgqueue_chunk" where
  "new_chunk junk = \<lparr>mc_msgs = replicate NN_MSGQUEUE_GRANULARITY junk, mc_next = None\<rparr>"

definition nn_msgqueue_init :: "nn_msg \<Rightarrow> u64 \<Rightarrow> nn_msgqueue" where
  "nn_msgqueue_init junk maxmem = \<lparr>mq_out_chunk = 0, mq_out_pos = 0, mq_in_chunk = 0, mq_in_pos = 0,
     mq_count = 0, mq_mem = 0, mq_maxmem = maxmem, mq_cache = None, mq_heap = [0 \<mapsto> new_chunk junk], mq_fresh = 1\<rparr>"

definition nn_msgqueue_empty :: "nn_msgqueue \<Rightarrow> bool" where
  "nn_msgqueue_empty self = (mq_count self = 0)"

definition set_heap :: "nat \<Rightarrow> nn_msgqueue_chunk option \<Rightarrow> nn_msgqueue \<Rightarrow> nn_msgqueue" where
  "set_heap c v q = q\<lparr>mq_heap := (mq_heap q)(c := v)\<rparr>"

definition nn_msgqueue_send :: "nn_msg \<Rightarrow> nn_msgqueue \<Rightarrow> nn_msg \<Rightarrow> (nn_msgqueue \<times> (errno + unit)) option" where
  "nn_msgqueue_send junk self msg =
    (let msgsz = msg_size msg in
     if mq_count self > 0 \<and> mq_mem self + msgsz \<ge> mq_maxmem self then Some (self, Inl EAGAIN)
     else do {
       let self = self\<lparr>mq_count := mq_count self + 1, mq_mem := mq_mem self + msgsz\<rparr>;
       ch \<leftarrow> mq_heap self (mq_out_chunk self);
       nn_assert (mq_out_pos self < NN_MSGQUEUE_GRANULARITY);
       let ch = ch\<lparr>mc_msgs := (mc_msgs ch)[mq_out_pos self := msg]\<rparr>;
       let self = (set_heap (mq_out_chunk self) (Some ch) self)\<lparr>mq_out_pos := mq_out_pos self + 1\<rparr>;
       if mq_out_pos self = NN_MSGQUEUE_GRANULARITY then do {
         let self = (case mq_cache self of
             None \<Rightarrow> (set_heap (mq_fresh self) (Some (new_chunk junk)) self)
                       \<lparr>mq_cache := Some (mq_fresh self), mq_fresh := mq_fresh self + 1\<rparr>
           | Some _ \<Rightarrow> self);
         c \<leftarrow> mq_cache self;
         ch \<leftarrow> mq_heap self (mq_out_chunk self);
         let self = set_heap (mq_out_chunk self) (Some (ch\<lparr>mc_next := Some c\<rparr>)) self;
         Some (self\<lparr>mq_out_chunk := c, mq_cache := None, mq_out_pos := 0\<rparr>, Inr ()) }
       else Some (self, Inr ()) })"

definition nn_msgqueue_recv :: "nn_msgqueue \<Rightarrow> (nn_msgqueue \<times> (errno + nn_msg)) option" where
  "nn_msgqueue_recv self =
    (if mq_count self = 0 then Some (self, Inl EAGAIN)
     else do {
       ch \<leftarrow> mq_heap self (mq_in_chunk self);
       nn_assert (mq_in_pos self < NN_MSGQUEUE_GRANULARITY);
       let msg = mc_msgs ch ! mq_in_pos self;
       let self = self\<lparr>mq_in_pos := mq_in_pos self + 1\<rparr>;
       self \<leftarrow> (if mq_in_pos self = NN_MSGQUEUE_GRANULARITY then do {
           let ptr = mq_in_chunk self;
           nxt \<leftarrow> mc_next ch;
           let self = self\<lparr>mq_in_chunk := nxt, mq_in_pos := 0\<rparr>;
           Some (case mq_cache self of None \<Rightarrow> self\<lparr>mq_cache := Some ptr\<rparr> | Some _ \<Rightarrow> set_heap ptr None self) }
         else Some self);
       Some (self\<lparr>mq_count := mq_count self - 1, mq_mem := mq_mem self - msg_size msg\<rparr>, Inr msg) })"

text \<open>The loop of \<open>nn_msgqueue_term\<close> that drops the messages.\<close>

partial_function (option) msgqueue_drain :: "nn_msgqueue \<Rightarrow> nn_msgqueue option" where
  "msgqueue_drain self = do {
     (self, r) \<leftarrow> nn_msgqueue_recv self;
     (case r of Inl e \<Rightarrow> (if e = EAGAIN then Some self else None) | Inr _ \<Rightarrow> msgqueue_drain self) }"

definition nn_msgqueue_term :: "nn_msgqueue \<Rightarrow> nn_msgqueue option" where
  "nn_msgqueue_term self = do {
     self \<leftarrow> msgqueue_drain self;
     nn_assert (mq_in_chunk self = mq_out_chunk self);
     let self = set_heap (mq_in_chunk self) None self;
     Some (case mq_cache self of None \<Rightarrow> self | Some c \<Rightarrow> set_heap c None self) }"

section \<open>Representation\<close>

definition chunk_wf :: "nn_msgqueue \<Rightarrow> nat \<Rightarrow> bool" where
  "chunk_wf q c \<longleftrightarrow> c < mq_fresh q \<and> (case mq_heap q c of None \<Rightarrow> False | Some ch \<Rightarrow> length (mc_msgs ch) = 126)"

fun chunk_path :: "(nat \<Rightarrow> nn_msgqueue_chunk option) \<Rightarrow> nat list \<Rightarrow> bool" where
  "chunk_path h [] = True"
| "chunk_path h [c] = True"
| "chunk_path h (c # d # cs) = (map_option mc_next (h c) = Some (Some d) \<and> chunk_path h (d # cs))"

definition chunk_msgs :: "(nat \<Rightarrow> nn_msgqueue_chunk option) \<Rightarrow> nat \<Rightarrow> nn_msg list" where
  "chunk_msgs h c = (case h c of None \<Rightarrow> [] | Some ch \<Rightarrow> mc_msgs ch)"

definition flat :: "(nat \<Rightarrow> nn_msgqueue_chunk option) \<Rightarrow> nat list \<Rightarrow> nn_msg list" where
  "flat h cs = concat (map (chunk_msgs h) cs)"

definition mq_chain :: "nn_msgqueue \<Rightarrow> nat list \<Rightarrow> nn_msg list \<Rightarrow> bool" where
  "mq_chain q cs xs \<longleftrightarrow> cs \<noteq> [] \<and> distinct cs \<and> hd cs = mq_in_chunk q \<and> last cs = mq_out_chunk q
     \<and> (\<forall>c \<in> set cs. chunk_wf q c) \<and> chunk_path (mq_heap q) cs
     \<and> mq_in_pos q < 126 \<and> mq_out_pos q < 126 \<and> mq_in_pos q \<le> 126 * (length cs - 1) + mq_out_pos q
     \<and> xs = drop (mq_in_pos q) (take (126 * (length cs - 1) + mq_out_pos q) (flat (mq_heap q) cs))
     \<and> (case mq_cache q of None \<Rightarrow> True | Some c \<Rightarrow> chunk_wf q c \<and> c \<notin> set cs)
     \<and> (\<forall>c. mq_heap q c \<noteq> None \<longrightarrow> c \<in> set cs \<or> mq_cache q = Some c)"

definition mq_rep :: "nn_msgqueue \<Rightarrow> nn_msg list \<Rightarrow> bool" where
  "mq_rep q xs \<longleftrightarrow> (\<exists>cs. mq_chain q cs xs) \<and> mq_count q = of_nat (length xs) \<and> length xs < 2 ^ 64
     \<and> mq_mem q = sum_list (map msg_size xs)"

lemma flat_simps [simp]: "flat h [] = []" "flat h (c # cs) = chunk_msgs h c @ flat h cs"
  "flat h (cs @ ds) = flat h cs @ flat h ds"
  by (simp_all add: flat_def)

lemma flat_length: "(\<And>c. c \<in> set cs \<Longrightarrow> length (chunk_msgs h c) = 126) \<Longrightarrow> length (flat h cs) = 126 * length cs"
  by (induction cs) auto

lemma flat_other: "c \<notin> set cs \<Longrightarrow> flat (h(c := v)) cs = flat h cs"
  by (induction cs) (auto simp: chunk_msgs_def)

lemma flat_cong: "(\<And>c. c \<in> set cs \<Longrightarrow> h c = h' c) \<Longrightarrow> flat h cs = flat h' cs"
  by (induction cs) (auto simp: chunk_msgs_def)

lemma drop_Cons_tl: "x # xs = drop n ys \<Longrightarrow> xs = drop (Suc n) ys"
  by (metis drop_Suc list.sel(3) tl_drop)

lemma take_Suc_update: "p < length xs \<Longrightarrow> take (Suc p) (xs[p := m]) = take p xs @ [m]"
  by (simp add: take_Suc_conv_app_nth)

lemma chunk_path_other: "c \<notin> set cs \<Longrightarrow> chunk_path (h(c := v)) cs = chunk_path h cs"
  by (induction h cs rule: chunk_path.induct) auto

lemma chunk_path_same_next:
  "chunk_path h cs \<Longrightarrow> h c = Some ch \<Longrightarrow> mc_next ch' = mc_next ch \<Longrightarrow> chunk_path (h(c \<mapsto> ch')) cs"
  by (induction h cs rule: chunk_path.induct) auto

lemma chunk_path_snoc:
  "chunk_path h (cs @ [c]) \<Longrightarrow> c \<notin> set cs \<Longrightarrow> map_option mc_next (h c) = Some (Some d) \<Longrightarrow> chunk_path h (cs @ [c, d])"
proof (induction h cs rule: chunk_path.induct)
  case (2 h b) then show ?case by simp
qed auto

lemma chunk_wf_msgs: "chunk_wf q c \<Longrightarrow> length (chunk_msgs (mq_heap q) c) = 126"
  by (auto simp: chunk_wf_def chunk_msgs_def split: option.splits)

lemma mq_chain_out:
  assumes "mq_chain q cs xs"
  obtains bs ch where "cs = bs @ [mq_out_chunk q]" "mq_out_chunk q \<notin> set bs" "mq_heap q (mq_out_chunk q) = Some ch"
    "length (mc_msgs ch) = 126" "length (flat (mq_heap q) bs) = 126 * length bs"
    "xs = drop (mq_in_pos q) (flat (mq_heap q) bs @ take (mq_out_pos q) (mc_msgs ch))"
    "mq_in_pos q \<le> 126 * length bs + mq_out_pos q"
proof -
  let ?o = "mq_out_chunk q"
  from assms have cs: "cs \<noteq> []" "distinct cs" "last cs = ?o" "\<And>c. c \<in> set cs \<Longrightarrow> chunk_wf q c"
    by (auto simp: mq_chain_def)
  then obtain bs where bs: "cs = bs @ [?o]" by (metis append_butlast_last_id)
  have nin: "?o \<notin> set bs" using cs(2) bs by simp
  obtain ch where ch: "mq_heap q ?o = Some ch" "length (mc_msgs ch) = 126"
    using cs(4) [of ?o] bs by (auto simp: chunk_wf_def split: option.splits)
  have len: "length (flat (mq_heap q) bs) = 126 * length bs"
    using flat_length chunk_wf_msgs cs(4) bs by (metis Un_iff set_append)
  have "chunk_msgs (mq_heap q) ?o = mc_msgs ch" using ch by (simp add: chunk_msgs_def)
  then have "xs = drop (mq_in_pos q) (flat (mq_heap q) bs @ take (mq_out_pos q) (mc_msgs ch))"
    "mq_in_pos q \<le> 126 * length bs + mq_out_pos q"
    using assms bs len by (auto simp: mq_chain_def)
  then show thesis using that bs nin ch len by blast
qed

text \<open>Writing a message when the last chunk has room after it.\<close>

lemma mq_chain_write:
  fixes m
  assumes ch: "mq_chain q cs xs" "mq_heap q (mq_out_chunk q) = Some c0" and pos: "mq_out_pos q + 1 < 126"
  defines "c1 \<equiv> c0\<lparr>mc_msgs := (mc_msgs c0)[mq_out_pos q := m]\<rparr>"
  shows "mq_chain (q\<lparr>mq_heap := (mq_heap q)(mq_out_chunk q \<mapsto> c1), mq_out_pos := mq_out_pos q + 1,
     mq_count := n, mq_mem := k\<rparr>) cs (xs @ [m])"
proof -
  let ?o = "mq_out_chunk q" and ?h = "(mq_heap q)(mq_out_chunk q \<mapsto> c1)"
  obtain bs c0' where o: "mq_heap q ?o = Some c0'" and
    bs': "cs = bs @ [?o]" "?o \<notin> set bs" "length (mc_msgs c0') = 126" "length (flat (mq_heap q) bs) = 126 * length bs"
      "xs = drop (mq_in_pos q) (flat (mq_heap q) bs @ take (mq_out_pos q) (mc_msgs c0'))"
      "mq_in_pos q \<le> 126 * length bs + mq_out_pos q" by (rule mq_chain_out [OF ch(1)])
  have "c0' = c0" using o ch(2) by simp
  note bs = bs' [unfolded this]
  have fl: "flat ?h cs = flat (mq_heap q) bs @ mc_msgs c1"
    using bs(1,2) by (simp add: flat_other chunk_msgs_def)
  have "take (126 * (length cs - 1) + (mq_out_pos q + 1)) (flat ?h cs)
      = (flat (mq_heap q) bs @ take (mq_out_pos q) (mc_msgs c0)) @ [m]"
    unfolding fl using bs(1,3,4) pos by (simp add: c1_def take_Suc_update)
  then have "xs @ [m] = drop (mq_in_pos q) (take (126 * (length cs - 1) + (mq_out_pos q + 1)) (flat ?h cs))"
    using bs(3-6) pos by simp
  moreover have "chunk_path ?h cs"
    using ch chunk_path_same_next [of "mq_heap q" cs ?o c0 c1] by (simp add: mq_chain_def c1_def)
  moreover have "chunk_wf (q\<lparr>mq_heap := ?h, mq_out_pos := p, mq_count := n, mq_mem := k\<rparr>) c = chunk_wf q c" for c p
    using ch(2) bs(3) by (auto simp: chunk_wf_def c1_def)
  ultimately show ?thesis using ch pos bs(6) by (auto simp: mq_chain_def split: option.splits)
qed

text \<open>Linking a fresh last chunk once the written one is full.\<close>

lemma mq_chain_extend:
  fixes m
  assumes ch: "mq_chain q cs xs" "mq_heap q (mq_out_chunk q) = Some c0" and pos: "mq_out_pos q + 1 = 126"
    and d: "d < f" "mq_fresh q \<le> f" "h d = Some dc" "length (mc_msgs dc) = 126" "d \<notin> set cs"
    and h: "\<And>c. c \<noteq> d \<Longrightarrow> h c = mq_heap q c" "\<And>c. mq_cache q = Some c \<Longrightarrow> c = d"
  defines "c1 \<equiv> c0\<lparr>mc_msgs := (mc_msgs c0)[mq_out_pos q := m], mc_next := Some d\<rparr>"
  shows "mq_chain (q\<lparr>mq_heap := h(mq_out_chunk q \<mapsto> c1), mq_fresh := f, mq_out_chunk := d, mq_out_pos := 0,
     mq_cache := None, mq_count := n, mq_mem := k\<rparr>) (cs @ [d]) (xs @ [m])"
proof -
  let ?o = "mq_out_chunk q" and ?h = "h(mq_out_chunk q \<mapsto> c1)"
  let ?q = "q\<lparr>mq_heap := ?h, mq_fresh := f, mq_out_chunk := d, mq_out_pos := 0, mq_cache := None, mq_count := n, mq_mem := k\<rparr>"
  obtain bs c0' where o: "mq_heap q ?o = Some c0'" and
    bs': "cs = bs @ [?o]" "?o \<notin> set bs" "length (mc_msgs c0') = 126" "length (flat (mq_heap q) bs) = 126 * length bs"
      "xs = drop (mq_in_pos q) (flat (mq_heap q) bs @ take (mq_out_pos q) (mc_msgs c0'))"
      "mq_in_pos q \<le> 126 * length bs + mq_out_pos q" by (rule mq_chain_out [OF ch(1)])
  have "c0' = c0" using o ch(2) by simp
  note bs = bs' [unfolded this]
  have od: "?o \<noteq> d" "?o \<in> set cs" using d(5) bs(1) by auto
  have fb: "flat ?h bs = flat (mq_heap q) bs"
  proof (rule flat_cong)
    fix c assume "c \<in> set bs"
    then show "?h c = mq_heap q c" using bs(1,2) d(5) h(1) [of c] by auto
  qed
  have fl: "flat ?h (cs @ [d]) = flat (mq_heap q) bs @ mc_msgs c1 @ mc_msgs dc"
    using bs(1) fb od d(3) by (simp add: chunk_msgs_def)
  have m1: "mc_msgs c1 = take (mq_out_pos q) (mc_msgs c0) @ [m]"
    using bs(3) pos take_Suc_update [of "mq_out_pos q" "mc_msgs c0" m] by (simp add: c1_def)
  have len1: "length (mc_msgs c1) = 126" using bs(3) by (simp add: c1_def)
  have "take (126 * (length (cs @ [d]) - 1) + 0) (flat ?h (cs @ [d])) = flat (mq_heap q) bs @ mc_msgs c1"
    unfolding fl using bs(1,4) len1 by simp
  then have "xs @ [m] = drop (mq_in_pos q) (take (126 * (length (cs @ [d]) - 1) + 0) (flat ?h (cs @ [d])))"
    using bs(3-6) pos m1 by simp
  moreover have "chunk_path ?h (cs @ [d])"
  proof -
    have "chunk_path (mq_heap q) cs" using ch(1) by (simp add: mq_chain_def)
    then have "chunk_path h cs"
      using d(5) h(1) by (induction "mq_heap q" cs rule: chunk_path.induct) auto
    then have "chunk_path (h(?o \<mapsto> c1)) (bs @ [?o])" unfolding bs(1)
      using bs(2) by (induction h "bs @ [?o]" arbitrary: bs rule: chunk_path.induct) (auto simp: append_eq_Cons_conv Cons_eq_append_conv)
    then show ?thesis using chunk_path_snoc [of ?h bs ?o d] bs(1,2) by (simp add: c1_def)
  qed
  moreover have "chunk_wf ?q c" if "c \<in> set (cs @ [d])" for c
    using that ch(1) d(1-5) h(1) len1 by (cases "c = d"; cases "c = ?o") (auto simp: mq_chain_def chunk_wf_def)
  moreover have "\<forall>c. ?h c \<noteq> None \<longrightarrow> c \<in> set (cs @ [d])"
    using ch(1) h od(2) by (auto simp: mq_chain_def) metis
  moreover have "hd (cs @ [d]) = mq_in_chunk q" using ch(1) by (simp add: mq_chain_def)
  moreover have "distinct (cs @ [d])" "mq_in_pos q < 126" "mq_in_pos q \<le> 126 * length cs"
    using ch(1) d(5) bs(1,6) pos by (auto simp: mq_chain_def)
  ultimately show ?thesis by (simp add: mq_chain_def)
qed

lemma mq_chain_read:
  assumes "mq_chain q cs (x # xs)" and "mq_in_pos q + 1 < 126"
  shows "mq_chain (q\<lparr>mq_in_pos := mq_in_pos q + 1, mq_count := n, mq_mem := k\<rparr>) cs xs"
proof -
  let ?n = "126 * (length cs - 1) + mq_out_pos q"
  have eq: "x # xs = drop (mq_in_pos q) (take ?n (flat (mq_heap q) cs))" using assms(1) by (simp add: mq_chain_def)
  then have "mq_in_pos q < ?n" by (cases "mq_in_pos q < ?n") auto
  moreover have "xs = drop (mq_in_pos q + 1) (take ?n (flat (mq_heap q) cs))"
    using drop_Cons_tl [OF eq] by simp
  ultimately show ?thesis using assms by (auto simp: mq_chain_def chunk_wf_def split: option.splits)
qed

text \<open>Reading the last slot of the first chunk: the chunk becomes the spare one or is freed.\<close>

lemma mq_chain_advance:
  assumes "mq_chain q cs (x # xs)" and "mq_in_pos q + 1 = 126"
  obtains ch d rest where "cs = mq_in_chunk q # d # rest" "mq_heap q (mq_in_chunk q) = Some ch" "mc_next ch = Some d"
    "mq_cache q = None \<longrightarrow> mq_chain (q\<lparr>mq_in_chunk := d, mq_in_pos := 0, mq_cache := Some (mq_in_chunk q),
       mq_count := n, mq_mem := k\<rparr>) (d # rest) xs"
    "mq_cache q \<noteq> None \<longrightarrow> mq_chain (q\<lparr>mq_in_chunk := d, mq_in_pos := 0, mq_heap := (mq_heap q)(mq_in_chunk q := None),
       mq_count := n, mq_mem := k\<rparr>) (d # rest) xs"
proof -
  let ?i = "mq_in_chunk q" and ?n = "126 * (length cs - 1) + mq_out_pos q"
  have eq: "x # xs = drop 125 (take ?n (flat (mq_heap q) cs))" using assms by (simp add: mq_chain_def)
  then have n: "125 < ?n" by (cases "125 < ?n") auto
  moreover have "mq_out_pos q < 126" "cs \<noteq> []" using assms by (auto simp: mq_chain_def)
  ultimately have "length cs \<noteq> 1" by auto
  with \<open>cs \<noteq> []\<close> obtain c d rest where "cs = c # d # rest" by (metis length_Cons list.exhaust list.size(3) One_nat_def)
  moreover have "hd cs = ?i" using assms by (simp add: mq_chain_def)
  ultimately have cs: "cs = ?i # d # rest" by simp
  obtain ch where ch: "mq_heap q ?i = Some ch" "mc_next ch = Some d" "length (mc_msgs ch) = 126"
    using assms(1) unfolding mq_chain_def cs by (auto simp: chunk_wf_def)
  let ?r = "126 * length rest + mq_out_pos q"
  have "xs = drop 126 (take ?n (flat (mq_heap q) cs))"
    using drop_Cons_tl [OF eq] by simp
  also have "\<dots> = take ?r (flat (mq_heap q) (d # rest))"
    using ch(3) by (simp add: cs chunk_msgs_def ch(1) drop_take)
  finally have xs: "xs = take ?r (flat (mq_heap q) (d # rest))" .
  have d: "?i \<notin> set (d # rest)" "distinct (d # rest)" using assms(1) by (auto simp: mq_chain_def cs)
  have fl: "flat ((mq_heap q)(?i := None)) (d # rest) = flat (mq_heap q) (d # rest)"
    "chunk_path ((mq_heap q)(?i := None)) (d # rest) = chunk_path (mq_heap q) (d # rest)"
    using d(1) flat_other chunk_path_other by blast+
  have p: "chunk_path (mq_heap q) (d # rest)" "last (d # rest) = mq_out_chunk q" "\<forall>c \<in> set (d # rest). chunk_wf q c"
    "chunk_wf q ?i" using assms(1) by (auto simp: mq_chain_def cs)
  show thesis
  proof (rule that [OF cs ch(1,2)]; rule impI)
    assume "mq_cache q = None"
    then show "mq_chain (q\<lparr>mq_in_chunk := d, mq_in_pos := 0, mq_cache := Some (mq_in_chunk q),
       mq_count := n, mq_mem := k\<rparr>) (d # rest) xs"
      using assms(1) xs p d by (auto simp: mq_chain_def cs chunk_wf_def)
  next
    assume "mq_cache q \<noteq> None"
    then show "mq_chain (q\<lparr>mq_in_chunk := d, mq_in_pos := 0, mq_heap := (mq_heap q)(mq_in_chunk q := None),
       mq_count := n, mq_mem := k\<rparr>) (d # rest) xs"
      using assms(1) xs p d fl unfolding mq_chain_def cs by (auto simp: chunk_wf_def split: option.splits)
  qed
qed

section \<open>Operations on the representation\<close>

lemma mq_rep_init: "mq_rep (nn_msgqueue_init junk maxmem) []"
proof -
  have "mq_chain (nn_msgqueue_init junk maxmem) [0] []"
    by (simp add: mq_chain_def nn_msgqueue_init_def chunk_wf_def new_chunk_def NN_MSGQUEUE_GRANULARITY_def)
  then show ?thesis by (auto simp: mq_rep_def nn_msgqueue_init_def)
qed

lemma mq_rep_count: "mq_rep q xs \<Longrightarrow> unat (mq_count q) = length xs"
  by (simp add: mq_rep_def unat_of_nat)

lemma mq_rep_empty: "mq_rep q xs \<Longrightarrow> nn_msgqueue_empty q = (xs = [])"
  using mq_rep_count [of q xs] by (auto simp: nn_msgqueue_empty_def unat_eq_0)

lemma mq_rep_pos: "mq_rep q xs \<Longrightarrow> (mq_count q > 0) = (xs \<noteq> [])"
  using mq_rep_empty [of q xs] by (auto simp: nn_msgqueue_empty_def word_gt_0)

text \<open>The queue is full when it holds a message and the new one would reach the limit.\<close>

definition mq_full :: "nn_msgqueue \<Rightarrow> nn_msg \<Rightarrow> bool" where
  "mq_full q m \<longleftrightarrow> \<not> nn_msgqueue_empty q \<and> mq_mem q + msg_size m \<ge> mq_maxmem q"

lemma nn_msgqueue_send_full: "mq_full q m \<Longrightarrow> nn_msgqueue_send junk q m = Some (q, Inl EAGAIN)"
  by (auto simp: nn_msgqueue_send_def mq_full_def nn_msgqueue_empty_def word_gt_0)

lemma nn_msgqueue_send_ok:
  assumes rep: "mq_rep q xs" and len: "length xs + 1 < 2 ^ 64" and room: "\<not> mq_full q m"
  shows "\<exists>q'. nn_msgqueue_send junk q m = Some (q', Inr ()) \<and> mq_rep q' (xs @ [m]) \<and> mq_maxmem q' = mq_maxmem q"
proof -
  from rep obtain cs where cs: "mq_chain q cs xs" by (auto simp: mq_rep_def)
  obtain c0 where c0: "mq_heap q (mq_out_chunk q) = Some c0" by (rule mq_chain_out [OF cs])
  have pos: "mq_out_pos q < 126" using cs by (simp add: mq_chain_def)
  have rep': "mq_rep q' (xs @ [m])" if "mq_chain q' ds (xs @ [m])" "mq_count q' = mq_count q + 1"
    "mq_mem q' = mq_mem q + msg_size m" for q' ds
    using that rep len by (auto simp: mq_rep_def)
  have guard: "\<not> (mq_count q > 0 \<and> mq_mem q + msg_size m \<ge> mq_maxmem q)"
    using room by (auto simp: mq_full_def nn_msgqueue_empty_def word_gt_0)
  note defs = nn_msgqueue_send_def Let_def set_heap_def NN_MSGQUEUE_GRANULARITY_def
  show ?thesis
  proof (cases "mq_out_pos q + 1 < 126")
    case True
    let ?q = "q\<lparr>mq_heap := (mq_heap q)(mq_out_chunk q \<mapsto> c0\<lparr>mc_msgs := (mc_msgs c0)[mq_out_pos q := m]\<rparr>),
      mq_out_pos := mq_out_pos q + 1, mq_count := mq_count q + 1, mq_mem := mq_mem q + msg_size m\<rparr>"
    have "nn_msgqueue_send junk q m = Some (?q, Inr ())" using guard True c0 by (cases q) (auto simp: defs)
    then show ?thesis using rep' [OF mq_chain_write [OF cs c0 True, where m = m]] by simp
  next
    case False
    then have full: "mq_out_pos q + 1 = 126" using pos by simp
    have o: "mq_out_chunk q \<in> set cs" using cs last_in_set by (fastforce simp: mq_chain_def)
    let ?c1 = "\<lambda>d. c0\<lparr>mc_msgs := (mc_msgs c0)[mq_out_pos q := m], mc_next := Some d\<rparr>"
    let ?q = "\<lambda>h f d. q\<lparr>mq_heap := h(mq_out_chunk q \<mapsto> ?c1 d), mq_fresh := f, mq_out_chunk := d, mq_out_pos := 0,
      mq_cache := None, mq_count := mq_count q + 1, mq_mem := mq_mem q + msg_size m\<rparr>"
    show ?thesis
    proof (cases "mq_cache q")
      case None
      let ?h = "(mq_heap q)(mq_fresh q \<mapsto> new_chunk junk)" and ?f = "mq_fresh q"
      have fresh: "?f \<notin> set cs" "mq_out_chunk q \<noteq> ?f" using cs o by (auto simp: mq_chain_def chunk_wf_def)
      have "length (mc_msgs (new_chunk junk)) = 126" by (simp add: new_chunk_def NN_MSGQUEUE_GRANULARITY_def)
      then have chain: "mq_chain (?q ?h (?f + 1) ?f) (cs @ [?f]) (xs @ [m])"
        using fresh None by (intro mq_chain_extend [OF cs c0 full, where dc = "new_chunk junk"]) auto
      have "nn_msgqueue_send junk q m = Some (?q ?h (?f + 1) ?f, Inr ())"
        using guard full None fresh(2) c0 by (cases q) (auto simp: defs fun_upd_twist)
      then show ?thesis using rep' [OF chain] by simp
    next
      case (Some d)
      then obtain dc where d: "d < mq_fresh q" "mq_heap q d = Some dc" "length (mc_msgs dc) = 126" "d \<notin> set cs"
        using cs by (auto simp: mq_chain_def chunk_wf_def split: option.splits)
      then have chain: "mq_chain (?q (mq_heap q) (mq_fresh q) d) (cs @ [d]) (xs @ [m])"
        using Some by (intro mq_chain_extend [OF cs c0 full, where dc = dc]) auto
      have "nn_msgqueue_send junk q m = Some (?q (mq_heap q) (mq_fresh q) d, Inr ())"
        using guard full Some c0 by (cases q) (auto simp: defs)
      then show ?thesis using rep' [OF chain] by simp
    qed
  qed
qed

lemma nn_msgqueue_recv_Nil: "mq_rep q [] \<Longrightarrow> nn_msgqueue_recv q = Some (q, Inl EAGAIN)"
  using mq_rep_empty [of q "[]"] by (simp add: nn_msgqueue_recv_def nn_msgqueue_empty_def)

lemma mq_rep_tl:
  assumes "mq_rep q (x # xs)" and "mq_chain q' ds xs" and "mq_count q' = mq_count q - 1"
    and "mq_mem q' = mq_mem q - msg_size x"
  shows "mq_rep q' xs"
  using assms by (auto simp: mq_rep_def)

lemma mq_chain_head:
  assumes "mq_chain q cs (x # xs)"
  obtains ch where "mq_heap q (mq_in_chunk q) = Some ch" "mc_msgs ch ! mq_in_pos q = x" "mq_in_pos q < 126"
proof -
  from assms obtain rest where cs: "cs = mq_in_chunk q # rest" by (cases cs) (auto simp: mq_chain_def)
  with assms obtain ch where ch: "mq_heap q (mq_in_chunk q) = Some ch" "length (mc_msgs ch) = 126"
    by (auto simp: mq_chain_def chunk_wf_def split: option.splits)
  let ?ys = "take (126 * (length cs - 1) + mq_out_pos q) (flat (mq_heap q) cs)"
  have p: "mq_in_pos q < 126" "x # xs = drop (mq_in_pos q) ?ys" using assms by (auto simp: mq_chain_def)
  then have lt: "mq_in_pos q < length ?ys" by (cases "mq_in_pos q < length ?ys") auto
  then have "x = ?ys ! mq_in_pos q" using p(2) by (metis Cons_nth_drop_Suc list.inject)
  also have "\<dots> = flat (mq_heap q) cs ! mq_in_pos q" using lt by simp
  also have "\<dots> = mc_msgs ch ! mq_in_pos q" using ch p(1) by (simp add: cs chunk_msgs_def nth_append)
  finally show thesis using that ch p(1) by simp
qed

lemma nn_msgqueue_recv_ok:
  assumes rep: "mq_rep q (x # xs)"
  shows "\<exists>q'. nn_msgqueue_recv q = Some (q', Inr x) \<and> mq_rep q' xs \<and> mq_maxmem q' = mq_maxmem q"
proof -
  from rep obtain cs where cs: "mq_chain q cs (x # xs)" by (auto simp: mq_rep_def)
  obtain ch where ch: "mq_heap q (mq_in_chunk q) = Some ch" "mc_msgs ch ! mq_in_pos q = x" "mq_in_pos q < 126"
    by (rule mq_chain_head [OF cs])
  have cnt: "mq_count q \<noteq> 0" using mq_rep_empty [OF rep] by (simp add: nn_msgqueue_empty_def)
  let ?n = "mq_count q - 1" and ?k = "mq_mem q - msg_size x"
  note defs = nn_msgqueue_recv_def Let_def set_heap_def NN_MSGQUEUE_GRANULARITY_def
  show ?thesis
  proof (cases "mq_in_pos q + 1 < 126")
    case True
    let ?q = "q\<lparr>mq_in_pos := mq_in_pos q + 1, mq_count := ?n, mq_mem := ?k\<rparr>"
    have "nn_msgqueue_recv q = Some (?q, Inr x)" using True cnt ch by (cases q) (auto simp: defs)
    then show ?thesis using mq_rep_tl [OF rep mq_chain_read [OF cs True]] by simp
  next
    case False
    then have last: "mq_in_pos q + 1 = 126" using ch(3) by simp
    obtain c d rest where "cs = mq_in_chunk q # d # rest" and c: "mq_heap q (mq_in_chunk q) = Some c" "mc_next c = Some d" and
      d: "mq_cache q = None \<longrightarrow> mq_chain (q\<lparr>mq_in_chunk := d, mq_in_pos := 0, mq_cache := Some (mq_in_chunk q),
           mq_count := ?n, mq_mem := ?k\<rparr>) (d # rest) xs"
        "mq_cache q \<noteq> None \<longrightarrow> mq_chain (q\<lparr>mq_in_chunk := d, mq_in_pos := 0,
           mq_heap := (mq_heap q)(mq_in_chunk q := None), mq_count := ?n, mq_mem := ?k\<rparr>) (d # rest) xs"
      by (rule mq_chain_advance [OF cs last, where n = ?n and k = ?k])
    have nxt: "mc_next ch = Some d" using c ch by simp
    show ?thesis
    proof (cases "mq_cache q")
      case None
      have "nn_msgqueue_recv q = Some (q\<lparr>mq_in_chunk := d, mq_in_pos := 0, mq_cache := Some (mq_in_chunk q),
           mq_count := ?n, mq_mem := ?k\<rparr>, Inr x)"
        using last cnt ch None nxt by (cases q) (auto simp: defs)
      then show ?thesis using mq_rep_tl [OF rep d(1) [rule_format, OF None]] by simp
    next
      case (Some e)
      have "nn_msgqueue_recv q = Some (q\<lparr>mq_in_chunk := d, mq_in_pos := 0,
           mq_heap := (mq_heap q)(mq_in_chunk q := None), mq_count := ?n, mq_mem := ?k\<rparr>, Inr x)"
        using last cnt ch Some nxt by (cases q) (auto simp: defs)
      then show ?thesis using mq_rep_tl [OF rep d(2) [rule_format]] Some by simp
    qed
  qed
qed

section \<open>The queue is first-in first-out\<close>

text \<open>Putting a message is refused when the queue is full (or holds \<open>2 ^ 64 - 1\<close> messages, which no
  memory can), taking one when it is empty.\<close>

definition msgqueue_put :: "nn_msg \<Rightarrow> nn_msgqueue \<Rightarrow> nn_msg \<Rightarrow> nn_msgqueue option" where
  "msgqueue_put junk q m = do {
     nn_assert (mq_count q \<noteq> - 1);
     (q, r) \<leftarrow> nn_msgqueue_send junk q m;
     (case r of Inl _ \<Rightarrow> None | Inr _ \<Rightarrow> Some q) }"

definition msgqueue_take :: "nn_msgqueue \<Rightarrow> (nn_msgqueue \<times> nn_msg) option" where
  "msgqueue_take q = do { (q, r) \<leftarrow> nn_msgqueue_recv q; (case r of Inl _ \<Rightarrow> None | Inr m \<Rightarrow> Some (q, m)) }"

lemma mq_rep_room:
  assumes "mq_rep q xs" and "mq_count q \<noteq> - 1"
  shows "length xs + 1 < 2 ^ 64"
proof (rule ccontr)
  assume "\<not> ?thesis"
  with assms(1) have "length xs = 2 ^ 64 - 1" by (simp add: mq_rep_def)
  then have "mq_count q = of_nat (2 ^ 64 - 1)" using assms(1) by (simp only: mq_rep_def)
  then show False using assms(2) by simp
qed

interpretation mq: fifo mq_rep "msgqueue_put junk" msgqueue_take nn_msgqueue_empty for junk
proof (unfold_locales, goal_cases)
  case (1 q xs m q')
  then have "mq_count q \<noteq> -1" "\<not> mq_full q m"
    by (auto simp: msgqueue_put_def nn_msgqueue_send_full)
  then show ?case
    using nn_msgqueue_send_ok [OF 1(1) mq_rep_room [OF 1(1)], of m junk] 1(2) by (auto simp: msgqueue_put_def)
next
  case (2 q)
  then show ?case by (simp add: msgqueue_take_def nn_msgqueue_recv_Nil)
next
  case (3 q x xs)
  then show ?case using nn_msgqueue_recv_ok [of q x xs] by (auto simp: msgqueue_take_def)
next
  case (4 q xs)
  then show ?case by (rule mq_rep_empty)
qed

section \<open>Termination of the queue\<close>

lemma msgqueue_drain_ok: "mq_rep q xs \<Longrightarrow> \<exists>q'. msgqueue_drain q = Some q' \<and> mq_rep q' []"
proof (induction xs arbitrary: q)
  case Nil
  then show ?case by (subst msgqueue_drain.simps) (simp add: nn_msgqueue_recv_Nil)
next
  case (Cons x xs)
  from nn_msgqueue_recv_ok [OF Cons.prems] obtain q1 where "nn_msgqueue_recv q = Some (q1, Inr x)" "mq_rep q1 xs"
    by blast
  with Cons.IH [of q1] show ?case by (subst msgqueue_drain.simps) simp
qed

text \<open>An empty queue has one chunk, so the assertion of \<open>nn_msgqueue_term\<close> holds and every chunk is freed.\<close>

lemma mq_chain_Nil:
  assumes "mq_chain q cs []"
  shows "cs = [mq_in_chunk q]" and "mq_out_chunk q = mq_in_chunk q"
proof -
  let ?n = "126 * (length cs - 1) + mq_out_pos q"
  have "length (flat (mq_heap q) cs) = 126 * length cs"
    using assms by (intro flat_length chunk_wf_msgs) (simp add: mq_chain_def)
  moreover have "cs \<noteq> []" "mq_out_pos q < 126" "mq_in_pos q < 126" "[] = drop (mq_in_pos q) (take ?n (flat (mq_heap q) cs))"
    using assms by (auto simp: mq_chain_def)
  ultimately have "min (126 * length cs) ?n < 126" "0 < length cs" by auto
  then have "length cs = 1" by arith
  then show "cs = [mq_in_chunk q]" using assms by (cases cs) (auto simp: mq_chain_def)
  then show "mq_out_chunk q = mq_in_chunk q" using assms by (simp add: mq_chain_def)
qed

lemma nn_msgqueue_term_ok:
  assumes "mq_rep q xs"
  shows "\<exists>q'. nn_msgqueue_term q = Some q' \<and> (\<forall>c. mq_heap q' c = None)"
proof -
  from msgqueue_drain_ok [OF assms] obtain q1 cs where q1: "msgqueue_drain q = Some q1" "mq_chain q1 cs []"
    by (auto simp: mq_rep_def)
  note one = mq_chain_Nil [OF q1(2)]
  have "\<forall>c. mq_heap q1 c \<noteq> None \<longrightarrow> c = mq_in_chunk q1 \<or> mq_cache q1 = Some c"
    using q1(2) one(1) unfolding mq_chain_def by (metis empty_iff empty_set set_ConsD)
  then show ?thesis using q1(1) one(2)
    by (cases "mq_cache q1") (auto simp: nn_msgqueue_term_def set_heap_def)
qed

end
