(* ===== verification/Utils_Properties.thy ===== *)
theory Utils_Properties
  imports Wire Nn_List Nn_Queue Nn_Hash Msgqueue
begin

text \<open>
  Properties of the utility layer (\<open>utils/\<close> and the inproc message queue): the wire codecs, the intrusive
  list and queue, the hash table, the reference counted message buffers and the bounded message queue.
  Each theorem is followed, where it has hypotheses, by an instance on a concrete state.
\<close>

section \<open>Wire format\<close>

text \<open>C13: the codecs for 16, 32 and 64 bit integers. Writing a value succeeds exactly when the buffer has room for it,
  leaves the length and the rest of the buffer unchanged, and reading it back, whatever follows in the
  buffer, returns that value; a value that was read is what the buffer holds.\<close>

theorem wire_roundtrip:
  "(case nn_puts buf s of None \<Rightarrow> length buf < 2
      | Some b \<Rightarrow> length b = length buf \<and> drop 2 b = drop 2 buf \<and> nn_gets (b @ rest) = Some s)
   \<and> (case nn_putl buf l of None \<Rightarrow> length buf < 4
      | Some b \<Rightarrow> length b = length buf \<and> drop 4 b = drop 4 buf \<and> nn_getl (b @ rest) = Some l)
   \<and> (case nn_putll buf ll of None \<Rightarrow> length buf < 8
      | Some b \<Rightarrow> length b = length buf \<and> drop 8 b = drop 8 buf \<and> nn_getll (b @ rest) = Some ll)
   \<and> (case nn_gets buf of None \<Rightarrow> length buf < 2 | Some v \<Rightarrow> nn_puts buf v = Some buf)
   \<and> (case nn_getl buf of None \<Rightarrow> length buf < 4 | Some v \<Rightarrow> nn_putl buf v = Some buf)
   \<and> (case nn_getll buf of None \<Rightarrow> length buf < 8 | Some v \<Rightarrow> nn_putll buf v = Some buf)"
  by (intro conjI wire16.put_spec wire32.put_spec wire64.put_spec wire16.get_spec wire32.get_spec wire64.get_spec)

section \<open>Intrusive list and queue\<close>

text \<open>Inserting a free item before any position of a doubly linked list (also at the end, where the iterator is
  NULL) gives the list with the item at that position; erasing it returns the iterator to its successor, gives the
  old list back and leaves the item free for another list. Items outside the list are not touched.\<close>

theorem list_insert_erase:
  assumes "lrep h l (ys @ zs)" and "\<not> nn_list_item_isinlist h item"
  shows "\<exists>h1 l1 h2 l2. nn_list_insert h l item (head_ptr zs NULL) = Some (h1, l1) \<and> lrep h1 l1 (ys @ item # zs)
     \<and> nn_list_erase h1 l1 item = Some (h2, l2, head_ptr zs NULL) \<and> lrep h2 l2 (ys @ zs)
     \<and> \<not> nn_list_item_isinlist h2 item \<and> (\<forall>b. b \<notin> set (ys @ item # zs) \<longrightarrow> h1 b = h b \<and> h2 b = h b)"
proof -
  have "\<exists>h1 l1. nn_list_insert h l item (head_ptr zs NULL) = Some (h1, l1) \<and> lrep h1 l1 (ys @ item # zs)
      \<and> (\<forall>b. b \<notin> set (ys @ item # zs) \<longrightarrow> h1 b = h b)"
    using assms nn_list_insert_end [of h l ys item] nn_list_insert_before [of h l ys _ _ item]
    by (cases zs) fastforce+
  then obtain h1 l1 where 1: "nn_list_insert h l item (head_ptr zs NULL) = Some (h1, l1)"
    "lrep h1 l1 (ys @ item # zs)" "\<forall>b. b \<notin> set (ys @ item # zs) \<longrightarrow> h1 b = h b" by blast
  from nn_list_erase_split [OF 1(2)] obtain h2 l2 where 2: "nn_list_erase h1 l1 item = Some (h2, l2, head_ptr zs NULL)"
    "lrep h2 l2 (ys @ zs)" "\<not> nn_list_item_isinlist h2 item" "\<forall>b. b \<notin> set (ys @ item # zs) \<longrightarrow> h2 b = h1 b" by blast
  from 1 2 show ?thesis by (intro exI conjI) auto
qed

definition free_items :: list_heap where
  "free_items = (\<lambda>_. \<lparr>next_ptr = NN_LIST_NOTINLIST, prev_ptr = NN_LIST_NOTINLIST\<rparr>)"

theorem list_insert_erase_witness:
  "\<exists>h1 l1. nn_list_insert free_items nn_list_init 5 NULL = Some (h1, l1) \<and> lrep h1 l1 [5]"
  using list_insert_erase [of free_items nn_list_init "[]" "[]" 5] lrep_init
  by (auto simp: free_items_def nn_list_item_isinlist_def)

text \<open>The event queue is first in first out under every sequence of pushes and pops: what has been popped
  followed by what is still queued is what was queued at first followed by what was pushed.\<close>

theorem queue_fifo:
  assumes "qrep h q xs" and "run_ops (\<lambda>s. nn_queue_push (fst s) (snd s)) queue_take (h, q) ops = Some (s', out)"
  shows "\<exists>ys. qrep (fst s') (snd s') ys \<and> out @ ys = xs @ pushed ops"
  using evq.run_ops_order [OF _ assms(2)] assms(1) by simp

theorem queue_fifo_witness:
  "\<exists>s'. run_ops (\<lambda>s. nn_queue_push (fst s) (snd s)) queue_take (\<lambda>_. NN_QUEUE_NOTINQUEUE, nn_queue_init)
      [Push 3, Push 4, Pop] = Some (s', [3]) \<and> (\<exists>ys. qrep (fst s') (snd s') ys \<and> [3] @ ys = [3, 4])"
proof -
  obtain s' where s': "run_ops (\<lambda>s. nn_queue_push (fst s) (snd s)) queue_take (\<lambda>_. NN_QUEUE_NOTINQUEUE, nn_queue_init)
      [Push 3, Push 4, Pop] = Some (s', [3])"
    by (simp add: nn_queue_push_def nn_queue_init_def queue_take_def nn_queue_pop_def set_qnext_def Let_def)
  from queue_fifo [OF qrep_init this] s' show ?thesis by simp
qed

text \<open>Removing an item from the middle of the queue, as a cancelled event is, keeps the order of the others
  and releases the item; an item that is not queued is left alone.\<close>

theorem queue_remove:
  assumes "qrep h q xs" and "item \<in> set xs"
  shows "\<exists>h' q'. nn_queue_remove h q item = Some (h', q') \<and> qrep h' q' (remove1 item xs)
     \<and> \<not> nn_queue_item_isinqueue h' item"
  using nn_queue_remove_rep [OF assms] .

theorem queue_remove_witness:
  "\<exists>h' q'. nn_queue_remove ((\<lambda>_. NN_QUEUE_NOTINQUEUE)(3 := QItem 4, 4 := QNULL))
      \<lparr>q_head = QItem 3, q_tail = QItem 4\<rparr> 4 = Some (h', q') \<and> qrep h' q' [3]"
  using queue_remove [of "(\<lambda>_. NN_QUEUE_NOTINQUEUE)(3 := QItem 4, 4 := QNULL)" "\<lparr>q_head = QItem 3, q_tail = QItem 4\<rparr>"
      "[3, 4]" 4]
  by (auto simp: qrep_def)

section \<open>Hash table\<close>

definition free_store :: hash_store where
  "free_store = (\<lambda>_. \<lparr>hi_key = 0, hi_inlist = False\<rparr>)"

lemma free_store_inv: "hash_inv free_store nn_hash_init"
  by (rule hash_inv_init) (simp add: free_store_def)

lemma free_store_facts:
  "hash_room nn_hash_init" "nn_hash_get free_store nn_hash_init k = None" "\<not> hi_inlist (free_store it)"
  using nn_hash_get_iff [OF free_store_inv, of k]
  by (auto simp: hash_room_def nn_hash_init_def hash_members_def free_store_def)

text \<open>C36: the hash table is a finite map from keys to items. Inserting a free item under an absent key, with or without growing the table,
  changes the lookup at that key only. In the table that results, erasing any item, found under any key, removes that key
  and changes no other lookup, and leaves the erased item free and every other item as it was; erasing the item just inserted restores the old lookup.\<close>

theorem hash_insert_lookup_erase:
  assumes "hash_inv st h" and "hash_room h" and "nn_hash_get st h key = None" and "\<not> hi_inlist (st item)"
  shows "\<exists>st1 h1. nn_hash_insert st h key item = Some (st1, h1) \<and> hash_inv st1 h1
     \<and> nn_hash_get st1 h1 = (nn_hash_get st h)(key \<mapsto> item) \<and> (\<forall>j. j \<noteq> item \<longrightarrow> st1 j = st j)
     \<and> (\<forall>k it. nn_hash_get st1 h1 k = Some it \<longrightarrow> (\<exists>st2 h2. nn_hash_erase st1 h1 it = Some (st2, h2) \<and> hash_inv st2 h2
         \<and> nn_hash_get st2 h2 = (nn_hash_get st1 h1)(k := None)
         \<and> \<not> hi_inlist (st2 it) \<and> (\<forall>j. j \<noteq> it \<longrightarrow> st2 j = st1 j)))
     \<and> (nn_hash_get st1 h1)(key := None) = nn_hash_get st h"
proof -
  from nn_hash_insert_ok [OF assms] obtain st1 h1 where 1: "nn_hash_insert st h key item = Some (st1, h1)"
    "hash_inv st1 h1" "nn_hash_get st1 h1 = (nn_hash_get st h)(key \<mapsto> item)" "\<forall>j. j \<noteq> item \<longrightarrow> st1 j = st j" by blast
  have "(nn_hash_get st1 h1)(key := None) = nn_hash_get st h" using 1(3) assms(3) by (auto simp: fun_upd_idem)
  moreover have "\<exists>st2 h2. nn_hash_erase st1 h1 it = Some (st2, h2) \<and> hash_inv st2 h2
         \<and> nn_hash_get st2 h2 = (nn_hash_get st1 h1)(k := None)
         \<and> \<not> hi_inlist (st2 it) \<and> (\<forall>j. j \<noteq> it \<longrightarrow> st2 j = st1 j)" if "nn_hash_get st1 h1 k = Some it" for k it
  proof -
    from nn_hash_erase_ok [OF 1(2) that] obtain st2 h2 where "nn_hash_erase st1 h1 it = Some (st2, h2)" "hash_inv st2 h2"
      "nn_hash_get st2 h2 = (nn_hash_get st1 h1)(k := None)" "\<not> hi_inlist (st2 it)" "\<forall>j. j \<noteq> it \<longrightarrow> st2 j = st1 j" by auto
    then show ?thesis by (intro exI [of _ st2] exI [of _ h2] conjI)
  qed
  then have "\<forall>k it. nn_hash_get st1 h1 k = Some it \<longrightarrow> (\<exists>st2 h2. nn_hash_erase st1 h1 it = Some (st2, h2) \<and> hash_inv st2 h2
         \<and> nn_hash_get st2 h2 = (nn_hash_get st1 h1)(k := None)
         \<and> \<not> hi_inlist (st2 it) \<and> (\<forall>j. j \<noteq> it \<longrightarrow> st2 j = st1 j))" by (intro allI impI)
  ultimately show ?thesis using 1 by (intro exI [of _ st1] exI [of _ h1] conjI)
qed

theorem hash_insert_lookup_erase_witness:
  "\<exists>st1 h1 st2 h2. nn_hash_insert free_store nn_hash_init 7 2 = Some (st1, h1) \<and> nn_hash_get st1 h1 7 = Some 2
     \<and> nn_hash_erase st1 h1 2 = Some (st2, h2) \<and> nn_hash_get st2 h2 7 = None"
proof -
  from hash_insert_lookup_erase [OF free_store_inv free_store_facts, of 7 2] obtain st1 h1 where
    1: "nn_hash_insert free_store nn_hash_init 7 2 = Some (st1, h1)"
      "nn_hash_get st1 h1 = (nn_hash_get free_store nn_hash_init)(7 \<mapsto> 2)" and
    e: "\<forall>k it. nn_hash_get st1 h1 k = Some it \<longrightarrow> (\<exists>st2 h2. nn_hash_erase st1 h1 it = Some (st2, h2) \<and> hash_inv st2 h2
         \<and> nn_hash_get st2 h2 = (nn_hash_get st1 h1)(k := None)
         \<and> \<not> hi_inlist (st2 it) \<and> (\<forall>j. j \<noteq> it \<longrightarrow> st2 j = st1 j))" by (elim exE conjE) rule
  have g: "nn_hash_get st1 h1 7 = Some 2" unfolding 1(2) by simp
  from e [rule_format, OF g] obtain st2 h2 where "nn_hash_erase st1 h1 2 = Some (st2, h2)" "nn_hash_get st2 h2 7 = None" by auto
  with 1(1) g show ?thesis by (intro exI [of _ st1] exI [of _ h1] exI [of _ st2] exI [of _ h2] conjI)
qed

text \<open>Inserting under a key that is in use fails the assertion and aborts the process, whatever the item.\<close>

theorem hash_insert_duplicate_aborts:
  assumes "hash_inv st h" and "nn_hash_get st h key = Some it"
  shows "nn_hash_insert st h key item = None"
  using nnh.ins_dup [of "(st, h)" key it item] assms by simp

theorem hash_insert_duplicate_aborts_witness:
  "\<exists>st h. nn_hash_insert free_store nn_hash_init 7 2 = Some (st, h) \<and> nn_hash_insert st h 7 3 = None"
proof -
  from nn_hash_insert_ok [OF free_store_inv free_store_facts, of 7 2] obtain st h where
    1: "nn_hash_insert free_store nn_hash_init 7 2 = Some (st, h)" "hash_inv st h" "nn_hash_get st h 7 = Some 2" by auto
  from hash_insert_duplicate_aborts [OF 1(2,3), of 3] 1(1) show ?thesis by blast
qed

text \<open>Growing the table is invisible: after every item has been moved to its slot of the doubled array each key is
  found, or not found, as before.\<close>

theorem hash_rehash_lookup:
  assumes "hash_inv st h" and "h_slots h < 0x80000000"
  shows "nn_hash_get st (nn_hash_rehash st h) = nn_hash_get st h \<and> hash_inv st (nn_hash_rehash st h)
     \<and> h_slots (nn_hash_rehash st h) = 2 * h_slots h"
proof -
  have "set (hash_members (nn_hash_rehash st h)) = set (hash_members h)"
    using rehash_inv(2) [OF assms] by (metis set_mset_mset)
  then have "nn_hash_get st (nn_hash_rehash st h) k = nn_hash_get st h k" for k
    by (subst option_eq_iff_Some)
      (simp only: nn_hash_get_iff [OF assms(1)] nn_hash_get_iff [OF rehash_inv(1) [OF assms]] simp_thms)
  then show ?thesis using rehash_inv(1) [OF assms] by (auto simp: nn_hash_rehash_def Let_def)
qed

theorem hash_rehash_lookup_witness:
  "nn_hash_get free_store (nn_hash_rehash free_store nn_hash_init) = nn_hash_get free_store nn_hash_init"
  using hash_rehash_lookup [OF free_store_inv] by (simp add: nn_hash_init_def NN_HASH_INITIAL_SLOTS_def)

section \<open>Message buffers\<close>

fun term_all :: "chunk_heap \<Rightarrow> nn_msg_ref list \<Rightarrow> chunk_heap option" where
  "term_all H [] = Some H"
| "term_all H (m # ms) = do { H \<leftarrow> nn_msg_term H m; term_all H ms }"

lemma heap_inv_empty: "heap_inv H {#} \<Longrightarrow> chunks H = Map.empty"
  by (rule ext) (auto simp: heap_inv_def heap_inv_extra_def block_ok_def ref_count_def split: option.splits)

lemma term_all_ok: "heap_inv H (\<Sum>m \<leftarrow> ms. msg_refs m) \<Longrightarrow> \<exists>H'. term_all H ms = Some H' \<and> heap_inv H' {#}"
proof (induction ms arbitrary: H)
  case (Cons m ms)
  then obtain H1 where "nn_msg_term H m = Some H1" "heap_inv H1 (\<Sum>m \<leftarrow> ms. msg_refs m)"
    using nn_msg_term_ok [of H m "\<Sum>m \<leftarrow> ms. msg_refs m"] by auto
  with Cons.IH [of H1] show ?case by simp
qed simp

lemma sum_list_replicate_mset: "sum_list (replicate n R) = repeat_mset n R" for R :: "'a multiset"
  by (induction n) auto

lemma nn_msg_init_ok:
  assumes mal: "malloc_ok malloc" and inv: "heap_inv H R" and raw: "length raw = 31"
    and res: "nn_msg_init malloc H raw csize = Some (H', m)"
  shows "heap_inv H' (msg_refs m + R)"
proof -
  from res obtain H1 H2 s h b where 1: "nn_chunkref_init malloc H raw 0 = Some (H1, s)"
      "nn_chunkref_init malloc H1 raw 0 = Some (H2, h)" "nn_chunkref_init malloc H2 raw csize = Some (H', b)"
    and m: "m = \<lparr>r_sphdr = s, r_hdrs = h, r_body = b\<rparr>" by (auto simp: nn_msg_init_def bind_Some_iff)
  note i1 = nn_chunkref_init_ok(1) [OF mal inv raw 1(1)]
  note i2 = nn_chunkref_init_ok(1) [OF mal i1 raw 1(2)]
  show ?thesis using nn_chunkref_init_ok(1) [OF mal i2 raw 1(3)] m by (simp add: msg_refs_def add_mset_commute)
qed

text \<open>C37: reference counting of messages. Copying a message in bulk gives copies with the value of the original; when the
  original and every copy have been terminated, in that order, no buffer is left allocated and none was freed twice.\<close>

theorem msg_bulkcopy_no_leak:
  assumes "heap_inv H (msg_refs m)" and "3 + 3 * unat n < 2 ^ 32"
  shows "\<exists>H1 H2. nn_msg_bulkcopy_start H m n = Some H1 \<and> msg_value H1 m = msg_value H m
     \<and> msg_value H1 (nn_msg_bulkcopy_cp m) = msg_value H m
     \<and> term_all H1 (m # replicate (unat n) (nn_msg_bulkcopy_cp m)) = Some H2 \<and> chunks H2 = Map.empty"
proof -
  have "size (msg_refs m) = 3" by (simp add: msg_refs_def)
  with nn_msg_bulkcopy_ok [OF assms(1) subset_mset.order_refl, of n] assms(2) obtain H1 where
    1: "nn_msg_bulkcopy_start H m n = Some H1"
      "heap_inv H1 (msg_refs m + repeat_mset (unat n) (msg_refs (nn_msg_bulkcopy_cp m)))"
      "\<forall>q. nn_chunkref_data H1 q = nn_chunkref_data H q" by auto
  have cp: "nn_msg_bulkcopy_cp m = m" by (simp add: nn_msg_bulkcopy_cp_def nn_chunkref_bulkcopy_cp_def)
  have "heap_inv H1 (\<Sum>m \<leftarrow> m # replicate (unat n) (nn_msg_bulkcopy_cp m). msg_refs m)"
    using 1(2) by (simp add: sum_list_replicate_mset)
  from term_all_ok [OF this] obtain H2 where "term_all H1 (m # replicate (unat n) (nn_msg_bulkcopy_cp m)) = Some H2"
    "chunks H2 = Map.empty" using heap_inv_empty by auto
  moreover have "msg_value H1 m = msg_value H m" using 1(3) by (intro msg_value_cong) blast
  ultimately show ?thesis using 1(1) cp by auto
qed

text \<open>The C allocator, filling the block with zeroes.\<close>

definition zero_malloc :: malloc where
  "zero_malloc sz = Some (replicate (unat sz) 0)"

definition empty_heap :: chunk_heap where
  "empty_heap = \<lparr>chunks = Map.empty, next_block = 0\<rparr>"

lemma zero_malloc_ok: "malloc_ok zero_malloc"
  by (simp add: malloc_ok_def zero_malloc_def)

lemma empty_heap_inv: "heap_inv empty_heap {#}"
  by (simp add: heap_inv_def heap_inv_extra_def block_ok_def empty_heap_def)

lemma new_msg_ok:
  "\<exists>H m. nn_msg_init zero_malloc empty_heap (replicate 31 0) 40 = Some (H, m) \<and> heap_inv H (msg_refs m)"
proof -
  have "nn_msg_init zero_malloc empty_heap (replicate 31 0) 40 \<noteq> None"
    by code_simp
  then obtain H m where "nn_msg_init zero_malloc empty_heap (replicate 31 0) 40 = Some (H, m)" by auto
  with nn_msg_init_ok [OF zero_malloc_ok empty_heap_inv _ this] show ?thesis by auto
qed

theorem msg_bulkcopy_no_leak_witness:
  "\<exists>H m H1 H2. nn_msg_init zero_malloc empty_heap (replicate 31 0) 40 = Some (H, m)
     \<and> nn_msg_bulkcopy_start H m 2 = Some H1
     \<and> term_all H1 [m, nn_msg_bulkcopy_cp m, nn_msg_bulkcopy_cp m] = Some H2 \<and> chunks H2 = Map.empty"
proof -
  from new_msg_ok obtain H m where 1: "nn_msg_init zero_malloc empty_heap (replicate 31 0) 40 = Some (H, m)"
    "heap_inv H (msg_refs m)" by blast
  have "unat (2 :: u32) = Suc (Suc 0)" by code_simp
  then have "replicate (unat (2 :: u32)) (nn_msg_bulkcopy_cp m) = [nn_msg_bulkcopy_cp m, nn_msg_bulkcopy_cp m]"
    by (simp only: replicate.simps)
  with msg_bulkcopy_no_leak [OF 1(2), of 2] 1(1) show ?thesis by fastforce
qed

text \<open>Trimming a buffer that nobody shares. Removing \<open>n\<close> bytes from its front gives a pointer to the remaining
  bytes, keeps the reference counts exact and changes no other buffer.\<close>

theorem chunk_trim:
  assumes "heap_inv H (add_mset (Ref p) R)" and "ref_count (fst p) R = 0"
    and "nn_chunkref_data H (Ref p) = Some d" and "unat n \<le> length d" and "snd p + unat n < 2 ^ 32"
  shows "\<exists>H' p'. nn_chunk_trim H p n = Some (H', p') \<and> heap_inv H' (add_mset (Ref p') R)
     \<and> nn_chunkref_data H' (Ref p') = Some (drop (unat n) d)
     \<and> (\<forall>r \<in># R. nn_chunkref_data H' r = nn_chunkref_data H r)"
  using nn_chunk_trim_ok [OF assms] .

text \<open>A buffer of six bytes that one message refers to, and the same buffer with its first four bytes trimmed.\<close>

definition six_bytes :: nn_chunk where
  "six_bytes = \<lparr>c_refcount = 1, c_size = 6, c_mem = [0, 0, 0, 0, 0xde, 0xad, 0xca, 0xfe, 1, 2, 3, 4, 5, 6]\<rparr>"

definition two_bytes :: nn_chunk where
  "two_bytes = \<lparr>c_refcount = 1, c_size = 2, c_mem = [0, 0, 0, 0, 0, 0, 0, 4, 0xde, 0xad, 0xca, 0xfe, 5, 6]\<rparr>"

definition heap_of :: "nn_chunk \<Rightarrow> chunk_heap" where
  "heap_of ch = \<lparr>chunks = [0 \<mapsto> ch], next_block = 1\<rparr>"

lemma six_bytes_data: "nn_chunkref_data (heap_of six_bytes) (Ref (0, 8)) = Some [1, 2, 3, 4, 5, 6]"
  by code_simp

lemma six_bytes_inv: "heap_inv (heap_of six_bytes) {# Ref (0, 8) #}"
proof -
  have "mem_getl (c_mem six_bytes) 4 = Some NN_CHUNK_TAG" "mem_getl (c_mem six_bytes) 0 = Some 0" by code_simp+
  then have "chunk_ok six_bytes 8" by (simp add: chunk_ok_def) (simp add: six_bytes_def)
  then show ?thesis
    by (auto simp: heap_inv_def heap_inv_extra_def block_ok_def ref_count_def heap_of_def six_bytes_def split: option.splits)
qed

lemma six_bytes_trim: "nn_chunk_trim (heap_of six_bytes) (0, 8) 4 = Some (heap_of two_bytes, (0, 12))"
proof -
  have g: "nn_chunk_getptr (heap_of six_bytes) (0, 8) = Some six_bytes" by code_simp
  have p: "mem_putl (c_mem six_bytes) 8 NN_CHUNK_TAG = Some [0, 0, 0, 0, 0xde, 0xad, 0xca, 0xfe, 0xde, 0xad, 0xca, 0xfe, 5, 6]"
    "mem_putl [0, 0, 0, 0, 0xde, 0xad, 0xca, 0xfe, 0xde, 0xad, 0xca, 0xfe, 5, 6] 4 4 = Some (c_mem two_bytes)" by code_simp+
  have "4 \<le> c_size six_bytes" "unat (4 :: u64) = 4" by code_simp+
  then show ?thesis
    by (simp add: nn_chunk_trim_def g p Let_def) (simp add: heap_of_def six_bytes_def two_bytes_def set_chunk_def)
qed

theorem chunk_trim_witness:
  "\<exists>H' p'. nn_chunk_trim (heap_of six_bytes) (0, 8) 4 = Some (H', p') \<and> nn_chunkref_data H' (Ref p') = Some [5, 6]"
proof -
  have n: "unat (4 :: u64) = 4" by code_simp
  have "ref_count (fst (0 :: nat, 8 :: nat)) {#} = 0" "unat (4 :: u64) \<le> length [1, 2, 3, 4, 5, 6 :: u8]"
    "snd (0 :: nat, 8 :: nat) + unat (4 :: u64) < 2 ^ 32" by (simp_all add: ref_count_def n)
  from chunk_trim [OF six_bytes_inv this(1) six_bytes_data this(2,3)]
  have "\<exists>H' p'. nn_chunk_trim (heap_of six_bytes) (0, 8) 4 = Some (H', p')
      \<and> nn_chunkref_data H' (Ref p') = Some (drop 4 [1, 2, 3, 4, 5, 6])" unfolding n by blast
  then show ?thesis by (simp only: drop_Cons_numeral) simp
qed

text \<open>Reallocating a trimmed buffer is broken. The code takes the data to start right behind the chunk header and forgets
  the bytes that a trim has skipped: for a six byte buffer, trimmed by four bytes and then reallocated to
  its own size, the result is a pointer at which every further access fails the tag assertion.\<close>

theorem chunk_realloc_after_trim:
  "nn_chunk_trim (heap_of six_bytes) (0, 8) 4 = Some (heap_of two_bytes, (0, 12))
   \<and> nn_chunkref_data (heap_of two_bytes) (Ref (0, 12)) = Some [5, 6]
   \<and> (\<exists>H p. nn_chunk_realloc zero_malloc (heap_of two_bytes) 2 (0, 12) = Some (H, Inr p)
        \<and> nn_chunkref_data H (Ref p) = None \<and> nn_chunk_size H p = None \<and> nn_chunk_free H p = None)"
proof -
  let ?r = "nn_chunk_realloc zero_malloc (heap_of two_bytes) 2 (0, 12)"
  have "?r \<noteq> None" "\<not> isl (snd (the ?r))" by code_simp+
  then obtain H p where r: "?r = Some (H, Inr p)"
    by (metis option.collapse prod.collapse sum.collapse(2))
  have "nn_chunk_getptr (fst (the ?r)) (projr (snd (the ?r))) = None" by code_simp
  then have "nn_chunk_getptr H p = None" using r by simp
  moreover have "nn_chunkref_data (heap_of two_bytes) (Ref (0, 12)) = Some [5, 6]" by code_simp
  ultimately show ?thesis using r six_bytes_trim
    by (simp add: nn_chunkref_data_def nn_chunk_size_def nn_chunk_free_def)
qed

section \<open>The message queue of the inproc transport\<close>

text \<open>C35: the bounded message queue refines a list. A send refuses a message exactly when the queue is not empty
  and the message would reach the memory limit, and appends it otherwise; a receive takes the oldest
  message, or reports EAGAIN when there is none; termination frees every chunk of the queue.\<close>

theorem msgqueue_refines_list:
  assumes "mq_rep q xs" and "length xs + 1 < 2 ^ 64"
  shows "(if mq_full q m then nn_msgqueue_send junk q m = Some (q, Inl EAGAIN)
      else \<exists>q'. nn_msgqueue_send junk q m = Some (q', Inr ()) \<and> mq_rep q' (xs @ [m]))
   \<and> (case xs of [] \<Rightarrow> nn_msgqueue_recv q = Some (q, Inl EAGAIN)
      | x # xs' \<Rightarrow> \<exists>q'. nn_msgqueue_recv q = Some (q', Inr x) \<and> mq_rep q' xs')
   \<and> nn_msgqueue_empty q = (xs = []) \<and> (\<exists>q'. nn_msgqueue_term q = Some q' \<and> mq_heap q' = Map.empty)"
proof (intro conjI)
  show "if mq_full q m then nn_msgqueue_send junk q m = Some (q, Inl EAGAIN)
      else \<exists>q'. nn_msgqueue_send junk q m = Some (q', Inr ()) \<and> mq_rep q' (xs @ [m])"
    using nn_msgqueue_send_full [of q m junk] nn_msgqueue_send_ok [OF assms, of m junk] by auto
  show "case xs of [] \<Rightarrow> nn_msgqueue_recv q = Some (q, Inl EAGAIN)
      | x # xs' \<Rightarrow> \<exists>q'. nn_msgqueue_recv q = Some (q', Inr x) \<and> mq_rep q' xs'"
    using nn_msgqueue_recv_Nil [of q] nn_msgqueue_recv_ok [of q] assms(1) by (cases xs) fastforce+
  show "\<exists>q'. nn_msgqueue_term q = Some q' \<and> mq_heap q' = Map.empty"
    using nn_msgqueue_term_ok [OF assms(1)] by blast
qed (rule mq_rep_empty [OF assms(1)])

definition ping :: nn_msg where
  "ping = \<lparr>sphdr = [], hdrs = [], body = [0x70, 0x69]\<rparr>"

theorem msgqueue_refines_list_witness:
  "\<exists>q'. nn_msgqueue_send ping (nn_msgqueue_init ping 0) ping = Some (q', Inr ()) \<and> mq_rep q' [ping]"
  using msgqueue_refines_list [OF mq_rep_init, of ping 0 ping ping]
  by (simp add: mq_full_def nn_msgqueue_init_def nn_msgqueue_empty_def)

text \<open>Under every sequence of sends and receives that are not refused the message queue delivers the messages in
  the order of the sends, across chunk boundaries and chunk reuse: none is lost, duplicated or reordered.\<close>

theorem msgqueue_fifo:
  assumes "run_ops (msgqueue_put junk) msgqueue_take (nn_msgqueue_init junk maxmem) ops = Some (q, out)"
  shows "\<exists>ys. mq_rep q ys \<and> out @ ys = pushed ops"
  using mq.run_ops_order [OF mq_rep_init assms] by simp

theorem msgqueue_fifo_witness:
  "\<exists>q. run_ops (msgqueue_put ping) msgqueue_take (nn_msgqueue_init ping 1000) [Push ping, Push ping, Pop] = Some (q, [ping])
     \<and> mq_rep q [ping]"
proof -
  let ?r = "run_ops (msgqueue_put ping) msgqueue_take (nn_msgqueue_init ping 1000) [Push ping, Push ping, Pop]"
  have "map_option snd ?r = Some [ping]" by code_simp
  then obtain q where q: "?r = Some (q, [ping])" by auto
  from msgqueue_fifo [OF this] q show ?thesis by simp
qed

end
