(* ===== verification/Pipe.thy ===== *)
theory Pipe
  imports Nn_Chunk
begin

text \<open>
  The pipe between a socket and a transport (\<open>src/core/pipe.c\<close>) and the counters of the socket it
  belongs to (\<open>nn_sock_stat_increment\<close> of \<open>src/core/sock.c\<close>).

  A socket and its pipes run under one \<open>nn_ctx\<close> lock. The record \<open>world\<close> is what the lock
  protects from the protocol's point of view: the pipes, the pipe events that were raised and not
  processed yet (in the order of the context's queue, see \<open>Nn_Queue\<close>), the statistics, and the
  private state of the transport, of a type of the transport's choice. The virtual functions of a
  transport are a record of functions, like \<open>struct nn_pipebase_vfptr\<close>.

  The locale \<open>transport\<close> is the contract between \<open>nn_pipe_send\<close>/\<open>nn_pipe_recv\<close> and the virtual
  functions; what the protocols use of pipes is proved inside it. \<open>avail\<close> bounds how many messages the transport
  can still hand over on a pipe before it has to tell the socket again; receive loops end because
  each receive uses one of them up.
\<close>

section \<open>Statistics\<close>

datatype nn_stat = NN_STAT_ESTABLISHED_CONNECTIONS | NN_STAT_ACCEPTED_CONNECTIONS
  | NN_STAT_DROPPED_CONNECTIONS | NN_STAT_BROKEN_CONNECTIONS | NN_STAT_CONNECT_ERRORS
  | NN_STAT_BIND_ERRORS | NN_STAT_ACCEPT_ERRORS | NN_STAT_CURRENT_CONNECTIONS
  | NN_STAT_INPROGRESS_CONNECTIONS | NN_STAT_CURRENT_EP_ERRORS | NN_STAT_MESSAGES_SENT
  | NN_STAT_MESSAGES_RECEIVED | NN_STAT_BYTES_SENT | NN_STAT_BYTES_RECEIVED | NN_STAT_CURRENT_SND_PRIORITY

record nn_sock_stats =
  established_connections :: u64
  accepted_connections :: u64
  dropped_connections :: u64
  broken_connections :: u64
  connect_errors :: u64
  bind_errors :: u64
  accept_errors :: u64
  messages_sent :: u64
  messages_received :: u64
  bytes_sent :: u64
  bytes_received :: u64
  current_connections :: int
  inprogress_connections :: int
  current_snd_priority :: int
  current_ep_errors :: int

definition INT_MAX :: int where "INT_MAX = 2 ^ 31 - 1"

fun nn_sock_stat_increment :: "nn_sock_stats \<Rightarrow> nn_stat \<Rightarrow> int \<Rightarrow> nn_sock_stats option" where
  "nn_sock_stat_increment s NN_STAT_ESTABLISHED_CONNECTIONS i = do { nn_assert (i > 0);
     Some (s\<lparr>established_connections := established_connections s + of_int i\<rparr>) }"
| "nn_sock_stat_increment s NN_STAT_ACCEPTED_CONNECTIONS i = do { nn_assert (i > 0);
     Some (s\<lparr>accepted_connections := accepted_connections s + of_int i\<rparr>) }"
| "nn_sock_stat_increment s NN_STAT_DROPPED_CONNECTIONS i = do { nn_assert (i > 0);
     Some (s\<lparr>dropped_connections := dropped_connections s + of_int i\<rparr>) }"
| "nn_sock_stat_increment s NN_STAT_BROKEN_CONNECTIONS i = do { nn_assert (i > 0);
     Some (s\<lparr>broken_connections := broken_connections s + of_int i\<rparr>) }"
| "nn_sock_stat_increment s NN_STAT_CONNECT_ERRORS i = do { nn_assert (i > 0);
     Some (s\<lparr>connect_errors := connect_errors s + of_int i\<rparr>) }"
| "nn_sock_stat_increment s NN_STAT_BIND_ERRORS i = do { nn_assert (i > 0);
     Some (s\<lparr>bind_errors := bind_errors s + of_int i\<rparr>) }"
| "nn_sock_stat_increment s NN_STAT_ACCEPT_ERRORS i = do { nn_assert (i > 0);
     Some (s\<lparr>accept_errors := accept_errors s + of_int i\<rparr>) }"
| "nn_sock_stat_increment s NN_STAT_MESSAGES_SENT i = do { nn_assert (i > 0);
     Some (s\<lparr>messages_sent := messages_sent s + of_int i\<rparr>) }"
| "nn_sock_stat_increment s NN_STAT_MESSAGES_RECEIVED i = do { nn_assert (i > 0);
     Some (s\<lparr>messages_received := messages_received s + of_int i\<rparr>) }"
| "nn_sock_stat_increment s NN_STAT_BYTES_SENT i = do { nn_assert (i \<ge> 0);
     Some (s\<lparr>bytes_sent := bytes_sent s + of_int i\<rparr>) }"
| "nn_sock_stat_increment s NN_STAT_BYTES_RECEIVED i = do { nn_assert (i \<ge> 0);
     Some (s\<lparr>bytes_received := bytes_received s + of_int i\<rparr>) }"
| "nn_sock_stat_increment s NN_STAT_CURRENT_CONNECTIONS i = do {
     nn_assert (i > 0 \<or> current_connections s \<ge> - i);
     nn_assert (i < INT_MAX \<and> i > - INT_MAX);
     Some (s\<lparr>current_connections := current_connections s + i\<rparr>) }"
| "nn_sock_stat_increment s NN_STAT_INPROGRESS_CONNECTIONS i = do {
     nn_assert (i > 0 \<or> inprogress_connections s \<ge> - i);
     nn_assert (i < INT_MAX \<and> i > - INT_MAX);
     Some (s\<lparr>inprogress_connections := inprogress_connections s + i\<rparr>) }"
| "nn_sock_stat_increment s NN_STAT_CURRENT_SND_PRIORITY i = do {
     nn_assert ((i > 0 \<and> i \<le> 16) \<or> i = -1);
     Some (s\<lparr>current_snd_priority := i\<rparr>) }"
| "nn_sock_stat_increment s NN_STAT_CURRENT_EP_ERRORS i = do {
     nn_assert (i > 0 \<or> current_ep_errors s \<ge> - i);
     nn_assert (i < INT_MAX \<and> i > - INT_MAX);
     Some (s\<lparr>current_ep_errors := current_ep_errors s + i\<rparr>) }"

section \<open>Pipes\<close>

datatype pb_state = NN_PIPEBASE_STATE_IDLE | NN_PIPEBASE_STATE_ACTIVE | NN_PIPEBASE_STATE_FAILED

datatype pb_instate = NN_PIPEBASE_INSTATE_DEACTIVATED | NN_PIPEBASE_INSTATE_IDLE
  | NN_PIPEBASE_INSTATE_RECEIVING | NN_PIPEBASE_INSTATE_RECEIVED | NN_PIPEBASE_INSTATE_ASYNC

datatype pb_outstate = NN_PIPEBASE_OUTSTATE_DEACTIVATED | NN_PIPEBASE_OUTSTATE_IDLE
  | NN_PIPEBASE_OUTSTATE_SENDING | NN_PIPEBASE_OUTSTATE_SENT | NN_PIPEBASE_OUTSTATE_ASYNC

record nn_ep_options =
  sndprio :: int
  rcvprio :: int
  ipv4only :: int

record nn_pipebase =
  pb_state :: pb_state
  pb_instate :: pb_instate
  pb_outstate :: pb_outstate
  pb_options :: nn_ep_options

datatype pipe_event = NN_PIPE_IN | NN_PIPE_OUT

record 't world =
  w_pipes :: "pipe \<Rightarrow> nn_pipebase"
  w_events :: "(pipe \<times> pipe_event) list"
  w_stats :: nn_sock_stats
  w_trans :: 't

definition NN_PIPE_RELEASE :: u32 where "NN_PIPE_RELEASE = 1"
definition NN_PIPE_PARSED :: u32 where "NN_PIPE_PARSED = 2"

text \<open>A virtual function returns \<open>Inl\<close> for a negative result; \<open>nn_pipe_recv\<close> also yields the
  message that the C function stores through its pointer argument.\<close>

record 't nn_pipebase_vfptr =
  vf_send :: "'t world \<Rightarrow> pipe \<Rightarrow> nn_msg \<Rightarrow> ('t world \<times> (errno + u32)) option"
  vf_recv :: "'t world \<Rightarrow> pipe \<Rightarrow> ('t world \<times> (errno + u32 \<times> nn_msg)) option"

definition upd_pipe :: "pipe \<Rightarrow> (nn_pipebase \<Rightarrow> nn_pipebase) \<Rightarrow> 't world \<Rightarrow> 't world" where
  "upd_pipe p f w = w\<lparr>w_pipes := (w_pipes w)(p := f (w_pipes w p))\<rparr>"

text \<open>\<open>nn_fsm_raise\<close> on an event of the pipe: the event is linked at the end of the queue of the
  context, which asserts that it is not linked already.\<close>

definition nn_pipe_raise :: "'t world \<Rightarrow> pipe \<Rightarrow> pipe_event \<Rightarrow> 't world option" where
  "nn_pipe_raise w p ev = do {
     nn_assert ((p, ev) \<notin> set (w_events w));
     Some (w\<lparr>w_events := w_events w @ [(p, ev)]\<rparr>) }"

definition nn_pipebase_init :: "nn_ep_options \<Rightarrow> nn_pipebase" where
  "nn_pipebase_init opts = \<lparr>pb_state = NN_PIPEBASE_STATE_IDLE,
     pb_instate = NN_PIPEBASE_INSTATE_DEACTIVATED, pb_outstate = NN_PIPEBASE_OUTSTATE_DEACTIVATED,
     pb_options = opts\<rparr>"

text \<open>\<open>nn_fsm_event_term\<close> checks nothing, and the state machine embedded in a pipe is never started.\<close>

definition nn_pipebase_term :: "'t world \<Rightarrow> pipe \<Rightarrow> unit option" where
  "nn_pipebase_term w p = nn_assert (pb_state (w_pipes w p) = NN_PIPEBASE_STATE_IDLE)"

type_synonym ('t, 's) sock_add = "'t world \<Rightarrow> 's \<Rightarrow> pipe \<Rightarrow> ('t world \<times> 's \<times> (errno + unit)) option"
type_synonym ('t, 's) sock_fn = "'t world \<Rightarrow> 's \<Rightarrow> pipe \<Rightarrow> ('t world \<times> 's) option"

definition nn_pipebase_start ::
  "('t, 's) sock_add \<Rightarrow> 't world \<Rightarrow> 's \<Rightarrow> pipe \<Rightarrow> ('t world \<times> 's \<times> (errno + unit)) option" where
  "nn_pipebase_start nn_sock_add w s p = do {
     nn_assert (pb_state (w_pipes w p) = NN_PIPEBASE_STATE_IDLE);
     let w = upd_pipe p (\<lambda>b. b\<lparr>pb_state := NN_PIPEBASE_STATE_ACTIVE,
                               pb_instate := NN_PIPEBASE_INSTATE_ASYNC,
                               pb_outstate := NN_PIPEBASE_OUTSTATE_IDLE\<rparr>) w;
     (w, s, rc) \<leftarrow> nn_sock_add w s p;
     (case rc of
        Inl e \<Rightarrow> Some (upd_pipe p (\<lambda>b. b\<lparr>pb_state := NN_PIPEBASE_STATE_FAILED\<rparr>) w, s, Inl e)
      | Inr _ \<Rightarrow> do { w \<leftarrow> nn_pipe_raise w p NN_PIPE_OUT; Some (w, s, Inr ()) }) }"

definition nn_pipebase_stop :: "('t, 's) sock_fn \<Rightarrow> 't world \<Rightarrow> 's \<Rightarrow> pipe \<Rightarrow> ('t world \<times> 's) option" where
  "nn_pipebase_stop nn_sock_rm w s p = do {
     (w, s) \<leftarrow> (if pb_state (w_pipes w p) = NN_PIPEBASE_STATE_ACTIVE then nn_sock_rm w s p else Some (w, s));
     Some (upd_pipe p (\<lambda>b. b\<lparr>pb_state := NN_PIPEBASE_STATE_IDLE\<rparr>) w, s) }"

definition nn_pipebase_received :: "'t world \<Rightarrow> pipe \<Rightarrow> 't world option" where
  "nn_pipebase_received w p =
     (if pb_instate (w_pipes w p) = NN_PIPEBASE_INSTATE_RECEIVING
      then Some (upd_pipe p (\<lambda>b. b\<lparr>pb_instate := NN_PIPEBASE_INSTATE_RECEIVED\<rparr>) w)
      else do {
        nn_assert (pb_instate (w_pipes w p) = NN_PIPEBASE_INSTATE_ASYNC);
        nn_pipe_raise (upd_pipe p (\<lambda>b. b\<lparr>pb_instate := NN_PIPEBASE_INSTATE_IDLE\<rparr>) w) p NN_PIPE_IN })"

definition nn_pipebase_sent :: "'t world \<Rightarrow> pipe \<Rightarrow> 't world option" where
  "nn_pipebase_sent w p =
     (if pb_outstate (w_pipes w p) = NN_PIPEBASE_OUTSTATE_SENDING
      then Some (upd_pipe p (\<lambda>b. b\<lparr>pb_outstate := NN_PIPEBASE_OUTSTATE_SENT\<rparr>) w)
      else do {
        nn_assert (pb_outstate (w_pipes w p) = NN_PIPEBASE_OUTSTATE_ASYNC);
        nn_pipe_raise (upd_pipe p (\<lambda>b. b\<lparr>pb_outstate := NN_PIPEBASE_OUTSTATE_IDLE\<rparr>) w) p NN_PIPE_OUT })"

definition NN_SOL_SOCKET :: int where "NN_SOL_SOCKET = 0"
definition NN_SNDPRIO :: int where "NN_SNDPRIO = 8"
definition NN_RCVPRIO :: int where "NN_RCVPRIO = 9"
definition NN_IPV4ONLY :: int where "NN_IPV4ONLY = 14"
definition NN_RCVMAXSIZE :: int where "NN_RCVMAXSIZE = 16"

text \<open>The value stored in an \<open>int\<close>-sized buffer, and the size it reports. \<open>sock_getopt\<close> is
  \<open>nn_sock_getopt_inner\<close> of the socket the pipe belongs to.\<close>

definition nn_pipebase_getopt ::
  "(int \<Rightarrow> int \<Rightarrow> (errno + int \<times> nat)) \<Rightarrow> 't world \<Rightarrow> pipe \<Rightarrow> int \<Rightarrow> int \<Rightarrow> (int \<times> nat) option" where
  "nn_pipebase_getopt sock_getopt w p level opt =
    (let opts = pb_options (w_pipes w p);
         fallback = (case sock_getopt level opt of Inl _ \<Rightarrow> None | Inr v \<Rightarrow> Some v)
     in if level = NN_SOL_SOCKET then
          (if opt = NN_SNDPRIO then Some (sndprio opts, 4)
           else if opt = NN_RCVPRIO then Some (rcvprio opts, 4)
           else if opt = NN_IPV4ONLY then Some (ipv4only opts, 4)
           else fallback)
        else fallback)"

text \<open>The two options the protocols read; they never reach the socket's options.\<close>

definition pipe_prio :: "'t world \<Rightarrow> pipe \<Rightarrow> int \<Rightarrow> int option" where
  "pipe_prio w p opt = do {
     (v, sz) \<leftarrow> nn_pipebase_getopt (\<lambda>_ _. Inl ENOPROTOOPT) w p NN_SOL_SOCKET opt;
     nn_assert (sz = 4);
     nn_assert (v \<ge> 1 \<and> v \<le> 16);
     Some v }"

definition nn_pipe_send :: "'t nn_pipebase_vfptr \<Rightarrow> 't world \<Rightarrow> pipe \<Rightarrow> nn_msg \<Rightarrow> ('t world \<times> u32) option" where
  "nn_pipe_send vf w p msg = do {
     nn_assert (pb_outstate (w_pipes w p) = NN_PIPEBASE_OUTSTATE_IDLE);
     let w = upd_pipe p (\<lambda>b. b\<lparr>pb_outstate := NN_PIPEBASE_OUTSTATE_SENDING\<rparr>) w;
     (w, rc) \<leftarrow> vf_send vf w p msg;
     (case rc of
        Inl _ \<Rightarrow> None
      | Inr rc \<Rightarrow>
          if pb_outstate (w_pipes w p) = NN_PIPEBASE_OUTSTATE_SENT
          then Some (upd_pipe p (\<lambda>b. b\<lparr>pb_outstate := NN_PIPEBASE_OUTSTATE_IDLE\<rparr>) w, rc)
          else do {
            nn_assert (pb_outstate (w_pipes w p) = NN_PIPEBASE_OUTSTATE_SENDING);
            Some (upd_pipe p (\<lambda>b. b\<lparr>pb_outstate := NN_PIPEBASE_OUTSTATE_ASYNC\<rparr>) w, rc OR NN_PIPE_RELEASE) }) }"

definition nn_pipe_recv :: "'t nn_pipebase_vfptr \<Rightarrow> 't world \<Rightarrow> pipe \<Rightarrow> ('t world \<times> u32 \<times> nn_msg) option" where
  "nn_pipe_recv vf w p = do {
     nn_assert (pb_instate (w_pipes w p) = NN_PIPEBASE_INSTATE_IDLE);
     let w = upd_pipe p (\<lambda>b. b\<lparr>pb_instate := NN_PIPEBASE_INSTATE_RECEIVING\<rparr>) w;
     (w, rc) \<leftarrow> vf_recv vf w p;
     (case rc of
        Inl _ \<Rightarrow> None
      | Inr (rc, msg) \<Rightarrow>
          if pb_instate (w_pipes w p) = NN_PIPEBASE_INSTATE_RECEIVED
          then Some (upd_pipe p (\<lambda>b. b\<lparr>pb_instate := NN_PIPEBASE_INSTATE_IDLE\<rparr>) w, rc, msg)
          else do {
            nn_assert (pb_instate (w_pipes w p) = NN_PIPEBASE_INSTATE_RECEIVING);
            Some (upd_pipe p (\<lambda>b. b\<lparr>pb_instate := NN_PIPEBASE_INSTATE_ASYNC\<rparr>) w, rc OR NN_PIPE_RELEASE, msg) }) }"

section \<open>The transport contract\<close>

lemma upd_pipe_simps [simp]:
  "w_pipes (upd_pipe p f w) = (w_pipes w)(p := f (w_pipes w p))"
  "w_events (upd_pipe p f w) = w_events w"
  "w_stats (upd_pipe p f w) = w_stats w"
  "w_trans (upd_pipe p f w) = w_trans w"
  by (simp_all add: upd_pipe_def)

definition pipe_active :: "'t world \<Rightarrow> pipe \<Rightarrow> bool" where
  "pipe_active w p \<longleftrightarrow> pb_state (w_pipes w p) = NN_PIPEBASE_STATE_ACTIVE"

definition out_idle :: "'t world \<Rightarrow> pipe \<Rightarrow> bool" where
  "out_idle w p \<longleftrightarrow> pb_outstate (w_pipes w p) = NN_PIPEBASE_OUTSTATE_IDLE"

definition in_idle :: "'t world \<Rightarrow> pipe \<Rightarrow> bool" where
  "in_idle w p \<longleftrightarrow> pb_instate (w_pipes w p) = NN_PIPEBASE_INSTATE_IDLE"

text \<open>What sending on pipes of \<open>P\<close>, or receiving from them, may do to a world.\<close>

definition out_step :: "pipe set \<Rightarrow> 't world \<Rightarrow> 't world \<Rightarrow> bool" where
  "out_step P w w' \<longleftrightarrow> w_events w' = w_events w \<and> w_stats w' = w_stats w \<and>
     (\<forall>p. w_pipes w' p = w_pipes w p \<or> p \<in> P \<and>
        (\<exists>s \<in> {NN_PIPEBASE_OUTSTATE_IDLE, NN_PIPEBASE_OUTSTATE_ASYNC}.
           w_pipes w' p = (w_pipes w p)\<lparr>pb_outstate := s\<rparr>))"

definition in_step :: "pipe set \<Rightarrow> 't world \<Rightarrow> 't world \<Rightarrow> bool" where
  "in_step P w w' \<longleftrightarrow> w_events w' = w_events w \<and> w_stats w' = w_stats w \<and>
     (\<forall>p. w_pipes w' p = w_pipes w p \<or> p \<in> P \<and>
        (\<exists>s \<in> {NN_PIPEBASE_INSTATE_IDLE, NN_PIPEBASE_INSTATE_ASYNC}.
           w_pipes w' p = (w_pipes w p)\<lparr>pb_instate := s\<rparr>))"

lemma out_step_refl [simp, intro!]: "out_step P w w"
  by (simp add: out_step_def)

lemma in_step_refl [simp, intro!]: "in_step P w w"
  by (simp add: in_step_def)

lemma out_step_trans:
  assumes "out_step P w w1" and "out_step Q w1 w2"
  shows "out_step (P \<union> Q) w w2"
proof -
  have "w_pipes w2 p = w_pipes w p \<or> p \<in> P \<union> Q \<and>
      (\<exists>s \<in> {NN_PIPEBASE_OUTSTATE_IDLE, NN_PIPEBASE_OUTSTATE_ASYNC}.
         w_pipes w2 p = (w_pipes w p)\<lparr>pb_outstate := s\<rparr>)" for p
    using assms unfolding out_step_def by (elim conjE allE [of _ p]) auto
  then show ?thesis using assms by (simp add: out_step_def)
qed

lemma in_step_trans:
  assumes "in_step P w w1" and "in_step Q w1 w2"
  shows "in_step (P \<union> Q) w w2"
proof -
  have "w_pipes w2 p = w_pipes w p \<or> p \<in> P \<union> Q \<and>
      (\<exists>s \<in> {NN_PIPEBASE_INSTATE_IDLE, NN_PIPEBASE_INSTATE_ASYNC}.
         w_pipes w2 p = (w_pipes w p)\<lparr>pb_instate := s\<rparr>)" for p
    using assms unfolding in_step_def by (elim conjE allE [of _ p]) auto
  then show ?thesis using assms by (simp add: in_step_def)
qed

lemma out_step_facts:
  assumes "out_step P w w'"
  shows "w_events w' = w_events w" "w_stats w' = w_stats w" "pipe_active w' = pipe_active w" "in_idle w' = in_idle w"
    "p \<notin> P \<Longrightarrow> w_pipes w' p = w_pipes w p" "p \<notin> P \<Longrightarrow> out_idle w' p = out_idle w p"
    "pb_options (w_pipes w' q) = pb_options (w_pipes w q)"
    "pb_instate (w_pipes w' q) = pb_instate (w_pipes w q)"
proof -
  have "pb_state (w_pipes w' q) = pb_state (w_pipes w q) \<and> pb_instate (w_pipes w' q) = pb_instate (w_pipes w q)
      \<and> pb_options (w_pipes w' q) = pb_options (w_pipes w q)" for q
    using assms by (auto simp: out_step_def dest!: spec [of _ q])
  then show "pipe_active w' = pipe_active w" "in_idle w' = in_idle w"
    "pb_options (w_pipes w' q) = pb_options (w_pipes w q)"
    "pb_instate (w_pipes w' q) = pb_instate (w_pipes w q)"
    by (auto simp: fun_eq_iff pipe_active_def in_idle_def)
  show pq: "p \<notin> P \<Longrightarrow> w_pipes w' p = w_pipes w p"
    using assms unfolding out_step_def by blast
  show "p \<notin> P \<Longrightarrow> out_idle w' p = out_idle w p" using pq by (simp add: out_idle_def)
qed (use assms in \<open>simp_all add: out_step_def\<close>)

lemma in_step_facts:
  assumes "in_step P w w'"
  shows "w_events w' = w_events w" "w_stats w' = w_stats w" "pipe_active w' = pipe_active w" "out_idle w' = out_idle w"
    "p \<notin> P \<Longrightarrow> w_pipes w' p = w_pipes w p" "p \<notin> P \<Longrightarrow> in_idle w' p = in_idle w p"
    "pb_options (w_pipes w' q) = pb_options (w_pipes w q)"
    "pb_outstate (w_pipes w' q) = pb_outstate (w_pipes w q)"
proof -
  have "pb_state (w_pipes w' q) = pb_state (w_pipes w q) \<and> pb_outstate (w_pipes w' q) = pb_outstate (w_pipes w q)
      \<and> pb_options (w_pipes w' q) = pb_options (w_pipes w q)" for q
    using assms by (auto simp: in_step_def dest!: spec [of _ q])
  then show "pipe_active w' = pipe_active w" "out_idle w' = out_idle w"
    "pb_options (w_pipes w' q) = pb_options (w_pipes w q)"
    "pb_outstate (w_pipes w' q) = pb_outstate (w_pipes w q)"
    by (auto simp: fun_eq_iff pipe_active_def out_idle_def)
  show pq: "p \<notin> P \<Longrightarrow> w_pipes w' p = w_pipes w p"
    using assms unfolding in_step_def by blast
  show "p \<notin> P \<Longrightarrow> in_idle w' p = in_idle w p" using pq by (simp add: in_idle_def)
qed (use assms in \<open>simp_all add: in_step_def\<close>)

lemma release_nonzero [simp]: "NN_PIPE_RELEASE \<noteq> 0"
  by (simp add: NN_PIPE_RELEASE_def)

lemma release_flag [simp]:
  "(rc OR NN_PIPE_RELEASE) AND NN_PIPE_RELEASE \<noteq> 0"
  "(rc OR NN_PIPE_RELEASE) AND NOT NN_PIPE_RELEASE = rc AND NOT NN_PIPE_RELEASE"
proof -
  have "bit ((rc OR NN_PIPE_RELEASE) AND NN_PIPE_RELEASE) 0" by (simp add: NN_PIPE_RELEASE_def bit_simps)
  then show "(rc OR NN_PIPE_RELEASE) AND NN_PIPE_RELEASE \<noteq> 0" by (metis bit_0_eq bot_apply bot_bool_def)
  show "(rc OR NN_PIPE_RELEASE) AND NOT NN_PIPE_RELEASE = rc AND NOT NN_PIPE_RELEASE"
    by (rule bit_word_eqI) (auto simp: bit_simps)
qed

definition trans_ok :: "((pipe \<Rightarrow> nn_pipebase) \<Rightarrow> 't \<Rightarrow> bool) \<Rightarrow> 't world \<Rightarrow> bool" where
  "trans_ok tinv w \<longleftrightarrow> tinv (w_pipes w) (w_trans w)"

locale transport =
  fixes vf :: "'t nn_pipebase_vfptr"
    and tinv :: "(pipe \<Rightarrow> nn_pipebase) \<Rightarrow> 't \<Rightarrow> bool"
    and avail :: "'t \<Rightarrow> pipe \<Rightarrow> nat"
  assumes send_law: "tinv (w_pipes w) (w_trans w) \<Longrightarrow> pipe_active w p \<Longrightarrow> out_idle w p \<Longrightarrow>
      \<exists>w' rc s. vf_send vf (upd_pipe p (\<lambda>b. b\<lparr>pb_outstate := NN_PIPEBASE_OUTSTATE_SENDING\<rparr>) w) p m = Some (w', Inr rc)
        \<and> rc = 0 \<and> s \<in> {NN_PIPEBASE_OUTSTATE_SENDING, NN_PIPEBASE_OUTSTATE_SENT}
        \<and> w_pipes w' = w_pipes (upd_pipe p (\<lambda>b. b\<lparr>pb_outstate := s\<rparr>) w)
        \<and> w_events w' = w_events w \<and> w_stats w' = w_stats w
        \<and> tinv (w_pipes (upd_pipe p (\<lambda>b. b\<lparr>pb_outstate := (if s = NN_PIPEBASE_OUTSTATE_SENT
              then NN_PIPEBASE_OUTSTATE_IDLE else NN_PIPEBASE_OUTSTATE_ASYNC)\<rparr>) w)) (w_trans w')"
    and recv_law: "tinv (w_pipes w) (w_trans w) \<Longrightarrow> pipe_active w p \<Longrightarrow> in_idle w p \<Longrightarrow>
      \<exists>w' rc m s. vf_recv vf (upd_pipe p (\<lambda>b. b\<lparr>pb_instate := NN_PIPEBASE_INSTATE_RECEIVING\<rparr>) w) p = Some (w', Inr (rc, m))
        \<and> rc AND NN_PIPE_RELEASE = 0 \<and> (rc AND NN_PIPE_PARSED = 0 \<longrightarrow> sphdr m = [])
        \<and> avail (w_trans w') p < avail (w_trans w) p \<and> (\<forall>q. avail (w_trans w') q \<le> avail (w_trans w) q)
        \<and> s \<in> {NN_PIPEBASE_INSTATE_RECEIVING, NN_PIPEBASE_INSTATE_RECEIVED}
        \<and> w_pipes w' = w_pipes (upd_pipe p (\<lambda>b. b\<lparr>pb_instate := s\<rparr>) w)
        \<and> w_events w' = w_events w \<and> w_stats w' = w_stats w
        \<and> tinv (w_pipes (upd_pipe p (\<lambda>b. b\<lparr>pb_instate := (if s = NN_PIPEBASE_INSTATE_RECEIVED
              then NN_PIPEBASE_INSTATE_IDLE else NN_PIPEBASE_INSTATE_ASYNC)\<rparr>) w)) (w_trans w')"
begin

lemma nn_pipe_send_ok:
  assumes "trans_ok tinv w" and "pipe_active w p" and "out_idle w p"
  shows "\<exists>w' rc. nn_pipe_send vf w p m = Some (w', rc) \<and> trans_ok tinv w' \<and> out_step {p} w w'
     \<and> (rc AND NN_PIPE_RELEASE = 0 \<longleftrightarrow> out_idle w' p) \<and> rc AND NOT NN_PIPE_RELEASE = 0"
proof -
  from send_law [of w p m] assms obtain w' rc s where
    *: "vf_send vf (upd_pipe p (\<lambda>b. b\<lparr>pb_outstate := NN_PIPEBASE_OUTSTATE_SENDING\<rparr>) w) p m = Some (w', Inr rc)"
      "rc = 0" "s \<in> {NN_PIPEBASE_OUTSTATE_SENDING, NN_PIPEBASE_OUTSTATE_SENT}"
      "w_pipes w' = w_pipes (upd_pipe p (\<lambda>b. b\<lparr>pb_outstate := s\<rparr>) w)"
      "w_events w' = w_events w" "w_stats w' = w_stats w"
    and t: "tinv (w_pipes (upd_pipe p (\<lambda>b. b\<lparr>pb_outstate := (if s = NN_PIPEBASE_OUTSTATE_SENT
              then NN_PIPEBASE_OUTSTATE_IDLE else NN_PIPEBASE_OUTSTATE_ASYNC)\<rparr>) w)) (w_trans w')"
    unfolding trans_ok_def by blast
  from *(3) consider "s = NN_PIPEBASE_OUTSTATE_SENDING" | "s = NN_PIPEBASE_OUTSTATE_SENT" by blast
  then show ?thesis
    using * t assms(3) by cases (simp_all add: nn_pipe_send_def trans_ok_def out_step_def out_idle_def Let_def)
qed

lemma nn_pipe_recv_ok:
  assumes "trans_ok tinv w" and "pipe_active w p" and "in_idle w p"
  shows "\<exists>w' rc m. nn_pipe_recv vf w p = Some (w', rc, m) \<and> trans_ok tinv w' \<and> in_step {p} w w'
     \<and> (rc AND NN_PIPE_RELEASE = 0 \<longleftrightarrow> in_idle w' p) \<and> (rc AND NN_PIPE_PARSED = 0 \<longrightarrow> sphdr m = [])
     \<and> avail (w_trans w') p < avail (w_trans w) p \<and> (\<forall>q. avail (w_trans w') q \<le> avail (w_trans w) q)"
proof -
  from recv_law [of w p] assms obtain w' rc m s where
    *: "vf_recv vf (upd_pipe p (\<lambda>b. b\<lparr>pb_instate := NN_PIPEBASE_INSTATE_RECEIVING\<rparr>) w) p = Some (w', Inr (rc, m))"
      "rc AND NN_PIPE_RELEASE = 0" "rc AND NN_PIPE_PARSED = 0 \<longrightarrow> sphdr m = []"
      "s \<in> {NN_PIPEBASE_INSTATE_RECEIVING, NN_PIPEBASE_INSTATE_RECEIVED}"
      "w_pipes w' = w_pipes (upd_pipe p (\<lambda>b. b\<lparr>pb_instate := s\<rparr>) w)"
      "w_events w' = w_events w" "w_stats w' = w_stats w"
    and t: "tinv (w_pipes (upd_pipe p (\<lambda>b. b\<lparr>pb_instate := (if s = NN_PIPEBASE_INSTATE_RECEIVED
              then NN_PIPEBASE_INSTATE_IDLE else NN_PIPEBASE_INSTATE_ASYNC)\<rparr>) w)) (w_trans w')"
    and av: "avail (w_trans w') p < avail (w_trans w) p" "\<forall>q. avail (w_trans w') q \<le> avail (w_trans w) q"
    unfolding trans_ok_def by blast
  have parsed: "(rc OR NN_PIPE_RELEASE) AND NN_PIPE_PARSED = rc AND NN_PIPE_PARSED"
    by (simp add: NN_PIPE_RELEASE_def NN_PIPE_PARSED_def and.left_commute bit.conj_disj_distrib2)
  from *(4) consider "s = NN_PIPEBASE_INSTATE_RECEIVING" | "s = NN_PIPEBASE_INSTATE_RECEIVED" by blast
  then show ?thesis
    using * t av assms(3) parsed
    by cases (simp_all add: nn_pipe_recv_def trans_ok_def in_step_def in_idle_def Let_def)
qed

end

end
