(* ===== verification/Fsm.thy ===== *)
theory Fsm
  imports Nn_Queue
begin

text \<open>
  The state machine framework (\<open>src/aio/fsm.c\<close>) and the contexts that serialise state machines
  (\<open>src/aio/ctx.c\<close>).

  A context is a record: its state machines, its events, and its two queues of raised events,
  \<open>events\<close> for machines of the same context and \<open>eventsto\<close> for machines of other ones. The queues are
  the abstract lists that \<open>Nn_Queue\<close> shows the C queues to implement; linking an event that is
  linked already trips the assertion of \<open>nn_queue_push\<close>. A machine embeds its context in a larger
  state (of type \<open>'w\<close>); the functions that call a handler take the pair of functions that read and
  update the context there, and the handlers \<open>fn\<close> and \<open>shutdown_fn\<close>, as the C structure does.
\<close>

section \<open>Data\<close>

datatype fsm_state = NN_FSM_STATE_IDLE | NN_FSM_STATE_ACTIVE | NN_FSM_STATE_STOPPING

definition NN_FSM_ACTION :: int where "NN_FSM_ACTION = -2"
definition NN_FSM_START :: int where "NN_FSM_START = -2"
definition NN_FSM_STOP :: int where "NN_FSM_STOP = -3"

record 'f nn_fsm =
  fsm_state :: fsm_state
  fsm_src :: int
  fsm_srcptr :: "nat option"
  fsm_owner :: "'f option"

record 'f nn_fsm_event =
  ev_fsm :: "'f option"
  ev_src :: int
  ev_srcptr :: "nat option"
  ev_type :: int

text \<open>Every machine owns a \<open>stopped\<close> event; \<open>'e\<close> names the others.\<close>

datatype ('f, 'e) event_id = Stopped 'f | Event 'e

record ('f, 'e) nn_ctx =
  ctx_fsms :: "'f \<Rightarrow> 'f nn_fsm"
  ctx_evs :: "('f, 'e) event_id \<Rightarrow> 'f nn_fsm_event"
  ctx_events :: "('f, 'e) event_id list"
  ctx_eventsto :: "('f, 'e) event_id list"

type_synonym ('f, 'w) fsm_fn = "'f \<Rightarrow> int \<Rightarrow> int \<Rightarrow> nat option \<Rightarrow> 'w \<Rightarrow> 'w option"
type_synonym ('f, 'e, 'w) ctx_get = "'w \<Rightarrow> ('f, 'e) nn_ctx"
type_synonym ('f, 'e, 'w) ctx_upd = "(('f, 'e) nn_ctx \<Rightarrow> ('f, 'e) nn_ctx) \<Rightarrow> 'w \<Rightarrow> 'w"

section \<open>Events and machines\<close>

definition nn_fsm_event_init :: "'f nn_fsm_event" where
  "nn_fsm_event_init = \<lparr>ev_fsm = None, ev_src = -1, ev_srcptr = None, ev_type = -1\<rparr>"

definition nn_fsm_event_active :: "('f, 'e) nn_ctx \<Rightarrow> ('f, 'e) event_id \<Rightarrow> bool" where
  "nn_fsm_event_active c e \<longleftrightarrow> e \<in> set (ctx_events c) \<or> e \<in> set (ctx_eventsto c)"

definition set_ev :: "('f, 'e) event_id \<Rightarrow> 'f nn_fsm_event \<Rightarrow> ('f, 'e) nn_ctx \<Rightarrow> ('f, 'e) nn_ctx" where
  "set_ev e v c = c\<lparr>ctx_evs := (ctx_evs c)(e := v)\<rparr>"

definition set_fsm :: "'f \<Rightarrow> ('f nn_fsm \<Rightarrow> 'f nn_fsm) \<Rightarrow> ('f, 'e) nn_ctx \<Rightarrow> ('f, 'e) nn_ctx" where
  "set_fsm f g c = c\<lparr>ctx_fsms := (ctx_fsms c)(f := g (ctx_fsms c f))\<rparr>"

definition nn_ctx_init :: "('f \<Rightarrow> 'f nn_fsm) \<Rightarrow> (('f, 'e) event_id \<Rightarrow> 'f nn_fsm_event) \<Rightarrow> ('f, 'e) nn_ctx" where
  "nn_ctx_init fsms evs = \<lparr>ctx_fsms = fsms, ctx_evs = evs, ctx_events = [], ctx_eventsto = []\<rparr>"

definition nn_ctx_raise :: "('f, 'e) event_id \<Rightarrow> ('f, 'e) nn_ctx \<Rightarrow> ('f, 'e) nn_ctx option" where
  "nn_ctx_raise e c = do { nn_assert (\<not> nn_fsm_event_active c e); Some (c\<lparr>ctx_events := ctx_events c @ [e]\<rparr>) }"

definition nn_ctx_raiseto :: "('f, 'e) event_id \<Rightarrow> ('f, 'e) nn_ctx \<Rightarrow> ('f, 'e) nn_ctx option" where
  "nn_ctx_raiseto e c = do { nn_assert (\<not> nn_fsm_event_active c e); Some (c\<lparr>ctx_eventsto := ctx_eventsto c @ [e]\<rparr>) }"

definition nn_fsm_raise :: "'f \<Rightarrow> ('f, 'e) event_id \<Rightarrow> int \<Rightarrow> ('f, 'e) nn_ctx \<Rightarrow> ('f, 'e) nn_ctx option" where
  "nn_fsm_raise self e type c = (let m = ctx_fsms c self in
     nn_ctx_raise e (set_ev e \<lparr>ev_fsm = fsm_owner m, ev_src = fsm_src m, ev_srcptr = fsm_srcptr m, ev_type = type\<rparr> c))"

definition nn_fsm_raiseto :: "'f \<Rightarrow> ('f, 'e) event_id \<Rightarrow> int \<Rightarrow> int \<Rightarrow> nat option \<Rightarrow>
  ('f, 'e) nn_ctx \<Rightarrow> ('f, 'e) nn_ctx option" where
  "nn_fsm_raiseto dst e src type srcptr c =
     nn_ctx_raiseto e (set_ev e \<lparr>ev_fsm = Some dst, ev_src = src, ev_srcptr = srcptr, ev_type = type\<rparr> c)"

definition nn_fsm_init_root :: "'f \<Rightarrow> ('f, 'e) nn_ctx \<Rightarrow> ('f, 'e) nn_ctx" where
  "nn_fsm_init_root f c = set_ev (Stopped f) nn_fsm_event_init
     (set_fsm f (\<lambda>_. \<lparr>fsm_state = NN_FSM_STATE_IDLE, fsm_src = -1, fsm_srcptr = None, fsm_owner = None\<rparr>) c)"

definition nn_fsm_init :: "'f \<Rightarrow> int \<Rightarrow> nat option \<Rightarrow> 'f \<Rightarrow> ('f, 'e) nn_ctx \<Rightarrow> ('f, 'e) nn_ctx" where
  "nn_fsm_init f src srcptr owner c = set_ev (Stopped f) nn_fsm_event_init
     (set_fsm f (\<lambda>_. \<lparr>fsm_state = NN_FSM_STATE_IDLE, fsm_src = src, fsm_srcptr = srcptr, fsm_owner = Some owner\<rparr>) c)"

definition nn_fsm_isidle :: "('f, 'e) nn_ctx \<Rightarrow> 'f \<Rightarrow> bool" where
  "nn_fsm_isidle c f \<longleftrightarrow> fsm_state (ctx_fsms c f) = NN_FSM_STATE_IDLE \<and> \<not> nn_fsm_event_active c (Stopped f)"

definition nn_fsm_term :: "('f, 'e) nn_ctx \<Rightarrow> 'f \<Rightarrow> unit option" where
  "nn_fsm_term c f = nn_assert (nn_fsm_isidle c f)"

definition nn_fsm_stopped :: "'f \<Rightarrow> int \<Rightarrow> ('f, 'e) nn_ctx \<Rightarrow> ('f, 'e) nn_ctx option" where
  "nn_fsm_stopped f type c = do {
     nn_assert (fsm_state (ctx_fsms c f) = NN_FSM_STATE_STOPPING);
     c \<leftarrow> nn_fsm_raise f (Stopped f) type c;
     Some (set_fsm f (\<lambda>m. m\<lparr>fsm_state := NN_FSM_STATE_IDLE\<rparr>) c) }"

definition nn_fsm_stopped_noevent :: "'f \<Rightarrow> ('f, 'e) nn_ctx \<Rightarrow> ('f, 'e) nn_ctx option" where
  "nn_fsm_stopped_noevent f c = do {
     nn_assert (fsm_state (ctx_fsms c f) = NN_FSM_STATE_STOPPING);
     Some (set_fsm f (\<lambda>m. m\<lparr>fsm_state := NN_FSM_STATE_IDLE\<rparr>) c) }"

text \<open>The machine takes the owner and source it is given, and the caller gets the old ones.\<close>

definition nn_fsm_swap_owner :: "'f \<Rightarrow> int \<times> 'f option \<Rightarrow> ('f, 'e) nn_ctx \<Rightarrow> ('f, 'e) nn_ctx \<times> (int \<times> 'f option)" where
  "nn_fsm_swap_owner f own c = (let m = ctx_fsms c f in
     (set_fsm f (\<lambda>m. m\<lparr>fsm_src := fst own, fsm_owner := snd own\<rparr>) c, (fsm_src m, fsm_owner m)))"

section \<open>Calls into the handlers\<close>

definition nn_fsm_feed :: "('f, 'e, 'w) ctx_get \<Rightarrow> ('f, 'w) fsm_fn \<Rightarrow> ('f, 'w) fsm_fn \<Rightarrow> ('f, 'w) fsm_fn" where
  "nn_fsm_feed get fn shutdown_fn f src type srcptr w =
     (if fsm_state (ctx_fsms (get w) f) \<noteq> NN_FSM_STATE_STOPPING then fn f src type srcptr w
      else shutdown_fn f src type srcptr w)"

definition nn_fsm_event_process :: "('f, 'e, 'w) ctx_get \<Rightarrow> ('f, 'e, 'w) ctx_upd \<Rightarrow> ('f, 'w) fsm_fn \<Rightarrow>
  ('f, 'w) fsm_fn \<Rightarrow> ('f, 'e) event_id \<Rightarrow> 'w \<Rightarrow> 'w option" where
  "nn_fsm_event_process get upd fn shutdown_fn e w =
    (let ev = ctx_evs (get w) e;
         w = upd (set_ev e (ev\<lparr>ev_src := -1, ev_type := -1, ev_srcptr := None\<rparr>)) w
     in case ev_fsm ev of
          None \<Rightarrow> None
        | Some f \<Rightarrow> nn_fsm_feed get fn shutdown_fn f (ev_src ev) (ev_type ev) (ev_srcptr ev) w)"

definition nn_fsm_start :: "('f, 'e, 'w) ctx_get \<Rightarrow> ('f, 'e, 'w) ctx_upd \<Rightarrow> ('f, 'w) fsm_fn \<Rightarrow> 'f \<Rightarrow> 'w \<Rightarrow> 'w option" where
  "nn_fsm_start get upd fn f w = do {
     nn_assert (nn_fsm_isidle (get w) f);
     w \<leftarrow> fn f NN_FSM_ACTION NN_FSM_START None w;
     Some (upd (set_fsm f (\<lambda>m. m\<lparr>fsm_state := NN_FSM_STATE_ACTIVE\<rparr>)) w) }"

definition nn_fsm_stop :: "('f, 'e, 'w) ctx_get \<Rightarrow> ('f, 'e, 'w) ctx_upd \<Rightarrow> ('f, 'w) fsm_fn \<Rightarrow> 'f \<Rightarrow> 'w \<Rightarrow> 'w option" where
  "nn_fsm_stop get upd shutdown_fn f w =
     (if fsm_state (ctx_fsms (get w) f) \<noteq> NN_FSM_STATE_ACTIVE then Some w
      else shutdown_fn f NN_FSM_ACTION NN_FSM_STOP None
        (upd (set_fsm f (\<lambda>m. m\<lparr>fsm_state := NN_FSM_STATE_STOPPING\<rparr>)) w))"

definition nn_fsm_action :: "('f, 'e, 'w) ctx_get \<Rightarrow> ('f, 'w) fsm_fn \<Rightarrow> ('f, 'w) fsm_fn \<Rightarrow> 'f \<Rightarrow> int \<Rightarrow> 'w \<Rightarrow> 'w option" where
  "nn_fsm_action get fn shutdown_fn f type w = do {
     nn_assert (type > 0);
     nn_fsm_feed get fn shutdown_fn f NN_FSM_ACTION type None w }"

text \<open>The first loop of \<open>nn_ctx_leave\<close>; \<open>process\<close> is \<open>nn_fsm_event_process\<close> with the handlers of the context.
  Handlers may raise further events, so the loop need not end for every set of handlers.\<close>

partial_function (option) ctx_process_events :: "('f, 'e, 'w) ctx_get \<Rightarrow> ('f, 'e, 'w) ctx_upd \<Rightarrow>
  (('f, 'e) event_id \<Rightarrow> 'w \<Rightarrow> 'w option) \<Rightarrow> 'w \<Rightarrow> 'w option" where
  "ctx_process_events get upd process w = (case ctx_events (get w) of
     [] \<Rightarrow> Some w
   | e # es \<Rightarrow> do {
       w \<leftarrow> process e (upd (\<lambda>c. c\<lparr>ctx_events := es\<rparr>) w);
       ctx_process_events get upd process w })"

text \<open>The second loop; \<open>deliver\<close> enters the context of the event's machine, processes the event and
  leaves that context.\<close>

fun ctx_deliver_all :: "(('f, 'e) event_id \<Rightarrow> 'w \<Rightarrow> 'w option) \<Rightarrow> ('f, 'e) event_id list \<Rightarrow> 'w \<Rightarrow> 'w option" where
  "ctx_deliver_all deliver [] w = Some w"
| "ctx_deliver_all deliver (e # es) w = do { w \<leftarrow> deliver e w; ctx_deliver_all deliver es w }"

definition nn_ctx_leave :: "('f, 'e, 'w) ctx_get \<Rightarrow> ('f, 'e, 'w) ctx_upd \<Rightarrow>
  (('f, 'e) event_id \<Rightarrow> 'w \<Rightarrow> 'w option) \<Rightarrow> ('w \<Rightarrow> 'w option) option \<Rightarrow>
  (('f, 'e) event_id \<Rightarrow> 'w \<Rightarrow> 'w option) \<Rightarrow> 'w \<Rightarrow> 'w option" where
  "nn_ctx_leave get upd process onleave deliver w = do {
     w \<leftarrow> ctx_process_events get upd process w;
     w \<leftarrow> (case onleave of None \<Rightarrow> Some w | Some g \<Rightarrow> g w);
     if ctx_eventsto (get w) = [] then Some w
     else ctx_deliver_all deliver (ctx_eventsto (get w)) (upd (\<lambda>c. c\<lparr>ctx_eventsto := []\<rparr>) w) }"

section \<open>Facts on events\<close>

lemma set_ev_simps [simp]:
  "ctx_events (set_ev e v c) = ctx_events c" "ctx_eventsto (set_ev e v c) = ctx_eventsto c"
  "ctx_fsms (set_ev e v c) = ctx_fsms c" "nn_fsm_event_active (set_ev e v c) = nn_fsm_event_active c"
  "ctx_evs (set_ev e v c) = (ctx_evs c)(e := v)"
  by (auto simp: set_ev_def nn_fsm_event_active_def fun_eq_iff)

lemma set_fsm_simps [simp]:
  "ctx_events (set_fsm f g c) = ctx_events c" "ctx_eventsto (set_fsm f g c) = ctx_eventsto c"
  "ctx_evs (set_fsm f g c) = ctx_evs c" "nn_fsm_event_active (set_fsm f g c) = nn_fsm_event_active c"
  "ctx_fsms (set_fsm f g c) = (ctx_fsms c)(f := g (ctx_fsms c f))"
  by (auto simp: set_fsm_def nn_fsm_event_active_def fun_eq_iff)

lemma nn_fsm_raiseto_ok:
  assumes "\<not> nn_fsm_event_active c e"
  obtains c' where "nn_fsm_raiseto dst e src type srcptr c = Some c'" "ctx_eventsto c' = ctx_eventsto c @ [e]"
    "ctx_events c' = ctx_events c" "ctx_fsms c' = ctx_fsms c"
    "nn_fsm_event_active c' = (nn_fsm_event_active c)(e := True)"
    "ctx_evs c' = (ctx_evs c)(e := \<lparr>ev_fsm = Some dst, ev_src = src, ev_srcptr = srcptr, ev_type = type\<rparr>)"
proof -
  let ?c = "(set_ev e \<lparr>ev_fsm = Some dst, ev_src = src, ev_srcptr = srcptr, ev_type = type\<rparr> c)
    \<lparr>ctx_eventsto := ctx_eventsto c @ [e]\<rparr>"
  have "nn_fsm_event_active ?c = (nn_fsm_event_active c)(e := True)"
    by (auto simp: nn_fsm_event_active_def fun_eq_iff)
  moreover have "nn_fsm_raiseto dst e src type srcptr c = Some ?c"
    using assms by (simp add: nn_fsm_raiseto_def nn_ctx_raiseto_def)
  ultimately show thesis using that [of ?c] by simp
qed

lemma nn_fsm_raiseto_active: "nn_fsm_event_active c e \<Longrightarrow> nn_fsm_raiseto dst e src type srcptr c = None"
  by (simp add: nn_fsm_raiseto_def nn_ctx_raiseto_def)

text \<open>A stop request has an effect only on a running machine, so asking twice does nothing more.\<close>

lemma nn_fsm_stop_idle:
  "fsm_state (ctx_fsms (get w) f) \<noteq> NN_FSM_STATE_ACTIVE \<Longrightarrow> nn_fsm_stop get upd shutdown_fn f w = Some w"
  by (simp add: nn_fsm_stop_def)

lemma nn_fsm_swap_owner_twice:
  "(let (c1, old) = nn_fsm_swap_owner f own c in nn_fsm_swap_owner f old c1) = (c, own)"
  by (simp add: nn_fsm_swap_owner_def set_fsm_def Let_def)

section \<open>Leaving a context\<close>

text \<open>The loop ends once the queue is empty, and it does end when every processed event lowers a
  measure of the state.\<close>

lemma ctx_process_events_empty:
  assumes "ctx_process_events get upd process w = Some w'"
  shows "ctx_events (get w') = []"
proof (rule ctx_process_events.raw_induct [OF _ assms, of "\<lambda>get _ _ _ w'. ctx_events (get w') = []"], goal_cases)
  case (1 loop get upd process w w')
  show ?case
  proof (cases "ctx_events (get w)")
    case Nil
    then show ?thesis using 1(2) by simp
  next
    case (Cons e es)
    then show ?thesis using 1 by (auto simp: bind_Some_iff)
  qed
qed

lemma ctx_process_events_returns:
  fixes \<mu> :: "'w \<Rightarrow> nat"
  assumes "Inv w"
    and step: "\<And>w e es. Inv w \<Longrightarrow> ctx_events (get w) = e # es \<Longrightarrow>
      \<exists>w'. process e (upd (\<lambda>c. c\<lparr>ctx_events := es\<rparr>) w) = Some w' \<and> Inv w' \<and> \<mu> w' < \<mu> w"
  shows "\<exists>w'. ctx_process_events get upd process w = Some w' \<and> Inv w'"
  using assms(1)
proof (induction "\<mu> w" arbitrary: w rule: less_induct)
  case less
  show ?case
  proof (cases "ctx_events (get w)")
    case Nil
    then show ?thesis using less.prems by (subst ctx_process_events.simps) simp
  next
    case (Cons e es)
    from step [OF less.prems Cons] obtain w1 where
      w1: "process e (upd (\<lambda>c. c\<lparr>ctx_events := es\<rparr>) w) = Some w1" "Inv w1" "\<mu> w1 < \<mu> w" by blast
    from less.hyps [OF w1(3,2)] show ?thesis using Cons w1(1) by (subst ctx_process_events.simps) simp
  qed
qed

end
