(* ===== verification/Sinproc.thy ===== *)
theory Sinproc
  imports Msgqueue Pipe Fsm
begin

text \<open>
  The sessions of the inproc transport (\<open>src/transports/inproc/sinproc.c\<close>). Two sessions are peers;
  each has a queue of inbound messages and the one message it is sending, which the peer moves to
  its queue when the event \<open>SENT\<close> reaches it and acknowledges with \<open>RECEIVED\<close>.

  The sessions are the private state of the transport in \<open>world\<close>. Peers belong to different
  sockets, so their events go through \<open>eventsto\<close>; the order in which pending events of different
  contexts are delivered is left open. The session's virtual functions satisfy the contract
  \<open>transport\<close> (interpreted in \<open>Inproc_Sockets\<close>), and the messages on their way from a session to its
  peer form a first-in first-out channel.
\<close>

section \<open>Data\<close>

datatype sinproc_state = NN_SINPROC_STATE_IDLE | NN_SINPROC_STATE_CONNECTING | NN_SINPROC_STATE_READY
  | NN_SINPROC_STATE_ACTIVE | NN_SINPROC_STATE_DISCONNECTED | NN_SINPROC_STATE_STOPPING_PEER | NN_SINPROC_STATE_STOPPING

definition NN_SINPROC_ACTION_READY :: int where "NN_SINPROC_ACTION_READY = 1"
definition NN_SINPROC_FLAG_SENDING :: u32 where "NN_SINPROC_FLAG_SENDING = 1"
definition NN_SINPROC_FLAG_RECEIVING :: u32 where "NN_SINPROC_FLAG_RECEIVING = 2"

definition NN_SINPROC_CONNECT :: int where "NN_SINPROC_CONNECT = 1"
definition NN_SINPROC_READY :: int where "NN_SINPROC_READY = 2"
definition NN_SINPROC_ACCEPTED :: int where "NN_SINPROC_ACCEPTED = 3"
definition NN_SINPROC_SENT :: int where "NN_SINPROC_SENT = 4"
definition NN_SINPROC_RECEIVED :: int where "NN_SINPROC_RECEIVED = 5"
definition NN_SINPROC_DISCONNECT :: int where "NN_SINPROC_DISCONNECT = 6"
definition NN_SINPROC_STOPPED :: int where "NN_SINPROC_STOPPED = 7"
definition NN_SINPROC_SRC_PEER :: int where "NN_SINPROC_SRC_PEER = 27713"

text \<open>The machines are the sessions and the endpoints that own them; a session has four events.\<close>

datatype inproc_fsm = Sinproc pipe | Endpoint nat
datatype inproc_ev = Ev_connect pipe | Ev_sent pipe | Ev_received pipe | Ev_disconnect pipe

record nn_sinproc =
  si_state :: sinproc_state
  si_flags :: u32
  si_peer :: "pipe option"
  si_msgqueue :: nn_msgqueue
  si_msg :: nn_msg

record inproc =
  si_ses :: "pipe \<Rightarrow> nn_sinproc"
  si_ctx :: "(inproc_fsm, inproc_ev) nn_ctx"

definition set_ses :: "pipe \<Rightarrow> nn_sinproc \<Rightarrow> inproc world \<Rightarrow> inproc world" where
  "set_ses p v w = w\<lparr>w_trans := (w_trans w)\<lparr>si_ses := (si_ses (w_trans w))(p := v)\<rparr>\<rparr>"

definition set_ctx :: "(inproc_fsm, inproc_ev) nn_ctx \<Rightarrow> inproc world \<Rightarrow> inproc world" where
  "set_ctx c w = w\<lparr>w_trans := (w_trans w)\<lparr>si_ctx := c\<rparr>\<rparr>"

definition ses :: "inproc world \<Rightarrow> pipe \<Rightarrow> nn_sinproc" where
  "ses w p = si_ses (w_trans w) p"

definition ctx_of :: "inproc world \<Rightarrow> (inproc_fsm, inproc_ev) nn_ctx" where
  "ctx_of w = si_ctx (w_trans w)"

section \<open>Construction\<close>

text \<open>\<open>rcvbuf\<close> is the value of \<open>NN_RCVBUF\<close> of the endpoint, \<open>opts\<close> its options, \<open>owner\<close> its machine.\<close>

definition nn_sinproc_init :: "nn_msg \<Rightarrow> int \<Rightarrow> nn_ep_options \<Rightarrow> int \<Rightarrow> nat \<Rightarrow> pipe \<Rightarrow> inproc world \<Rightarrow> inproc world" where
  "nn_sinproc_init junk rcvbuf opts src owner p w =
    (let c = nn_fsm_init (Sinproc p) src (Some p) (Endpoint owner) (ctx_of w);
         c = foldr (\<lambda>e. set_ev (Event e) nn_fsm_event_init) [Ev_connect p, Ev_sent p, Ev_received p, Ev_disconnect p] c
     in set_ses p \<lparr>si_state = NN_SINPROC_STATE_IDLE, si_flags = 0, si_peer = None,
           si_msgqueue = nn_msgqueue_init junk (of_int rcvbuf), si_msg = empty_msg\<rparr>
         (upd_pipe p (\<lambda>_. nn_pipebase_init opts) (set_ctx c w)))"

definition nn_sinproc_term :: "pipe \<Rightarrow> inproc world \<Rightarrow> inproc world option" where
  "nn_sinproc_term p w = do {
     q \<leftarrow> nn_msgqueue_term (si_msgqueue (ses w p));
     nn_pipebase_term w p;
     nn_fsm_term (ctx_of w) (Sinproc p);
     Some (set_ses p ((ses w p)\<lparr>si_msgqueue := q\<rparr>) w) }"

definition nn_sinproc_isidle :: "inproc world \<Rightarrow> pipe \<Rightarrow> bool" where
  "nn_sinproc_isidle w p = nn_fsm_isidle (ctx_of w) (Sinproc p)"

section \<open>Sending and receiving\<close>

definition raise_peer :: "inproc_fsm \<Rightarrow> inproc_ev \<Rightarrow> int \<Rightarrow> pipe \<Rightarrow> inproc world \<Rightarrow> inproc world option" where
  "raise_peer dst ev type p w = do {
     c \<leftarrow> nn_fsm_raiseto dst (Event ev) NN_SINPROC_SRC_PEER type (Some p) (ctx_of w);
     Some (set_ctx c w) }"

definition nn_sinproc_send :: "inproc world \<Rightarrow> pipe \<Rightarrow> nn_msg \<Rightarrow> (inproc world \<times> (errno + u32)) option" where
  "nn_sinproc_send w p msg =
    (let self = ses w p in
     if si_state self = NN_SINPROC_STATE_DISCONNECTED then Some (w, Inl ECONNRESET)
     else do {
       nn_assert (si_state self = NN_SINPROC_STATE_ACTIVE);
       nn_assert (si_flags self AND NN_SINPROC_FLAG_SENDING = 0);
       let nmsg = \<lparr>sphdr = [], hdrs = [], body = sphdr msg @ body msg\<rparr>;
       let self = self\<lparr>si_msg := nmsg, si_flags := si_flags self OR NN_SINPROC_FLAG_SENDING\<rparr>;
       let w = set_ses p self w;
       peer \<leftarrow> si_peer self;
       w \<leftarrow> raise_peer (Sinproc peer) (Ev_sent peer) NN_SINPROC_SENT p w;
       Some (w, Inr 0) })"

text \<open>The second part of \<open>nn_sinproc_recv\<close>: a message that did not fit in the queue earlier is tried again.\<close>

definition sinproc_retry :: "nn_msg \<Rightarrow> inproc world \<Rightarrow> pipe \<Rightarrow> inproc world option" where
  "sinproc_retry junk w p =
    (let self = ses w p in
     if si_state self \<noteq> NN_SINPROC_STATE_DISCONNECTED \<and> si_flags self AND NN_SINPROC_FLAG_RECEIVING \<noteq> 0 then do {
       peer \<leftarrow> si_peer self;
       (mq, r) \<leftarrow> nn_msgqueue_send junk (si_msgqueue self) (si_msg (ses w peer));
       (case r of
          Inl e \<Rightarrow> do { nn_assert (e = EAGAIN); Some (set_ses p (self\<lparr>si_msgqueue := mq\<rparr>) w) }
        | Inr _ \<Rightarrow> do {
            let w = set_ses p (self\<lparr>si_msgqueue := mq\<rparr>) w;
            let w = set_ses peer ((ses w peer)\<lparr>si_msg := empty_msg\<rparr>) w;
            w \<leftarrow> raise_peer (Sinproc peer) (Ev_received peer) NN_SINPROC_RECEIVED p w;
            let self = ses w p;
            Some (set_ses p (self\<lparr>si_flags := si_flags self AND NOT NN_SINPROC_FLAG_RECEIVING\<rparr>) w) }) }
     else Some w)"

definition nn_sinproc_recv :: "nn_msg \<Rightarrow> inproc world \<Rightarrow> pipe \<Rightarrow> (inproc world \<times> (errno + u32 \<times> nn_msg)) option" where
  "nn_sinproc_recv junk w p = do {
     let self = ses w p;
     nn_assert (si_state self = NN_SINPROC_STATE_ACTIVE \<or> si_state self = NN_SINPROC_STATE_DISCONNECTED);
     (mq, r) \<leftarrow> nn_msgqueue_recv (si_msgqueue self);
     (case r of
        Inl _ \<Rightarrow> None
      | Inr msg \<Rightarrow> do {
          w \<leftarrow> sinproc_retry junk (set_ses p (self\<lparr>si_msgqueue := mq\<rparr>) w) p;
          w \<leftarrow> (if nn_msgqueue_empty (si_msgqueue (ses w p)) then Some w else nn_pipebase_received w p);
          Some (w, Inr (0, msg)) }) }"

definition nn_sinproc_pipebase_vfptr :: "nn_msg \<Rightarrow> inproc nn_pipebase_vfptr" where
  "nn_sinproc_pipebase_vfptr junk = \<lparr>vf_send = nn_sinproc_send, vf_recv = nn_sinproc_recv junk\<rparr>"

section \<open>The state machine\<close>

text \<open>The socket a session belongs to enters through \<open>sock_add\<close> and \<open>sock_rm\<close> (\<open>nn_sock_add\<close> and
  \<open>nn_sock_rm\<close> of its protocol) and its state \<open>'s\<close>.\<close>

type_synonym 's inproc_state = "inproc world \<times> 's"

definition inproc_get :: "(inproc_fsm, inproc_ev, 's inproc_state) ctx_get" where
  "inproc_get st = ctx_of (fst st)"

definition inproc_upd :: "(inproc_fsm, inproc_ev, 's inproc_state) ctx_upd" where
  "inproc_upd f st = (set_ctx (f (ctx_of (fst st))) (fst st), snd st)"

definition raise_owner :: "pipe \<Rightarrow> inproc_ev \<Rightarrow> int \<Rightarrow> inproc world \<Rightarrow> inproc world option" where
  "raise_owner p ev type w = do {
     c \<leftarrow> nn_fsm_raise (Sinproc p) (Event ev) type (ctx_of w);
     Some (set_ctx c w) }"

definition set_state :: "pipe \<Rightarrow> sinproc_state \<Rightarrow> inproc world \<Rightarrow> inproc world" where
  "set_state p s w = set_ses p ((ses w p)\<lparr>si_state := s\<rparr>) w"

text \<open>The events of an \<open>ACTIVE\<close> session.\<close>

definition sinproc_sent :: "nn_msg \<Rightarrow> pipe \<Rightarrow> inproc world \<Rightarrow> inproc world option" where
  "sinproc_sent junk p w = do {
     let self = ses w p;
     let empty = nn_msgqueue_empty (si_msgqueue self);
     peer \<leftarrow> si_peer self;
     (mq, r) \<leftarrow> nn_msgqueue_send junk (si_msgqueue self) (si_msg (ses w peer));
     (case r of
        Inl e \<Rightarrow> do { nn_assert (e = EAGAIN);
          Some (set_ses p (self\<lparr>si_msgqueue := mq, si_flags := si_flags self OR NN_SINPROC_FLAG_RECEIVING\<rparr>) w) }
      | Inr _ \<Rightarrow> do {
          let w = set_ses p (self\<lparr>si_msgqueue := mq\<rparr>) w;
          let w = set_ses peer ((ses w peer)\<lparr>si_msg := empty_msg\<rparr>) w;
          w \<leftarrow> (if empty then nn_pipebase_received w p else Some w);
          raise_peer (Sinproc peer) (Ev_received peer) NN_SINPROC_RECEIVED p w }) }"

definition sinproc_received :: "pipe \<Rightarrow> inproc world \<Rightarrow> inproc world option" where
  "sinproc_received p w = do {
     nn_assert (si_flags (ses w p) AND NN_SINPROC_FLAG_SENDING \<noteq> 0);
     w \<leftarrow> nn_pipebase_sent w p;
     Some (set_ses p ((ses w p)\<lparr>si_flags := si_flags (ses w p) AND NOT NN_SINPROC_FLAG_SENDING\<rparr>) w) }"

definition sinproc_disconnect :: "(inproc, 's) sock_fn \<Rightarrow> pipe \<Rightarrow> 's inproc_state \<Rightarrow> 's inproc_state option" where
  "sinproc_disconnect sock_rm p st = do {
     (w, s) \<leftarrow> nn_pipebase_stop sock_rm (fst st) (snd st) p;
     peer \<leftarrow> si_peer (ses w p);
     w \<leftarrow> raise_peer (Sinproc peer) (Ev_disconnect peer) NN_SINPROC_DISCONNECT p w;
     let w = set_ses p ((ses w p)\<lparr>si_state := NN_SINPROC_STATE_DISCONNECTED, si_peer := None\<rparr>) w;
     w \<leftarrow> raise_owner p (Ev_disconnect p) NN_SINPROC_DISCONNECT w;
     Some (w, s) }"

fun nn_sinproc_handler :: "nn_msg \<Rightarrow> (inproc, 's) sock_add \<Rightarrow> (inproc, 's) sock_fn \<Rightarrow> (inproc_fsm, 's inproc_state) fsm_fn" where
  "nn_sinproc_handler junk sock_add sock_rm (Endpoint _) src type srcptr st = None"
| "nn_sinproc_handler junk sock_add sock_rm (Sinproc p) src type srcptr (w, s) = (case si_state (ses w p) of
     NN_SINPROC_STATE_IDLE \<Rightarrow>
       (if src = NN_FSM_ACTION \<and> type = NN_FSM_START then Some (set_state p NN_SINPROC_STATE_CONNECTING w, s) else None)
   | NN_SINPROC_STATE_CONNECTING \<Rightarrow>
       (if src = NN_FSM_ACTION \<and> type = NN_SINPROC_ACTION_READY then Some (set_state p NN_SINPROC_STATE_READY w, s)
        else if src = NN_SINPROC_SRC_PEER \<and> type = NN_SINPROC_READY then do {
          let w = set_ses p ((ses w p)\<lparr>si_peer := srcptr\<rparr>) w;
          (w, s, rc) \<leftarrow> nn_pipebase_start sock_add w s p;
          nn_assert (\<not> isl rc);
          let w = set_state p NN_SINPROC_STATE_ACTIVE w;
          peer \<leftarrow> si_peer (ses w p);
          w \<leftarrow> raise_peer (Sinproc peer) (Ev_connect p) NN_SINPROC_ACCEPTED p w;
          Some (w, s) }
        else None)
   | NN_SINPROC_STATE_READY \<Rightarrow>
       (if src = NN_SINPROC_SRC_PEER \<and> type = NN_SINPROC_READY then do {
          (w, s, rc) \<leftarrow> nn_pipebase_start sock_add w s p;
          nn_assert (\<not> isl rc);
          Some (set_state p NN_SINPROC_STATE_ACTIVE w, s) }
        else if src = NN_SINPROC_SRC_PEER \<and> type = NN_SINPROC_ACCEPTED then do {
          (w, s, rc) \<leftarrow> nn_pipebase_start sock_add w s p;
          if isl rc then do {
            (w, s) \<leftarrow> nn_pipebase_stop sock_rm w s p;
            let w = set_ses p ((ses w p)\<lparr>si_state := NN_SINPROC_STATE_DISCONNECTED, si_peer := None\<rparr>) w;
            w \<leftarrow> raise_owner p (Ev_disconnect p) NN_SINPROC_DISCONNECT w;
            Some (w, s) }
          else Some (set_state p NN_SINPROC_STATE_ACTIVE w, s) }
        else None)
   | NN_SINPROC_STATE_ACTIVE \<Rightarrow>
       (if src = NN_SINPROC_SRC_PEER \<and> type = NN_SINPROC_SENT then do { w \<leftarrow> sinproc_sent junk p w; Some (w, s) }
        else if src = NN_SINPROC_SRC_PEER \<and> type = NN_SINPROC_RECEIVED then do { w \<leftarrow> sinproc_received p w; Some (w, s) }
        else if src = NN_SINPROC_SRC_PEER \<and> type = NN_SINPROC_DISCONNECT then sinproc_disconnect sock_rm p (w, s)
        else None)
   | NN_SINPROC_STATE_DISCONNECTED \<Rightarrow>
       (if src = NN_SINPROC_SRC_PEER \<and> type = NN_SINPROC_RECEIVED then Some (w, s) else None)
   | _ \<Rightarrow> None)"

text \<open>The peer is \<open>NULL\<close> until a connecting session is accepted, and \<open>nn_sinproc_shutdown_events\<close> reads its
  machine: stopping such a session is undefined, hence \<open>None\<close>. The case \<open>NN_FSM_ACTION\<close> falls through
  to the events of the peer.\<close>

definition nn_sinproc_shutdown_events :: "(inproc, 's) sock_fn \<Rightarrow> pipe \<Rightarrow> int \<Rightarrow> int \<Rightarrow> 's inproc_state \<Rightarrow> 's inproc_state option" where
  "nn_sinproc_shutdown_events sock_rm p src type st =
    (let (w, s) = st in
     if src = NN_FSM_ACTION \<and> type = NN_FSM_STOP then
       (if si_state (ses w p) \<noteq> NN_SINPROC_STATE_IDLE \<and> si_state (ses w p) \<noteq> NN_SINPROC_STATE_DISCONNECTED then do {
          (w, s) \<leftarrow> nn_pipebase_stop sock_rm w s p;
          nn_assert (fsm_state (ctx_fsms (ctx_of w) (Sinproc p)) \<noteq> NN_FSM_STATE_IDLE);
          peer \<leftarrow> si_peer (ses w p);
          w \<leftarrow> raise_peer (Sinproc peer) (Ev_disconnect peer) NN_SINPROC_DISCONNECT p w;
          Some (set_state p NN_SINPROC_STATE_STOPPING_PEER w, s) }
        else Some (set_state p NN_SINPROC_STATE_STOPPING w, s))
     else if (src = NN_FSM_ACTION \<or> src = NN_SINPROC_SRC_PEER) \<and> type = NN_SINPROC_RECEIVED then Some (w, s)
     else if si_state (ses w p) = NN_SINPROC_STATE_STOPPING_PEER \<and> src = NN_SINPROC_SRC_PEER \<and> type = NN_SINPROC_DISCONNECT
       then Some (set_state p NN_SINPROC_STATE_STOPPING w, s)
     else None)"

fun nn_sinproc_shutdown :: "(inproc, 's) sock_fn \<Rightarrow> (inproc_fsm, 's inproc_state) fsm_fn" where
  "nn_sinproc_shutdown sock_rm (Endpoint _) src type srcptr st = None"
| "nn_sinproc_shutdown sock_rm (Sinproc p) src type srcptr st = do {
     nn_assert (fsm_state (ctx_fsms (ctx_of (fst st)) (Sinproc p)) = NN_FSM_STATE_STOPPING);
     (w, s) \<leftarrow> nn_sinproc_shutdown_events sock_rm p src type st;
     let active = (\<lambda>e. nn_fsm_event_active (ctx_of w) (Event e));
     if si_state (ses w p) \<noteq> NN_SINPROC_STATE_STOPPING then Some (w, s)
     else if active (Ev_received p) \<or> active (Ev_disconnect p) then Some (w, s)
     else do {
       nn_assert (\<not> active (Ev_connect p));
       nn_assert (\<not> active (Ev_sent p));
       c \<leftarrow> nn_fsm_stopped (Sinproc p) NN_SINPROC_STOPPED (ctx_of w);
       Some (set_ctx c w, s) } }"

section \<open>Starting and stopping\<close>

definition nn_sinproc_connect :: "nn_msg \<Rightarrow> (inproc, 's) sock_add \<Rightarrow> (inproc, 's) sock_fn \<Rightarrow> pipe \<Rightarrow> nat \<Rightarrow>
  's inproc_state \<Rightarrow> 's inproc_state option" where
  "nn_sinproc_connect junk sock_add sock_rm p peer st = do {
     (w, s) \<leftarrow> nn_fsm_start inproc_get inproc_upd (nn_sinproc_handler junk sock_add sock_rm) (Sinproc p) st;
     w \<leftarrow> raise_peer (Endpoint peer) (Ev_connect p) NN_SINPROC_CONNECT p w;
     Some (w, s) }"

definition nn_sinproc_accept :: "nn_msg \<Rightarrow> (inproc, 's) sock_add \<Rightarrow> (inproc, 's) sock_fn \<Rightarrow> pipe \<Rightarrow> pipe \<Rightarrow>
  's inproc_state \<Rightarrow> 's inproc_state option" where
  "nn_sinproc_accept junk sock_add sock_rm p peer st = do {
     let (w, s) = st;
     nn_assert (si_peer (ses w p) = None);
     let w = set_ses p ((ses w p)\<lparr>si_peer := Some peer\<rparr>) w;
     w \<leftarrow> raise_peer (Sinproc peer) (Ev_connect p) NN_SINPROC_READY p w;
     st \<leftarrow> nn_fsm_start inproc_get inproc_upd (nn_sinproc_handler junk sock_add sock_rm) (Sinproc p) (w, s);
     nn_fsm_action inproc_get (nn_sinproc_handler junk sock_add sock_rm) (nn_sinproc_shutdown sock_rm)
       (Sinproc p) NN_SINPROC_ACTION_READY st }"

definition nn_sinproc_stop :: "(inproc, 's) sock_fn \<Rightarrow> pipe \<Rightarrow> 's inproc_state \<Rightarrow> 's inproc_state option" where
  "nn_sinproc_stop sock_rm p st = nn_fsm_stop inproc_get inproc_upd (nn_sinproc_shutdown sock_rm) (Sinproc p) st"

section \<open>Frames\<close>

lemma set_ses_simps [simp]:
  "ses (set_ses p v w) = (ses w)(p := v)" "ctx_of (set_ses p v w) = ctx_of w" "w_pipes (set_ses p v w) = w_pipes w"
  "w_events (set_ses p v w) = w_events w" "w_stats (set_ses p v w) = w_stats w"
  by (auto simp: set_ses_def ses_def ctx_of_def fun_eq_iff)

lemma set_ctx_simps [simp]:
  "ses (set_ctx c w) = ses w" "ctx_of (set_ctx c w) = c" "w_pipes (set_ctx c w) = w_pipes w"
  "w_events (set_ctx c w) = w_events w" "w_stats (set_ctx c w) = w_stats w"
  by (auto simp: set_ctx_def ses_def ctx_of_def fun_eq_iff)

lemma upd_pipe_ses [simp]: "ses (upd_pipe p f w) = ses w" "ctx_of (upd_pipe p f w) = ctx_of w"
  by (auto simp: ses_def ctx_of_def fun_eq_iff)

text \<open>An event that is on its way to a session, and the two flags.\<close>

definition on_way :: "inproc world \<Rightarrow> inproc_ev \<Rightarrow> bool" where
  "on_way w e \<longleftrightarrow> nn_fsm_event_active (ctx_of w) (Event e)"

definition sending :: "inproc world \<Rightarrow> pipe \<Rightarrow> bool" where
  "sending w p \<longleftrightarrow> si_flags (ses w p) AND NN_SINPROC_FLAG_SENDING \<noteq> 0"

definition receiving :: "inproc world \<Rightarrow> pipe \<Rightarrow> bool" where
  "receiving w p \<longleftrightarrow> si_flags (ses w p) AND NN_SINPROC_FLAG_RECEIVING \<noteq> 0"

lemma flag_bits:
  "x AND NN_SINPROC_FLAG_SENDING \<noteq> 0 \<longleftrightarrow> bit x 0" "x AND NN_SINPROC_FLAG_RECEIVING \<noteq> 0 \<longleftrightarrow> bit x 1"
  using bit_iff_and_push_bit_not_eq_0 [of x 0] bit_iff_and_push_bit_not_eq_0 [of x 1]
  by (simp_all add: NN_SINPROC_FLAG_SENDING_def NN_SINPROC_FLAG_RECEIVING_def)

lemma flag_updates [simp]:
  "bit (x OR NN_SINPROC_FLAG_SENDING) 0" "bit (x OR NN_SINPROC_FLAG_SENDING) (Suc 0) = bit x (Suc 0)"
  "bit (x OR NN_SINPROC_FLAG_RECEIVING) (Suc 0)" "bit (x OR NN_SINPROC_FLAG_RECEIVING) 0 = bit x 0"
  "\<not> bit (x AND NOT NN_SINPROC_FLAG_SENDING) 0" "bit (x AND NOT NN_SINPROC_FLAG_SENDING) (Suc 0) = bit x (Suc 0)"
  "\<not> bit (x AND NOT NN_SINPROC_FLAG_RECEIVING) (Suc 0)" "bit (x AND NOT NN_SINPROC_FLAG_RECEIVING) 0 = bit x 0"
  for x :: u32
  by (auto simp: NN_SINPROC_FLAG_SENDING_def NN_SINPROC_FLAG_RECEIVING_def bit_simps)

lemma sending_bit: "sending w p = bit (si_flags (ses w p)) 0"
  and receiving_bit: "receiving w p = bit (si_flags (ses w p)) 1"
  by (simp_all add: sending_def receiving_def flag_bits)

lemma raise_peer_ok:
  assumes "\<not> on_way w ev"
  obtains w' where "raise_peer dst ev type p w = Some w'" "ses w' = ses w" "w_pipes w' = w_pipes w"
    "w_events w' = w_events w" "w_stats w' = w_stats w" "on_way w' = (on_way w)(ev := True)"
    "ctx_evs (ctx_of w') = (ctx_evs (ctx_of w))(Event ev := \<lparr>ev_fsm = Some dst, ev_src = NN_SINPROC_SRC_PEER,
       ev_srcptr = Some p, ev_type = type\<rparr>)" "ctx_fsms (ctx_of w') = ctx_fsms (ctx_of w)"
proof -
  obtain c' where c: "nn_fsm_raiseto dst (Event ev) NN_SINPROC_SRC_PEER type (Some p) (ctx_of w) = Some c'"
    "ctx_eventsto c' = ctx_eventsto (ctx_of w) @ [Event ev]" "ctx_events c' = ctx_events (ctx_of w)"
    "ctx_fsms c' = ctx_fsms (ctx_of w)"
    "nn_fsm_event_active c' = (nn_fsm_event_active (ctx_of w))(Event ev := True)"
    "ctx_evs c' = (ctx_evs (ctx_of w))(Event ev := \<lparr>ev_fsm = Some dst, ev_src = NN_SINPROC_SRC_PEER,
       ev_srcptr = Some p, ev_type = type\<rparr>)"
    using assms unfolding on_way_def by (rule nn_fsm_raiseto_ok)
  show thesis by (rule that [of "set_ctx c' w"]) (auto simp: raise_peer_def c on_way_def fun_eq_iff)
qed

section \<open>The contract of a transport\<close>

definition sess_ok :: "inproc world \<Rightarrow> pipe \<Rightarrow> bool" where
  "sess_ok w p \<longleftrightarrow> si_state (ses w p) = NN_SINPROC_STATE_ACTIVE \<and> (\<exists>xs. mq_rep (si_msgqueue (ses w p)) xs \<and> (\<forall>m \<in> set xs. sphdr m = []))
     \<and> (\<exists>q. si_peer (ses w p) = Some q \<and> si_peer (ses w q) = Some p \<and> q \<noteq> p
         \<and> sphdr (si_msg (ses w q)) = [] \<and> (receiving w p \<longrightarrow> \<not> on_way w (Ev_received q)))"

text \<open>What the state of a pipe says of its session: a pipe that can send has no message on its way,
  a pipe that can receive has one in its queue.\<close>

definition link_ok :: "nn_pipebase \<Rightarrow> inproc world \<Rightarrow> pipe \<Rightarrow> bool" where
  "link_ok b w p \<longleftrightarrow>
     (pb_outstate b = NN_PIPEBASE_OUTSTATE_IDLE \<longrightarrow> \<not> sending w p \<and> (\<forall>q. si_peer (ses w p) = Some q \<longrightarrow> \<not> on_way w (Ev_sent q)))
     \<and> (pb_instate b = NN_PIPEBASE_INSTATE_IDLE \<longrightarrow> \<not> nn_msgqueue_empty (si_msgqueue (ses w p)))"

definition inproc_ok :: "inproc world \<Rightarrow> (pipe \<Rightarrow> nn_pipebase) \<Rightarrow> bool" where
  "inproc_ok w P \<longleftrightarrow> (\<forall>p. pb_state (P p) = NN_PIPEBASE_STATE_ACTIVE \<longrightarrow> sess_ok w p \<and> link_ok (P p) w p)"

text \<open>The invariant as a predicate on the pipes and the private state of the transport only.\<close>

definition bare_world :: "inproc \<Rightarrow> inproc world" where
  "bare_world t = \<lparr>w_pipes = (\<lambda>_. undefined), w_events = [], w_stats = undefined, w_trans = t\<rparr>"

definition inproc_inv :: "(pipe \<Rightarrow> nn_pipebase) \<Rightarrow> inproc \<Rightarrow> bool" where
  "inproc_inv P t = inproc_ok (bare_world t) P"

definition inproc_avail :: "inproc \<Rightarrow> pipe \<Rightarrow> nat" where
  "inproc_avail t p = unat (mq_count (si_msgqueue (si_ses t p))) + (if receiving (bare_world t) p then 1 else 0)"

lemma bare_simps:
  "ses (bare_world (w_trans w)) = ses w" "on_way (bare_world (w_trans w)) = on_way w"
  "sending (bare_world (w_trans w)) = sending w" "receiving (bare_world (w_trans w)) = receiving w"
  by (auto simp: bare_world_def ses_def on_way_def ctx_of_def sending_def receiving_def fun_eq_iff)

lemma inproc_inv_world: "inproc_inv P (w_trans w) = inproc_ok w P"
  by (simp add: inproc_inv_def inproc_ok_def sess_ok_def link_ok_def bare_simps)

lemma inproc_avail_world:
  "inproc_avail (w_trans w) p = unat (mq_count (si_msgqueue (ses w p))) + (if receiving w p then 1 else 0)"
  by (simp add: inproc_avail_def bare_simps) (simp add: ses_def)

lemma nn_sinproc_send_ok:
  assumes "si_state (ses w p) = NN_SINPROC_STATE_ACTIVE" and "\<not> sending w p" and "si_peer (ses w p) = Some q"
    and "\<not> on_way w (Ev_sent q)"
  obtains w' where "nn_sinproc_send w p m = Some (w', Inr 0)"
    "ses w' = (ses w)(p := (ses w p)\<lparr>si_msg := \<lparr>sphdr = [], hdrs = [], body = sphdr m @ body m\<rparr>,
       si_flags := si_flags (ses w p) OR NN_SINPROC_FLAG_SENDING\<rparr>)"
    "on_way w' = (on_way w)(Ev_sent q := True)" "w_pipes w' = w_pipes w" "w_events w' = w_events w" "w_stats w' = w_stats w"
    "ctx_evs (ctx_of w') = (ctx_evs (ctx_of w))(Event (Ev_sent q) := \<lparr>ev_fsm = Some (Sinproc q),
       ev_src = NN_SINPROC_SRC_PEER, ev_srcptr = Some p, ev_type = NN_SINPROC_SENT\<rparr>)"
    "ctx_fsms (ctx_of w') = ctx_fsms (ctx_of w)"
proof -
  let ?w = "set_ses p ((ses w p)\<lparr>si_msg := \<lparr>sphdr = [], hdrs = [], body = sphdr m @ body m\<rparr>,
       si_flags := si_flags (ses w p) OR NN_SINPROC_FLAG_SENDING\<rparr>) w"
  have ow: "on_way ?w = on_way w" by (auto simp: on_way_def fun_eq_iff)
  then have "\<not> on_way ?w (Ev_sent q)" using assms(4) by simp
  then obtain w' where w': "raise_peer (Sinproc q) (Ev_sent q) NN_SINPROC_SENT p ?w = Some w'" "ses w' = ses ?w"
    "w_pipes w' = w_pipes ?w" "w_events w' = w_events ?w" "w_stats w' = w_stats ?w" "on_way w' = (on_way ?w)(Ev_sent q := True)"
    "ctx_evs (ctx_of w') = (ctx_evs (ctx_of ?w))(Event (Ev_sent q) := \<lparr>ev_fsm = Some (Sinproc q),
       ev_src = NN_SINPROC_SRC_PEER, ev_srcptr = Some p, ev_type = NN_SINPROC_SENT\<rparr>)"
    "ctx_fsms (ctx_of w') = ctx_fsms (ctx_of ?w)" by (rule raise_peer_ok)
  have "nn_sinproc_send w p m = Some (w', Inr 0)"
    using assms w'(1) by (simp add: nn_sinproc_send_def Let_def sending_def)
  then show thesis using that w' ow by simp
qed

text \<open>Peers are unique, so an event for the peer of one session is never one for the peer of another.\<close>

lemma sess_peer_unique:
  assumes "sess_ok w p" and "sess_ok w r" and "si_peer (ses w p) = Some q" and "si_peer (ses w r) = Some q"
  shows "p = r"
  using assms by (auto simp: sess_ok_def)

lemma sinproc_send_law:
  assumes inv: "inproc_ok w (w_pipes w)" and act: "pipe_active w p" and idle: "out_idle w p"
  shows "\<exists>w'. nn_sinproc_send (upd_pipe p (\<lambda>b. b\<lparr>pb_outstate := NN_PIPEBASE_OUTSTATE_SENDING\<rparr>) w) p m = Some (w', Inr 0)
     \<and> w_pipes w' = w_pipes (upd_pipe p (\<lambda>b. b\<lparr>pb_outstate := NN_PIPEBASE_OUTSTATE_SENDING\<rparr>) w)
     \<and> w_events w' = w_events w \<and> w_stats w' = w_stats w
     \<and> inproc_ok w' (w_pipes (upd_pipe p (\<lambda>b. b\<lparr>pb_outstate := NN_PIPEBASE_OUTSTATE_ASYNC\<rparr>) w))"
proof -
  let ?w = "upd_pipe p (\<lambda>b. b\<lparr>pb_outstate := NN_PIPEBASE_OUTSTATE_SENDING\<rparr>) w"
  have bare: "sending ?w = sending w" "on_way ?w = on_way w" by (auto simp: sending_def on_way_def fun_eq_iff)
  have p: "sess_ok w p" "link_ok (w_pipes w p) w p"
    using inv act by (auto simp: inproc_ok_def pipe_active_def)
  then obtain q where q: "si_peer (ses w p) = Some q" "si_peer (ses w q) = Some p" "q \<noteq> p" by (auto simp: sess_ok_def)
  have pre: "si_state (ses ?w p) = NN_SINPROC_STATE_ACTIVE" "\<not> sending ?w p" "si_peer (ses ?w p) = Some q"
    "\<not> on_way ?w (Ev_sent q)"
    using p q idle by (auto simp: sess_ok_def link_ok_def out_idle_def bare)
  obtain w' where w': "nn_sinproc_send ?w p m = Some (w', Inr 0)"
    "ses w' = (ses ?w)(p := (ses ?w p)\<lparr>si_msg := \<lparr>sphdr = [], hdrs = [], body = sphdr m @ body m\<rparr>,
       si_flags := si_flags (ses ?w p) OR NN_SINPROC_FLAG_SENDING\<rparr>)"
    "on_way w' = (on_way ?w)(Ev_sent q := True)" "w_pipes w' = w_pipes ?w" "w_events w' = w_events ?w" "w_stats w' = w_stats ?w"
    using pre by (rule nn_sinproc_send_ok)
  have rc: "receiving w' = receiving w" by (auto simp: receiving_bit fun_eq_iff w'(2))
  have sd: "sending w' = (sending w)(p := True)" by (auto simp: sending_bit fun_eq_iff w'(2))
  have keep: "si_peer (ses w' r) = si_peer (ses w r)" "si_state (ses w' r) = si_state (ses w r)"
    "si_msgqueue (ses w' r) = si_msgqueue (ses w r)" for r using w'(2) by auto
  have ok: "sess_ok w' r" if "sess_ok w r" for r
    using that unfolding sess_ok_def keep rc by (auto simp: w'(2,3) bare)
  have "link_ok (w_pipes w r) w' r" if "r \<noteq> p" "sess_ok w r" "link_ok (w_pipes w r) w r" for r
    using that sess_peer_unique [OF p(1) that(2) q(1)] by (auto simp: link_ok_def keep sd w'(3) bare)
  moreover have "link_ok ((w_pipes w p)\<lparr>pb_outstate := NN_PIPEBASE_OUTSTATE_ASYNC\<rparr>) w' p"
    using p(2) by (simp add: link_ok_def keep)
  ultimately have "inproc_ok w' (w_pipes (upd_pipe p (\<lambda>b. b\<lparr>pb_outstate := NN_PIPEBASE_OUTSTATE_ASYNC\<rparr>) w))"
    using inv p(1) ok by (auto simp: inproc_ok_def)
  then show ?thesis using w'(1,4-6) by auto
qed

text \<open>A waiting message stays with the peer when there is none or the queue is still full.\<close>

lemma sinproc_retry_stay:
  assumes "si_peer (ses w p) = Some q" and "receiving w p \<longrightarrow> mq_full (si_msgqueue (ses w p)) (si_msg (ses w q))"
  shows "\<exists>w'. sinproc_retry junk w p = Some w' \<and> ses w' = ses w \<and> ctx_of w' = ctx_of w \<and> w_pipes w' = w_pipes w
     \<and> w_events w' = w_events w \<and> w_stats w' = w_stats w"
  using assms by (auto simp: sinproc_retry_def Let_def receiving_def nn_msgqueue_send_full)

lemma sinproc_retry_move:
  assumes st: "si_state (ses w p) \<noteq> NN_SINPROC_STATE_DISCONNECTED" and peer: "si_peer (ses w p) = Some q" "q \<noteq> p"
    and rcv: "receiving w p" and free: "\<not> on_way w (Ev_received q)"
    and rep: "mq_rep (si_msgqueue (ses w p)) xs" "length xs + 1 < 2 ^ 64"
    and room: "\<not> mq_full (si_msgqueue (ses w p)) (si_msg (ses w q))"
  obtains w' mq where "sinproc_retry junk w p = Some w'" "mq_rep mq (xs @ [si_msg (ses w q)])"
    "ses w' = (ses w)(q := (ses w q)\<lparr>si_msg := empty_msg\<rparr>, p := (ses w p)\<lparr>si_msgqueue := mq,
       si_flags := si_flags (ses w p) AND NOT NN_SINPROC_FLAG_RECEIVING\<rparr>)"
    "on_way w' = (on_way w)(Ev_received q := True)" "w_pipes w' = w_pipes w" "w_events w' = w_events w" "w_stats w' = w_stats w"
    "ctx_evs (ctx_of w') = (ctx_evs (ctx_of w))(Event (Ev_received q) := \<lparr>ev_fsm = Some (Sinproc q),
       ev_src = NN_SINPROC_SRC_PEER, ev_srcptr = Some p, ev_type = NN_SINPROC_RECEIVED\<rparr>)"
    "ctx_fsms (ctx_of w') = ctx_fsms (ctx_of w)"
proof -
  from nn_msgqueue_send_ok [OF rep room] obtain mq where
    mq: "nn_msgqueue_send junk (si_msgqueue (ses w p)) (si_msg (ses w q)) = Some (mq, Inr ())"
      "mq_rep mq (xs @ [si_msg (ses w q)])" by blast
  let ?w = "set_ses q ((ses w q)\<lparr>si_msg := empty_msg\<rparr>) (set_ses p ((ses w p)\<lparr>si_msgqueue := mq\<rparr>) w)"
  have ow: "on_way ?w = on_way w" by (auto simp: on_way_def fun_eq_iff)
  then have "\<not> on_way ?w (Ev_received q)" using free by simp
  then obtain w1 where w1: "raise_peer (Sinproc q) (Ev_received q) NN_SINPROC_RECEIVED p ?w = Some w1" "ses w1 = ses ?w"
    "w_pipes w1 = w_pipes ?w" "w_events w1 = w_events ?w" "w_stats w1 = w_stats ?w" "on_way w1 = (on_way ?w)(Ev_received q := True)"
    "ctx_evs (ctx_of w1) = (ctx_evs (ctx_of ?w))(Event (Ev_received q) := \<lparr>ev_fsm = Some (Sinproc q),
       ev_src = NN_SINPROC_SRC_PEER, ev_srcptr = Some p, ev_type = NN_SINPROC_RECEIVED\<rparr>)"
    "ctx_fsms (ctx_of w1) = ctx_fsms (ctx_of ?w)" by (rule raise_peer_ok)
  let ?w' = "set_ses p ((ses w1 p)\<lparr>si_flags := si_flags (ses w1 p) AND NOT NN_SINPROC_FLAG_RECEIVING\<rparr>) w1"
  have "sinproc_retry junk w p = Some ?w'"
    using st peer rcv mq(1) w1(1) by (simp add: sinproc_retry_def Let_def receiving_def)
  moreover have "on_way ?w' = on_way w1" by (auto simp: on_way_def fun_eq_iff)
  moreover have "ses ?w' = (ses w)(q := (ses w q)\<lparr>si_msg := empty_msg\<rparr>, p := (ses w p)\<lparr>si_msgqueue := mq,
       si_flags := si_flags (ses w p) AND NOT NN_SINPROC_FLAG_RECEIVING\<rparr>)"
    using peer(2) by (auto simp: w1(2) fun_eq_iff)
  ultimately show thesis using that [of ?w' mq] mq(2) w1 ow by simp
qed

text \<open>What a receive does to the sessions: the head of the queue is taken, and a waiting message moves in
  behind the rest if there is room for it then.\<close>

definition recv_effect :: "inproc world \<Rightarrow> pipe \<Rightarrow> pipe \<Rightarrow> nn_msg list \<Rightarrow> inproc world \<Rightarrow> bool" where
  "recv_effect w p q xs w' \<longleftrightarrow>
     (\<exists>mq. mq_rep mq xs \<and> (receiving w p \<longrightarrow> mq_full mq (si_msg (ses w q)))
        \<and> ses w' = (ses w)(p := (ses w p)\<lparr>si_msgqueue := mq\<rparr>) \<and> on_way w' = on_way w
        \<and> ctx_evs (ctx_of w') = ctx_evs (ctx_of w) \<and> ctx_fsms (ctx_of w') = ctx_fsms (ctx_of w))
   \<or> (\<exists>mq. mq_rep mq (xs @ [si_msg (ses w q)]) \<and> receiving w p
        \<and> ses w' = (ses w)(q := (ses w q)\<lparr>si_msg := empty_msg\<rparr>, p := (ses w p)\<lparr>si_msgqueue := mq,
             si_flags := si_flags (ses w p) AND NOT NN_SINPROC_FLAG_RECEIVING\<rparr>)
        \<and> on_way w' = (on_way w)(Ev_received q := True)
        \<and> ctx_evs (ctx_of w') = (ctx_evs (ctx_of w))(Event (Ev_received q) := \<lparr>ev_fsm = Some (Sinproc q),
             ev_src = NN_SINPROC_SRC_PEER, ev_srcptr = Some p, ev_type = NN_SINPROC_RECEIVED\<rparr>)
        \<and> ctx_fsms (ctx_of w') = ctx_fsms (ctx_of w))"

lemma nn_sinproc_recv_ok:
  assumes ok: "si_state (ses w p) = NN_SINPROC_STATE_ACTIVE" and peer: "si_peer (ses w p) = Some q" "q \<noteq> p"
    and free: "receiving w p \<longrightarrow> \<not> on_way w (Ev_received q)" and rep: "mq_rep (si_msgqueue (ses w p)) (x # xs)"
    and inst: "pb_instate (w_pipes w p) = NN_PIPEBASE_INSTATE_RECEIVING"
  obtains w' where "nn_sinproc_recv junk w p = Some (w', Inr (0, x))" "recv_effect w p q xs w'"
    "w_pipes w' = (if nn_msgqueue_empty (si_msgqueue (ses w' p)) then w_pipes w
       else w_pipes (upd_pipe p (\<lambda>b. b\<lparr>pb_instate := NN_PIPEBASE_INSTATE_RECEIVED\<rparr>) w))"
    "w_events w' = w_events w" "w_stats w' = w_stats w"
proof -
  from nn_msgqueue_recv_ok [OF rep] obtain mq0 where
    mq0: "nn_msgqueue_recv (si_msgqueue (ses w p)) = Some (mq0, Inr x)" "mq_rep mq0 xs" by blast
  let ?w = "set_ses p ((ses w p)\<lparr>si_msgqueue := mq0\<rparr>) w"
  have bare: "receiving ?w = receiving w" "on_way ?w = on_way w" by (auto simp: receiving_def on_way_def fun_eq_iff)
  have len: "length xs + 1 < 2 ^ 64" using rep by (simp add: mq_rep_def)
  obtain w1 where w1: "sinproc_retry junk ?w p = Some w1" "recv_effect w p q xs w1" "w_pipes w1 = w_pipes w"
    "w_events w1 = w_events w" "w_stats w1 = w_stats w"
  proof (cases "receiving w p \<longrightarrow> mq_full mq0 (si_msg (ses w q))")
    case True
    then obtain w1 where "sinproc_retry junk ?w p = Some w1" "ses w1 = ses ?w" "ctx_of w1 = ctx_of ?w"
      "w_pipes w1 = w_pipes ?w" "w_events w1 = w_events ?w" "w_stats w1 = w_stats ?w"
      using sinproc_retry_stay [of ?w p q junk] peer bare by auto
    moreover from this have "recv_effect w p q xs w1"
      using mq0(2) True by (auto simp: recv_effect_def on_way_def fun_eq_iff)
    ultimately show thesis using that by simp
  next
    case False
    obtain w1 mq where w1: "sinproc_retry junk ?w p = Some w1" "mq_rep mq (xs @ [si_msg (ses ?w q)])"
      "ses w1 = (ses ?w)(q := (ses ?w q)\<lparr>si_msg := empty_msg\<rparr>, p := (ses ?w p)\<lparr>si_msgqueue := mq,
         si_flags := si_flags (ses ?w p) AND NOT NN_SINPROC_FLAG_RECEIVING\<rparr>)"
      "on_way w1 = (on_way ?w)(Ev_received q := True)" "w_pipes w1 = w_pipes ?w" "w_events w1 = w_events ?w" "w_stats w1 = w_stats ?w"
      "ctx_evs (ctx_of w1) = (ctx_evs (ctx_of ?w))(Event (Ev_received q) := \<lparr>ev_fsm = Some (Sinproc q),
         ev_src = NN_SINPROC_SRC_PEER, ev_srcptr = Some p, ev_type = NN_SINPROC_RECEIVED\<rparr>)"
      "ctx_fsms (ctx_of w1) = ctx_fsms (ctx_of ?w)"
      by (rule sinproc_retry_move [of ?w p q xs junk]) (use ok peer False free mq0(2) len bare in auto)
    then have "recv_effect w p q xs w1" using False peer(2) bare by (auto simp: recv_effect_def)
    then show thesis using that w1 by simp
  qed
  let ?w' = "if nn_msgqueue_empty (si_msgqueue (ses w1 p)) then w1
    else upd_pipe p (\<lambda>b. b\<lparr>pb_instate := NN_PIPEBASE_INSTATE_RECEIVED\<rparr>) w1"
  have same: "ses ?w' = ses w1" "ctx_of ?w' = ctx_of w1" "on_way ?w' = on_way w1" by (auto simp: on_way_def fun_eq_iff)
  have "nn_sinproc_recv junk w p = Some (?w', Inr (0, x))"
    using ok mq0(1) w1(1,3) inst by (simp add: nn_sinproc_recv_def Let_def nn_pipebase_received_def)
  moreover have "recv_effect w p q xs ?w'" using w1(2) unfolding recv_effect_def same .
  ultimately show thesis using that [of ?w'] w1 same(1) by simp
qed

lemma recv_effect_facts:
  assumes e: "recv_effect w p q xs w'" and pq: "q \<noteq> p"
  shows "si_peer (ses w' r) = si_peer (ses w r)" and "si_state (ses w' r) = si_state (ses w r)"
    and "r \<noteq> p \<Longrightarrow> si_msgqueue (ses w' r) = si_msgqueue (ses w r)" and "sending w' = sending w"
    and "receiving w' r \<Longrightarrow> receiving w r" and "r \<noteq> p \<Longrightarrow> receiving w' r = receiving w r"
    and "on_way w' e = on_way w e \<or> receiving w p \<and> \<not> receiving w' p \<and> e = Ev_received q"
    and "si_msg (ses w' r) \<in> {si_msg (ses w r), empty_msg}"
    and "\<exists>ys. mq_rep (si_msgqueue (ses w' p)) (xs @ ys) \<and>
       (if receiving w p \<and> \<not> receiving w' p then ys = [si_msg (ses w q)] else ys = [])"
proof -
  let ?stay = "\<lambda>mq. mq_rep mq xs \<and> ses w' = (ses w)(p := (ses w p)\<lparr>si_msgqueue := mq\<rparr>) \<and> on_way w' = on_way w"
  let ?move = "\<lambda>mq. mq_rep mq (xs @ [si_msg (ses w q)]) \<and> receiving w p
    \<and> ses w' = (ses w)(q := (ses w q)\<lparr>si_msg := empty_msg\<rparr>, p := (ses w p)\<lparr>si_msgqueue := mq,
         si_flags := si_flags (ses w p) AND NOT NN_SINPROC_FLAG_RECEIVING\<rparr>)
    \<and> on_way w' = (on_way w)(Ev_received q := True)"
  consider (stay) mq where "?stay mq" | (move) mq where "?move mq" using e unfolding recv_effect_def by blast
  note cases = this
  show "si_peer (ses w' r) = si_peer (ses w r)" "si_state (ses w' r) = si_state (ses w r)"
    "sending w' = sending w" "receiving w' r \<Longrightarrow> receiving w r"
    "si_msg (ses w' r) \<in> {si_msg (ses w r), empty_msg}"
    by (cases rule: cases; use pq in \<open>simp add: sending_bit receiving_bit fun_eq_iff split: if_splits\<close>)+
  show "si_msgqueue (ses w' r) = si_msgqueue (ses w r)" "receiving w' r = receiving w r" if "r \<noteq> p"
    by (cases rule: cases; use that pq in \<open>simp add: receiving_bit\<close>)+
  show "on_way w' e = on_way w e \<or> receiving w p \<and> \<not> receiving w' p \<and> e = Ev_received q"
    by (cases rule: cases; simp add: receiving_bit)
  show "\<exists>ys. mq_rep (si_msgqueue (ses w' p)) (xs @ ys) \<and>
       (if receiving w p \<and> \<not> receiving w' p then ys = [si_msg (ses w q)] else ys = [])"
  proof (cases rule: cases)
    case (stay mq) then show ?thesis by (intro exI [of _ "[]"]) (simp add: receiving_bit)
  next
    case (move mq) then show ?thesis by (intro exI [of _ "[si_msg (ses w q)]"]) (simp add: receiving_bit)
  qed
qed

lemma sinproc_recv_law:
  assumes inv: "inproc_ok w (w_pipes w)" and act: "pipe_active w p" and idle: "in_idle w p"
  shows "\<exists>w' m s. nn_sinproc_recv junk (upd_pipe p (\<lambda>b. b\<lparr>pb_instate := NN_PIPEBASE_INSTATE_RECEIVING\<rparr>) w) p = Some (w', Inr (0, m))
     \<and> sphdr m = []
     \<and> inproc_avail (w_trans w') p < inproc_avail (w_trans w) p \<and> (\<forall>q. inproc_avail (w_trans w') q \<le> inproc_avail (w_trans w) q)
     \<and> s \<in> {NN_PIPEBASE_INSTATE_RECEIVING, NN_PIPEBASE_INSTATE_RECEIVED}
     \<and> w_pipes w' = w_pipes (upd_pipe p (\<lambda>b. b\<lparr>pb_instate := s\<rparr>) w)
     \<and> w_events w' = w_events w \<and> w_stats w' = w_stats w
     \<and> inproc_ok w' (w_pipes (upd_pipe p (\<lambda>b. b\<lparr>pb_instate := (if s = NN_PIPEBASE_INSTATE_RECEIVED
            then NN_PIPEBASE_INSTATE_IDLE else NN_PIPEBASE_INSTATE_ASYNC)\<rparr>) w))"
proof -
  let ?w = "upd_pipe p (\<lambda>b. b\<lparr>pb_instate := NN_PIPEBASE_INSTATE_RECEIVING\<rparr>) w"
  have bare: "sending ?w = sending w" "receiving ?w = receiving w" "on_way ?w = on_way w"
    by (auto simp: sending_def receiving_def on_way_def fun_eq_iff)
  have p: "sess_ok w p" "link_ok (w_pipes w p) w p"
    using inv act by (auto simp: inproc_ok_def pipe_active_def)
  then obtain q ys where q: "si_peer (ses w p) = Some q" "si_peer (ses w q) = Some p" "q \<noteq> p" "sphdr (si_msg (ses w q)) = []"
      "receiving w p \<longrightarrow> \<not> on_way w (Ev_received q)"
    and ys: "mq_rep (si_msgqueue (ses w p)) ys" "\<forall>m \<in> set ys. sphdr m = []" by (auto simp: sess_ok_def)
  have "ys \<noteq> []" using p(2) idle mq_rep_empty [OF ys(1)] by (simp add: link_ok_def in_idle_def)
  then obtain x xs where xs: "ys = x # xs" by (cases ys) auto
  have st: "si_state (ses w p) = NN_SINPROC_STATE_ACTIVE" using p(1) by (simp add: sess_ok_def)
  obtain w' where w': "nn_sinproc_recv junk ?w p = Some (w', Inr (0, x))" "recv_effect ?w p q xs w'"
    "w_pipes w' = (if nn_msgqueue_empty (si_msgqueue (ses w' p)) then w_pipes ?w
       else w_pipes (upd_pipe p (\<lambda>b. b\<lparr>pb_instate := NN_PIPEBASE_INSTATE_RECEIVED\<rparr>) ?w))"
    "w_events w' = w_events ?w" "w_stats w' = w_stats ?w"
    by (rule nn_sinproc_recv_ok [of ?w p q x xs junk]) (use st q ys xs bare in auto)
  note f = recv_effect_facts [OF w'(2) q(3), unfolded bare, simplified]
  obtain zs where zs: "mq_rep (si_msgqueue (ses w' p)) (xs @ zs)"
    "if receiving w p \<and> \<not> receiving w' p then zs = [si_msg (ses w q)] else zs = []" using f(9) by auto
  let ?s = "if nn_msgqueue_empty (si_msgqueue (ses w' p)) then NN_PIPEBASE_INSTATE_RECEIVING else NN_PIPEBASE_INSTATE_RECEIVED"
  have pipes: "w_pipes w' = w_pipes (upd_pipe p (\<lambda>b. b\<lparr>pb_instate := ?s\<rparr>) w)" using w'(3) by simp
  have hdrs: "\<forall>m \<in> set (xs @ zs). sphdr m = []" using ys xs zs(2) q(4) by (auto split: if_splits)
  have okp: "sess_ok w' p"
    using zs(1) hdrs st q f(1) [of p] f(1) [of q] f(2) [of p] f(5) [of p] f(7) [of "Ev_received q"] f(8) [of q]
    unfolding sess_ok_def by (auto simp: empty_msg_def)
  have okr: "sess_ok w' r" if r: "r \<noteq> p" "sess_ok w r" for r
  proof -
    from r(2) obtain q' where q': "si_peer (ses w r) = Some q'" "si_peer (ses w q') = Some r" "q' \<noteq> r"
      "sphdr (si_msg (ses w q')) = []" "receiving w r \<longrightarrow> \<not> on_way w (Ev_received q')" by (auto simp: sess_ok_def)
    have "q' \<noteq> q" using sess_peer_unique [OF p(1) r(2) q(1)] q'(1) r(1) by auto
    then have "receiving w' r \<longrightarrow> \<not> on_way w' (Ev_received q')" using q'(5) f(5) [of r] f(7) [of "Ev_received q'"] by auto
    then show ?thesis
      using r q' f(1) [of r] f(1) [of q'] f(2) [of r] f(3) [of r] f(8) [of q'] by (auto simp: sess_ok_def empty_msg_def)
  qed
  have linkr: "link_ok (w_pipes w r) w' r" if r: "r \<noteq> p" "link_ok (w_pipes w r) w r" for r
    using r f(1) [of r] f(3) [of r] f(4) f(7) by (auto simp: link_ok_def)
  have linkp: "link_ok ((w_pipes w p)\<lparr>pb_instate := (if ?s = NN_PIPEBASE_INSTATE_RECEIVED
            then NN_PIPEBASE_INSTATE_IDLE else NN_PIPEBASE_INSTATE_ASYNC)\<rparr>) w' p"
    using p(2) f(1) [of p] f(4) f(7) by (auto simp: link_ok_def)
  have upd: "inproc_ok w' ((w_pipes w)(p := b))" if "link_ok b w' p" for b
    using inv okp okr linkr that by (auto simp: inproc_ok_def)
  have "inproc_ok w' (w_pipes (upd_pipe p (\<lambda>b. b\<lparr>pb_instate := (if ?s = NN_PIPEBASE_INSTATE_RECEIVED
            then NN_PIPEBASE_INSTATE_IDLE else NN_PIPEBASE_INSTATE_ASYNC)\<rparr>) w))"
    using upd [OF linkp] by simp
  moreover have "inproc_avail (w_trans w') p < inproc_avail (w_trans w) p"
    using mq_rep_count [OF zs(1)] mq_rep_count [OF ys(1)] xs zs(2) f(5) [of p]
    by (simp add: inproc_avail_world split: if_splits)
  moreover have "inproc_avail (w_trans w') r \<le> inproc_avail (w_trans w) r" if "r \<noteq> p" for r
    using f(3) [OF that] f(6) [OF that] by (simp add: inproc_avail_world)
  moreover have "sphdr x = []" using ys xs by simp
  moreover have "w_events w' = w_events w" "w_stats w' = w_stats w" using w'(4,5) by simp_all
  ultimately show ?thesis using w'(1) pipes
    by (intro exI [of _ w'] exI [of _ x] exI [of _ ?s]) (metis insertCI le_less)
qed

end
