(* ===== verification/Inproc_Channel.thy ===== *)
theory Inproc_Channel
  imports Sinproc
begin

text \<open>
  Two connected inproc sessions as a full-duplex channel. The behaviours of the pair are the
  sequences of sends and receives of the two sockets, of deliveries of the events the sessions
  raise for each other, in any order, and of notifications of the sockets. No behaviour trips an
  assertion, and in each direction what was received, followed by what is still on its way, is what
  was sent: nothing is lost, duplicated or reordered.
\<close>

section \<open>Events of an established session\<close>

lemma sinproc_sent_full:
  assumes "si_peer (ses w p) = Some q" and "mq_full (si_msgqueue (ses w p)) (si_msg (ses w q))"
  shows "sinproc_sent junk p w = Some (set_ses p ((ses w p)\<lparr>si_flags := si_flags (ses w p) OR NN_SINPROC_FLAG_RECEIVING\<rparr>) w)"
  using assms by (simp add: sinproc_sent_def Let_def nn_msgqueue_send_full)

lemma sinproc_sent_ok:
  assumes peer: "si_peer (ses w p) = Some q" "q \<noteq> p" and free: "\<not> on_way w (Ev_received q)"
    and rep: "mq_rep (si_msgqueue (ses w p)) xs" "length xs + 1 < 2 ^ 64"
    and room: "\<not> mq_full (si_msgqueue (ses w p)) (si_msg (ses w q))"
    and inst: "xs = [] \<Longrightarrow> pb_instate (w_pipes w p) = NN_PIPEBASE_INSTATE_ASYNC \<and> (p, NN_PIPE_IN) \<notin> set (w_events w)"
  obtains w' mq where "sinproc_sent junk p w = Some w'" "mq_rep mq (xs @ [si_msg (ses w q)])"
    "ses w' = (ses w)(p := (ses w p)\<lparr>si_msgqueue := mq\<rparr>, q := (ses w q)\<lparr>si_msg := empty_msg\<rparr>)"
    "on_way w' = (on_way w)(Ev_received q := True)"
    "w_pipes w' = (if xs = [] then w_pipes (upd_pipe p (\<lambda>b. b\<lparr>pb_instate := NN_PIPEBASE_INSTATE_IDLE\<rparr>) w) else w_pipes w)"
    "w_events w' = (if xs = [] then w_events w @ [(p, NN_PIPE_IN)] else w_events w)"
    "ctx_evs (ctx_of w') = (ctx_evs (ctx_of w))(Event (Ev_received q) := \<lparr>ev_fsm = Some (Sinproc q),
       ev_src = NN_SINPROC_SRC_PEER, ev_srcptr = Some p, ev_type = NN_SINPROC_RECEIVED\<rparr>)"
    "ctx_fsms (ctx_of w') = ctx_fsms (ctx_of w)"
proof -
  from nn_msgqueue_send_ok [OF rep room] obtain mq where
    mq: "nn_msgqueue_send junk (si_msgqueue (ses w p)) (si_msg (ses w q)) = Some (mq, Inr ())"
      "mq_rep mq (xs @ [si_msg (ses w q)])" by blast
  let ?w1 = "set_ses q ((ses w q)\<lparr>si_msg := empty_msg\<rparr>) (set_ses p ((ses w p)\<lparr>si_msgqueue := mq\<rparr>) w)"
  let ?w2 = "if xs = [] then (upd_pipe p (\<lambda>b. b\<lparr>pb_instate := NN_PIPEBASE_INSTATE_IDLE\<rparr>) ?w1)
      \<lparr>w_events := w_events w @ [(p, NN_PIPE_IN)]\<rparr> else ?w1"
  have ev: "ses (x\<lparr>w_events := es\<rparr>) = ses x" "ctx_of (x\<lparr>w_events := es\<rparr>) = ctx_of x" for x es
    by (auto simp: ses_def ctx_of_def fun_eq_iff)
  have rcv: "(if nn_msgqueue_empty (si_msgqueue (ses w p)) then nn_pipebase_received ?w1 p else Some ?w1) = Some ?w2"
    using inst mq_rep_empty [OF rep(1)] by (simp add: nn_pipebase_received_def nn_pipe_raise_def)
  have ow: "on_way ?w2 = on_way w" by (auto simp: on_way_def fun_eq_iff ev)
  then have "\<not> on_way ?w2 (Ev_received q)" using free by simp
  then obtain w' where w': "raise_peer (Sinproc q) (Ev_received q) NN_SINPROC_RECEIVED p ?w2 = Some w'" "ses w' = ses ?w2"
    "w_pipes w' = w_pipes ?w2" "w_events w' = w_events ?w2" "w_stats w' = w_stats ?w2" "on_way w' = (on_way ?w2)(Ev_received q := True)"
    "ctx_evs (ctx_of w') = (ctx_evs (ctx_of ?w2))(Event (Ev_received q) := \<lparr>ev_fsm = Some (Sinproc q),
       ev_src = NN_SINPROC_SRC_PEER, ev_srcptr = Some p, ev_type = NN_SINPROC_RECEIVED\<rparr>)"
    "ctx_fsms (ctx_of w') = ctx_fsms (ctx_of ?w2)" by (rule raise_peer_ok)
  have "sinproc_sent junk p w = Some w'"
    using peer mq(1) rcv w'(1) mq_rep_empty [OF rep(1)] by (cases "xs = []") (simp_all add: sinproc_sent_def Let_def)
  moreover have "ses ?w2 = (ses w)(p := (ses w p)\<lparr>si_msgqueue := mq\<rparr>, q := (ses w q)\<lparr>si_msg := empty_msg\<rparr>)"
    using peer(2) by (simp add: ev)
  moreover have "ctx_of ?w2 = ctx_of w" by (simp add: ev)
  ultimately show thesis using that [of w' mq] mq(2) w' ow by simp
qed

lemma sinproc_received_ok:
  assumes "sending w p" and "pb_outstate (w_pipes w p) = NN_PIPEBASE_OUTSTATE_ASYNC" and "(p, NN_PIPE_OUT) \<notin> set (w_events w)"
  obtains w' where "sinproc_received p w = Some w'"
    "ses w' = (ses w)(p := (ses w p)\<lparr>si_flags := si_flags (ses w p) AND NOT NN_SINPROC_FLAG_SENDING\<rparr>)"
    "ctx_of w' = ctx_of w" "w_pipes w' = w_pipes (upd_pipe p (\<lambda>b. b\<lparr>pb_outstate := NN_PIPEBASE_OUTSTATE_IDLE\<rparr>) w)"
    "w_events w' = w_events w @ [(p, NN_PIPE_OUT)]"
proof -
  let ?w = "(upd_pipe p (\<lambda>b. b\<lparr>pb_outstate := NN_PIPEBASE_OUTSTATE_IDLE\<rparr>) w)\<lparr>w_events := w_events w @ [(p, NN_PIPE_OUT)]\<rparr>"
  let ?w' = "set_ses p ((ses w p)\<lparr>si_flags := si_flags (ses w p) AND NOT NN_SINPROC_FLAG_SENDING\<rparr>) ?w"
  have ev: "ses ?w = ses w" "ctx_of ?w = ctx_of w" by (auto simp: ses_def ctx_of_def fun_eq_iff)
  have "sinproc_received p w = Some ?w'"
    using assms ev(1) by (simp add: sinproc_received_def sending_def nn_pipebase_sent_def nn_pipe_raise_def)
  then show thesis by (rule that) (simp_all add: ev)
qed

section \<open>One direction of a channel\<close>

text \<open>What the transfer from \<open>a\<close> to \<open>b\<close> depends on.\<close>

record direction =
  d_sending :: bool
  d_msg :: nn_msg
  d_queue :: nn_msgqueue
  d_receiving :: bool
  d_sent :: bool
  d_received :: bool
  d_out :: pb_outstate
  d_in :: pb_instate
  d_pout :: bool
  d_pin :: bool

definition direction_of :: "inproc world \<Rightarrow> pipe \<Rightarrow> pipe \<Rightarrow> direction" where
  "direction_of w a b = \<lparr>d_sending = sending w a, d_msg = si_msg (ses w a), d_queue = si_msgqueue (ses w b),
     d_receiving = receiving w b, d_sent = on_way w (Ev_sent b), d_received = on_way w (Ev_received a),
     d_out = pb_outstate (w_pipes w a), d_in = pb_instate (w_pipes w b),
     d_pout = ((a, NN_PIPE_OUT) \<in> set (w_events w)), d_pin = ((b, NN_PIPE_IN) \<in> set (w_events w))\<rparr>"

definition in_transit :: "direction \<Rightarrow> nn_msg list" where
  "in_transit d = (if d_sent d \<or> d_receiving d then [d_msg d] else [])"

definition dir_rep :: "direction \<Rightarrow> nn_msg list \<Rightarrow> bool" where
  "dir_rep d xs \<longleftrightarrow> mq_rep (d_queue d) xs
     \<and> (\<forall>m \<in> set (xs @ in_transit d). sphdr m = [])
     \<and> (d_sending d \<longleftrightarrow> d_sent d \<or> d_receiving d \<or> d_received d)
     \<and> \<not> (d_sent d \<and> d_receiving d) \<and> \<not> (d_sent d \<and> d_received d) \<and> \<not> (d_receiving d \<and> d_received d)
     \<and> d_out d = (if d_sending d then NN_PIPEBASE_OUTSTATE_ASYNC else NN_PIPEBASE_OUTSTATE_IDLE)
     \<and> d_in d = (if xs = [] then NN_PIPEBASE_INSTATE_ASYNC else NN_PIPEBASE_INSTATE_IDLE)
     \<and> (d_receiving d \<longrightarrow> xs \<noteq> []) \<and> (d_pout d \<longrightarrow> \<not> d_sending d) \<and> (d_pin d \<longrightarrow> xs \<noteq> [])"

definition dir_inv :: "direction \<Rightarrow> bytes list \<Rightarrow> bool" where
  "dir_inv d ms \<longleftrightarrow> (\<exists>xs. dir_rep d xs \<and> ms = map body (xs @ in_transit d))"

lemma dir_send:
  assumes "dir_rep d xs" and "\<not> d_sending d" and "\<not> d_pout d"
  shows "dir_rep (d\<lparr>d_sending := True, d_msg := \<lparr>sphdr = [], hdrs = [], body = b\<rparr>, d_sent := True,
      d_out := NN_PIPEBASE_OUTSTATE_ASYNC\<rparr>) xs"
    and "in_transit d = []"
  using assms unfolding dir_rep_def in_transit_def
  by (cases "d_sent d"; cases "d_receiving d"; cases "d_received d"; cases "d_pin d"; simp)+

lemma dir_full:
  assumes "dir_rep d xs" and "d_sent d" and "mq_full (d_queue d) (d_msg d)"
  shows "dir_rep (d\<lparr>d_sent := False, d_receiving := True\<rparr>) xs"
  using assms mq_rep_empty [of "d_queue d" xs] unfolding dir_rep_def in_transit_def mq_full_def
  by (cases "d_receiving d"; cases "d_received d"; simp)

lemma dir_accept:
  assumes "dir_rep d xs" and "d_sent d" and "mq_rep mq (xs @ [d_msg d])" and "pin \<longrightarrow> d_pin d \<or> xs = []"
  shows "dir_rep (d\<lparr>d_sent := False, d_received := True, d_queue := mq, d_msg := empty_msg,
      d_in := NN_PIPEBASE_INSTATE_IDLE, d_pin := pin\<rparr>) (xs @ [d_msg d])"
    and "in_transit d = [d_msg d]" and "\<not> d_receiving d"
  using assms unfolding dir_rep_def in_transit_def
  by (cases "d_sent d"; cases "d_receiving d"; cases "d_received d"; cases "d_pin d"; simp)+

lemma dir_received:
  assumes "dir_rep d xs" and "d_received d"
  shows "dir_rep (d\<lparr>d_sending := False, d_received := False, d_out := NN_PIPEBASE_OUTSTATE_IDLE, d_pout := True\<rparr>) xs"
    and "in_transit d = []"
  using assms unfolding dir_rep_def in_transit_def
  by (cases "d_sent d"; cases "d_receiving d"; cases "d_received d"; cases "d_pin d"; simp)+

lemma dir_recv_stay:
  assumes "dir_rep d (x # xs)" and "mq_rep mq xs" and "d_receiving d \<longrightarrow> xs \<noteq> []" and "\<not> d_pin d"
  shows "dir_rep (d\<lparr>d_queue := mq, d_in := (if xs = [] then NN_PIPEBASE_INSTATE_ASYNC else NN_PIPEBASE_INSTATE_IDLE)\<rparr>) xs"
proof -
  from assms(1) have d: "\<forall>m \<in> set (xs @ in_transit d). sphdr m = []"
    "d_sending d \<longleftrightarrow> d_sent d \<or> d_receiving d \<or> d_received d" "\<not> (d_sent d \<and> d_receiving d)"
    "\<not> (d_sent d \<and> d_received d)" "\<not> (d_receiving d \<and> d_received d)"
    "d_out d = (if d_sending d then NN_PIPEBASE_OUTSTATE_ASYNC else NN_PIPEBASE_OUTSTATE_IDLE)"
    unfolding dir_rep_def by simp_all
  have po: "d_pout d \<longrightarrow> \<not> d_sending d" using assms(1) unfolding dir_rep_def by blast
  have "in_transit (d\<lparr>d_queue := mq, d_in := i\<rparr>) = in_transit d" for i by (simp add: in_transit_def)
  then show ?thesis using assms(2-4) d po unfolding dir_rep_def by simp
qed

lemma dir_recv_move:
  assumes "dir_rep d (x # xs)" and "mq_rep mq (xs @ [d_msg d])" and "d_receiving d" and "\<not> d_pin d"
  shows "dir_rep (d\<lparr>d_queue := mq, d_receiving := False, d_received := True, d_msg := empty_msg\<rparr>) (xs @ [d_msg d])"
    and "in_transit d = [d_msg d]"
proof -
  from assms(1) have d: "\<forall>m \<in> set (xs @ in_transit d). sphdr m = []"
    "d_sending d \<longleftrightarrow> d_sent d \<or> d_receiving d \<or> d_received d" "\<not> (d_sent d \<and> d_receiving d)"
    "d_out d = (if d_sending d then NN_PIPEBASE_OUTSTATE_ASYNC else NN_PIPEBASE_OUTSTATE_IDLE)"
    "d_in d = NN_PIPEBASE_INSTATE_IDLE"
    unfolding dir_rep_def by simp_all
  have po: "d_pout d \<longrightarrow> \<not> d_sending d" using assms(1) unfolding dir_rep_def by blast
  show t: "in_transit d = [d_msg d]" using assms(3) by (simp add: in_transit_def)
  show "dir_rep (d\<lparr>d_queue := mq, d_receiving := False, d_received := True, d_msg := empty_msg\<rparr>) (xs @ [d_msg d])"
    using assms(2-4) d po t unfolding dir_rep_def by (simp add: in_transit_def)
qed

lemma dir_notify:
  assumes "dir_rep d xs" and "po \<longrightarrow> d_pout d" and "pi \<longrightarrow> d_pin d"
  shows "dir_rep (d\<lparr>d_pout := po, d_pin := pi\<rparr>) xs"
proof -
  let ?d = "d\<lparr>d_pout := po, d_pin := pi\<rparr>"
  have "in_transit ?d = in_transit d" "d_queue ?d = d_queue d" "d_sending ?d = d_sending d" "d_sent ?d = d_sent d"
    "d_receiving ?d = d_receiving d" "d_received ?d = d_received d" "d_out ?d = d_out d" "d_in ?d = d_in d"
    "d_pout ?d = po" "d_pin ?d = pi" by (simp_all add: in_transit_def)
  then show ?thesis using assms unfolding dir_rep_def by (simp only:) blast
qed

section \<open>The pair\<close>

definition event_ok :: "inproc world \<Rightarrow> pipe \<Rightarrow> pipe \<Rightarrow> bool" where
  "event_ok w a b \<longleftrightarrow>
     (on_way w (Ev_sent b) \<longrightarrow> ctx_evs (ctx_of w) (Event (Ev_sent b)) = \<lparr>ev_fsm = Some (Sinproc b),
        ev_src = NN_SINPROC_SRC_PEER, ev_srcptr = Some a, ev_type = NN_SINPROC_SENT\<rparr>)
   \<and> (on_way w (Ev_received b) \<longrightarrow> ctx_evs (ctx_of w) (Event (Ev_received b)) = \<lparr>ev_fsm = Some (Sinproc b),
        ev_src = NN_SINPROC_SRC_PEER, ev_srcptr = Some a, ev_type = NN_SINPROC_RECEIVED\<rparr>)"

definition end_ok :: "inproc world \<Rightarrow> pipe \<Rightarrow> pipe \<Rightarrow> bool" where
  "end_ok w a b \<longleftrightarrow> si_state (ses w a) = NN_SINPROC_STATE_ACTIVE \<and> si_peer (ses w a) = Some b
     \<and> fsm_state (ctx_fsms (ctx_of w) (Sinproc a)) \<noteq> NN_FSM_STATE_STOPPING \<and> event_ok w b a"

definition duplex :: "inproc world \<Rightarrow> pipe \<Rightarrow> pipe \<Rightarrow> bool" where
  "duplex w a b \<longleftrightarrow> a \<noteq> b \<and> end_ok w a b \<and> end_ok w b a"

text \<open>Delivery of an event: it is taken out of the queue that links it and processed by its machine. An
  event is one node, so at most one queue links it, once.\<close>

definition unlink :: "inproc_ev \<Rightarrow> inproc world \<Rightarrow> inproc world" where
  "unlink e w = (let c = ctx_of w; out = filter (\<lambda>x. x \<noteq> Event e) in
     set_ctx (c\<lparr>ctx_events := out (ctx_events c), ctx_eventsto := out (ctx_eventsto c)\<rparr>) w)"

definition chan_deliver :: "nn_msg \<Rightarrow> (inproc, 's) sock_add \<Rightarrow> (inproc, 's) sock_fn \<Rightarrow> inproc_ev \<Rightarrow>
  's inproc_state \<Rightarrow> 's inproc_state option" where
  "chan_deliver junk sock_add sock_rm e st = nn_fsm_event_process inproc_get inproc_upd
     (nn_sinproc_handler junk sock_add sock_rm) (nn_sinproc_shutdown sock_rm) (Event e) (unlink e (fst st), snd st)"

text \<open>The state of a session when its handler runs for event \<open>e\<close>.\<close>

definition fetched :: "inproc_ev \<Rightarrow> inproc world \<Rightarrow> inproc world \<Rightarrow> bool" where
  "fetched e w w1 \<longleftrightarrow> ses w1 = ses w \<and> w_pipes w1 = w_pipes w \<and> w_events w1 = w_events w
     \<and> on_way w1 = (on_way w)(e := False)
     \<and> (\<forall>x. x \<noteq> Event e \<longrightarrow> ctx_evs (ctx_of w1) x = ctx_evs (ctx_of w) x) \<and> ctx_fsms (ctx_of w1) = ctx_fsms (ctx_of w)"

lemma chan_deliver_dispatch:
  assumes ev: "ctx_evs (ctx_of w) (Event e) = \<lparr>ev_fsm = Some (Sinproc b), ev_src = NN_SINPROC_SRC_PEER,
      ev_srcptr = Some a, ev_type = ty\<rparr>"
    and b: "fsm_state (ctx_fsms (ctx_of w) (Sinproc b)) \<noteq> NN_FSM_STATE_STOPPING"
  obtains w1 where "fetched e w w1" "chan_deliver junk sa sr e (w, s) =
    nn_sinproc_handler junk sa sr (Sinproc b) NN_SINPROC_SRC_PEER ty (Some a) (w1, s)"
proof -
  let ?c = "set_ev (Event e) \<lparr>ev_fsm = Some (Sinproc b), ev_src = -1, ev_srcptr = None, ev_type = -1\<rparr> (ctx_of (unlink e w))"
  let ?w1 = "set_ctx ?c (unlink e w)"
  have "fetched e w ?w1"
    by (auto simp: fetched_def unlink_def Let_def on_way_def nn_fsm_event_active_def fun_eq_iff)
  moreover have "chan_deliver junk sa sr e (w, s) =
      nn_sinproc_handler junk sa sr (Sinproc b) NN_SINPROC_SRC_PEER ty (Some a) (?w1, s)"
    using ev b by (simp add: chan_deliver_def nn_fsm_event_process_def inproc_get_def inproc_upd_def unlink_def
        nn_fsm_feed_def Let_def)
  ultimately show thesis by (rule that)
qed

lemma duplex_sym: "duplex w a b = duplex w b a"
  by (auto simp: duplex_def)

text \<open>The operations of the pair, each with its effect on the two directions.\<close>

lemma pair_send:
  assumes d: "duplex w a b" and r: "dir_rep (direction_of w a b) xs" and idle: "out_idle w a"
  shows "\<exists>w' rc. nn_pipe_send (nn_sinproc_pipebase_vfptr junk) w a m = Some (w', rc) \<and> duplex w' a b
     \<and> direction_of w' b a = direction_of w b a
     \<and> direction_of w' a b = (direction_of w a b)\<lparr>d_sending := True, d_msg := \<lparr>sphdr = [], hdrs = [], body = sphdr m @ body m\<rparr>,
          d_sent := True, d_out := NN_PIPEBASE_OUTSTATE_ASYNC\<rparr>"
proof -
  let ?w = "upd_pipe a (\<lambda>b. b\<lparr>pb_outstate := NN_PIPEBASE_OUTSTATE_SENDING\<rparr>) w"
  have bare: "sending ?w = sending w" "on_way ?w = on_way w" by (auto simp: sending_def on_way_def fun_eq_iff)
  have ns: "\<not> sending w a" "\<not> on_way w (Ev_sent b)"
    using r idle by (auto simp: dir_rep_def direction_of_def out_idle_def split: if_splits)
  obtain w' where w': "nn_sinproc_send ?w a m = Some (w', Inr 0)"
    "ses w' = (ses ?w)(a := (ses ?w a)\<lparr>si_msg := \<lparr>sphdr = [], hdrs = [], body = sphdr m @ body m\<rparr>,
       si_flags := si_flags (ses ?w a) OR NN_SINPROC_FLAG_SENDING\<rparr>)"
    "on_way w' = (on_way ?w)(Ev_sent b := True)" "w_pipes w' = w_pipes ?w" "w_events w' = w_events ?w" "w_stats w' = w_stats ?w"
    "ctx_evs (ctx_of w') = (ctx_evs (ctx_of ?w))(Event (Ev_sent b) := \<lparr>ev_fsm = Some (Sinproc b),
       ev_src = NN_SINPROC_SRC_PEER, ev_srcptr = Some a, ev_type = NN_SINPROC_SENT\<rparr>)"
    "ctx_fsms (ctx_of w') = ctx_fsms (ctx_of ?w)"
    by (rule nn_sinproc_send_ok [of ?w a b m]) (use d ns bare in \<open>auto simp: duplex_def end_ok_def\<close>)
  let ?w' = "upd_pipe a (\<lambda>b. b\<lparr>pb_outstate := NN_PIPEBASE_OUTSTATE_ASYNC\<rparr>) w'"
  have "nn_pipe_send (nn_sinproc_pipebase_vfptr junk) w a m = Some (?w', 0 OR NN_PIPE_RELEASE)"
    using idle w'(1,4) by (simp add: nn_pipe_send_def out_idle_def nn_sinproc_pipebase_vfptr_def Let_def)
  moreover have "duplex ?w' a b"
    using d w'(2,3,7,8) bare by (auto simp: duplex_def end_ok_def event_ok_def on_way_def fun_eq_iff split: if_splits)
  moreover have "direction_of ?w' b a = direction_of w b a"
    using d w'(2-5) bare by (auto simp: duplex_def direction_of_def sending_bit receiving_bit on_way_def fun_eq_iff)
  moreover have "direction_of ?w' a b = (direction_of w a b)\<lparr>d_sending := True, d_msg := \<lparr>sphdr = [], hdrs = [], body = sphdr m @ body m\<rparr>,
          d_sent := True, d_out := NN_PIPEBASE_OUTSTATE_ASYNC\<rparr>"
    using d w'(2-5) bare by (auto simp: duplex_def direction_of_def sending_bit receiving_bit on_way_def fun_eq_iff)
  ultimately show ?thesis by blast
qed

lemma pair_sent:
  assumes d: "duplex w a b" and r: "dir_rep (direction_of w a b) xs" and ev: "on_way w (Ev_sent b)"
    and cnt: "mq_count (si_msgqueue (ses w b)) \<noteq> - 1"
  shows "\<exists>w' ys. chan_deliver junk sa sr (Ev_sent b) (w, s) = Some (w', s) \<and> duplex w' a b
     \<and> direction_of w' b a = direction_of w b a \<and> dir_rep (direction_of w' a b) ys
     \<and> ys @ in_transit (direction_of w' a b) = xs @ in_transit (direction_of w a b)
     \<and> \<not> d_sent (direction_of w' a b)"
proof -
  let ?d = "direction_of w a b"
  have rep: "mq_rep (si_msgqueue (ses w b)) xs" using r by (simp add: dir_rep_def direction_of_def)
  have ds: "d_sent ?d" using ev by (simp add: direction_of_def)
  have rcvd: "\<not> on_way w (Ev_received a)" using r ev by (auto simp: dir_rep_def direction_of_def)
  have inb: "xs = [] \<Longrightarrow> pb_instate (w_pipes w b) = NN_PIPEBASE_INSTATE_ASYNC \<and> (b, NN_PIPE_IN) \<notin> set (w_events w)"
    "xs \<noteq> [] \<Longrightarrow> pb_instate (w_pipes w b) = NN_PIPEBASE_INSTATE_IDLE"
    using r by (auto simp: dir_rep_def direction_of_def)
  have b: "si_state (ses w b) = NN_SINPROC_STATE_ACTIVE" "si_peer (ses w b) = Some a" "a \<noteq> b"
    "ctx_evs (ctx_of w) (Event (Ev_sent b)) = \<lparr>ev_fsm = Some (Sinproc b), ev_src = NN_SINPROC_SRC_PEER,
      ev_srcptr = Some a, ev_type = NN_SINPROC_SENT\<rparr>"
    "fsm_state (ctx_fsms (ctx_of w) (Sinproc b)) \<noteq> NN_FSM_STATE_STOPPING"
    using d ev by (auto simp: duplex_def end_ok_def event_ok_def)
  obtain w1 where f: "fetched (Ev_sent b) w w1" and del: "chan_deliver junk sa sr (Ev_sent b) (w, s) =
      nn_sinproc_handler junk sa sr (Sinproc b) NN_SINPROC_SRC_PEER NN_SINPROC_SENT (Some a) (w1, s)"
    by (rule chan_deliver_dispatch [OF b(4,5)])
  have w1: "ses w1 = ses w" "w_pipes w1 = w_pipes w" "w_events w1 = w_events w" "on_way w1 = (on_way w)(Ev_sent b := False)"
    "\<And>x. x \<noteq> Event (Ev_sent b) \<Longrightarrow> ctx_evs (ctx_of w1) x = ctx_evs (ctx_of w) x" "ctx_fsms (ctx_of w1) = ctx_fsms (ctx_of w)"
    using f by (auto simp: fetched_def)
  have del': "chan_deliver junk sa sr (Ev_sent b) (w, s) = Some (w', s)" if "sinproc_sent junk b w1 = Some w'" for w'
    using that b(1) w1(1) unfolding del by simp
  show ?thesis
  proof (cases "mq_full (si_msgqueue (ses w b)) (si_msg (ses w a))")
    case True
    let ?w' = "set_ses b ((ses w1 b)\<lparr>si_flags := si_flags (ses w1 b) OR NN_SINPROC_FLAG_RECEIVING\<rparr>) w1"
    have ow: "on_way ?w' = on_way w1" by (auto simp: on_way_def fun_eq_iff)
    have "sinproc_sent junk b w1 = Some ?w'" using sinproc_sent_full [of w1 b a junk] b(2) True w1(1) by simp
    note res = del' [OF this]
    have "direction_of ?w' a b = ?d\<lparr>d_sent := False, d_receiving := True\<rparr>" "direction_of ?w' b a = direction_of w b a"
      using b(3) ow w1 by (auto simp: direction_of_def sending_bit receiving_bit)
    moreover have "duplex ?w' a b"
      using d b(3) ow w1 by (auto simp: duplex_def end_ok_def event_ok_def)
    moreover have "dir_rep (?d\<lparr>d_sent := False, d_receiving := True\<rparr>) xs"
      by (rule dir_full [OF r ds]) (use True in \<open>simp add: direction_of_def\<close>)
    moreover have "in_transit (?d\<lparr>d_sent := False, d_receiving := True\<rparr>) = in_transit ?d" using ds by (simp add: in_transit_def)
    ultimately show ?thesis using res by auto
  next
    case False
    obtain w' mq where w': "sinproc_sent junk b w1 = Some w'" "mq_rep mq (xs @ [si_msg (ses w1 a)])"
      "ses w' = (ses w1)(b := (ses w1 b)\<lparr>si_msgqueue := mq\<rparr>, a := (ses w1 a)\<lparr>si_msg := empty_msg\<rparr>)"
      "on_way w' = (on_way w1)(Ev_received a := True)"
      "w_pipes w' = (if xs = [] then w_pipes (upd_pipe b (\<lambda>b. b\<lparr>pb_instate := NN_PIPEBASE_INSTATE_IDLE\<rparr>) w1) else w_pipes w1)"
      "w_events w' = (if xs = [] then w_events w1 @ [(b, NN_PIPE_IN)] else w_events w1)"
      "ctx_evs (ctx_of w') = (ctx_evs (ctx_of w1))(Event (Ev_received a) := \<lparr>ev_fsm = Some (Sinproc a),
         ev_src = NN_SINPROC_SRC_PEER, ev_srcptr = Some b, ev_type = NN_SINPROC_RECEIVED\<rparr>)"
      "ctx_fsms (ctx_of w') = ctx_fsms (ctx_of w1)"
      by (rule sinproc_sent_ok [of w1 b a xs junk]) (use b rcvd rep mq_rep_room [OF rep cnt] False inb w1 in auto)
    obtain pin where pin: "pin = d_pin (direction_of w' a b)" by simp
    have dab: "direction_of w' a b = ?d\<lparr>d_sent := False, d_received := True, d_queue := mq, d_msg := empty_msg,
        d_in := NN_PIPEBASE_INSTATE_IDLE, d_pin := pin\<rparr>"
      using b(3) w'(3-6) w1 inb pin by (auto simp: direction_of_def sending_bit receiving_bit)
    have "pin \<longrightarrow> d_pin ?d \<or> xs = []" using w'(6) w1(3) pin by (simp add: direction_of_def)
    moreover have msg: "d_msg ?d = si_msg (ses w1 a)" using w1(1) by (simp add: direction_of_def)
    ultimately have dir: "dir_rep (direction_of w' a b) (xs @ [d_msg ?d])" "in_transit ?d = [d_msg ?d]" "\<not> d_receiving ?d"
      using dir_accept [OF r ds, of mq pin] w'(2) unfolding dab by simp_all
    have "direction_of w' b a = direction_of w b a"
      using b(3) w'(3-6) w1 by (auto simp: direction_of_def sending_bit receiving_bit)
    moreover have "duplex w' a b"
      using d b(3) w'(3,4,7,8) w1 by (auto simp: duplex_def end_ok_def event_ok_def)
    moreover have "in_transit (direction_of w' a b) = []" unfolding dab in_transit_def using dir(3) by simp
    moreover have "\<not> d_sent (direction_of w' a b)" unfolding dab by simp
    ultimately show ?thesis using del' [OF w'(1)] dir(1,2)
      by (intro exI [of _ w'] exI [of _ "xs @ [d_msg ?d]"]) simp
  qed
qed

lemma pair_received:
  assumes d: "duplex w a b" and r: "dir_rep (direction_of w a b) xs" and ev: "on_way w (Ev_received a)"
  shows "\<exists>w'. chan_deliver junk sa sr (Ev_received a) (w, s) = Some (w', s) \<and> duplex w' a b
     \<and> direction_of w' b a = direction_of w b a
     \<and> direction_of w' a b = (direction_of w a b)\<lparr>d_sending := False, d_received := False,
          d_out := NN_PIPEBASE_OUTSTATE_IDLE, d_pout := True\<rparr>"
proof -
  have st: "sending w a" "pb_outstate (w_pipes w a) = NN_PIPEBASE_OUTSTATE_ASYNC" "(a, NN_PIPE_OUT) \<notin> set (w_events w)"
    using r ev by (auto simp: dir_rep_def direction_of_def)
  have a: "si_state (ses w a) = NN_SINPROC_STATE_ACTIVE" "a \<noteq> b"
    "ctx_evs (ctx_of w) (Event (Ev_received a)) = \<lparr>ev_fsm = Some (Sinproc a), ev_src = NN_SINPROC_SRC_PEER,
      ev_srcptr = Some b, ev_type = NN_SINPROC_RECEIVED\<rparr>"
    "fsm_state (ctx_fsms (ctx_of w) (Sinproc a)) \<noteq> NN_FSM_STATE_STOPPING"
    using d ev by (auto simp: duplex_def end_ok_def event_ok_def)
  obtain w1 where f: "fetched (Ev_received a) w w1" and del: "chan_deliver junk sa sr (Ev_received a) (w, s) =
      nn_sinproc_handler junk sa sr (Sinproc a) NN_SINPROC_SRC_PEER NN_SINPROC_RECEIVED (Some b) (w1, s)"
    by (rule chan_deliver_dispatch [OF a(3,4)])
  have w1: "ses w1 = ses w" "w_pipes w1 = w_pipes w" "w_events w1 = w_events w" "on_way w1 = (on_way w)(Ev_received a := False)"
    "\<And>x. x \<noteq> Event (Ev_received a) \<Longrightarrow> ctx_evs (ctx_of w1) x = ctx_evs (ctx_of w) x" "ctx_fsms (ctx_of w1) = ctx_fsms (ctx_of w)"
    using f by (auto simp: fetched_def)
  obtain w' where w': "sinproc_received a w1 = Some w'"
    "ses w' = (ses w1)(a := (ses w1 a)\<lparr>si_flags := si_flags (ses w1 a) AND NOT NN_SINPROC_FLAG_SENDING\<rparr>)"
    "ctx_of w' = ctx_of w1" "w_pipes w' = w_pipes (upd_pipe a (\<lambda>b. b\<lparr>pb_outstate := NN_PIPEBASE_OUTSTATE_IDLE\<rparr>) w1)"
    "w_events w' = w_events w1 @ [(a, NN_PIPE_OUT)]"
    by (rule sinproc_received_ok [of w1 a]) (use st w1 in \<open>auto simp: sending_def\<close>)
  have ow: "on_way w' = on_way w1" using w'(3) by (auto simp: on_way_def fun_eq_iff)
  have "chan_deliver junk sa sr (Ev_received a) (w, s) = Some (w', s)"
    using w'(1) a(1) w1(1) unfolding del by (simp add: NN_SINPROC_RECEIVED_def NN_SINPROC_SENT_def)
  moreover have "duplex w' a b"
    using d a(2) w'(2,3) ow w1 by (auto simp: duplex_def end_ok_def event_ok_def)
  moreover have "direction_of w' b a = direction_of w b a"
    using a(2) w'(2,4,5) ow w1 by (auto simp: direction_of_def sending_bit receiving_bit)
  moreover have "direction_of w' a b = (direction_of w a b)\<lparr>d_sending := False, d_received := False,
          d_out := NN_PIPEBASE_OUTSTATE_IDLE, d_pout := True\<rparr>"
    using a(2) w'(2,4,5) ow w1 by (auto simp: direction_of_def sending_bit receiving_bit)
  ultimately show ?thesis by blast
qed

lemma pair_recv:
  assumes d: "duplex w a b" and r: "dir_rep (direction_of w a b) xs" and idle: "in_idle w b"
    and np: "(b, NN_PIPE_IN) \<notin> set (w_events w)"
  shows "\<exists>w' rc m ys. nn_pipe_recv (nn_sinproc_pipebase_vfptr junk) w b = Some (w', rc, m) \<and> sphdr m = [] \<and> duplex w' a b
     \<and> direction_of w' b a = direction_of w b a \<and> dir_rep (direction_of w' a b) ys
     \<and> m # ys @ in_transit (direction_of w' a b) = xs @ in_transit (direction_of w a b)"
proof -
  let ?d = "direction_of w a b" and ?w = "upd_pipe b (\<lambda>b. b\<lparr>pb_instate := NN_PIPEBASE_INSTATE_RECEIVING\<rparr>) w"
  have bare: "sending ?w = sending w" "receiving ?w = receiving w" "on_way ?w = on_way w"
    by (auto simp: sending_def receiving_def on_way_def fun_eq_iff)
  have "xs \<noteq> []" using r idle by (auto simp: dir_rep_def direction_of_def in_idle_def)
  then obtain x zs where xs: "xs = x # zs" by (cases xs) auto
  note r = r [unfolded xs]
  have rep: "mq_rep (si_msgqueue (ses w b)) (x # zs)" and x: "sphdr x = []"
    using r by (auto simp: dir_rep_def direction_of_def)
  have fr: "receiving w b \<longrightarrow> \<not> on_way w (Ev_received a)" using r by (auto simp: dir_rep_def direction_of_def)
  have ab: "a \<noteq> b" "si_state (ses w b) = NN_SINPROC_STATE_ACTIVE" "si_peer (ses w b) = Some a"
    using d by (auto simp: duplex_def end_ok_def)
  have npd: "\<not> d_pin ?d" using np by (simp add: direction_of_def)
  obtain w1 where w1: "nn_sinproc_recv junk ?w b = Some (w1, Inr (0, x))" "recv_effect ?w b a zs w1"
    "w_pipes w1 = (if nn_msgqueue_empty (si_msgqueue (ses w1 b)) then w_pipes ?w
       else w_pipes (upd_pipe b (\<lambda>b. b\<lparr>pb_instate := NN_PIPEBASE_INSTATE_RECEIVED\<rparr>) ?w))"
    "w_events w1 = w_events ?w" "w_stats w1 = w_stats ?w"
    by (rule nn_sinproc_recv_ok [of ?w b a x zs junk]) (use ab rep fr bare in auto)
  let ?e = "nn_msgqueue_empty (si_msgqueue (ses w1 b))"
  let ?i = "if ?e then NN_PIPEBASE_INSTATE_ASYNC else NN_PIPEBASE_INSTATE_IDLE"
  let ?w' = "upd_pipe b (\<lambda>b. b\<lparr>pb_instate := ?i\<rparr>) w1"
  have recv: "\<exists>rc. nn_pipe_recv (nn_sinproc_pipebase_vfptr junk) w b = Some (?w', rc, x)"
    using idle w1(1,3) by (simp add: nn_pipe_recv_def in_idle_def nn_sinproc_pipebase_vfptr_def Let_def)
  have same: "ses ?w' = ses w1" "ctx_of ?w' = ctx_of w1" "on_way ?w' = on_way w1" "w_events ?w' = w_events w"
    "w_pipes ?w' = (w_pipes w)(b := (w_pipes w b)\<lparr>pb_instate := ?i\<rparr>)"
    using w1(3,4) by (auto simp: on_way_def fun_eq_iff)
  from w1(2) consider (stay) mq where "mq_rep mq zs" "receiving w b \<longrightarrow> mq_full mq (si_msg (ses w a))"
      "ses w1 = (ses w)(b := (ses w b)\<lparr>si_msgqueue := mq\<rparr>)" "on_way w1 = on_way w"
      "ctx_evs (ctx_of w1) = ctx_evs (ctx_of w)" "ctx_fsms (ctx_of w1) = ctx_fsms (ctx_of w)"
    | (move) mq where "mq_rep mq (zs @ [si_msg (ses w a)])" "receiving w b"
      "ses w1 = (ses w)(a := (ses w a)\<lparr>si_msg := empty_msg\<rparr>, b := (ses w b)\<lparr>si_msgqueue := mq,
           si_flags := si_flags (ses w b) AND NOT NN_SINPROC_FLAG_RECEIVING\<rparr>)"
      "on_way w1 = (on_way w)(Ev_received a := True)"
      "ctx_evs (ctx_of w1) = (ctx_evs (ctx_of w))(Event (Ev_received a) := \<lparr>ev_fsm = Some (Sinproc a),
           ev_src = NN_SINPROC_SRC_PEER, ev_srcptr = Some b, ev_type = NN_SINPROC_RECEIVED\<rparr>)"
      "ctx_fsms (ctx_of w1) = ctx_fsms (ctx_of w)"
    unfolding recv_effect_def bare upd_pipe_ses by blast
  then show ?thesis
  proof cases
    case stay
    have e: "?e = (zs = [])" using mq_rep_empty [OF stay(1)] stay(3) by simp
    have nz: "d_receiving ?d \<longrightarrow> zs \<noteq> []" using stay(2) mq_rep_empty [OF stay(1)] by (auto simp: mq_full_def direction_of_def)
    have dab: "direction_of ?w' a b = ?d\<lparr>d_queue := mq, d_in := (if zs = [] then NN_PIPEBASE_INSTATE_ASYNC else NN_PIPEBASE_INSTATE_IDLE)\<rparr>"
      using ab(1) stay(3,4) same e by (simp add: direction_of_def sending_bit receiving_bit)
    have "direction_of ?w' b a = direction_of w b a" "duplex ?w' a b"
      using d ab(1) stay(3-6) same by (simp_all add: direction_of_def sending_bit receiving_bit duplex_def end_ok_def event_ok_def)
    moreover have "dir_rep (direction_of ?w' a b) zs" unfolding dab by (rule dir_recv_stay [OF r stay(1) nz npd])
    moreover have "in_transit (direction_of ?w' a b) = in_transit ?d" unfolding dab by (simp add: in_transit_def)
    ultimately show ?thesis using recv x unfolding xs by (metis append_Cons)
  next
    case move
    have e: "\<not> ?e" using mq_rep_empty [OF move(1)] move(3) ab(1) by simp
    have dr: "d_receiving ?d" "d_in ?d = NN_PIPEBASE_INSTATE_IDLE" "\<not> d_sent ?d"
      using move(2) r by (auto simp: direction_of_def dir_rep_def)
    have dab: "direction_of ?w' a b = ?d\<lparr>d_queue := mq, d_receiving := False, d_received := True, d_msg := empty_msg\<rparr>"
      using ab(1) move(3,4) same e dr(2) by (auto simp: direction_of_def sending_bit receiving_bit)
    have "direction_of ?w' b a = direction_of w b a" "duplex ?w' a b"
      using d ab(1) move(3-6) same by (auto simp: direction_of_def sending_bit receiving_bit duplex_def end_ok_def event_ok_def)
    moreover have "d_msg ?d = si_msg (ses w a)" by (simp add: direction_of_def)
    moreover from this have "dir_rep (direction_of ?w' a b) (zs @ [d_msg ?d])" "in_transit ?d = [d_msg ?d]"
      unfolding dab using dir_recv_move [OF r _ dr(1) npd, of mq] move(1) by simp_all
    moreover have "in_transit (direction_of ?w' a b) = []" unfolding dab using dr(3) by (simp add: in_transit_def)
    ultimately show ?thesis using recv x unfolding xs by (metis append_Cons append_Nil2 append_assoc)
  qed
qed

section \<open>Behaviours of the pair\<close>

text \<open>The operations: the socket of an end sends or receives, an event between the ends is delivered, a socket
  takes the next notification. A log records what each end has sent and received. \<open>2 ^ 64 - 1\<close> queued
  messages do not fit any memory, so an event that would exceed the counter is not considered.\<close>

datatype pair_op = PSend pipe nn_msg | PRecv pipe | PDeliver inproc_ev | PNotify

record pair_state =
  ps_world :: "inproc world"
  ps_sent :: "pipe \<Rightarrow> bytes list"
  ps_got :: "pipe \<Rightarrow> bytes list"

fun pair_exec :: "nn_msg \<Rightarrow> (inproc, unit) sock_add \<Rightarrow> (inproc, unit) sock_fn \<Rightarrow> pair_op \<Rightarrow> pair_state \<Rightarrow> pair_state option" where
  "pair_exec junk sa sr (PSend a m) st = do {
     (w, _) \<leftarrow> nn_pipe_send (nn_sinproc_pipebase_vfptr junk) (ps_world st) a m;
     Some (st\<lparr>ps_world := w, ps_sent := (ps_sent st)(a := ps_sent st a @ [sphdr m @ body m])\<rparr>) }"
| "pair_exec junk sa sr (PRecv a) st = do {
     (w, _, m) \<leftarrow> nn_pipe_recv (nn_sinproc_pipebase_vfptr junk) (ps_world st) a;
     Some (st\<lparr>ps_world := w, ps_got := (ps_got st)(a := ps_got st a @ [sphdr m @ body m])\<rparr>) }"
| "pair_exec junk sa sr (PDeliver e) st = do {
     (w, _) \<leftarrow> chan_deliver junk sa sr e (ps_world st, ());
     Some (st\<lparr>ps_world := w\<rparr>) }"
| "pair_exec junk sa sr PNotify st = Some (st\<lparr>ps_world := (ps_world st)\<lparr>w_events := tl (w_events (ps_world st))\<rparr>\<rparr>)"

fun pair_guard :: "pipe \<Rightarrow> pipe \<Rightarrow> pair_op \<Rightarrow> pair_state \<Rightarrow> bool" where
  "pair_guard p q (PSend a m) st \<longleftrightarrow> a \<in> {p, q} \<and> out_idle (ps_world st) a \<and> (a, NN_PIPE_OUT) \<notin> set (w_events (ps_world st))"
| "pair_guard p q (PRecv a) st \<longleftrightarrow> a \<in> {p, q} \<and> in_idle (ps_world st) a \<and> (a, NN_PIPE_IN) \<notin> set (w_events (ps_world st))"
| "pair_guard p q (PDeliver e) st \<longleftrightarrow> e \<in> {Ev_sent p, Ev_sent q, Ev_received p, Ev_received q} \<and> on_way (ps_world st) e
     \<and> (\<forall>a \<in> {p, q}. mq_count (si_msgqueue (ses (ps_world st) a)) \<noteq> - 1)"
| "pair_guard p q PNotify st \<longleftrightarrow> True"

inductive pair_step :: "nn_msg \<Rightarrow> (inproc, unit) sock_add \<Rightarrow> (inproc, unit) sock_fn \<Rightarrow> pipe \<Rightarrow> pipe \<Rightarrow> pair_state \<Rightarrow> pair_state \<Rightarrow> bool"
  for junk sa sr p q where
  pair_stepI: "pair_guard p q op st \<Longrightarrow> pair_exec junk sa sr op st = Some st' \<Longrightarrow> pair_step junk sa sr p q st st'"

inductive_cases pair_stepE: "pair_step junk sa sr p q st st'"

definition half_inv :: "pair_state \<Rightarrow> pipe \<Rightarrow> pipe \<Rightarrow> bool" where
  "half_inv st a b \<longleftrightarrow> (\<exists>ms. dir_inv (direction_of (ps_world st) a b) ms \<and> ps_sent st a = ps_got st b @ ms)"

definition pair_inv :: "pipe \<Rightarrow> pipe \<Rightarrow> pair_state \<Rightarrow> bool" where
  "pair_inv p q st \<longleftrightarrow> duplex (ps_world st) p q \<and> half_inv st p q \<and> half_inv st q p"

lemma pair_inv_sym: "pair_inv p q st = pair_inv q p st"
  by (auto simp: pair_inv_def duplex_sym)

lemma half_inv_frame:
  assumes "half_inv st b a" and "direction_of (ps_world st') b a = direction_of (ps_world st) b a"
    and "ps_sent st' b = ps_sent st b" and "ps_got st' a = ps_got st a"
  shows "half_inv st' b a"
  using assms by (simp add: half_inv_def)

lemma half_inv_E:
  assumes "half_inv st a b"
  obtains xs where "dir_rep (direction_of (ps_world st) a b) xs"
    "ps_sent st a = ps_got st b @ map body (xs @ in_transit (direction_of (ps_world st) a b))"
  using assms by (auto simp: half_inv_def dir_inv_def)

lemma half_inv_I:
  "dir_rep (direction_of (ps_world st) a b) xs \<Longrightarrow>
   ps_sent st a = ps_got st b @ map body (xs @ in_transit (direction_of (ps_world st) a b)) \<Longrightarrow> half_inv st a b"
  unfolding half_inv_def dir_inv_def by blast

lemma exec_PSend:
  assumes inv: "pair_inv a b st" and g: "out_idle (ps_world st) a" "(a, NN_PIPE_OUT) \<notin> set (w_events (ps_world st))"
  shows "\<exists>st'. pair_exec junk sa sr (PSend a m) st = Some st' \<and> pair_inv a b st'"
proof -
  let ?d = "direction_of (ps_world st) a b"
  from inv have d: "duplex (ps_world st) a b" and h: "half_inv st a b" "half_inv st b a" by (auto simp: pair_inv_def)
  from h(1) obtain xs where r: "dir_rep ?d xs" and l: "ps_sent st a = ps_got st b @ map body (xs @ in_transit ?d)"
    by (rule half_inv_E)
  from pair_send [OF d r g(1), of junk m] obtain w' rc where
    w': "nn_pipe_send (nn_sinproc_pipebase_vfptr junk) (ps_world st) a m = Some (w', rc)" "duplex w' a b"
      "direction_of w' b a = direction_of (ps_world st) b a"
      "direction_of w' a b = ?d\<lparr>d_sending := True, d_msg := \<lparr>sphdr = [], hdrs = [], body = sphdr m @ body m\<rparr>,
          d_sent := True, d_out := NN_PIPEBASE_OUTSTATE_ASYNC\<rparr>" by blast
  let ?st = "st\<lparr>ps_world := w', ps_sent := (ps_sent st)(a := ps_sent st a @ [sphdr m @ body m])\<rparr>"
  have ns: "\<not> d_sending ?d" "\<not> d_pout ?d"
    using r g by (auto simp: dir_rep_def direction_of_def out_idle_def split: if_splits)
  have ab: "a \<noteq> b" using d by (simp add: duplex_def)
  have "dir_rep (direction_of w' a b) xs" "in_transit ?d = []"
    using dir_send(1) [OF r ns, of "sphdr m @ body m"] dir_send(2) [OF r ns] unfolding w'(4) by simp_all
  moreover have "in_transit (direction_of w' a b) = [\<lparr>sphdr = [], hdrs = [], body = sphdr m @ body m\<rparr>]"
    unfolding w'(4) by (simp add: in_transit_def)
  ultimately have "half_inv ?st a b" using l ab by (intro half_inv_I [of _ _ _ xs]) simp_all
  moreover have "half_inv ?st b a" by (rule half_inv_frame [OF h(2)]) (use w'(3) ab in simp_all)
  ultimately show ?thesis using w'(1,2) by (simp add: pair_inv_def)
qed

lemma exec_PRecv:
  assumes inv: "pair_inv a b st" and g: "in_idle (ps_world st) b" "(b, NN_PIPE_IN) \<notin> set (w_events (ps_world st))"
  shows "\<exists>st'. pair_exec junk sa sr (PRecv b) st = Some st' \<and> pair_inv a b st'"
proof -
  let ?d = "direction_of (ps_world st) a b"
  from inv have d: "duplex (ps_world st) a b" and h: "half_inv st a b" "half_inv st b a" by (auto simp: pair_inv_def)
  from h(1) obtain xs where r: "dir_rep ?d xs" and l: "ps_sent st a = ps_got st b @ map body (xs @ in_transit ?d)"
    by (rule half_inv_E)
  from pair_recv [OF d r g, of junk] obtain w' rc m ys where
    w': "nn_pipe_recv (nn_sinproc_pipebase_vfptr junk) (ps_world st) b = Some (w', rc, m)" "sphdr m = []" "duplex w' a b"
      "direction_of w' b a = direction_of (ps_world st) b a" "dir_rep (direction_of w' a b) ys"
      "m # ys @ in_transit (direction_of w' a b) = xs @ in_transit ?d" by blast
  let ?st = "st\<lparr>ps_world := w', ps_got := (ps_got st)(b := ps_got st b @ [sphdr m @ body m])\<rparr>"
  have ab: "a \<noteq> b" using d by (simp add: duplex_def)
  have "half_inv ?st a b"
    using l w'(2,5) ab unfolding w'(6) [symmetric] by (intro half_inv_I [of _ _ _ ys]) simp_all
  moreover have "half_inv ?st b a" by (rule half_inv_frame [OF h(2)]) (use w'(4) ab in simp_all)
  ultimately show ?thesis using w'(1,3) by (simp add: pair_inv_def)
qed

lemma exec_PDeliver:
  assumes inv: "pair_inv a b st" and ev: "on_way (ps_world st) e" "e \<in> {Ev_sent b, Ev_received a}"
    and cnt: "mq_count (si_msgqueue (ses (ps_world st) b)) \<noteq> - 1"
  shows "\<exists>st'. pair_exec junk sa sr (PDeliver e) st = Some st' \<and> pair_inv a b st'
     \<and> (e = Ev_sent b \<longrightarrow> \<not> d_sent (direction_of (ps_world st') a b)
          \<and> direction_of (ps_world st') b a = direction_of (ps_world st) b a)"
proof -
  let ?d = "direction_of (ps_world st) a b"
  from inv have d: "duplex (ps_world st) a b" and h: "half_inv st a b" "half_inv st b a" by (auto simp: pair_inv_def)
  from h(1) obtain xs where r: "dir_rep ?d xs" and l: "ps_sent st a = ps_got st b @ map body (xs @ in_transit ?d)"
    by (rule half_inv_E)
  have "\<exists>w' ys. chan_deliver junk sa sr e (ps_world st, ()) = Some (w', ()) \<and> duplex w' a b
     \<and> direction_of w' b a = direction_of (ps_world st) b a \<and> dir_rep (direction_of w' a b) ys
     \<and> ys @ in_transit (direction_of w' a b) = xs @ in_transit ?d
     \<and> (e = Ev_sent b \<longrightarrow> \<not> d_sent (direction_of w' a b))"
  proof (cases "e = Ev_sent b")
    case True
    with ev(1) have "on_way (ps_world st) (Ev_sent b)" by simp
    from pair_sent [OF d r this cnt, of junk sa sr "()"] show ?thesis unfolding True simp_thms .
  next
    case False
    then have e: "e = Ev_received a" using ev(2) by blast
    from pair_received [OF d r, of junk sa sr "()"] ev(1) e obtain w' where
      w': "chan_deliver junk sa sr e (ps_world st, ()) = Some (w', ())" "duplex w' a b"
        "direction_of w' b a = direction_of (ps_world st) b a"
        "direction_of w' a b = ?d\<lparr>d_sending := False, d_received := False,
          d_out := NN_PIPEBASE_OUTSTATE_IDLE, d_pout := True\<rparr>" by blast
    have "d_received ?d" using ev(1) e by (simp add: direction_of_def)
    note dr = dir_received [OF r this]
    have "in_transit (direction_of w' a b) = in_transit ?d" unfolding w'(4) by (simp add: in_transit_def)
    then have "dir_rep (direction_of w' a b) xs \<and> xs @ in_transit (direction_of w' a b) = xs @ in_transit ?d"
      using dr(1) unfolding w'(4) by simp
    then show ?thesis using w'(1-3) e by (intro exI [of _ w'] exI [of _ xs]) simp
  qed
  then obtain w' ys where w': "chan_deliver junk sa sr e (ps_world st, ()) = Some (w', ())" "duplex w' a b"
      "direction_of w' b a = direction_of (ps_world st) b a" "dir_rep (direction_of w' a b) ys"
      "ys @ in_transit (direction_of w' a b) = xs @ in_transit ?d"
      "e = Ev_sent b \<longrightarrow> \<not> d_sent (direction_of w' a b)" by blast
  have "half_inv (st\<lparr>ps_world := w'\<rparr>) a b"
    using l w'(4) unfolding w'(5) [symmetric] by (intro half_inv_I [of _ _ _ ys]) simp_all
  moreover have "half_inv (st\<lparr>ps_world := w'\<rparr>) b a" by (rule half_inv_frame [OF h(2)]) (use w'(3) in simp_all)
  ultimately show ?thesis using w'(1-3,6) by (simp add: pair_inv_def)
qed

lemma exec_PNotify:
  assumes inv: "pair_inv p q st"
  shows "\<exists>st'. pair_exec junk sa sr PNotify st = Some st' \<and> pair_inv p q st'"
proof -
  let ?w = "ps_world st" and ?w' = "(ps_world st)\<lparr>w_events := tl (w_events (ps_world st))\<rparr>"
  have sub: "set (tl (w_events ?w)) \<subseteq> set (w_events ?w)" by (cases "w_events ?w") auto
  have same: "ses ?w' = ses ?w" "ctx_of ?w' = ctx_of ?w" "on_way ?w' = on_way ?w"
    by (auto simp: ses_def ctx_of_def on_way_def fun_eq_iff)
  have dir: "direction_of ?w' a b = (direction_of ?w a b)\<lparr>d_pout := ((a, NN_PIPE_OUT) \<in> set (tl (w_events ?w))),
      d_pin := ((b, NN_PIPE_IN) \<in> set (tl (w_events ?w)))\<rparr>" for a b
    by (simp add: direction_of_def sending_def receiving_def same)
  have "half_inv (st\<lparr>ps_world := ?w'\<rparr>) a b" if h: "half_inv st a b" for a b
  proof -
    from h obtain xs where r: "dir_rep (direction_of ?w a b) xs"
      and l: "ps_sent st a = ps_got st b @ map body (xs @ in_transit (direction_of ?w a b))" by (rule half_inv_E)
    have "in_transit (direction_of ?w' a b) = in_transit (direction_of ?w a b)" unfolding dir by (simp add: in_transit_def)
    moreover have "dir_rep (direction_of ?w' a b) xs"
      unfolding dir by (rule dir_notify [OF r]) (use sub in \<open>auto simp: direction_of_def\<close>)
    ultimately show ?thesis using l by (intro half_inv_I [of _ _ _ xs]) simp_all
  qed
  moreover have "duplex ?w' p q = duplex ?w p q" by (simp add: duplex_def end_ok_def event_ok_def same)
  ultimately show ?thesis using inv by (simp add: pair_inv_def)
qed

lemma pair_exec_safe:
  assumes inv: "pair_inv p q st" and g: "pair_guard p q op st"
  shows "\<exists>st'. pair_exec junk sa sr op st = Some st' \<and> pair_inv p q st'"
proof (cases op)
  case (PSend a m)
  then consider "a = p" | "a = q" using g by auto
  then show ?thesis using exec_PSend [of p q st junk sa sr m] exec_PSend [of q p st junk sa sr m] inv g PSend
    by cases (auto simp: pair_inv_sym [of q p])
next
  case (PRecv a)
  then consider "a = q" | "a = p" using g by auto
  then show ?thesis using exec_PRecv [of p q st junk sa sr] exec_PRecv [of q p st junk sa sr] inv g PRecv
    by cases (auto simp: pair_inv_sym [of q p])
next
  case (PDeliver e)
  then consider "e \<in> {Ev_sent q, Ev_received p}" | "e \<in> {Ev_sent p, Ev_received q}" using g by auto
  then show ?thesis using exec_PDeliver [of p q st e junk sa sr] exec_PDeliver [of q p st e junk sa sr] inv g PDeliver
    by cases (auto simp: pair_inv_sym [of q p])
next
  case PNotify
  then show ?thesis using exec_PNotify [OF inv] by simp
qed

lemma pair_step_inv: "pair_inv p q st \<Longrightarrow> pair_step junk sa sr p q st st' \<Longrightarrow> pair_inv p q st'"
  by (erule pair_stepE) (metis option.inject pair_exec_safe)

lemma pair_reach_inv:
  assumes "(pair_step junk sa sr p q)\<^sup>*\<^sup>* st st'" and "pair_inv p q st"
  shows "pair_inv p q st'"
  using assms by (induction rule: rtranclp_induct) (auto intro: pair_step_inv)

lemma pair_inv_prefix:
  assumes "pair_inv p q st"
  shows "\<exists>ms. ps_sent st p = ps_got st q @ ms"
  using assms by (auto simp: pair_inv_def half_inv_def)

text \<open>Progress. Messages are outstanding as long as one end has not received all that the other has sent. Once the
  pending notifications are taken, an outstanding message can be received or the event that carries it can be
  delivered, and both bring the pair closer to the state in which nothing is outstanding.\<close>

definition outstanding :: "pair_state \<Rightarrow> pipe \<Rightarrow> pipe \<Rightarrow> nat" where
  "outstanding st a b = length (ps_sent st a) - length (ps_got st b)"

definition backlog :: "pair_state \<Rightarrow> pipe \<Rightarrow> pipe \<Rightarrow> nat" where
  "backlog st a b = 3 * (outstanding st a b + outstanding st b a)
     + of_bool (d_sent (direction_of (ps_world st) a b)) + of_bool (d_sent (direction_of (ps_world st) b a))"

lemma backlog_sym: "backlog st a b = backlog st b a"
  by (simp add: backlog_def)

lemma half_inv_outstanding:
  assumes "half_inv st a b"
  shows "\<exists>xs. (xs \<noteq> [] \<longrightarrow> in_idle (ps_world st) b)
     \<and> (xs = [] \<longrightarrow> mq_count (si_msgqueue (ses (ps_world st) b)) = 0)
     \<and> (xs = [] \<longrightarrow> outstanding st a b \<noteq> 0 \<longrightarrow> on_way (ps_world st) (Ev_sent b))"
proof -
  let ?d = "direction_of (ps_world st) a b"
  from assms obtain xs where r: "dir_rep ?d xs"
    and l: "ps_sent st a = ps_got st b @ map body (xs @ in_transit ?d)" by (rule half_inv_E)
  from r have rep: "mq_rep (si_msgqueue (ses (ps_world st) b)) xs" by (simp add: dir_rep_def direction_of_def)
  have o: "outstanding st a b = length xs + length (in_transit ?d)" using l by (simp add: outstanding_def)
  have "xs \<noteq> [] \<longrightarrow> in_idle (ps_world st) b" using r by (simp add: dir_rep_def direction_of_def in_idle_def)
  moreover have "xs = [] \<longrightarrow> mq_count (si_msgqueue (ses (ps_world st) b)) = 0"
    using mq_rep_empty [OF rep] by (simp add: nn_msgqueue_empty_def)
  moreover have "xs = [] \<longrightarrow> outstanding st a b \<noteq> 0 \<longrightarrow> on_way (ps_world st) (Ev_sent b)"
    using r o by (auto simp: dir_rep_def in_transit_def direction_of_def split: if_splits)
  ultimately show ?thesis by blast
qed

lemma pair_notified:
  "(pair_step junk sa sr p q)\<^sup>*\<^sup>* st (st\<lparr>ps_world := (ps_world st)\<lparr>w_events := []\<rparr>\<rparr>)"
proof (induction "length (w_events (ps_world st))" arbitrary: st)
  case 0
  then have "st\<lparr>ps_world := (ps_world st)\<lparr>w_events := []\<rparr>\<rparr> = st" by simp
  then show ?case by simp
next
  case (Suc n)
  let ?st = "st\<lparr>ps_world := (ps_world st)\<lparr>w_events := tl (w_events (ps_world st))\<rparr>\<rparr>"
  have "pair_step junk sa sr p q st ?st" by (rule pair_stepI [of _ _ PNotify]) simp_all
  moreover have "(pair_step junk sa sr p q)\<^sup>*\<^sup>* ?st (?st\<lparr>ps_world := (ps_world ?st)\<lparr>w_events := []\<rparr>\<rparr>)"
    using Suc.hyps(2) by (intro Suc.hyps(1)) simp
  ultimately show ?case by (simp add: converse_rtranclp_into_rtranclp)
qed

lemma recv_progress:
  assumes inv: "pair_inv a b st" and ev: "w_events (ps_world st) = []" and idle: "in_idle (ps_world st) b"
  shows "pair_guard a b (PRecv b) st \<and> (\<exists>st'. pair_exec junk sa sr (PRecv b) st = Some st' \<and> pair_inv a b st'
     \<and> ps_sent st' = ps_sent st \<and> backlog st' a b < backlog st a b)"
proof -
  have g: "(b, NN_PIPE_IN) \<notin> set (w_events (ps_world st))" using ev by simp
  obtain st' where st': "pair_exec junk sa sr (PRecv b) st = Some st'" "pair_inv a b st'"
    using exec_PRecv [OF inv idle g] by blast
  then obtain m where m: "ps_sent st' = ps_sent st" "ps_got st' = (ps_got st)(b := ps_got st b @ [m])"
    by (auto simp: bind_Some_iff)
  have ab: "a \<noteq> b" using inv by (simp add: pair_inv_def duplex_def)
  have "length (ps_got st' b) \<le> length (ps_sent st' a)" using st'(2) by (auto simp: pair_inv_def half_inv_def)
  then have "Suc (outstanding st' a b) = outstanding st a b" "outstanding st' b a = outstanding st b a"
    using m ab by (auto simp: outstanding_def)
  then have "backlog st' a b < backlog st a b" by (simp add: backlog_def)
  then show ?thesis using st' m(1) idle g by simp
qed

lemma sent_progress:
  assumes inv: "pair_inv a b st" and ev: "on_way (ps_world st) (Ev_sent b)"
    and cnt: "mq_count (si_msgqueue (ses (ps_world st) a)) = 0" "mq_count (si_msgqueue (ses (ps_world st) b)) = 0"
  shows "pair_guard a b (PDeliver (Ev_sent b)) st \<and> (\<exists>st'. pair_exec junk sa sr (PDeliver (Ev_sent b)) st = Some st'
     \<and> pair_inv a b st' \<and> ps_sent st' = ps_sent st \<and> backlog st' a b < backlog st a b)"
proof -
  obtain st' where st': "pair_exec junk sa sr (PDeliver (Ev_sent b)) st = Some st'" "pair_inv a b st'"
    "\<not> d_sent (direction_of (ps_world st') a b)" "direction_of (ps_world st') b a = direction_of (ps_world st) b a"
    using exec_PDeliver [OF inv ev, of junk sa sr] cnt by auto
  then have same: "ps_sent st' = ps_sent st" "ps_got st' = ps_got st" by (auto simp: bind_Some_iff)
  have "d_sent (direction_of (ps_world st) a b)" using ev by (simp add: direction_of_def)
  then have "backlog st' a b < backlog st a b" using st'(3,4) same by (simp add: backlog_def outstanding_def)
  then show ?thesis using st'(1,2) same(1) ev cnt by simp
qed

text \<open>The receives and deliveries, as opposed to sends and notifications.\<close>

fun moves :: "pair_op \<Rightarrow> bool" where
  "moves (PSend a m) \<longleftrightarrow> False"
| "moves (PRecv a) \<longleftrightarrow> True"
| "moves (PDeliver e) \<longleftrightarrow> True"
| "moves PNotify \<longleftrightarrow> False"

lemma pair_guard_sym: "pair_guard p q op st = pair_guard q p op st"
  by (cases op) auto

lemma pair_progress_half:
  assumes inv: "pair_inv a b st" and ev: "w_events (ps_world st) = []" and out: "outstanding st a b \<noteq> 0"
  shows "\<exists>op st'. moves op \<and> pair_guard a b op st \<and> pair_exec junk sa sr op st = Some st' \<and> ps_sent st' = ps_sent st
     \<and> backlog st' a b < backlog st a b"
proof -
  from inv have h: "half_inv st a b" "half_inv st b a" by (auto simp: pair_inv_def)
  obtain xs where xs: "xs \<noteq> [] \<longrightarrow> in_idle (ps_world st) b"
    "xs = [] \<longrightarrow> mq_count (si_msgqueue (ses (ps_world st) b)) = 0"
    "xs = [] \<longrightarrow> on_way (ps_world st) (Ev_sent b)" using half_inv_outstanding [OF h(1)] out by blast
  obtain ys where ys: "ys \<noteq> [] \<longrightarrow> in_idle (ps_world st) a"
    "ys = [] \<longrightarrow> mq_count (si_msgqueue (ses (ps_world st) a)) = 0" using half_inv_outstanding [OF h(2)] by blast
  consider "xs \<noteq> []" | "ys \<noteq> []" | "xs = []" "ys = []" by blast
  then show ?thesis
  proof cases
    case 1
    then show ?thesis using recv_progress [OF inv ev xs(1) [rule_format]] moves.simps(2) by blast
  next
    case 2
    have "pair_inv b a st" using inv pair_inv_sym by blast
    from recv_progress [OF this ev ys(1) [rule_format, OF 2]] show ?thesis
      unfolding backlog_sym [of _ b a] pair_guard_sym [of b a] using moves.simps(2) by blast
  next
    case 3
    then show ?thesis using sent_progress [OF inv xs(3) [rule_format] ys(2) [rule_format] xs(2) [rule_format]] moves.simps(3) by blast
  qed
qed

lemma pair_progress:
  assumes inv: "pair_inv p q st" and ev: "w_events (ps_world st) = []"
    and out: "outstanding st p q \<noteq> 0 \<or> outstanding st q p \<noteq> 0"
  shows "\<exists>op st'. moves op \<and> pair_guard p q op st \<and> pair_exec junk sa sr op st = Some st' \<and> ps_sent st' = ps_sent st
     \<and> backlog st' p q < backlog st p q"
proof (cases "outstanding st p q \<noteq> 0")
  case True
  then show ?thesis using pair_progress_half [OF inv ev] by blast
next
  case False
  have "pair_inv q p st" using inv pair_inv_sym by blast
  from pair_progress_half [OF this ev] show ?thesis
    unfolding backlog_sym [of _ q p] pair_guard_sym [of q p] using out False by blast
qed

lemma nothing_outstanding:
  assumes "pair_inv p q st" and "outstanding st p q = 0"
  shows "ps_sent st p = ps_got st q"
  using assms by (auto simp: pair_inv_def half_inv_def outstanding_def)

lemma nothing_outstanding':
  assumes "pair_inv p q st" and "outstanding st q p = 0"
  shows "ps_sent st q = ps_got st p"
  using assms nothing_outstanding [of q p st] pair_inv_sym [of p q st] by blast

lemma pair_drain:
  assumes "pair_inv p q st"
  shows "\<exists>st'. (pair_step junk sa sr p q)\<^sup>*\<^sup>* st st' \<and> ps_sent st' = ps_sent st
     \<and> ps_got st' q = ps_sent st p \<and> ps_got st' p = ps_sent st q"
  using assms
proof (induction "backlog st p q" arbitrary: st rule: less_induct)
  case less
  let ?st = "st\<lparr>ps_world := (ps_world st)\<lparr>w_events := []\<rparr>\<rparr>"
  have reach: "(pair_step junk sa sr p q)\<^sup>*\<^sup>* st ?st" by (rule pair_notified)
  then have inv: "pair_inv p q ?st" using less.prems by (rule pair_reach_inv)
  have "on_way (w\<lparr>w_events := []\<rparr>) = on_way w" for w :: "inproc world" by (simp add: on_way_def ctx_of_def fun_eq_iff)
  then have same: "backlog ?st p q = backlog st p q" by (simp add: backlog_def outstanding_def direction_of_def)
  show ?case
  proof (cases "outstanding ?st p q \<noteq> 0 \<or> outstanding ?st q p \<noteq> 0")
    case True
    from pair_progress [OF inv _ this, of junk sa sr] obtain op st1 where
      st1: "pair_guard p q op ?st" "pair_exec junk sa sr op ?st = Some st1" "ps_sent st1 = ps_sent st"
        "backlog st1 p q < backlog ?st p q" by auto
    then have step: "pair_step junk sa sr p q ?st st1" by (blast intro: pair_stepI)
    from less.hyps [OF st1(4) [unfolded same] pair_step_inv [OF inv step]] obtain st' where
      st': "(pair_step junk sa sr p q)\<^sup>*\<^sup>* st1 st'" "ps_sent st' = ps_sent st1" "ps_got st' q = ps_sent st1 p"
        "ps_got st' p = ps_sent st1 q" by blast
    have "(pair_step junk sa sr p q)\<^sup>*\<^sup>* st st'" using reach step st'(1) by (meson rtranclp.rtrancl_into_rtrancl rtranclp_trans)
    then show ?thesis using st'(2-4) st1(3) by auto
  next
    case False
    then have "ps_got ?st q = ps_sent ?st p" "ps_got ?st p = ps_sent ?st q"
      using nothing_outstanding [OF inv] nothing_outstanding' [OF inv] by simp_all
    then show ?thesis using reach by (intro exI [of _ ?st]) simp
  qed
qed

text \<open>What one end has sent is what the other has received, then what its queue holds, then the message, if any, that the
  sender keeps until the receiver has taken it.\<close>

lemma pair_accounting:
  assumes "pair_inv p q st"
  shows "\<exists>xs. mq_rep (si_msgqueue (ses (ps_world st) q)) xs
     \<and> ps_sent st p = ps_got st q @ map body (xs @ in_transit (direction_of (ps_world st) p q))"
proof -
  from assms have "half_inv st p q" by (simp add: pair_inv_def)
  then obtain xs where "dir_rep (direction_of (ps_world st) p q) xs"
    "ps_sent st p = ps_got st q @ map body (xs @ in_transit (direction_of (ps_world st) p q))" by (rule half_inv_E)
  then show ?thesis by (auto simp: dir_rep_def direction_of_def)
qed

lemma pair_quiescent:
  assumes inv: "pair_inv p q st" and "w_events (ps_world st) = []" and "\<forall>op. moves op \<longrightarrow> \<not> pair_guard p q op st"
  shows "ps_sent st p = ps_got st q \<and> ps_sent st q = ps_got st p"
  using pair_progress [OF inv assms(2)] assms(3) nothing_outstanding [OF inv] nothing_outstanding' [OF inv] by blast

text \<open>A channel over which nothing has been sent: the sessions are established as each other's peers, their queues are empty,
  no event between them is on the way, the pipes have been started. Only the notification that a pipe can send may be pending.\<close>

definition fresh_direction :: "inproc world \<Rightarrow> pipe \<Rightarrow> pipe \<Rightarrow> bool" where
  "fresh_direction w a b \<longleftrightarrow> \<not> sending w a \<and> \<not> receiving w b \<and> mq_rep (si_msgqueue (ses w b)) []
     \<and> \<not> on_way w (Ev_sent b) \<and> \<not> on_way w (Ev_received a)
     \<and> pb_outstate (w_pipes w a) = NN_PIPEBASE_OUTSTATE_IDLE \<and> pb_instate (w_pipes w b) = NN_PIPEBASE_INSTATE_ASYNC
     \<and> (b, NN_PIPE_IN) \<notin> set (w_events w)"

definition new_channel :: "inproc world \<Rightarrow> pipe \<Rightarrow> pipe \<Rightarrow> bool" where
  "new_channel w p q \<longleftrightarrow> duplex w p q \<and> fresh_direction w p q \<and> fresh_direction w q p"

definition pair_start :: "inproc world \<Rightarrow> pair_state" where
  "pair_start w = \<lparr>ps_world = w, ps_sent = (\<lambda>_. []), ps_got = (\<lambda>_. [])\<rparr>"

lemma fresh_direction_half_inv: "fresh_direction w a b \<Longrightarrow> half_inv (pair_start w) a b"
  unfolding half_inv_def dir_inv_def
  by (intro exI [of _ "[]"]) (auto simp: fresh_direction_def pair_start_def dir_rep_def in_transit_def direction_of_def)

lemma pair_start_inv: "new_channel w p q \<Longrightarrow> pair_inv p q (pair_start w)"
  using fresh_direction_half_inv [of w p q] fresh_direction_half_inv [of w q p] by (simp add: new_channel_def pair_inv_def pair_start_def)

end
