(* ===== verification/Priolist.thy ===== *)
theory Priolist
  imports Nn_List Pipe
begin

text \<open>
  The prioritised list of pipes of \<open>src/protocols/utils/priolist.c\<close>, and the load balancer and the
  fair queue built on it (\<open>lb.c\<close>, \<open>fq.c\<close>). A slot holds the pipes of one priority as a sequence
  (\<open>Nn_List\<close> shows that the intrusive lists refine sequences) and the pipe that is next in turn. The
  \<open>nn_priolist_data\<close> embedded in the per-pipe data of a protocol is identified with its pipe;
  \<open>pl_data\<close> is the store of those structures, from \<open>nn_priolist_add\<close> to \<open>nn_priolist_rm\<close>.

  The locale \<open>pipe_scheduler\<close> is the interface that the load balancer and the fair queue need of
  the list, interpreted by \<open>nn_priolist\<close>.
\<close>

section \<open>Data\<close>

record nn_priolist_data =
  pd_priority :: int
  pd_inlist :: bool

record nn_priolist_slot =
  ps_pipes :: "pipe list"
  ps_current :: "pipe option"

record nn_priolist =
  pl_slots :: "nn_priolist_slot list"
  pl_current :: int
  pl_data :: "pipe \<Rightarrow> nn_priolist_data option"

definition NN_PRIOLIST_SLOTS :: nat where "NN_PRIOLIST_SLOTS = 16"

text \<open>\<open>self->slots [prio - 1]\<close>; outside of the array the behaviour is undefined.\<close>

definition get_slot :: "nn_priolist \<Rightarrow> int \<Rightarrow> nn_priolist_slot option" where
  "get_slot self prio = (if 1 \<le> prio \<and> prio \<le> int (length (pl_slots self))
     then Some (pl_slots self ! nat (prio - 1)) else None)"

definition put_slot :: "nn_priolist \<Rightarrow> int \<Rightarrow> nn_priolist_slot \<Rightarrow> nn_priolist" where
  "put_slot self prio slot = self\<lparr>pl_slots := (pl_slots self)[nat (prio - 1) := slot]\<rparr>"

definition set_inlist :: "nn_priolist \<Rightarrow> pipe \<Rightarrow> bool \<Rightarrow> nn_priolist" where
  "set_inlist self p b = self\<lparr>pl_data := (pl_data self)(p := map_option (\<lambda>d. d\<lparr>pd_inlist := b\<rparr>) (pl_data self p))\<rparr>"

section \<open>Operations\<close>

definition nn_priolist_init :: nn_priolist where
  "nn_priolist_init = \<lparr>pl_slots = replicate NN_PRIOLIST_SLOTS \<lparr>ps_pipes = [], ps_current = None\<rparr>,
     pl_current = -1, pl_data = (\<lambda>_. None)\<rparr>"

definition nn_priolist_term :: "nn_priolist \<Rightarrow> unit option" where
  "nn_priolist_term self = nn_assert (list_all (\<lambda>slot. ps_pipes slot = []) (pl_slots self))"

definition nn_priolist_add :: "nn_priolist \<Rightarrow> pipe \<Rightarrow> int \<Rightarrow> nn_priolist" where
  "nn_priolist_add self p prio =
     self\<lparr>pl_data := (pl_data self)(p \<mapsto> \<lparr>pd_priority = prio, pd_inlist = False\<rparr>)\<rparr>"

text \<open>The pipe after \<open>p\<close> in \<open>xs\<close>; when \<open>p\<close> is the last one, the first pipe of \<open>ys\<close>, the list as it is
  after \<open>p\<close> was moved over or erased.\<close>

definition next_current :: "pipe list \<Rightarrow> pipe list \<Rightarrow> pipe \<Rightarrow> pipe option" where
  "next_current xs ys p = (case next_of xs p of None \<Rightarrow> begin_of ys | Some q \<Rightarrow> Some q)"

text \<open>The loop that looks for a non-empty slot of the current or a lower priority.\<close>

function next_slot :: "nn_priolist_slot list \<Rightarrow> int \<Rightarrow> int option" where
  "next_slot slots cur =
     (if cur < 1 \<or> int (length slots) < cur then None
      else if ps_pipes (slots ! nat (cur - 1)) = []
      then (if cur + 1 > int (length slots) then Some (-1) else next_slot slots (cur + 1))
      else Some cur)"
  by pat_completeness auto
termination by (relation "measure (\<lambda>(slots, cur). nat (int (length slots) + 1 - cur))") auto

declare next_slot.simps [simp del]

definition nn_priolist_rm :: "nn_priolist \<Rightarrow> pipe \<Rightarrow> nn_priolist option" where
  "nn_priolist_rm self p = do {
     data \<leftarrow> pl_data self p;
     let forget = (\<lambda>s. s\<lparr>pl_data := (pl_data s)(p := None)\<rparr>);
     if \<not> pd_inlist data then Some (forget self)
     else do {
       slot \<leftarrow> get_slot self (pd_priority data);
       let slot' = slot\<lparr>ps_pipes := remove1 p (ps_pipes slot)\<rparr>;
       if ps_current slot \<noteq> Some p then Some (forget (put_slot self (pd_priority data) slot'))
       else do {
         let slot' = slot'\<lparr>ps_current := next_current (ps_pipes slot) (ps_pipes slot') p\<rparr>;
         let self = forget (put_slot self (pd_priority data) slot');
         if pl_current self \<noteq> pd_priority data then Some self
         else do {
           cur \<leftarrow> next_slot (pl_slots self) (pl_current self);
           Some (self\<lparr>pl_current := cur\<rparr>) } } } }"

definition nn_priolist_activate :: "nn_priolist \<Rightarrow> pipe \<Rightarrow> nn_priolist option" where
  "nn_priolist_activate self p = do {
     data \<leftarrow> pl_data self p;
     slot \<leftarrow> get_slot self (pd_priority data);
     nn_assert (\<not> pd_inlist data);
     let slot' = slot\<lparr>ps_pipes := ps_pipes slot @ [p]\<rparr>;
     let self = set_inlist self p True;
     if ps_pipes slot \<noteq> [] then Some (put_slot self (pd_priority data) slot')
     else do {
       let self = put_slot self (pd_priority data) (slot'\<lparr>ps_current := Some p\<rparr>);
       Some (if pl_current self = -1 \<or> pl_current self > pd_priority data
             then self\<lparr>pl_current := pd_priority data\<rparr> else self) } }"

definition nn_priolist_is_active :: "nn_priolist \<Rightarrow> bool" where
  "nn_priolist_is_active self = (pl_current self \<noteq> -1)"

definition nn_priolist_getpipe :: "nn_priolist \<Rightarrow> pipe option option" where
  "nn_priolist_getpipe self =
     (if pl_current self = -1 then Some None
      else do {
        slot \<leftarrow> get_slot self (pl_current self);
        p \<leftarrow> ps_current slot;
        Some (Some p) })"

definition nn_priolist_advance :: "nn_priolist \<Rightarrow> bool \<Rightarrow> nn_priolist option" where
  "nn_priolist_advance self release = do {
     nn_assert (pl_current self > 0);
     slot \<leftarrow> get_slot self (pl_current self);
     p \<leftarrow> ps_current slot;
     let slot' = (if release then slot\<lparr>ps_pipes := remove1 p (ps_pipes slot)\<rparr> else slot);
     let slot' = slot'\<lparr>ps_current := next_current (ps_pipes slot) (ps_pipes slot') p\<rparr>;
     let self = (if release then set_inlist self p False else self);
     let self = put_slot self (pl_current self) slot';
     cur \<leftarrow> next_slot (pl_slots self) (pl_current self);
     Some (self\<lparr>pl_current := cur\<rparr>) }"

definition nn_priolist_get_priority :: "nn_priolist \<Rightarrow> int" where
  "nn_priolist_get_priority self = pl_current self"

section \<open>Invariant\<close>

text \<open>The priority of the first non-empty slot, counting from \<open>k\<close>, or \<open>-1\<close>.\<close>

fun first_slot :: "nn_priolist_slot list \<Rightarrow> int \<Rightarrow> int" where
  "first_slot [] k = -1"
| "first_slot (s # ss) k = (if ps_pipes s = [] then first_slot ss (k + 1) else k)"

definition slot_ok :: "nn_priolist_slot \<Rightarrow> bool" where
  "slot_ok slot \<longleftrightarrow> distinct (ps_pipes slot) \<and>
     (case ps_current slot of None \<Rightarrow> ps_pipes slot = [] | Some p \<Rightarrow> p \<in> set (ps_pipes slot))"

definition priolist_inv :: "nn_priolist \<Rightarrow> bool" where
  "priolist_inv self \<longleftrightarrow> length (pl_slots self) = NN_PRIOLIST_SLOTS
     \<and> (\<forall>slot \<in> set (pl_slots self). slot_ok slot)
     \<and> pl_current self = first_slot (pl_slots self) 1
     \<and> (\<forall>i < NN_PRIOLIST_SLOTS. \<forall>p \<in> set (ps_pipes (pl_slots self ! i)).
          pl_data self p = Some \<lparr>pd_priority = int i + 1, pd_inlist = True\<rparr>)
     \<and> (\<forall>p d. pl_data self p = Some d \<longrightarrow> 1 \<le> pd_priority d \<and> pd_priority d \<le> 16 \<and>
          (pd_inlist d \<longrightarrow> p \<in> set (ps_pipes (pl_slots self ! nat (pd_priority d - 1)))))"

definition pl_members :: "nn_priolist \<Rightarrow> pipe set" where
  "pl_members self = dom (pl_data self)"

definition pl_active :: "nn_priolist \<Rightarrow> pipe set" where
  "pl_active self = {p. \<exists>d. pl_data self p = Some d \<and> pd_inlist d}"

lemma first_slot_range: "0 < k \<Longrightarrow> first_slot ss k = -1 \<or> k \<le> first_slot ss k \<and> first_slot ss k < k + int (length ss)"
  by (induction ss arbitrary: k) (auto, (smt (verit))+)

lemma first_slot_None: "0 < k \<Longrightarrow> first_slot ss k = -1 \<longleftrightarrow> (\<forall>s \<in> set ss. ps_pipes s = [])"
proof (induction ss arbitrary: k)
  case (Cons s ss) then show ?case using first_slot_range [of "k + 1" ss] by auto
qed simp

lemma first_slot_nth:
  "0 < k \<Longrightarrow> first_slot ss k = k + int n \<Longrightarrow> n < length ss \<and> ps_pipes (ss ! n) \<noteq> [] \<and> (\<forall>j < n. ps_pipes (ss ! j) = [])"
proof (induction ss arbitrary: k n)
  case (Cons s ss)
  show ?case
  proof (cases "ps_pipes s = []")
    case True
    with Cons.prems first_slot_range [of "k + 1" ss] obtain m where "n = Suc m" by (cases n) auto
    with Cons.IH [of "k + 1" m] Cons.prems True show ?thesis by (auto simp: nth_Cons split: nat.splits)
  qed (use Cons.prems in auto)
qed simp

lemma first_slotI:
  assumes "n < length ss" and "ps_pipes (ss ! n) \<noteq> []" and "\<And>j. j < n \<Longrightarrow> ps_pipes (ss ! j) = []"
  shows "first_slot ss k = k + int n"
  using assms
proof (induction ss arbitrary: k n)
  case (Cons s ss)
  show ?case
  proof (cases n)
    case (Suc m)
    with Cons.prems(3) [of 0] have "ps_pipes s = []" by simp
    with Cons.IH [of m "k + 1"] Cons.prems Suc show ?thesis by fastforce
  qed (use Cons.prems in auto)
qed simp

lemma next_slot_first:
  assumes "n < length ss" and "\<And>j. j < n \<Longrightarrow> ps_pipes (ss ! j) = []"
  shows "next_slot ss (1 + int n) = Some (first_slot ss 1)"
  using assms
proof (induction "length ss - n" arbitrary: n rule: less_induct)
  case less
  show ?case
  proof (cases "ps_pipes (ss ! n) = []")
    case False
    then show ?thesis using first_slotI [of n ss 1] less.prems by (subst next_slot.simps) auto
  next
    case True
    then have empty: "\<And>j. j < Suc n \<Longrightarrow> ps_pipes (ss ! j) = []" using less.prems less_Suc_eq by auto
    show ?thesis
    proof (cases "Suc n < length ss")
      case More: True
      have "next_slot ss (1 + int (Suc n)) = Some (first_slot ss 1)"
        using less.hyps [of "Suc n"] More less.prems(1) empty by auto
      then show ?thesis using True More less.prems by (subst next_slot.simps) (auto simp: ac_simps)
    next
      case False
      then have "\<forall>s \<in> set ss. ps_pipes s = []" using empty less.prems(1)
        by (auto simp: in_set_conv_nth)
      then show ?thesis using first_slot_None [of 1 ss] True False less.prems by (subst next_slot.simps) auto
    qed
  qed
qed

lemma first_slot_char:
  "c = first_slot ss 1 \<longleftrightarrow> (c = -1 \<and> (\<forall>s \<in> set ss. ps_pipes s = [])) \<or>
     (\<exists>n. c = 1 + int n \<and> n < length ss \<and> ps_pipes (ss ! n) \<noteq> [] \<and> (\<forall>j < n. ps_pipes (ss ! j) = []))"
proof
  assume c: "c = first_slot ss 1"
  show "(c = -1 \<and> (\<forall>s \<in> set ss. ps_pipes s = [])) \<or>
     (\<exists>n. c = 1 + int n \<and> n < length ss \<and> ps_pipes (ss ! n) \<noteq> [] \<and> (\<forall>j < n. ps_pipes (ss ! j) = []))"
  proof (cases "c = -1")
    case True
    then show ?thesis using c first_slot_None [of 1 ss] by simp
  next
    case False
    then obtain n where "c = 1 + int n" using first_slot_range [of 1 ss] c
      by (metis zero_less_one zle_iff_zadd)
    then show ?thesis using first_slot_nth [of 1 ss n] c by auto
  qed
qed (use first_slot_None [of 1 ss] first_slotI [of _ ss 1] in auto)

lemma first_slot_cong:
  assumes "map (\<lambda>s. ps_pipes s = []) ss = map (\<lambda>s. ps_pipes s = []) ss'"
  shows "first_slot ss k = first_slot ss' k"
  using assms
proof (induction ss arbitrary: ss' k)
  case (Cons s ss) then show ?case by (cases ss') auto
qed simp

lemma first_slot_update:
  assumes "(ps_pipes slot = []) = (ps_pipes (ss ! i) = [])"
  shows "first_slot (ss[i := slot]) k = first_slot ss k"
proof (rule first_slot_cong)
  show "map (\<lambda>s. ps_pipes s = []) (ss[i := slot]) = map (\<lambda>s. ps_pipes s = []) ss"
  proof (rule nth_equalityI)
    fix j assume "j < length (map (\<lambda>s. ps_pipes s = []) (ss[i := slot]))"
    then show "map (\<lambda>s. ps_pipes s = []) (ss[i := slot]) ! j = map (\<lambda>s. ps_pipes s = []) ss ! j"
      using assms by (cases "j = i") simp_all
  qed simp
qed

section \<open>Every operation preserves the invariant\<close>

lemma next_of_other:
  assumes "distinct xs" and "next_of xs p = Some q"
  shows "q \<noteq> p \<and> q \<in> set xs"
proof -
  have q: "q \<in> set xs" using next_of_in [OF assms(2)] .
  have "q \<noteq> p" using assms
  proof (induction xs)
    case (Cons x xs)
    then show ?case using next_of_in [of xs p q] by (cases xs) (auto split: if_splits)
  qed simp
  with q show ?thesis by simp
qed

lemma slot_ok_next:
  assumes "distinct xs" and "ys = xs \<or> ys = remove1 p xs"
  shows "slot_ok \<lparr>ps_pipes = ys, ps_current = next_current xs ys p\<rparr>"
proof -
  have d: "distinct ys" using assms(2) distinct_remove1 [OF assms(1), of p] assms(1) by (elim disjE) simp_all
  show ?thesis
  proof (cases "next_of xs p")
    case None
    then show ?thesis using d by (cases ys) (simp_all add: slot_ok_def next_current_def begin_of_def)
  next
    case (Some q)
    then have "q \<in> set ys" using next_of_other [OF assms(1) Some] assms(2) in_set_remove1 by metis
    then show ?thesis using d Some by (simp add: slot_ok_def next_current_def)
  qed
qed

lemma priolist_slot:
  assumes "priolist_inv s" and "i < 16"
  shows "slot_ok (pl_slots s ! i)" and "length (pl_slots s) = 16"
    and "p \<in> set (ps_pipes (pl_slots s ! i)) \<Longrightarrow> pl_data s p = Some \<lparr>pd_priority = int i + 1, pd_inlist = True\<rparr>"
  using assms by (auto simp: priolist_inv_def NN_PRIOLIST_SLOTS_def)

lemma priolist_data:
  assumes inv: "priolist_inv s" and d: "pl_data s p = Some d"
  obtains i where "i < 16" "pd_priority d = int i + 1" "pd_inlist d = (p \<in> set (ps_pipes (pl_slots s ! i)))"
    "get_slot s (pd_priority d) = Some (pl_slots s ! i)"
proof -
  let ?i = "nat (pd_priority d - 1)"
  have r: "1 \<le> pd_priority d" "pd_priority d \<le> 16" and l: "pd_inlist d \<longrightarrow> p \<in> set (ps_pipes (pl_slots s ! ?i))"
    using assms by (auto simp: priolist_inv_def)
  then have i: "?i < 16" "pd_priority d = int ?i + 1" by auto
  moreover have "get_slot s (pd_priority d) = Some (pl_slots s ! ?i)"
    using r priolist_slot(2) [OF inv, of 0] by (simp add: get_slot_def)
  moreover have "pd_inlist d = (p \<in> set (ps_pipes (pl_slots s ! ?i)))"
    using l priolist_slot(3) [OF inv i(1), of p] d by (metis nn_priolist_data.select_convs(2) option.inject)
  ultimately show thesis using that by blast
qed

lemma priolist_current:
  assumes inv: "priolist_inv s" and "pl_current s \<noteq> -1"
  obtains n p where "n < 16" "pl_current s = 1 + int n" "get_slot s (pl_current s) = Some (pl_slots s ! n)"
    "ps_current (pl_slots s ! n) = Some p" "p \<in> set (ps_pipes (pl_slots s ! n))"
    "\<And>j. j < n \<Longrightarrow> ps_pipes (pl_slots s ! j) = []"
proof -
  have c: "pl_current s = first_slot (pl_slots s) 1" and l: "length (pl_slots s) = 16"
    using inv by (auto simp: priolist_inv_def NN_PRIOLIST_SLOTS_def)
  from iffD1 [OF first_slot_char c] assms(2) l obtain n where
    n: "pl_current s = 1 + int n" "n < 16" "ps_pipes (pl_slots s ! n) \<noteq> []" "\<And>j. j < n \<Longrightarrow> ps_pipes (pl_slots s ! j) = []"
    by auto
  moreover obtain p where "ps_current (pl_slots s ! n) = Some p" "p \<in> set (ps_pipes (pl_slots s ! n))"
    using priolist_slot(1) [OF inv n(2)] n(3) by (auto simp: slot_ok_def split: option.splits)
  ultimately show thesis using that l by (simp add: get_slot_def)
qed

text \<open>An update of the slot of one pipe, and of the data embedded in that pipe, keeps the
  invariant when the current priority is recomputed.\<close>

lemma priolist_inv_update:
  assumes inv: "priolist_inv s" and i: "i < 16" and q: "pl_data s q = Some d" "pd_priority d = int i + 1"
    and ok: "slot_ok slot" and cur: "c = first_slot ((pl_slots s)[i := slot]) 1"
    and others: "\<And>p. p \<noteq> q \<Longrightarrow> p \<in> set (ps_pipes slot) \<longleftrightarrow> p \<in> set (ps_pipes (pl_slots s ! i))"
    and v: "v = None \<and> q \<notin> set (ps_pipes slot) \<or>
            v = Some \<lparr>pd_priority = int i + 1, pd_inlist = (q \<in> set (ps_pipes slot))\<rparr>"
  shows "priolist_inv (s\<lparr>pl_slots := (pl_slots s)[i := slot], pl_current := c, pl_data := (pl_data s)(q := v)\<rparr>)"
proof -
  note sl = priolist_slot [OF inv]
  have l: "length (pl_slots s) = 16" using sl(2) i by blast
  let ?ss = "(pl_slots s)[i := slot]" and ?D = "(pl_data s)(q := v)"
  have other_slot: "q \<notin> set (ps_pipes (pl_slots s ! j))" if "j < 16" "j \<noteq> i" for j
    using sl(3) [OF that(1), of q] q that(2) by auto
  have 1: "?D p = Some \<lparr>pd_priority = int j + 1, pd_inlist = True\<rparr>"
    if "j < 16" "p \<in> set (ps_pipes (?ss ! j))" for j p
    using that sl(3) [OF that(1), of p] other_slot [OF that(1)] others [of p] v l
    by (cases "j = i"; cases "p = q") auto
  have 2: "1 \<le> pd_priority e \<and> pd_priority e \<le> 16 \<and> (pd_inlist e \<longrightarrow> p \<in> set (ps_pipes (?ss ! nat (pd_priority e - 1))))"
    if e: "?D p = Some e" for p e
  proof (cases "p = q")
    case True
    then show ?thesis using e v i l by auto
  next
    case False
    then have "pl_data s p = Some e" using e by simp
    from priolist_data [OF inv this] obtain j where
      j: "j < 16" "pd_priority e = int j + 1" "pd_inlist e = (p \<in> set (ps_pipes (pl_slots s ! j)))" by blast
    then show ?thesis using others [OF False] l by (cases "j = i") auto
  qed
  have 3: "slot_ok t" if "t \<in> set ?ss" for t
    using that ok inv set_update_subset_insert [of "pl_slots s" i slot] by (auto simp: priolist_inv_def)
  show ?thesis using 1 2 3 cur l by (simp add: priolist_inv_def NN_PRIOLIST_SLOTS_def)
qed

lemma pl_data_upd_sets:
  assumes "pl_data s q = Some d"
    and "pl_data s' = (pl_data s)(q := v)"
  shows "pl_members s' = (if v = None then pl_members s - {q} else pl_members s)"
    and "pl_active s' = (case v of None \<Rightarrow> pl_active s - {q} | Some e \<Rightarrow> if pd_inlist e then insert q (pl_active s) else pl_active s - {q})"
  using assms by (auto simp: pl_members_def pl_active_def split: option.splits)

lemma pl_active_slot:
  assumes "priolist_inv s" and "i < 16" and "p \<in> set (ps_pipes (pl_slots s ! i))"
  shows "p \<in> pl_active s"
  using priolist_slot(3) [OF assms] by (simp add: pl_active_def)

lemma nn_priolist_activate_ok:
  assumes inv: "priolist_inv s" and p: "p \<in> pl_members s" "p \<notin> pl_active s"
  shows "\<exists>s'. nn_priolist_activate s p = Some s' \<and> priolist_inv s' \<and> pl_members s' = pl_members s
     \<and> pl_active s' = insert p (pl_active s)"
proof -
  from p(1) obtain d where d: "pl_data s p = Some d" by (auto simp: pl_members_def)
  have nin: "\<not> pd_inlist d" using p(2) d by (simp add: pl_active_def)
  from priolist_data [OF inv d] obtain i where
    i: "i < 16" "pd_priority d = int i + 1" "pd_inlist d = (p \<in> set (ps_pipes (pl_slots s ! i)))"
      "get_slot s (pd_priority d) = Some (pl_slots s ! i)" by blast
  let ?o = "pl_slots s ! i" and ?v = "Some \<lparr>pd_priority = int i + 1, pd_inlist = True\<rparr>"
  define slot where "slot = \<lparr>ps_pipes = ps_pipes ?o @ [p],
      ps_current = (if ps_pipes ?o = [] then Some p else ps_current ?o)\<rparr>"
  define c where "c = (if ps_pipes ?o = [] \<and> (pl_current s = -1 \<or> pl_current s > int i + 1) then int i + 1 else pl_current s)"
  let ?s = "s\<lparr>pl_slots := (pl_slots s)[i := slot], pl_current := c, pl_data := (pl_data s)(p := ?v)\<rparr>"
  have ok: "slot_ok slot" using priolist_slot(1) [OF inv i(1)] i(3) nin
    by (auto simp: slot_ok_def slot_def split: option.splits)
  have l: "length (pl_slots s) = 16" using priolist_slot(2) [OF inv i(1)] .
  have cs: "pl_current s = first_slot (pl_slots s) 1" using inv by (simp add: priolist_inv_def)
  have cur: "c = first_slot ((pl_slots s)[i := slot]) 1"
  proof (cases "ps_pipes ?o = []")
    case False
    then show ?thesis using cs first_slot_update [of slot "pl_slots s" i 1] by (simp add: c_def slot_def)
  next
    case True
    from iffD1 [OF first_slot_char cs] show ?thesis
    proof (elim disjE conjE exE)
      assume "pl_current s = -1" "\<forall>t \<in> set (pl_slots s). ps_pipes t = []"
      then show ?thesis using True l i(1) first_slotI [of i "(pl_slots s)[i := slot]" 1]
        by (simp add: c_def slot_def nth_list_update)
    next
      fix n assume n: "pl_current s = 1 + int n" "n < length (pl_slots s)" "ps_pipes (pl_slots s ! n) \<noteq> []"
        "\<forall>j < n. ps_pipes (pl_slots s ! j) = []"
      then have ni: "n \<noteq> i" using True by auto
      show ?thesis
      proof (cases "i < n")
        case True': True
        then show ?thesis using True n l i(1) first_slotI [of i "(pl_slots s)[i := slot]" 1]
          by (simp add: c_def slot_def nth_list_update)
      next
        case False
        then show ?thesis using n l ni first_slotI [of n "(pl_slots s)[i := slot]" 1] by (simp add: c_def nth_list_update)
      qed
    qed
  qed
  have dv: "d\<lparr>pd_inlist := True\<rparr> = \<lparr>pd_priority = int i + 1, pd_inlist = True\<rparr>" using i(2) by (cases d) simp
  have res: "nn_priolist_activate s p = Some ?s"
    using d i nin by (cases ?o)
      (simp add: nn_priolist_activate_def Let_def put_slot_def set_inlist_def slot_def c_def dv)
  have "priolist_inv ?s"
    by (rule priolist_inv_update [OF inv i(1) d i(2) ok cur]) (auto simp: slot_def)
  then show ?thesis using res pl_data_upd_sets [OF d, of ?s ?v] by auto
qed

lemma next_slot_update:
  assumes "n < length ss" and "\<And>j. j < n \<Longrightarrow> ps_pipes (ss ! j) = []"
  shows "next_slot (ss[n := slot]) (1 + int n) = Some (first_slot (ss[n := slot]) 1)"
  using assms by (intro next_slot_first) auto

lemma nn_priolist_advance_ok:
  assumes inv: "priolist_inv s" and p: "nn_priolist_getpipe s = Some (Some p)"
  shows "\<exists>s'. nn_priolist_advance s release = Some s' \<and> priolist_inv s' \<and> pl_members s' = pl_members s
     \<and> pl_active s' = (if release then pl_active s - {p} else pl_active s)"
proof -
  have "pl_current s \<noteq> -1" using p by (auto simp: nn_priolist_getpipe_def)
  from priolist_current [OF inv this] obtain n q where
    n: "n < 16" "pl_current s = 1 + int n" "get_slot s (pl_current s) = Some (pl_slots s ! n)"
      "ps_current (pl_slots s ! n) = Some q" "q \<in> set (ps_pipes (pl_slots s ! n))"
      "\<And>j. j < n \<Longrightarrow> ps_pipes (pl_slots s ! j) = []" by blast
  have qp: "q = p" using p n(2-4) by (simp add: nn_priolist_getpipe_def)
  let ?o = "pl_slots s ! n"
  define ys where "ys = (if release then remove1 p (ps_pipes ?o) else ps_pipes ?o)"
  define slot where "slot = \<lparr>ps_pipes = ys, ps_current = next_current (ps_pipes ?o) ys p\<rparr>"
  define c where "c = first_slot ((pl_slots s)[n := slot]) 1"
  have dist: "distinct (ps_pipes ?o)" using priolist_slot(1) [OF inv n(1)] by (simp add: slot_ok_def)
  have l: "length (pl_slots s) = 16" using priolist_slot(2) [OF inv n(1)] .
  have d: "pl_data s p = Some \<lparr>pd_priority = int n + 1, pd_inlist = True\<rparr>"
    using priolist_slot(3) [OF inv n(1) n(5)] qp by simp
  have pys: "p \<in> set ys \<longleftrightarrow> \<not> release" using n(5) qp dist by (auto simp: ys_def)
  let ?v = "Some \<lparr>pd_priority = int n + 1, pd_inlist = (p \<in> set (ps_pipes slot))\<rparr>"
  let ?s = "s\<lparr>pl_slots := (pl_slots s)[n := slot], pl_current := c, pl_data := (pl_data s)(p := ?v)\<rparr>"
  have ok: "slot_ok slot" unfolding slot_def using slot_ok_next [OF dist] by (simp add: ys_def)
  have ns: "next_slot ((pl_slots s)[n := slot]) (1 + int n) = Some c"
    unfolding c_def using n l by (intro next_slot_update) auto
  have pre: "get_slot s (1 + int n) = Some ?o" "pl_current s = 1 + int n" "ps_current ?o = Some p"
    using n(2-4) qp by auto
  have res: "nn_priolist_advance s release = Some ?s"
  proof (cases release)
    case True
    then have "slot = ?o\<lparr>ps_pipes := remove1 p (ps_pipes ?o),
        ps_current := next_current (ps_pipes ?o) (remove1 p (ps_pipes ?o)) p\<rparr>"
      by (cases ?o) (simp add: slot_def ys_def)
    moreover have "?v = map_option (\<lambda>d. d\<lparr>pd_inlist := False\<rparr>) (pl_data s p)"
      using d pys True by (simp add: slot_def)
    ultimately show ?thesis using ns pre True
      by (simp add: nn_priolist_advance_def Let_def put_slot_def set_inlist_def)
  next
    case False
    then have "slot = ?o\<lparr>ps_current := next_current (ps_pipes ?o) (ps_pipes ?o) p\<rparr>"
      by (cases ?o) (simp add: slot_def ys_def)
    moreover have "(pl_data s)(p := ?v) = pl_data s" using d pys False by (simp add: slot_def fun_upd_idem)
    ultimately show ?thesis using ns pre False
      by (simp add: nn_priolist_advance_def Let_def put_slot_def)
  qed
  have "priolist_inv ?s"
    by (rule priolist_inv_update [OF inv n(1) d]) (use ok c_def in \<open>auto simp: slot_def ys_def\<close>)
  then show ?thesis using res pl_data_upd_sets [OF d, of ?s ?v] pys d
    by (auto simp: slot_def pl_active_def)
qed

lemma nn_priolist_rm_ok:
  assumes inv: "priolist_inv s" and p: "p \<in> pl_members s"
  shows "\<exists>s'. nn_priolist_rm s p = Some s' \<and> priolist_inv s' \<and> pl_members s' = pl_members s - {p}
     \<and> pl_active s' = pl_active s - {p}"
proof -
  from p obtain d where d: "pl_data s p = Some d" by (auto simp: pl_members_def)
  from priolist_data [OF inv d] obtain i where
    i: "i < 16" "pd_priority d = int i + 1" "pd_inlist d = (p \<in> set (ps_pipes (pl_slots s ! i)))"
      "get_slot s (pd_priority d) = Some (pl_slots s ! i)" by blast
  let ?o = "pl_slots s ! i"
  have ook: "slot_ok ?o" and dist: "distinct (ps_pipes ?o)" and l: "length (pl_slots s) = 16"
    using priolist_slot(1,2) [OF inv i(1)] by (auto simp: slot_ok_def)
  have cs: "pl_current s = first_slot (pl_slots s) 1" using inv by (simp add: priolist_inv_def)
  have goal: ?thesis if "slot_ok slot" "c = first_slot ((pl_slots s)[i := slot]) 1"
      "ps_pipes slot = remove1 p (ps_pipes ?o)"
      "nn_priolist_rm s p = Some (s\<lparr>pl_slots := (pl_slots s)[i := slot], pl_current := c, pl_data := (pl_data s)(p := None)\<rparr>)"
      for slot c
  proof -
    let ?s = "s\<lparr>pl_slots := (pl_slots s)[i := slot], pl_current := c, pl_data := (pl_data s)(p := None)\<rparr>"
    have "priolist_inv ?s"
      using that(3) dist by (intro priolist_inv_update [OF inv i(1) d i(2) that(1,2)]) auto
    then show ?thesis using that(4) pl_data_upd_sets [OF d, of ?s None] by auto
  qed
  show ?thesis
  proof (cases "pd_inlist d")
    case False
    then have "p \<notin> set (ps_pipes ?o)" using i(3) by simp
    moreover have "nn_priolist_rm s p = Some (s\<lparr>pl_slots := (pl_slots s)[i := ?o], pl_current := pl_current s,
        pl_data := (pl_data s)(p := None)\<rparr>)"
      using d False by (simp add: nn_priolist_rm_def)
    ultimately show ?thesis using goal [of ?o "pl_current s"] ook cs by (simp add: remove1_idem)
  next
    case inl: True
    then have pin: "p \<in> set (ps_pipes ?o)" using i(3) by simp
    show ?thesis
    proof (cases "ps_current ?o = Some p")
      case False
      let ?slot = "?o\<lparr>ps_pipes := remove1 p (ps_pipes ?o)\<rparr>"
      obtain q where q: "ps_current ?o = Some q" "q \<in> set (ps_pipes ?o)" "q \<noteq> p"
        using ook pin False by (auto simp: slot_ok_def split: option.splits)
      then have "q \<in> set (remove1 p (ps_pipes ?o))" by simp
      then have "first_slot ((pl_slots s)[i := ?slot]) 1 = pl_current s"
        using cs pin by (subst first_slot_update) auto
      moreover have "slot_ok ?slot" using q dist by (simp add: slot_ok_def distinct_remove1)
      ultimately show ?thesis using goal [of ?slot "pl_current s"] d inl i False
        by (simp add: nn_priolist_rm_def put_slot_def)
    next
      case True
      let ?ys = "remove1 p (ps_pipes ?o)"
      let ?slot = "?o\<lparr>ps_pipes := ?ys, ps_current := next_current (ps_pipes ?o) ?ys p\<rparr>"
      let ?c = "first_slot ((pl_slots s)[i := ?slot]) 1"
      have ok: "slot_ok ?slot" using slot_ok_next [OF dist, of ?ys p] by (simp add: slot_ok_def split: option.splits)
      from iffD1 [OF first_slot_char cs] pin l i(1) obtain n where
        n: "pl_current s = 1 + int n" "n < 16" "ps_pipes (pl_slots s ! n) \<noteq> []" "\<forall>j < n. ps_pipes (pl_slots s ! j) = []"
        using nth_mem [of i "pl_slots s"] by fastforce
      have "nn_priolist_rm s p = Some (s\<lparr>pl_slots := (pl_slots s)[i := ?slot], pl_current := ?c, pl_data := (pl_data s)(p := None)\<rparr>)"
      proof (cases "n = i")
        case eq: True
        then have "next_slot ((pl_slots s)[i := ?slot]) (1 + int i) = Some ?c"
          using n l i(1) by (intro next_slot_update) auto
        then show ?thesis using d inl i True n(1) eq
          by (simp add: nn_priolist_rm_def put_slot_def Let_def add.commute)
      next
        case ne: False
        then have "n < i" using n(4) pin by (metis empty_iff list.set(1) nat_neq_iff)
        then have "?c = pl_current s" using n l ne first_slotI [of n "(pl_slots s)[i := ?slot]" 1] by simp
        then show ?thesis using d inl i True n(1) ne
          by (simp add: nn_priolist_rm_def put_slot_def Let_def add.commute)
      qed
      then show ?thesis using goal [OF ok refl] by simp
    qed
  qed
qed

lemma nn_priolist_add_ok:
  assumes inv: "priolist_inv s" and p: "p \<notin> pl_members s" and prio: "1 \<le> prio" "prio \<le> 16"
  shows "priolist_inv (nn_priolist_add s p prio)" and "pl_members (nn_priolist_add s p prio) = insert p (pl_members s)"
    and "pl_active (nn_priolist_add s p prio) = pl_active s"
proof -
  have n: "pl_data s p = None" using p by (auto simp: pl_members_def)
  have "p \<notin> set (ps_pipes (pl_slots s ! i))" if "i < 16" for i
    using priolist_slot(3) [OF inv that, of p] n by auto
  then show "priolist_inv (nn_priolist_add s p prio)"
    using inv prio by (auto simp: priolist_inv_def nn_priolist_add_def NN_PRIOLIST_SLOTS_def)
qed (use p in \<open>auto simp: pl_members_def pl_active_def nn_priolist_add_def\<close>)

lemma nn_priolist_active_iff:
  assumes inv: "priolist_inv s"
  shows "pl_current s = -1 \<longleftrightarrow> pl_active s = {}"
proof
  assume "pl_current s = -1"
  then have empty: "\<forall>t \<in> set (pl_slots s). ps_pipes t = []"
    using inv first_slot_None [of 1 "pl_slots s"] by (simp add: priolist_inv_def)
  show "pl_active s = {}"
  proof (rule ccontr)
    assume "pl_active s \<noteq> {}"
    then obtain p d where "pl_data s p = Some d" "pd_inlist d" by (auto simp: pl_active_def)
    with priolist_data [OF inv, of p d] obtain i where "i < 16" "p \<in> set (ps_pipes (pl_slots s ! i))" by auto
    with empty priolist_slot(2) [OF inv, of 0] show False by auto
  qed
next
  assume "pl_active s = {}"
  then show "pl_current s = -1"
    using priolist_current [OF inv] pl_active_slot [OF inv] by (metis empty_iff)
qed

lemma nn_priolist_getpipe_ok:
  assumes inv: "priolist_inv s"
  shows "pl_active s = {} \<Longrightarrow> nn_priolist_getpipe s = Some None"
    and "pl_active s \<noteq> {} \<Longrightarrow> \<exists>p \<in> pl_active s. nn_priolist_getpipe s = Some (Some p)"
proof -
  show "pl_active s = {} \<Longrightarrow> nn_priolist_getpipe s = Some None"
    using nn_priolist_active_iff [OF inv] by (simp add: nn_priolist_getpipe_def)
  assume "pl_active s \<noteq> {}"
  then have c: "pl_current s \<noteq> -1" using nn_priolist_active_iff [OF inv] by simp
  from priolist_current [OF inv c] show "\<exists>p \<in> pl_active s. nn_priolist_getpipe s = Some (Some p)"
    using pl_active_slot [OF inv] c unfolding nn_priolist_getpipe_def by (metis bind.bind_lunit)
qed

lemma pl_active_members: "pl_active s \<subseteq> pl_members s"
  by (auto simp: pl_active_def pl_members_def)

lemma priolist_inv_init: "priolist_inv nn_priolist_init"
proof -
  have "first_slot (replicate n \<lparr>ps_pipes = [], ps_current = None\<rparr>) k = -1" for n k
    by (induction n arbitrary: k) auto
  then show ?thesis by (auto simp: priolist_inv_def nn_priolist_init_def slot_ok_def)
qed

lemma nn_priolist_get_priority_range:
  assumes "priolist_inv s"
  shows "(0 < nn_priolist_get_priority s \<and> nn_priolist_get_priority s \<le> 16) \<or> nn_priolist_get_priority s = -1"
  using assms first_slot_range [of 1 "pl_slots s"]
  by (auto simp: nn_priolist_get_priority_def priolist_inv_def NN_PRIOLIST_SLOTS_def)

text \<open>A list without active pipes can be terminated.\<close>

lemma nn_priolist_term_ok:
  assumes "priolist_inv s" and "pl_active s = {}"
  shows "nn_priolist_term s = Some ()"
  using assms nn_priolist_active_iff [OF assms(1)] first_slot_None [of 1 "pl_slots s"]
  by (auto simp: nn_priolist_term_def priolist_inv_def list_all_iff)

section \<open>The scheduler interface\<close>

text \<open>Taking the pipe in turn, doing input or output on it and moving on, releasing the pipe when the
  operation says so: the common shape of \<open>nn_lb_send\<close> and \<open>nn_fq_recv\<close>.\<close>

definition sched_io :: "('s \<Rightarrow> pipe option option) \<Rightarrow> ('s \<Rightarrow> bool \<Rightarrow> 's option) \<Rightarrow>
  ('w \<Rightarrow> pipe \<Rightarrow> ('w \<times> u32 \<times> 'm) option) \<Rightarrow> 'w \<Rightarrow> 's \<Rightarrow> ('w \<times> 's \<times> (errno + u32 \<times> pipe \<times> 'm)) option" where
  "sched_io getpipe advance io w s = do {
     p \<leftarrow> getpipe s;
     (case p of
        None \<Rightarrow> Some (w, s, Inl EAGAIN)
      | Some p \<Rightarrow> do {
          (w, rc, m) \<leftarrow> io w p;
          s \<leftarrow> advance s (rc AND NN_PIPE_RELEASE \<noteq> 0);
          Some (w, s, Inr (rc AND NOT NN_PIPE_RELEASE, p, m)) }) }"

locale pipe_scheduler =
  fixes pinv :: "'s \<Rightarrow> bool"
    and members :: "'s \<Rightarrow> pipe set"
    and act :: "'s \<Rightarrow> pipe set"
    and getpipe :: "'s \<Rightarrow> pipe option option"
    and advance :: "'s \<Rightarrow> bool \<Rightarrow> 's option"
    and add :: "'s \<Rightarrow> pipe \<Rightarrow> int \<Rightarrow> 's"
    and rm :: "'s \<Rightarrow> pipe \<Rightarrow> 's option"
    and activate :: "'s \<Rightarrow> pipe \<Rightarrow> 's option"
  assumes act_members: "act s \<subseteq> members s"
    and getpipe_idle: "pinv s \<Longrightarrow> act s = {} \<Longrightarrow> getpipe s = Some None"
    and getpipe_act: "pinv s \<Longrightarrow> act s \<noteq> {} \<Longrightarrow> \<exists>p \<in> act s. getpipe s = Some (Some p)"
    and advance_ok: "pinv s \<Longrightarrow> getpipe s = Some (Some p) \<Longrightarrow>
        \<exists>s'. advance s r = Some s' \<and> pinv s' \<and> members s' = members s
           \<and> act s' = (if r then act s - {p} else act s)"
    and add_ok: "pinv s \<Longrightarrow> p \<notin> members s \<Longrightarrow> 1 \<le> prio \<Longrightarrow> prio \<le> 16 \<Longrightarrow>
        pinv (add s p prio) \<and> members (add s p prio) = insert p (members s) \<and> act (add s p prio) = act s"
    and rm_ok: "pinv s \<Longrightarrow> p \<in> members s \<Longrightarrow>
        \<exists>s'. rm s p = Some s' \<and> pinv s' \<and> members s' = members s - {p} \<and> act s' = act s - {p}"
    and activate_ok: "pinv s \<Longrightarrow> p \<in> members s \<Longrightarrow> p \<notin> act s \<Longrightarrow>
        \<exists>s'. activate s p = Some s' \<and> pinv s' \<and> members s' = members s \<and> act s' = insert p (act s)"
begin

lemma sched_io_idle:
  assumes "pinv s" and "act s = {}"
  shows "sched_io getpipe advance io w s = Some (w, s, Inl EAGAIN)"
  using getpipe_idle [OF assms] by (simp add: sched_io_def)

lemma sched_io_ok:
  assumes inv: "pinv s" and act: "act s \<noteq> {}"
    and io: "\<And>p. p \<in> act s \<Longrightarrow> \<exists>w' rc m. io w p = Some (w', rc, m) \<and> Q p w' rc m"
  shows "\<exists>p w' rc m s'. p \<in> act s \<and> getpipe s = Some (Some p) \<and> io w p = Some (w', rc, m) \<and> Q p w' rc m
     \<and> sched_io getpipe advance io w s = Some (w', s', Inr (rc AND NOT NN_PIPE_RELEASE, p, m))
     \<and> pinv s' \<and> members s' = members s
     \<and> act s' = (if rc AND NN_PIPE_RELEASE \<noteq> 0 then act s - {p} else act s)"
proof -
  from getpipe_act [OF inv act] obtain p where p: "p \<in> act s" "getpipe s = Some (Some p)" by blast
  from io [OF p(1)] obtain w' rc m where w: "io w p = Some (w', rc, m)" "Q p w' rc m" by blast
  from advance_ok [OF inv p(2)] obtain s' where "advance s (rc AND NN_PIPE_RELEASE \<noteq> 0) = Some s'"
    "pinv s'" "members s' = members s" "act s' = (if rc AND NN_PIPE_RELEASE \<noteq> 0 then act s - {p} else act s)"
    by blast
  with p w show ?thesis by (auto simp: sched_io_def)
qed

end

interpretation prio: pipe_scheduler priolist_inv pl_members pl_active nn_priolist_getpipe
  nn_priolist_advance nn_priolist_add nn_priolist_rm nn_priolist_activate
  by unfold_locales
    (simp_all add: pl_active_members nn_priolist_getpipe_ok nn_priolist_advance_ok nn_priolist_add_ok
      nn_priolist_rm_ok nn_priolist_activate_ok)

section \<open>Priorities and round robin\<close>

text \<open>The pipe in turn always belongs to the highest priority that has an active pipe.\<close>

lemma nn_priolist_getpipe_priority:
  assumes inv: "priolist_inv s" and get: "nn_priolist_getpipe s = Some (Some p)"
    and q: "pl_data s q = Some e" "pd_inlist e"
  shows "\<exists>d. pl_data s p = Some d \<and> pd_inlist d \<and> pd_priority d \<le> pd_priority e"
proof -
  have "pl_current s \<noteq> -1" using get by (auto simp: nn_priolist_getpipe_def)
  from priolist_current [OF inv this] obtain n p' where
    n: "n < 16" "pl_current s = 1 + int n" "get_slot s (pl_current s) = Some (pl_slots s ! n)"
      "ps_current (pl_slots s ! n) = Some p'" "p' \<in> set (ps_pipes (pl_slots s ! n))"
      "\<And>j. j < n \<Longrightarrow> ps_pipes (pl_slots s ! j) = []" by blast
  have "p' = p" using get n(2-4) by (simp add: nn_priolist_getpipe_def)
  then have d: "pl_data s p = Some \<lparr>pd_priority = int n + 1, pd_inlist = True\<rparr>"
    using priolist_slot(3) [OF inv n(1) n(5)] by simp
  from priolist_data [OF inv q(1)] q(2) obtain i where
    i: "pd_priority e = int i + 1" "q \<in> set (ps_pipes (pl_slots s ! i))" by auto
  then have "\<not> i < n" using n(6) by fastforce
  then show ?thesis using d i by auto
qed

text \<open>Taking the pipe in turn \<open>k\<close> times without releasing any.\<close>

fun serve :: "nat \<Rightarrow> nn_priolist \<Rightarrow> (nn_priolist \<times> pipe list) option" where
  "serve 0 s = Some (s, [])"
| "serve (Suc k) s = do {
     p \<leftarrow> nn_priolist_getpipe s;
     p \<leftarrow> p;
     s \<leftarrow> nn_priolist_advance s False;
     (s, ps) \<leftarrow> serve k s;
     Some (s, p # ps) }"

definition set_cur :: "nn_priolist \<Rightarrow> nat \<Rightarrow> pipe option \<Rightarrow> nn_priolist" where
  "set_cur s n c = s\<lparr>pl_slots := (pl_slots s)[n := (pl_slots s ! n)\<lparr>ps_current := c\<rparr>]\<rparr>"

lemma next_current_rotate:
  assumes "distinct (pre @ x # post)"
  shows "next_current (pre @ x # post) (pre @ x # post) x = Some (hd (post @ pre @ [x]))"
  using assms next_of_split [of x pre post]
  by (cases post; cases pre) (auto simp: next_current_def begin_of_def)

lemma set_cur_simps [simp]:
  assumes "n < length (pl_slots s)"
  shows "length (pl_slots (set_cur s n c)) = length (pl_slots s)"
    "pl_slots (set_cur s n c) ! n = (pl_slots s ! n)\<lparr>ps_current := c\<rparr>"
    "pl_current (set_cur s n c) = pl_current s" "set_cur (set_cur s n c) n d = set_cur s n d"
    "j \<noteq> n \<Longrightarrow> pl_slots (set_cur s n c) ! j = pl_slots s ! j"
  using assms by (simp_all add: set_cur_def)

lemma advance_keep:
  assumes "n < length (pl_slots s)" and "pl_current s = 1 + int n" and "ps_current (pl_slots s ! n) = Some p"
    and "ps_pipes (pl_slots s ! n) \<noteq> []" and "\<And>j. j < n \<Longrightarrow> ps_pipes (pl_slots s ! j) = []"
  shows "nn_priolist_getpipe s = Some (Some p)"
    and "nn_priolist_advance s False =
      Some (set_cur s n (next_current (ps_pipes (pl_slots s ! n)) (ps_pipes (pl_slots s ! n)) p))"
proof -
  let ?xs = "ps_pipes (pl_slots s ! n)"
  let ?slot = "(pl_slots s ! n)\<lparr>ps_current := next_current ?xs ?xs p\<rparr>"
  show "nn_priolist_getpipe s = Some (Some p)" using assms by (simp add: nn_priolist_getpipe_def get_slot_def)
  have "next_slot ((pl_slots s)[n := ?slot]) (1 + int n) = Some (first_slot ((pl_slots s)[n := ?slot]) 1)"
    using assms by (intro next_slot_update) auto
  moreover have "first_slot ((pl_slots s)[n := ?slot]) 1 = 1 + int n"
    using assms by (intro first_slotI) auto
  ultimately show "nn_priolist_advance s False = Some (set_cur s n (next_current ?xs ?xs p))"
    using assms by (simp add: nn_priolist_advance_def get_slot_def put_slot_def set_cur_def Let_def)
qed

lemma serve_segment:
  assumes "n < length (pl_slots s)" and "pl_current s = 1 + int n"
    and "ps_pipes (pl_slots s ! n) = pre @ seg @ rest" and "distinct (pre @ seg @ rest)"
    and "ps_current (pl_slots s ! n) = Some (hd (seg @ rest @ pre))" and "seg @ rest @ pre \<noteq> []"
    and "\<And>j. j < n \<Longrightarrow> ps_pipes (pl_slots s ! j) = []"
  shows "serve (length seg) s = Some (set_cur s n (Some (hd (rest @ pre @ seg))), seg)"
  using assms
proof (induction seg arbitrary: s pre)
  case Nil
  then have "(pl_slots s ! n)\<lparr>ps_current := Some (hd (rest @ pre))\<rparr> = pl_slots s ! n" by (cases "pl_slots s ! n") simp
  then have "set_cur s n (Some (hd (rest @ pre))) = s" by (simp add: set_cur_def list_update_id)
  then show ?case by simp
next
  case (Cons x seg)
  let ?xs = "pre @ x # seg @ rest"
  have pipes: "ps_pipes (pl_slots s ! n) = ?xs" using Cons.prems(3) by simp
  have nc: "next_current ?xs ?xs x = Some (hd (seg @ rest @ pre @ [x]))"
    using next_current_rotate [of pre x "seg @ rest"] Cons.prems(4) by simp
  have adv: "nn_priolist_getpipe s = Some (Some x)"
    "nn_priolist_advance s False = Some (set_cur s n (Some (hd (seg @ rest @ pre @ [x]))))"
    using advance_keep [of n s x] Cons.prems pipes nc by auto
  let ?s = "set_cur s n (Some (hd (seg @ rest @ pre @ [x])))"
  have "serve (length seg) ?s = Some (set_cur ?s n (Some (hd (rest @ (pre @ [x]) @ seg))), seg)"
    using Cons.prems by (intro Cons.IH) auto
  then show ?case using adv Cons.prems(1) by simp
qed

lemma serve_add:
  "serve a s = Some (s1, ps) \<Longrightarrow> serve b s1 = Some (s2, qs) \<Longrightarrow> serve (a + b) s = Some (s2, ps @ qs)"
  by (induction a arbitrary: s ps) (auto simp: bind_Some_iff)

lemma serve_round:
  assumes inv: "priolist_inv s" and cur: "pl_current s = 1 + int n"
  defines "xs \<equiv> ps_pipes (pl_slots s ! n)"
  shows "\<exists>ps. serve (length xs) s = Some (s, ps) \<and> distinct ps \<and> set ps = set xs"
proof -
  have "pl_current s \<noteq> -1" using cur by simp
  from priolist_current [OF inv this] obtain m p where
    m: "m < 16" "pl_current s = 1 + int m" "ps_current (pl_slots s ! m) = Some p" "p \<in> set (ps_pipes (pl_slots s ! m))"
      "\<And>j. j < m \<Longrightarrow> ps_pipes (pl_slots s ! j) = []" by metis
  then have "m = n" using cur by simp
  with m have n: "n < 16" "ps_current (pl_slots s ! n) = Some p" "p \<in> set xs"
      "\<And>j. j < n \<Longrightarrow> ps_pipes (pl_slots s ! j) = []" by (auto simp: xs_def)
  have dist: "distinct xs" and l: "length (pl_slots s) = 16"
    using priolist_slot(1,2) [OF inv n(1)] by (auto simp: slot_ok_def xs_def)
  from n(3) obtain pre post where xs: "xs = pre @ p # post" by (auto simp: in_set_conv_decomp)
  have 1: "serve (length (p # post)) s = Some (set_cur s n (Some (hd (pre @ p # post))), p # post)"
    using serve_segment [of n s pre "p # post" "[]"] n l cur xs dist by (auto simp: xs_def)
  let ?s = "set_cur s n (Some (hd (pre @ p # post)))"
  have "serve (length pre) ?s = Some (set_cur ?s n (Some (hd ((p # post) @ [] @ pre))), pre)"
    using serve_segment [of n ?s "[]" pre "p # post"] n l cur xs dist by (auto simp: xs_def)
  moreover have "(pl_slots s ! n)\<lparr>ps_current := Some p\<rparr> = pl_slots s ! n" using n(2) by (cases "pl_slots s ! n") simp
  then have "set_cur s n (Some p) = s" by (simp add: set_cur_def list_update_id)
  ultimately have 2: "serve (length pre) ?s = Some (s, pre)" using n(1) l by simp
  have "length xs = length (p # post) + length pre" by (simp add: xs)
  then have "serve (length xs) s = Some (s, (p # post) @ pre)" using serve_add [OF 1 2] by (simp only:)
  then show ?thesis using dist xs by (intro exI [of _ "(p # post) @ pre"]) auto
qed

end
