(* ===== verification/Sched.thy ===== *)
theory Sched
  imports Priolist
begin

text \<open>
  The helpers that every protocol is assembled from, under \<open>src/protocols/utils\<close>: the load balancer
  (\<open>lb.c\<close>), the fair queue (\<open>fq.c\<close>), the distributor (\<open>dist.c\<close>) and the exclusive pipe (\<open>excl.c\<close>).
  Their theorems are proved in the context of the \<open>transport\<close> contract: used on pipes that are
  active and ready, they never trip an assertion, touch only those pipes, and keep exactly the
  pipes that are still ready.
\<close>

section \<open>Load balancer and fair queue\<close>

type_synonym nn_lb = nn_priolist
type_synonym nn_fq = nn_priolist

definition nn_lb_init :: nn_lb where "nn_lb_init = nn_priolist_init"

definition nn_lb_term :: "nn_lb \<Rightarrow> unit option" where "nn_lb_term self = nn_priolist_term self"

definition nn_lb_add :: "nn_lb \<Rightarrow> pipe \<Rightarrow> int \<Rightarrow> nn_lb" where
  "nn_lb_add self pipe priority = nn_priolist_add self pipe priority"

definition nn_lb_rm :: "nn_lb \<Rightarrow> pipe \<Rightarrow> nn_lb option" where
  "nn_lb_rm self pipe = nn_priolist_rm self pipe"

definition nn_lb_out :: "nn_lb \<Rightarrow> pipe \<Rightarrow> nn_lb option" where
  "nn_lb_out self pipe = nn_priolist_activate self pipe"

definition nn_lb_can_send :: "nn_lb \<Rightarrow> bool" where
  "nn_lb_can_send self = nn_priolist_is_active self"

definition nn_lb_get_priority :: "nn_lb \<Rightarrow> int" where
  "nn_lb_get_priority self = nn_priolist_get_priority self"

definition nn_lb_send :: "'t nn_pipebase_vfptr \<Rightarrow> 't world \<Rightarrow> nn_lb \<Rightarrow> nn_msg \<Rightarrow>
  ('t world \<times> nn_lb \<times> (errno + u32 \<times> pipe)) option" where
  "nn_lb_send vf w self msg = do {
     pipe \<leftarrow> nn_priolist_getpipe self;
     (case pipe of
        None \<Rightarrow> Some (w, self, Inl EAGAIN)
      | Some pipe \<Rightarrow> do {
          (w, rc) \<leftarrow> nn_pipe_send vf w pipe msg;
          self \<leftarrow> nn_priolist_advance self (rc AND NN_PIPE_RELEASE \<noteq> 0);
          Some (w, self, Inr (rc AND NOT NN_PIPE_RELEASE, pipe)) }) }"

definition nn_fq_init :: nn_fq where "nn_fq_init = nn_priolist_init"

definition nn_fq_term :: "nn_fq \<Rightarrow> unit option" where "nn_fq_term self = nn_priolist_term self"

definition nn_fq_add :: "nn_fq \<Rightarrow> pipe \<Rightarrow> int \<Rightarrow> nn_fq" where
  "nn_fq_add self pipe priority = nn_priolist_add self pipe priority"

definition nn_fq_rm :: "nn_fq \<Rightarrow> pipe \<Rightarrow> nn_fq option" where
  "nn_fq_rm self pipe = nn_priolist_rm self pipe"

definition nn_fq_in :: "nn_fq \<Rightarrow> pipe \<Rightarrow> nn_fq option" where
  "nn_fq_in self pipe = nn_priolist_activate self pipe"

definition nn_fq_can_recv :: "nn_fq \<Rightarrow> bool" where
  "nn_fq_can_recv self = nn_priolist_is_active self"

definition nn_fq_recv :: "'t nn_pipebase_vfptr \<Rightarrow> 't world \<Rightarrow> nn_fq \<Rightarrow>
  ('t world \<times> nn_fq \<times> (errno + u32 \<times> pipe \<times> nn_msg)) option" where
  "nn_fq_recv vf w self = do {
     p \<leftarrow> nn_priolist_getpipe self;
     (case p of
        None \<Rightarrow> Some (w, self, Inl EAGAIN)
      | Some p \<Rightarrow> do {
          (w, rc, msg) \<leftarrow> nn_pipe_recv vf w p;
          self \<leftarrow> nn_priolist_advance self (rc AND NN_PIPE_RELEASE \<noteq> 0);
          Some (w, self, Inr (rc AND NOT NN_PIPE_RELEASE, p, msg)) }) }"

lemmas lb_defs = nn_lb_init_def nn_lb_term_def nn_lb_add_def nn_lb_rm_def nn_lb_out_def
  nn_lb_can_send_def nn_lb_get_priority_def
lemmas fq_defs = nn_fq_init_def nn_fq_term_def nn_fq_add_def nn_fq_rm_def nn_fq_in_def nn_fq_can_recv_def

section \<open>Distributor\<close>

text \<open>\<open>d_item\<close> tells for each added pipe whether its embedded list item is linked.\<close>

record nn_dist =
  d_count :: u32
  d_pipes :: "pipe list"
  d_item :: "pipe \<Rightarrow> bool option"

definition nn_dist_init :: nn_dist where
  "nn_dist_init = \<lparr>d_count = 0, d_pipes = [], d_item = (\<lambda>_. None)\<rparr>"

definition nn_dist_term :: "nn_dist \<Rightarrow> unit option" where
  "nn_dist_term self = do { nn_assert (d_count self = 0); nn_assert (d_pipes self = []) }"

definition nn_dist_add :: "nn_dist \<Rightarrow> pipe \<Rightarrow> nn_dist" where
  "nn_dist_add self pipe = self\<lparr>d_item := (d_item self)(pipe \<mapsto> False)\<rparr>"

definition dist_erase :: "nn_dist \<Rightarrow> pipe \<Rightarrow> nn_dist" where
  "dist_erase self p = self\<lparr>d_count := d_count self - 1, d_pipes := remove1 p (d_pipes self),
     d_item := (d_item self)(p \<mapsto> False)\<rparr>"

definition nn_dist_rm :: "nn_dist \<Rightarrow> pipe \<Rightarrow> nn_dist option" where
  "nn_dist_rm self p = do {
     linked \<leftarrow> d_item self p;
     let self = (if linked then dist_erase self p else self);
     Some (self\<lparr>d_item := (d_item self)(p := None)\<rparr>) }"

definition nn_dist_out :: "nn_dist \<Rightarrow> pipe \<Rightarrow> nn_dist option" where
  "nn_dist_out self p = do {
     linked \<leftarrow> d_item self p;
     nn_assert (\<not> linked);
     Some (self\<lparr>d_count := d_count self + 1, d_pipes := d_pipes self @ [p],
                d_item := (d_item self)(p \<mapsto> True)\<rparr>) }"

text \<open>The loop of \<open>nn_dist_send\<close>; the third argument is what is left to visit of the list. Each pipe
  but the excluded one is given a copy of the message.\<close>

fun dist_loop :: "'t nn_pipebase_vfptr \<Rightarrow> nn_msg \<Rightarrow> pipe option \<Rightarrow> pipe list \<Rightarrow> 't world \<Rightarrow> nn_dist
  \<Rightarrow> ('t world \<times> nn_dist) option" where
  "dist_loop vf msg exclude [] w self = Some (w, self)"
| "dist_loop vf msg exclude (p # rest) w self =
     (if exclude = Some p then dist_loop vf msg exclude rest w self
      else do {
        (w, rc) \<leftarrow> nn_pipe_send vf w p msg;
        dist_loop vf msg exclude rest w
          (if rc AND NN_PIPE_RELEASE \<noteq> 0 then dist_erase self p else self) })"

definition nn_dist_send :: "'t nn_pipebase_vfptr \<Rightarrow> 't world \<Rightarrow> nn_dist \<Rightarrow> nn_msg \<Rightarrow> pipe option \<Rightarrow>
  ('t world \<times> nn_dist) option" where
  "nn_dist_send vf w self msg exclude =
     (if d_count self = 0 then Some (w, self)
      else dist_loop vf msg exclude (d_pipes self) w self)"

definition dist_inv :: "nn_dist \<Rightarrow> bool" where
  "dist_inv d \<longleftrightarrow> distinct (d_pipes d) \<and> d_count d = of_nat (length (d_pipes d))
     \<and> (\<forall>p. p \<in> set (d_pipes d) \<longleftrightarrow> d_item d p = Some True)"

definition dist_members :: "nn_dist \<Rightarrow> pipe set" where
  "dist_members d = dom (d_item d)"

section \<open>Exclusive pipe\<close>

record nn_excl =
  ex_pipe :: "pipe option"
  ex_inpipe :: "pipe option"
  ex_outpipe :: "pipe option"

definition nn_excl_init :: nn_excl where
  "nn_excl_init = \<lparr>ex_pipe = None, ex_inpipe = None, ex_outpipe = None\<rparr>"

definition nn_excl_term :: "nn_excl \<Rightarrow> unit option" where
  "nn_excl_term self = do {
     nn_assert (ex_pipe self = None);
     nn_assert (ex_inpipe self = None);
     nn_assert (ex_outpipe self = None) }"

definition nn_excl_add :: "nn_excl \<Rightarrow> pipe \<Rightarrow> nn_excl \<times> (errno + unit)" where
  "nn_excl_add self pipe = (if ex_pipe self \<noteq> None then (self, Inl EISCONN)
     else (self\<lparr>ex_pipe := Some pipe\<rparr>, Inr ()))"

definition nn_excl_rm :: "nn_excl \<Rightarrow> pipe \<Rightarrow> nn_excl option" where
  "nn_excl_rm self pipe = do {
     nn_assert (ex_pipe self \<noteq> None);
     Some (self\<lparr>ex_pipe := None, ex_inpipe := None, ex_outpipe := None\<rparr>) }"

definition nn_excl_in :: "nn_excl \<Rightarrow> pipe \<Rightarrow> nn_excl option" where
  "nn_excl_in self pipe = do {
     nn_assert (ex_inpipe self = None);
     nn_assert (Some pipe = ex_pipe self);
     Some (self\<lparr>ex_inpipe := Some pipe\<rparr>) }"

definition nn_excl_out :: "nn_excl \<Rightarrow> pipe \<Rightarrow> nn_excl option" where
  "nn_excl_out self pipe = do {
     nn_assert (ex_outpipe self = None);
     nn_assert (Some pipe = ex_pipe self);
     Some (self\<lparr>ex_outpipe := Some pipe\<rparr>) }"

definition nn_excl_send :: "'t nn_pipebase_vfptr \<Rightarrow> 't world \<Rightarrow> nn_excl \<Rightarrow> nn_msg \<Rightarrow>
  ('t world \<times> nn_excl \<times> (errno + u32)) option" where
  "nn_excl_send vf w self msg = (case ex_outpipe self of
     None \<Rightarrow> Some (w, self, Inl EAGAIN)
   | Some p \<Rightarrow> do {
       (w, rc) \<leftarrow> nn_pipe_send vf w p msg;
       let self = (if rc AND NN_PIPE_RELEASE \<noteq> 0 then self\<lparr>ex_outpipe := None\<rparr> else self);
       Some (w, self, Inr (rc AND NOT NN_PIPE_RELEASE)) })"

definition nn_excl_recv :: "'t nn_pipebase_vfptr \<Rightarrow> 't world \<Rightarrow> nn_excl \<Rightarrow>
  ('t world \<times> nn_excl \<times> (errno + u32 \<times> nn_msg)) option" where
  "nn_excl_recv vf w self = (case ex_inpipe self of
     None \<Rightarrow> Some (w, self, Inl EAGAIN)
   | Some p \<Rightarrow> do {
       (w, rc, msg) \<leftarrow> nn_pipe_recv vf w p;
       let self = (if rc AND NN_PIPE_RELEASE \<noteq> 0 then self\<lparr>ex_inpipe := None\<rparr> else self);
       Some (w, self, Inr (rc AND NOT NN_PIPE_RELEASE, msg)) })"

definition nn_excl_can_send :: "nn_excl \<Rightarrow> bool" where
  "nn_excl_can_send self = (ex_outpipe self \<noteq> None)"

definition nn_excl_can_recv :: "nn_excl \<Rightarrow> bool" where
  "nn_excl_can_recv self = (ex_inpipe self \<noteq> None)"

lemmas excl_defs = nn_excl_init_def nn_excl_term_def nn_excl_add_def nn_excl_rm_def nn_excl_in_def
  nn_excl_out_def nn_excl_can_send_def nn_excl_can_recv_def

text \<open>The two directions only ever use the registered pipe.\<close>

definition excl_inv :: "nn_excl \<Rightarrow> bool" where
  "excl_inv e \<longleftrightarrow> (ex_inpipe e = None \<or> ex_inpipe e = ex_pipe e) \<and> (ex_outpipe e = None \<or> ex_outpipe e = ex_pipe e)"

section \<open>Ready pipes\<close>

definition out_ready :: "'t world \<Rightarrow> pipe set \<Rightarrow> bool" where
  "out_ready w P \<longleftrightarrow> (\<forall>p \<in> P. pipe_active w p \<and> out_idle w p)"

definition in_ready :: "'t world \<Rightarrow> pipe set \<Rightarrow> bool" where
  "in_ready w P \<longleftrightarrow> (\<forall>p \<in> P. pipe_active w p \<and> in_idle w p)"

lemma nn_lb_send_sched:
  "nn_lb_send vf w lb msg = do {
     (w, s, r) \<leftarrow> sched_io nn_priolist_getpipe nn_priolist_advance
        (\<lambda>w p. do { (w, rc) \<leftarrow> nn_pipe_send vf w p msg; Some (w, rc, ()) }) w lb;
     Some (w, s, (case r of Inl e \<Rightarrow> Inl e | Inr (rc, p, _) \<Rightarrow> Inr (rc, p))) }"
  by (auto simp: nn_lb_send_def sched_io_def split: option.splits Option.bind_splits)

lemma nn_fq_recv_sched:
  "nn_fq_recv vf w fq = sched_io nn_priolist_getpipe nn_priolist_advance (nn_pipe_recv vf) w fq"
  by (simp add: nn_fq_recv_def sched_io_def)

lemma dist_inv_init: "dist_inv nn_dist_init"
  by (simp add: dist_inv_def nn_dist_init_def)

lemma nn_dist_add_ok:
  assumes "dist_inv d" and "p \<notin> dist_members d"
  shows "dist_inv (nn_dist_add d p)" "dist_members (nn_dist_add d p) = insert p (dist_members d)"
    "d_pipes (nn_dist_add d p) = d_pipes d"
  using assms by (auto simp: dist_inv_def nn_dist_add_def dist_members_def)

lemma dist_erase_ok:
  assumes "dist_inv d" and "p \<in> set (d_pipes d)"
  shows "dist_inv (dist_erase d p)" "dist_members (dist_erase d p) = dist_members d"
    "d_pipes (dist_erase d p) = remove1 p (d_pipes d)"
proof -
  obtain k where k: "length (d_pipes d) = Suc k" using assms(2) by (cases "d_pipes d") auto
  then have "length (remove1 p (d_pipes d)) = k" using assms(2) by (simp add: length_remove1)
  then show "dist_inv (dist_erase d p)" using assms k by (auto simp: dist_inv_def dist_erase_def)
  show "dist_members (dist_erase d p) = dist_members d"
    using assms by (auto simp: dist_inv_def dist_erase_def dist_members_def)
qed (simp add: dist_erase_def)

lemma nn_dist_rm_ok:
  assumes "dist_inv d" and "p \<in> dist_members d"
  shows "\<exists>d'. nn_dist_rm d p = Some d' \<and> dist_inv d' \<and> dist_members d' = dist_members d - {p}
     \<and> set (d_pipes d') = set (d_pipes d) - {p}"
proof -
  from assms(2) obtain b where b: "d_item d p = Some b" by (auto simp: dist_members_def)
  let ?d = "if b then dist_erase d p else d"
  have mem: "p \<in> set (d_pipes d) \<longleftrightarrow> b" and dist: "distinct (d_pipes d)"
    using assms(1) b unfolding dist_inv_def by simp_all
  have inv: "dist_inv ?d \<and> dist_members ?d = dist_members d \<and> set (d_pipes ?d) = set (d_pipes d) - {p}
      \<and> p \<notin> set (d_pipes ?d)"
    using dist_erase_ok [OF assms(1), of p] mem dist assms(1) by (cases b) simp_all
  let ?d' = "?d\<lparr>d_item := (d_item ?d)(p := None)\<rparr>"
  have "nn_dist_rm d p = Some ?d'" using b by (simp add: nn_dist_rm_def Let_def)
  moreover have "dist_inv ?d'" using inv by (auto simp: dist_inv_def)
  moreover have "dist_members ?d' = dist_members d - {p}" using inv by (auto simp: dist_members_def)
  ultimately show ?thesis using inv by auto
qed

lemma nn_dist_out_ok:
  assumes "dist_inv d" and "p \<in> dist_members d" and "p \<notin> set (d_pipes d)"
  shows "\<exists>d'. nn_dist_out d p = Some d' \<and> dist_inv d' \<and> dist_members d' = dist_members d
     \<and> d_pipes d' = d_pipes d @ [p]"
proof -
  from assms(2) obtain b where b: "d_item d p = Some b" by (auto simp: dist_members_def)
  moreover have "\<not> b" using b assms(1,3) unfolding dist_inv_def by simp
  ultimately have "nn_dist_out d p = Some (d\<lparr>d_count := d_count d + 1, d_pipes := d_pipes d @ [p],
      d_item := (d_item d)(p \<mapsto> True)\<rparr>)" by (simp add: nn_dist_out_def)
  moreover have "insert p (dom (d_item d)) = dom (d_item d)" using b by auto
  ultimately show ?thesis using assms(1,3) by (simp add: dist_inv_def dist_members_def)
qed

text \<open>Giving a copy of a message to each pipe of a sequence.\<close>

fun send_all :: "'t nn_pipebase_vfptr \<Rightarrow> nn_msg \<Rightarrow> pipe list \<Rightarrow> 't world \<Rightarrow> 't world option" where
  "send_all vf m [] w = Some w"
| "send_all vf m (p # ps) w = do { (w, _) \<leftarrow> nn_pipe_send vf w p m; send_all vf m ps w }"

lemma dist_loop_send_all:
  "dist_loop vf m ex rest w d = Some (w', d') \<Longrightarrow> send_all vf m (filter (\<lambda>p. ex \<noteq> Some p) rest) w = Some w'"
  by (induction rest arbitrary: w d) (auto simp: bind_Some_iff split: if_splits)

lemma out_ready_step:
  assumes "out_ready w P" and "out_step {p} w w'"
  shows "out_ready w' (P - {p})" and "out_idle w' p \<Longrightarrow> out_ready w' P"
proof -
  have *: "q \<noteq> p \<Longrightarrow> out_idle w' q = out_idle w q" "pipe_active w' q = pipe_active w q" for q
    using out_step_facts(3,6) [OF assms(2)] by auto
  then show "out_ready w' (P - {p})" using assms(1) by (simp add: out_ready_def)
  show "out_ready w' P" if "out_idle w' p" unfolding out_ready_def
  proof
    fix q assume "q \<in> P"
    then show "pipe_active w' q \<and> out_idle w' q" using * that assms(1) by (cases "q = p") (auto simp: out_ready_def)
  qed
qed

context transport
begin

lemma dist_loop_ok:
  assumes "distinct rest" and "set rest \<subseteq> set (d_pipes d)" and "dist_inv d" and "trans_ok tinv w"
    and "out_ready w (set (d_pipes d))"
  shows "\<exists>w' d'. dist_loop vf m ex rest w d = Some (w', d') \<and> trans_ok tinv w' \<and> out_step (set rest) w w'
     \<and> dist_inv d' \<and> dist_members d' = dist_members d \<and> d_pipes d' = filter (out_idle w') (d_pipes d)"
  using assms
proof (induction rest arbitrary: w d)
  case Nil
  then have "filter (out_idle w) (d_pipes d) = d_pipes d" by (auto simp: out_ready_def filter_id_conv)
  then show ?case using Nil by simp
next
  case (Cons p rest)
  show ?case
  proof (cases "ex = Some p")
    case True
    then obtain w' d' where *: "dist_loop vf m ex rest w d = Some (w', d')" "trans_ok tinv w'" "out_step (set rest) w w'"
      "dist_inv d'" "dist_members d' = dist_members d" "d_pipes d' = filter (out_idle w') (d_pipes d)"
      using Cons.IH [of d w] Cons.prems by auto
    moreover have "out_step (set (p # rest)) w w'" using *(3) by (auto simp: out_step_def)
    ultimately show ?thesis using True by simp
  next
    case False
    from nn_pipe_send_ok [OF Cons.prems(4), of p m] Cons.prems(2,5) obtain w1 rc where
      s: "nn_pipe_send vf w p m = Some (w1, rc)" "trans_ok tinv w1" "out_step {p} w w1"
        "rc AND NN_PIPE_RELEASE = 0 \<longleftrightarrow> out_idle w1 p" by (auto simp: out_ready_def)
    let ?d = "if rc AND NN_PIPE_RELEASE \<noteq> 0 then dist_erase d p else d"
    have p: "p \<in> set (d_pipes d)" using Cons.prems(2) by simp
    have d: "dist_inv ?d" "dist_members ?d = dist_members d"
      "d_pipes ?d = (if out_idle w1 p then d_pipes d else remove1 p (d_pipes d))"
      using dist_erase_ok [OF Cons.prems(3) p] Cons.prems(3) s(4) by auto
    have dist: "distinct (d_pipes d)" using Cons.prems(3) by (simp add: dist_inv_def)
    have ready: "out_ready w1 (set (d_pipes ?d))"
      using out_ready_step [OF Cons.prems(5) s(3)] dist unfolding d(3) by simp
    have "set rest \<subseteq> set (d_pipes ?d)" using Cons.prems(1,2) dist unfolding d(3) by auto
    with Cons.IH [OF _ _ d(1) s(2) ready] Cons.prems(1) obtain w' d' where
      *: "dist_loop vf m ex rest w1 ?d = Some (w', d')" "trans_ok tinv w'" "out_step (set rest) w1 w'"
        "dist_inv d'" "dist_members d' = dist_members ?d" "d_pipes d' = filter (out_idle w') (d_pipes ?d)" by auto
    have "out_idle w' p = out_idle w1 p" using out_step_facts(6) [OF *(3)] Cons.prems(1) by simp
    then have "filter (out_idle w') (d_pipes ?d) = filter (out_idle w') (d_pipes d)"
      unfolding d(3) by (simp add: filter_remove1 remove1_idem)
    moreover have "out_step (set (p # rest)) w w'" using out_step_trans [OF s(3) *(3)] by simp
    ultimately show ?thesis using False s(1) * d(2) by simp
  qed
qed

lemma nn_dist_send_ok:
  assumes "dist_inv d" and "trans_ok tinv w" and "out_ready w (set (d_pipes d))"
  shows "\<exists>w' d'. nn_dist_send vf w d m ex = Some (w', d') \<and> trans_ok tinv w' \<and> out_step (set (d_pipes d)) w w'
     \<and> dist_inv d' \<and> dist_members d' = dist_members d \<and> d_pipes d' = filter (out_idle w') (d_pipes d)"
proof (cases "d_count d = 0")
  case True
  have "filter (out_idle w) (d_pipes d) = d_pipes d" using assms(3) by (auto simp: out_ready_def filter_id_conv)
  then show ?thesis using True assms by (simp add: nn_dist_send_def)
next
  case False
  have "distinct (d_pipes d)" using assms(1) by (simp add: dist_inv_def)
  from dist_loop_ok [OF this _ assms] False show ?thesis by (simp add: nn_dist_send_def)
qed

lemma nn_excl_send_ok:
  assumes "trans_ok tinv w" and "out_ready w (set_option (ex_outpipe e))"
  shows "\<exists>w' e' r. nn_excl_send vf w e m = Some (w', e', r) \<and> trans_ok tinv w' \<and> (\<forall>v. r = Inr v \<longrightarrow> v = 0)
     \<and> out_step (set_option (ex_outpipe e)) w w' \<and> ex_pipe e' = ex_pipe e \<and> ex_inpipe e' = ex_inpipe e
     \<and> set_option (ex_outpipe e') = {p \<in> set_option (ex_outpipe e). out_idle w' p}"
proof (cases "ex_outpipe e")
  case None then show ?thesis using assms by (auto simp: nn_excl_send_def)
next
  case (Some p)
  from nn_pipe_send_ok [OF assms(1), of p m] assms(2) Some obtain w' rc where
    "nn_pipe_send vf w p m = Some (w', rc)" "trans_ok tinv w'" "out_step {p} w w'"
    "rc AND NN_PIPE_RELEASE = 0 \<longleftrightarrow> out_idle w' p" "rc AND NOT NN_PIPE_RELEASE = 0" by (auto simp: out_ready_def)
  then show ?thesis using Some by (auto simp: nn_excl_send_def)
qed

lemma nn_excl_recv_ok:
  assumes "trans_ok tinv w" and "in_ready w (set_option (ex_inpipe e))"
  shows "\<exists>w' e' r. nn_excl_recv vf w e = Some (w', e', r) \<and> trans_ok tinv w'
     \<and> in_step (set_option (ex_inpipe e)) w w' \<and> ex_pipe e' = ex_pipe e \<and> ex_outpipe e' = ex_outpipe e
     \<and> set_option (ex_inpipe e') = {p \<in> set_option (ex_inpipe e). in_idle w' p}"
proof (cases "ex_inpipe e")
  case None then show ?thesis using assms by (auto simp: nn_excl_recv_def)
next
  case (Some p)
  from nn_pipe_recv_ok [OF assms(1), of p] assms(2) Some obtain w' rc m where
    "nn_pipe_recv vf w p = Some (w', rc, m)" "trans_ok tinv w'" "in_step {p} w w'"
    "rc AND NN_PIPE_RELEASE = 0 \<longleftrightarrow> in_idle w' p" by (auto simp: in_ready_def)
  then show ?thesis using Some by (auto simp: nn_excl_recv_def)
qed

lemma nn_lb_send_empty:
  assumes "priolist_inv lb" and "pl_active lb = {}"
  shows "nn_lb_send vf w lb m = Some (w, lb, Inl EAGAIN)"
  using prio.getpipe_idle [OF assms] by (simp add: nn_lb_send_def)

lemma nn_lb_send_ok:
  assumes "priolist_inv lb" and "pl_active lb \<noteq> {}" and "trans_ok tinv w" and "out_ready w (pl_active lb)"
  shows "\<exists>w' lb' p. nn_lb_send vf w lb m = Some (w', lb', Inr (0, p))
     \<and> p \<in> pl_active lb \<and> nn_priolist_getpipe lb = Some (Some p)
     \<and> (\<exists>rc'. nn_pipe_send vf w p m = Some (w', rc'))
     \<and> trans_ok tinv w' \<and> out_step {p} w w' \<and> priolist_inv lb' \<and> pl_members lb' = pl_members lb
     \<and> pl_active lb' = {q \<in> pl_active lb. out_idle w' q}"
proof -
  let ?io = "\<lambda>w p. do { (w, rc) \<leftarrow> nn_pipe_send vf w p m; Some (w, rc, ()) }"
  let ?Q = "\<lambda>p w' rc (_ :: unit). nn_pipe_send vf w p m = Some (w', rc) \<and> trans_ok tinv w' \<and> out_step {p} w w'
     \<and> (rc AND NN_PIPE_RELEASE = 0 \<longleftrightarrow> out_idle w' p) \<and> rc AND NOT NN_PIPE_RELEASE = 0"
  have io: "\<exists>w' rc u. ?io w p = Some (w', rc, u) \<and> ?Q p w' rc u" if "p \<in> pl_active lb" for p
    using nn_pipe_send_ok [OF assms(3), of p m] assms(4) that by (auto simp: out_ready_def)
  from prio.sched_io_ok [where Q = ?Q and io = ?io and w = w, OF assms(1,2) io] obtain p w' rc u s' where
    *: "p \<in> pl_active lb" "nn_priolist_getpipe lb = Some (Some p)" "?Q p w' rc u"
      "sched_io nn_priolist_getpipe nn_priolist_advance ?io w lb = Some (w', s', Inr (rc AND NOT NN_PIPE_RELEASE, p, u))"
      "priolist_inv s'" "pl_members s' = pl_members lb"
      "pl_active s' = (if rc AND NN_PIPE_RELEASE \<noteq> 0 then pl_active lb - {p} else pl_active lb)"
    by blast
  have "out_idle w' q" if "q \<in> pl_active lb" "q \<noteq> p" for q
    using out_step_facts(6) [of "{p}" w w' q] that *(3) assms(4) by (auto simp: out_ready_def)
  then have "pl_active s' = {q \<in> pl_active lb. out_idle w' q}" using *(1,3,7) by auto
  then show ?thesis using * by (auto simp: nn_lb_send_sched case_prod_beta)
qed

lemma nn_fq_recv_empty:
  assumes "priolist_inv fq" and "pl_active fq = {}"
  shows "nn_fq_recv vf w fq = Some (w, fq, Inl EAGAIN)"
  using prio.sched_io_idle [OF assms] by (simp add: nn_fq_recv_sched)

lemma nn_fq_recv_ok:
  assumes "priolist_inv fq" and "pl_active fq \<noteq> {}" and "trans_ok tinv w" and "in_ready w (pl_active fq)"
  shows "\<exists>w' fq' rc p m. nn_fq_recv vf w fq = Some (w', fq', Inr (rc, p, m))
     \<and> p \<in> pl_active fq \<and> nn_priolist_getpipe fq = Some (Some p)
     \<and> (\<exists>rc'. nn_pipe_recv vf w p = Some (w', rc', m))
     \<and> (rc AND NN_PIPE_PARSED = 0 \<longrightarrow> sphdr m = [])
     \<and> avail (w_trans w') p < avail (w_trans w) p \<and> (\<forall>q. avail (w_trans w') q \<le> avail (w_trans w) q)
     \<and> trans_ok tinv w' \<and> in_step {p} w w' \<and> priolist_inv fq' \<and> pl_members fq' = pl_members fq
     \<and> pl_active fq' = {q \<in> pl_active fq. in_idle w' q}"
proof -
  let ?Q = "\<lambda>p w' rc m. nn_pipe_recv vf w p = Some (w', rc, m) \<and> trans_ok tinv w' \<and> in_step {p} w w'
     \<and> (rc AND NN_PIPE_RELEASE = 0 \<longleftrightarrow> in_idle w' p) \<and> (rc AND NN_PIPE_PARSED = 0 \<longrightarrow> sphdr m = [])
     \<and> avail (w_trans w') p < avail (w_trans w) p \<and> (\<forall>q. avail (w_trans w') q \<le> avail (w_trans w) q)"
  have io: "\<exists>w' rc m. nn_pipe_recv vf w p = Some (w', rc, m) \<and> ?Q p w' rc m" if "p \<in> pl_active fq" for p
    using nn_pipe_recv_ok [OF assms(3), of p] assms(4) that by (auto simp: in_ready_def)
  from prio.sched_io_ok [where Q = ?Q and io = "nn_pipe_recv vf" and w = w, OF assms(1,2) io] obtain p w' rc m s' where
    *: "p \<in> pl_active fq" "nn_priolist_getpipe fq = Some (Some p)" "?Q p w' rc m"
      "sched_io nn_priolist_getpipe nn_priolist_advance (nn_pipe_recv vf) w fq = Some (w', s', Inr (rc AND NOT NN_PIPE_RELEASE, p, m))"
      "priolist_inv s'" "pl_members s' = pl_members fq"
      "pl_active s' = (if rc AND NN_PIPE_RELEASE \<noteq> 0 then pl_active fq - {p} else pl_active fq)"
    by blast
  have "in_idle w' q" if "q \<in> pl_active fq" "q \<noteq> p" for q
    using in_step_facts(6) [of "{p}" w w' q] that *(3) assms(4) by (auto simp: in_ready_def)
  then have act: "pl_active s' = {q \<in> pl_active fq. in_idle w' q}" using *(1,3,7) by auto
  have "(rc AND NOT NN_PIPE_RELEASE) AND NN_PIPE_PARSED = rc AND NN_PIPE_PARSED"
    by (simp add: NN_PIPE_RELEASE_def NN_PIPE_PARSED_def and.assoc)
  then show ?thesis using * act by (auto simp: nn_fq_recv_sched)
qed

end

end
