(* ===== verification/Sockbase.thy ===== *)
theory Sockbase
  imports Sched
begin

text \<open>
  The interface between a socket and the protocol it runs (\<open>struct nn_sockbase_vfptr\<close> of
  \<open>src/protocol.h\<close>, \<open>src/core/sockbase.c\<close>, \<open>nn_sock_add\<close> and \<open>nn_sock_rm\<close> and the pipe events of
  \<open>nn_sock_handler\<close> in \<open>src/core/sock.c\<close>), and the closed system of one socket: the user sends and
  receives, transports start, stop and signal pipes, and the context dispatches the raised events.

  Every operation runs to completion under the lock of the context, so a behaviour of the system
  is a sequence of such operations. The locale \<open>raw_socket\<close> is the contract a protocol has to meet;
  in it we prove once that no operation ever trips an assertion and that the protocol's lists of
  ready pipes agree with the states of the pipes. Each protocol interprets it.
\<close>

section \<open>Virtual functions of a protocol\<close>

record ('t, 's) nn_sockbase_vfptr =
  sb_add :: "('t, 's) sock_add"
  sb_rm :: "('t, 's) sock_fn"
  sb_in :: "('t, 's) sock_fn"
  sb_out :: "('t, 's) sock_fn"
  sb_send :: "('t world \<Rightarrow> 's \<Rightarrow> nn_msg \<Rightarrow> ('t world \<times> 's \<times> (errno + u32)) option) option"
  sb_recv :: "('t world \<Rightarrow> 's \<Rightarrow> ('t world \<times> 's \<times> (errno + nn_msg)) option) option"

definition NN_SOCKBASE_EVENT_IN :: u32 where "NN_SOCKBASE_EVENT_IN = 1"
definition NN_SOCKBASE_EVENT_OUT :: u32 where "NN_SOCKBASE_EVENT_OUT = 2"

definition nn_sockbase_stat_increment :: "'t world \<Rightarrow> nn_stat \<Rightarrow> int \<Rightarrow> 't world option" where
  "nn_sockbase_stat_increment w name i = do {
     st \<leftarrow> nn_sock_stat_increment (w_stats w) name i;
     Some (w\<lparr>w_stats := st\<rparr>) }"

definition nn_sock_add :: "('t, 's) nn_sockbase_vfptr \<Rightarrow> ('t, 's) sock_add" where
  "nn_sock_add vt w s p = do {
     (w, s, rc) \<leftarrow> sb_add vt w s p;
     w \<leftarrow> (case rc of Inl _ \<Rightarrow> Some w | Inr _ \<Rightarrow> nn_sockbase_stat_increment w NN_STAT_CURRENT_CONNECTIONS 1);
     Some (w, s, rc) }"

definition nn_sock_rm :: "('t, 's) nn_sockbase_vfptr \<Rightarrow> ('t, 's) sock_fn" where
  "nn_sock_rm vt w s p = do {
     (w, s) \<leftarrow> sb_rm vt w s p;
     w \<leftarrow> nn_sockbase_stat_increment w NN_STAT_CURRENT_CONNECTIONS (-1);
     Some (w, s) }"

text \<open>The pipe events of the socket's state machine.\<close>

definition nn_sock_pipe_event :: "('t, 's) nn_sockbase_vfptr \<Rightarrow> 't world \<Rightarrow> 's \<Rightarrow> pipe \<times> pipe_event \<Rightarrow>
  ('t world \<times> 's) option" where
  "nn_sock_pipe_event vt w s ev = (case snd ev of
     NN_PIPE_IN \<Rightarrow> sb_in vt w s (fst ev)
   | NN_PIPE_OUT \<Rightarrow> sb_out vt w s (fst ev))"

section \<open>The closed system\<close>

text \<open>\<open>Sent\<close> and \<open>Received\<close> are the callbacks of a transport that is done with a message, and carry its
  new private state; \<open>Deliver\<close> takes the next event out of the queue of the context.\<close>

datatype 't sysop = Start pipe 't | Stop pipe 't | Sent pipe 't | Received pipe 't | Deliver | Send nn_msg | Recv

fun sys_exec :: "('t, 's) nn_sockbase_vfptr \<Rightarrow> 't sysop \<Rightarrow> 't world \<times> 's \<Rightarrow> ('t world \<times> 's) option" where
  "sys_exec vt (Start p t) (w, s) = do {
     (w, s, _) \<leftarrow> nn_pipebase_start (nn_sock_add vt) (w\<lparr>w_trans := t\<rparr>) s p; Some (w, s) }"
| "sys_exec vt (Stop p t) (w, s) = nn_pipebase_stop (nn_sock_rm vt) (w\<lparr>w_trans := t\<rparr>) s p"
| "sys_exec vt (Sent p t) (w, s) = do { w \<leftarrow> nn_pipebase_sent (w\<lparr>w_trans := t\<rparr>) p; Some (w, s) }"
| "sys_exec vt (Received p t) (w, s) = do { w \<leftarrow> nn_pipebase_received (w\<lparr>w_trans := t\<rparr>) p; Some (w, s) }"
| "sys_exec vt Deliver (w, s) = (case w_events w of
     [] \<Rightarrow> Some (w, s)
   | ev # evs \<Rightarrow> nn_sock_pipe_event vt (w\<lparr>w_events := evs\<rparr>) s ev)"
| "sys_exec vt (Send m) (w, s) = (case sb_send vt of
     None \<Rightarrow> Some (w, s)
   | Some f \<Rightarrow> do { (w, s, _) \<leftarrow> f w s m; Some (w, s) })"
| "sys_exec vt Recv (w, s) = (case sb_recv vt of
     None \<Rightarrow> Some (w, s)
   | Some f \<Rightarrow> do { (w, s, _) \<leftarrow> f w s; Some (w, s) })"

text \<open>How a protocol treats readiness of pipes in one direction: it keeps the ready pipes, it
  ignores the event, or it considers the event impossible.\<close>

datatype tracking = Tracks | Ignores | Refuses

definition pending :: "'t world \<Rightarrow> pipe \<Rightarrow> bool" where
  "pending w p \<longleftrightarrow> p \<in> fst ` set (w_events w)"

definition prio_ok :: "nn_pipebase \<Rightarrow> bool" where
  "prio_ok b \<longleftrightarrow> 1 \<le> sndprio (pb_options b) \<and> sndprio (pb_options b) \<le> 16
     \<and> 1 \<le> rcvprio (pb_options b) \<and> rcvprio (pb_options b) \<le> 16"

text \<open>What transports guarantee when they act: a pipe is started when it is idle and stopped when its
  events have been processed, a completion is signalled for an operation in progress, and the
  transport keeps its own invariant. \<open>room\<close> says that the protocol can take one more pipe.\<close>

fun sys_guard :: "tracking \<Rightarrow> ('s \<Rightarrow> bool) \<Rightarrow> 't sysop \<Rightarrow> 't world \<times> 's \<Rightarrow> bool" where
  "sys_guard ik room (Start p t) (w, s) \<longleftrightarrow> pb_state (w_pipes w p) = NN_PIPEBASE_STATE_IDLE \<and> \<not> pending w p
     \<and> prio_ok (w_pipes w p) \<and> room s"
| "sys_guard ik room (Stop p t) (w, s) \<longleftrightarrow> \<not> pending w p"
| "sys_guard ik room (Sent p t) (w, s) \<longleftrightarrow> pipe_active w p \<and> pb_outstate (w_pipes w p) = NN_PIPEBASE_OUTSTATE_ASYNC"
| "sys_guard ik room (Received p t) (w, s) \<longleftrightarrow> ik \<noteq> Refuses \<and> pipe_active w p \<and> pb_instate (w_pipes w p) = NN_PIPEBASE_INSTATE_ASYNC"
| "sys_guard ik room _ (w, s) \<longleftrightarrow> True"

inductive sys_step :: "('t, 's) nn_sockbase_vfptr \<Rightarrow> ((pipe \<Rightarrow> nn_pipebase) \<Rightarrow> 't \<Rightarrow> bool) \<Rightarrow> tracking \<Rightarrow>
  ('s \<Rightarrow> bool) \<Rightarrow> 't world \<times> 's \<Rightarrow> 't world \<times> 's \<Rightarrow> bool" for vt tinv ik room where
  sys_stepI: "sys_guard ik room op st \<Longrightarrow> sys_exec vt op st = Some st' \<Longrightarrow> trans_ok tinv (fst st') \<Longrightarrow>
     sys_step vt tinv ik room st st'"

definition sys_reach :: "('t, 's) nn_sockbase_vfptr \<Rightarrow> ((pipe \<Rightarrow> nn_pipebase) \<Rightarrow> 't \<Rightarrow> bool) \<Rightarrow> tracking \<Rightarrow>
  ('s \<Rightarrow> bool) \<Rightarrow> 't world \<times> 's \<Rightarrow> 't world \<times> 's \<Rightarrow> bool" where
  "sys_reach vt tinv ik room = (sys_step vt tinv ik room)\<^sup>*\<^sup>*"

section \<open>The contract of a protocol\<close>

text \<open>The protocol callbacks on pipes may record statistics but touch nothing else of the world.\<close>

definition stat_frame :: "'t world \<Rightarrow> 't world \<Rightarrow> bool" where
  "stat_frame w w' \<longleftrightarrow> w_pipes w' = w_pipes w \<and> w_events w' = w_events w \<and> w_trans w' = w_trans w
     \<and> current_connections (w_stats w') = current_connections (w_stats w)"

definition tracked :: "tracking \<Rightarrow> pipe \<Rightarrow> pipe set \<Rightarrow> pipe set" where
  "tracked k p P = (if k = Tracks then insert p P else P)"

text \<open>The invariant of the closed system: the protocol knows exactly the active pipes, and keeps as
  ready exactly those whose direction is idle and whose event has been delivered.\<close>

definition dir_ok :: "tracking \<Rightarrow> 't world \<Rightarrow> pipe set \<Rightarrow> ('t world \<Rightarrow> pipe \<Rightarrow> bool) \<Rightarrow> pipe_event \<Rightarrow> bool" where
  "dir_ok k w P idle ev \<longleftrightarrow>
     (\<forall>p. p \<in> P \<longleftrightarrow> k = Tracks \<and> pipe_active w p \<and> idle w p \<and> (p, ev) \<notin> set (w_events w)) \<and>
     (\<forall>p. (p, ev) \<in> set (w_events w) \<longrightarrow> k \<noteq> Refuses \<and> pipe_active w p \<and> idle w p)"

definition sys_inv :: "((pipe \<Rightarrow> nn_pipebase) \<Rightarrow> 't \<Rightarrow> bool) \<Rightarrow> tracking \<Rightarrow> tracking \<Rightarrow> ('s \<Rightarrow> bool) \<Rightarrow>
  ('s \<Rightarrow> pipe set) \<Rightarrow> ('s \<Rightarrow> pipe set) \<Rightarrow> ('s \<Rightarrow> pipe set) \<Rightarrow> 't world \<times> 's \<Rightarrow> bool" where
  "sys_inv tinv ik ok pinv members ins outs st \<longleftrightarrow> (case st of (w, s) \<Rightarrow>
     pinv s \<and> trans_ok tinv w \<and> members s = {p. pipe_active w p} \<and> finite (members s)
     \<and> distinct (w_events w) \<and> dir_ok ik w (ins s) in_idle NN_PIPE_IN \<and> dir_ok ok w (outs s) out_idle NN_PIPE_OUT
     \<and> current_connections (w_stats w) = int (card (members s)))"

text \<open>A fresh socket has no pipe and no pending event. A socket is safe from a state on when no sequence of
  steps leads to an operation that aborts, and the protocol's set of pipes and the connection statistics
  agree with the pipes at every point.\<close>

definition fresh_socket :: "'t world \<Rightarrow> bool" where
  "fresh_socket w \<longleftrightarrow> (\<forall>p. \<not> pipe_active w p) \<and> w_events w = [] \<and> current_connections (w_stats w) = 0"

definition socket_safe :: "('t, 's) nn_sockbase_vfptr \<Rightarrow> ((pipe \<Rightarrow> nn_pipebase) \<Rightarrow> 't \<Rightarrow> bool) \<Rightarrow> tracking \<Rightarrow>
  ('s \<Rightarrow> bool) \<Rightarrow> ('s \<Rightarrow> pipe set) \<Rightarrow> 't world \<times> 's \<Rightarrow> bool" where
  "socket_safe vt tinv ik room members st0 \<longleftrightarrow> (\<forall>w s. sys_reach vt tinv ik room st0 (w, s) \<longrightarrow>
     (\<forall>op. sys_guard ik room op (w, s) \<longrightarrow> sys_exec vt op (w, s) \<noteq> None)
     \<and> members s = {p. pipe_active w p} \<and> current_connections (w_stats w) = int (card (members s)))"


locale raw_socket = transport vf tinv avail
  for vf :: "'t nn_pipebase_vfptr" and tinv and avail +
  fixes vt :: "('t, 's) nn_sockbase_vfptr"
    and ik :: tracking
    and ok :: tracking
    and pinv :: "'s \<Rightarrow> bool"
    and members :: "'s \<Rightarrow> pipe set"
    and ins :: "'s \<Rightarrow> pipe set"
    and outs :: "'s \<Rightarrow> pipe set"
    and room :: "'s \<Rightarrow> bool"
  assumes out_accepted: "ok \<noteq> Refuses"
    and add_law: "pinv s \<Longrightarrow> p \<notin> members s \<Longrightarrow> prio_ok (w_pipes w p) \<Longrightarrow> room s \<Longrightarrow>
        \<exists>w' s' rc. sb_add vt w s p = Some (w', s', rc) \<and> stat_frame w w' \<and> pinv s'
          \<and> members s' = (if isl rc then members s else insert p (members s))
          \<and> ins s' = ins s \<and> outs s' = outs s"
    and rm_law: "pinv s \<Longrightarrow> p \<in> members s \<Longrightarrow>
        \<exists>w' s'. sb_rm vt w s p = Some (w', s') \<and> stat_frame w w' \<and> pinv s'
          \<and> members s' = members s - {p} \<and> ins s' = ins s - {p} \<and> outs s' = outs s - {p}"
    and in_law: "pinv s \<Longrightarrow> p \<in> members s \<Longrightarrow> p \<notin> ins s \<Longrightarrow> ik \<noteq> Refuses \<Longrightarrow>
        \<exists>w' s'. sb_in vt w s p = Some (w', s') \<and> stat_frame w w' \<and> pinv s'
          \<and> members s' = members s \<and> ins s' = tracked ik p (ins s) \<and> outs s' = outs s"
    and out_law: "pinv s \<Longrightarrow> p \<in> members s \<Longrightarrow> p \<notin> outs s \<Longrightarrow>
        \<exists>w' s'. sb_out vt w s p = Some (w', s') \<and> stat_frame w w' \<and> pinv s'
          \<and> members s' = members s \<and> ins s' = ins s \<and> outs s' = tracked ok p (outs s)"
    and snd_law: "sb_send vt = Some f \<Longrightarrow> pinv s \<Longrightarrow> trans_ok tinv w \<Longrightarrow> out_ready w (outs s) \<Longrightarrow>
        \<exists>w' s' r. f w s m = Some (w', s', r) \<and> (\<forall>v. r = Inr v \<longrightarrow> v = 0) \<and> trans_ok tinv w' \<and> out_step (outs s) w w' \<and> pinv s'
          \<and> members s' = members s \<and> ins s' = ins s \<and> outs s' = {p \<in> outs s. out_idle w' p}"
    and rcv_law: "sb_recv vt = Some g \<Longrightarrow> pinv s \<Longrightarrow> trans_ok tinv w \<Longrightarrow> in_ready w (ins s) \<Longrightarrow> finite (ins s) \<Longrightarrow>
        \<exists>w' s' r. g w s = Some (w', s', r) \<and> trans_ok tinv w' \<and> in_step (ins s) w w' \<and> pinv s'
          \<and> members s' = members s \<and> outs s' = outs s \<and> ins s' = {p \<in> ins s. in_idle w' p}"
begin

abbreviation SI :: "'t world \<times> 's \<Rightarrow> bool" where
  "SI \<equiv> sys_inv tinv ik ok pinv members ins outs"

lemma SI_D:
  assumes "SI (w, s)"
  shows "pinv s" "trans_ok tinv w" "members s = {p. pipe_active w p}" "finite (members s)" "distinct (w_events w)"
    "dir_ok ik w (ins s) in_idle NN_PIPE_IN" "dir_ok ok w (outs s) out_idle NN_PIPE_OUT"
    "current_connections (w_stats w) = int (card (members s))"
  using assms unfolding sys_inv_def prod.case by blast+

lemma SI_ready:
  assumes "SI (w, s)"
  shows "out_ready w (outs s)" "in_ready w (ins s)" "finite (ins s)" "ins s \<subseteq> members s" "outs s \<subseteq> members s"
proof -
  note d = SI_D [OF assms]
  show "out_ready w (outs s)" "in_ready w (ins s)"
    using d(6,7) by (auto simp: dir_ok_def out_ready_def in_ready_def)
  show "ins s \<subseteq> members s" "outs s \<subseteq> members s" using d(3,6,7) by (auto simp: dir_ok_def)
  then show "finite (ins s)" using d(4) finite_subset by blast
qed

lemma exec_send:
  assumes "SI (w, s)"
  shows "\<exists>st'. sys_exec vt (Send m) (w, s) = Some st' \<and> SI st'"
proof (cases "sb_send vt")
  case None then show ?thesis using assms by auto
next
  case (Some f)
  note d = SI_D [OF assms]
  from snd_law [OF Some d(1,2) SI_ready(1) [OF assms]] obtain w' s' r where
    *: "f w s m = Some (w', s', r)" "trans_ok tinv w'" "out_step (outs s) w w'" "pinv s'"
      "members s' = members s" "ins s' = ins s" "outs s' = {p \<in> outs s. out_idle w' p}" by blast
  note fr = out_step_facts [OF *(3)]
  have out: "dir_ok ok w' (outs s') out_idle NN_PIPE_OUT"
    using d(7) fr(1,3,6) *(7) unfolding dir_ok_def by (metis (mono_tags, lifting) mem_Collect_eq)
  have "dir_ok ik w' (ins s') in_idle NN_PIPE_IN" using d(6) fr(1,3,4) *(6) by (simp add: dir_ok_def)
  then have "SI (w', s')" using out * d fr by (simp add: sys_inv_def)
  then show ?thesis using Some *(1) by simp
qed

lemma exec_recv:
  assumes "SI (w, s)"
  shows "\<exists>st'. sys_exec vt Recv (w, s) = Some st' \<and> SI st'"
proof (cases "sb_recv vt")
  case None then show ?thesis using assms by auto
next
  case (Some g)
  note d = SI_D [OF assms]
  from rcv_law [OF Some d(1,2) SI_ready(2,3) [OF assms]] obtain w' s' r where
    *: "g w s = Some (w', s', r)" "trans_ok tinv w'" "in_step (ins s) w w'" "pinv s'"
      "members s' = members s" "outs s' = outs s" "ins s' = {p \<in> ins s. in_idle w' p}" by blast
  note fr = in_step_facts [OF *(3)]
  have inn: "dir_ok ik w' (ins s') in_idle NN_PIPE_IN"
    using d(6) fr(1,3,6) *(7) unfolding dir_ok_def by (metis (mono_tags, lifting) mem_Collect_eq)
  have "dir_ok ok w' (outs s') out_idle NN_PIPE_OUT" using d(7) fr(1,3,4) *(6) by (simp add: dir_ok_def)
  then have "SI (w', s')" using inn * d fr by (simp add: sys_inv_def)
  then show ?thesis using Some *(1) by simp
qed

lemma exec_sent:
  assumes si: "SI (w, s)" and g: "sys_guard ik room (Sent p t) (w, s)"
  shows "\<exists>st'. sys_exec vt (Sent p t) (w, s) = Some st' \<and> (trans_ok tinv (fst st') \<longrightarrow> SI st')"
proof -
  note d = SI_D [OF si]
  have a: "pipe_active w p" "pb_outstate (w_pipes w p) = NN_PIPEBASE_OUTSTATE_ASYNC" using g by auto
  have ne: "(p, NN_PIPE_OUT) \<notin> set (w_events w)" and np: "p \<notin> outs s"
    using d(7) a by (auto simp: dir_ok_def out_idle_def)
  let ?w = "(upd_pipe p (\<lambda>b. b\<lparr>pb_outstate := NN_PIPEBASE_OUTSTATE_IDLE\<rparr>) (w\<lparr>w_trans := t\<rparr>))
      \<lparr>w_events := w_events w @ [(p, NN_PIPE_OUT)]\<rparr>"
  have fr: "pipe_active ?w = pipe_active w" "in_idle ?w = in_idle w" "w_events ?w = w_events w @ [(p, NN_PIPE_OUT)]"
    "out_idle ?w = (out_idle w)(p := True)" "w_stats ?w = w_stats w"
    by (auto simp: pipe_active_def in_idle_def out_idle_def fun_eq_iff)
  have res: "sys_exec vt (Sent p t) (w, s) = Some (?w, s)"
    using a ne by (simp add: nn_pipebase_sent_def nn_pipe_raise_def)
  have "dir_ok ok ?w (outs s) out_idle NN_PIPE_OUT"
    using d(7) np a out_accepted unfolding dir_ok_def fr by auto
  moreover have "dir_ok ik ?w (ins s) in_idle NN_PIPE_IN" using d(6) unfolding dir_ok_def fr by auto
  moreover have "distinct (w_events ?w)" using d(5) ne unfolding fr by simp
  ultimately have "trans_ok tinv ?w \<longrightarrow> SI (?w, s)"
    using d(1,3,4,8) unfolding sys_inv_def prod.case fr(1,5) by blast
  then show ?thesis using res by simp
qed

lemma exec_received:
  assumes si: "SI (w, s)" and g: "sys_guard ik room (Received p t) (w, s)"
  shows "\<exists>st'. sys_exec vt (Received p t) (w, s) = Some st' \<and> (trans_ok tinv (fst st') \<longrightarrow> SI st')"
proof -
  note d = SI_D [OF si]
  have a: "ik \<noteq> Refuses" "pipe_active w p" "pb_instate (w_pipes w p) = NN_PIPEBASE_INSTATE_ASYNC" using g by auto
  have ne: "(p, NN_PIPE_IN) \<notin> set (w_events w)" and np: "p \<notin> ins s"
    using d(6) a by (auto simp: dir_ok_def in_idle_def)
  let ?w = "(upd_pipe p (\<lambda>b. b\<lparr>pb_instate := NN_PIPEBASE_INSTATE_IDLE\<rparr>) (w\<lparr>w_trans := t\<rparr>))
      \<lparr>w_events := w_events w @ [(p, NN_PIPE_IN)]\<rparr>"
  have fr: "pipe_active ?w = pipe_active w" "out_idle ?w = out_idle w" "w_events ?w = w_events w @ [(p, NN_PIPE_IN)]"
    "in_idle ?w = (in_idle w)(p := True)" "w_stats ?w = w_stats w"
    by (auto simp: pipe_active_def in_idle_def out_idle_def fun_eq_iff)
  have res: "sys_exec vt (Received p t) (w, s) = Some (?w, s)"
    using a ne by (simp add: nn_pipebase_received_def nn_pipe_raise_def)
  have "dir_ok ik ?w (ins s) in_idle NN_PIPE_IN" using d(6) np a unfolding dir_ok_def fr by auto
  moreover have "dir_ok ok ?w (outs s) out_idle NN_PIPE_OUT" using d(7) unfolding dir_ok_def fr by auto
  moreover have "distinct (w_events ?w)" using d(5) ne unfolding fr by simp
  ultimately have "trans_ok tinv ?w \<longrightarrow> SI (?w, s)"
    using d(1,3,4,8) unfolding sys_inv_def prod.case fr(1,5) by blast
  then show ?thesis using res by simp
qed

lemma stat_frame_facts:
  assumes "stat_frame w w'"
  shows "w_events w' = w_events w" "pipe_active w' = pipe_active w" "in_idle w' = in_idle w" "out_idle w' = out_idle w"
    "trans_ok tinv w' = trans_ok tinv w" "current_connections (w_stats w') = current_connections (w_stats w)"
    "w_pipes w' = w_pipes w" "w_trans w' = w_trans w"
  using assms by (simp_all add: stat_frame_def trans_ok_def pipe_active_def [abs_def] in_idle_def [abs_def]
      out_idle_def [abs_def])

lemma exec_deliver:
  assumes si: "SI (w, s)"
  shows "\<exists>st'. sys_exec vt Deliver (w, s) = Some st' \<and> SI st'"
proof (cases "w_events w")
  case Nil then show ?thesis using si by auto
next
  case (Cons ev evs)
  note d = SI_D [OF si]
  obtain p e where ev: "ev = (p, e)" by force
  let ?w = "w\<lparr>w_events := evs\<rparr>"
  have fr0: "pipe_active ?w = pipe_active w" "in_idle ?w = in_idle w" "out_idle ?w = out_idle w"
    "trans_ok tinv ?w = trans_ok tinv w"
    by (auto simp: pipe_active_def in_idle_def out_idle_def trans_ok_def fun_eq_iff)
  have evs: "(p, e) \<notin> set evs" "distinct evs" using d(5) Cons ev by auto
  show ?thesis
  proof (cases e)
    case NN_PIPE_IN
    have p: "ik \<noteq> Refuses" "p \<in> members s" "p \<notin> ins s" "in_idle w p" "pipe_active w p"
      using d(3,6) Cons ev NN_PIPE_IN by (auto simp: dir_ok_def)
    from in_law [OF d(1) p(2,3,1), of ?w] obtain w' s' where
      *: "sb_in vt ?w s p = Some (w', s')" "stat_frame ?w w'" "pinv s'" "members s' = members s"
        "ins s' = tracked ik p (ins s)" "outs s' = outs s" by blast
    note fr = stat_frame_facts [OF *(2), unfolded fr0]
    have "dir_ok ik w' (ins s') in_idle NN_PIPE_IN"
      using d(6) p evs(1) unfolding dir_ok_def fr *(5) Cons ev NN_PIPE_IN by (auto simp: tracked_def)
    moreover have "dir_ok ok w' (outs s') out_idle NN_PIPE_OUT"
      using d(7) unfolding dir_ok_def fr *(6) Cons ev NN_PIPE_IN by auto
    ultimately have "SI (w', s')" using d(2-4,8) *(3) evs(2) fr unfolding sys_inv_def prod.case *(4) by simp
    then show ?thesis using Cons ev NN_PIPE_IN *(1) by (simp add: nn_sock_pipe_event_def)
  next
    case NN_PIPE_OUT
    have p: "p \<in> members s" "p \<notin> outs s" "out_idle w p" "pipe_active w p"
      using d(3,7) Cons ev NN_PIPE_OUT by (auto simp: dir_ok_def)
    from out_law [OF d(1) p(1,2), of ?w] obtain w' s' where
      *: "sb_out vt ?w s p = Some (w', s')" "stat_frame ?w w'" "pinv s'" "members s' = members s"
        "ins s' = ins s" "outs s' = tracked ok p (outs s)" by blast
    note fr = stat_frame_facts [OF *(2), unfolded fr0]
    have "dir_ok ok w' (outs s') out_idle NN_PIPE_OUT"
      using d(7) p evs(1) out_accepted unfolding dir_ok_def fr *(6) Cons ev NN_PIPE_OUT by (auto simp: tracked_def)
    moreover have "dir_ok ik w' (ins s') in_idle NN_PIPE_IN"
      using d(6) unfolding dir_ok_def fr *(5) Cons ev NN_PIPE_OUT by auto
    ultimately have "SI (w', s')" using d(2-4,8) *(3) evs(2) fr unfolding sys_inv_def prod.case *(4) by simp
    then show ?thesis using Cons ev NN_PIPE_OUT *(1) by (simp add: nn_sock_pipe_event_def)
  qed
qed

lemma exec_start:
  assumes si: "SI (w, s)" and g: "sys_guard ik room (Start p t) (w, s)"
  shows "\<exists>st'. sys_exec vt (Start p t) (w, s) = Some st' \<and> (trans_ok tinv (fst st') \<longrightarrow> SI st')"
proof -
  note d = SI_D [OF si]
  have idle: "pb_state (w_pipes w p) = NN_PIPEBASE_STATE_IDLE" and np: "\<not> pending w p" and po: "prio_ok (w_pipes w p)"
    and rm: "room s" using g by auto
  have na: "\<not> pipe_active w p" using idle by (simp add: pipe_active_def)
  have ne: "(p, e) \<notin> set (w_events w)" for e using np by (force simp: pending_def)
  have nm: "p \<notin> members s" "p \<notin> ins s" "p \<notin> outs s" using d(3) SI_ready(4,5) [OF si] na by auto
  let ?w = "upd_pipe p (\<lambda>b. b\<lparr>pb_state := NN_PIPEBASE_STATE_ACTIVE, pb_instate := NN_PIPEBASE_INSTATE_ASYNC,
      pb_outstate := NN_PIPEBASE_OUTSTATE_IDLE\<rparr>) (w\<lparr>w_trans := t\<rparr>)"
  have "prio_ok (w_pipes ?w p)" using po by (simp add: prio_ok_def)
  from add_law [OF d(1) nm(1) this rm] obtain w1 s1 rc where
    *: "sb_add vt ?w s p = Some (w1, s1, rc)" "stat_frame ?w w1" "pinv s1"
      "members s1 = (if isl rc then members s else insert p (members s))" "ins s1 = ins s" "outs s1 = outs s" by blast
  note fr = stat_frame_facts [OF *(2)]
  have w1: "pipe_active w1 = (pipe_active w)(p := True)" "in_idle w1 = (in_idle w)(p := False)"
    "out_idle w1 = (out_idle w)(p := True)" "w_events w1 = w_events w"
    using fr by (auto simp: pipe_active_def in_idle_def out_idle_def fun_eq_iff)
  have ins_ok: "dir_ok ik (w1\<lparr>w_events := evs\<rparr>) (ins s) in_idle NN_PIPE_IN"
    if "\<And>q. (q, NN_PIPE_IN) \<in> set evs \<longleftrightarrow> (q, NN_PIPE_IN) \<in> set (w_events w)" for evs
  proof -
    have "pipe_active (w1\<lparr>w_events := evs\<rparr>) = pipe_active w1" "in_idle (w1\<lparr>w_events := evs\<rparr>) = in_idle w1"
      by (auto simp: pipe_active_def in_idle_def fun_eq_iff)
    then show ?thesis using d(6) nm na that ne unfolding dir_ok_def w1 by auto
  qed
  show ?thesis
  proof (cases rc)
    case (Inl e)
    let ?w' = "upd_pipe p (\<lambda>b. b\<lparr>pb_state := NN_PIPEBASE_STATE_FAILED\<rparr>) w1"
    have w': "pipe_active ?w' = pipe_active w" "in_idle ?w' = (in_idle w)(p := False)"
      "out_idle ?w' = (out_idle w)(p := True)" "w_events ?w' = w_events w"
      "current_connections (w_stats ?w') = current_connections (w_stats w)"
      using w1 na fr(6) by (auto simp: pipe_active_def in_idle_def out_idle_def fun_eq_iff)
    have "dir_ok ik ?w' (ins s) in_idle NN_PIPE_IN" "dir_ok ok ?w' (outs s) out_idle NN_PIPE_OUT"
      using d(6,7) nm na ne unfolding dir_ok_def w' by auto
    then have "trans_ok tinv ?w' \<longrightarrow> SI (?w', s1)"
      using d *(3-6) Inl unfolding sys_inv_def prod.case w' by simp
    moreover have "sys_exec vt (Start p t) (w, s) = Some (?w', s1)"
      using idle *(1) Inl by (simp add: nn_pipebase_start_def nn_sock_add_def Let_def)
    ultimately show ?thesis by simp
  next
    case (Inr u)
    let ?st = "(w_stats w1)\<lparr>current_connections := current_connections (w_stats w1) + 1\<rparr>"
    let ?w' = "w1\<lparr>w_stats := ?st, w_events := w_events w @ [(p, NN_PIPE_OUT)]\<rparr>"
    have w': "pipe_active ?w' = (pipe_active w)(p := True)" "in_idle ?w' = (in_idle w)(p := False)"
      "out_idle ?w' = (out_idle w)(p := True)" "w_events ?w' = w_events w @ [(p, NN_PIPE_OUT)]"
      using w1 by (auto simp: pipe_active_def in_idle_def out_idle_def fun_eq_iff)
    have di: "dir_ok ik ?w' (ins s) in_idle NN_PIPE_IN" "dir_ok ok ?w' (outs s) out_idle NN_PIPE_OUT"
      using d(6,7) nm na ne out_accepted unfolding dir_ok_def w' by auto
    have cc: "current_connections (w_stats ?w') = int (card (members s1))"
      using d(4,8) nm(1) *(4) Inr fr(6) by simp
    have mem: "members s1 = {q. pipe_active ?w' q}" "finite (members s1)"
      using d(3,4) *(4) Inr unfolding w' by auto
    have "distinct (w_events ?w')" using d(5) ne unfolding w' by simp
    then have "trans_ok tinv ?w' \<longrightarrow> SI (?w', s1)"
      using di cc mem *(3) unfolding sys_inv_def prod.case *(5,6) by blast
    moreover have "sys_exec vt (Start p t) (w, s) = Some (?w', s1)"
      using idle *(1) Inr ne w1(4) by (simp add: nn_pipebase_start_def nn_sock_add_def Let_def
          nn_sockbase_stat_increment_def INT_MAX_def nn_pipe_raise_def)
    ultimately show ?thesis by simp
  qed
qed

lemma exec_stop:
  assumes si: "SI (w, s)" and g: "sys_guard ik room (Stop p t) (w, s)"
  shows "\<exists>st'. sys_exec vt (Stop p t) (w, s) = Some st' \<and> (trans_ok tinv (fst st') \<longrightarrow> SI st')"
proof -
  note d = SI_D [OF si]
  have ne: "(p, e) \<notin> set (w_events w)" for e using g by (force simp: pending_def)
  let ?w = "w\<lparr>w_trans := t\<rparr>" and ?idle = "\<lambda>b :: nn_pipebase. b\<lparr>pb_state := NN_PIPEBASE_STATE_IDLE\<rparr>"
  have post: "trans_ok tinv (upd_pipe p ?idle w') \<longrightarrow> SI (upd_pipe p ?idle w', s')"
    if "w_pipes w' = w_pipes w" "w_events w' = w_events w" "pinv s'" "members s' = members s - {p}"
      "ins s' = ins s - {p}" "outs s' = outs s - {p}" "current_connections (w_stats w') = int (card (members s - {p}))" for w' s'
  proof -
    let ?u = "upd_pipe p ?idle w'"
    have u: "pipe_active ?u = (pipe_active w)(p := False)" "in_idle ?u = in_idle w" "out_idle ?u = out_idle w"
      "w_events ?u = w_events w" "w_stats ?u = w_stats w'"
      using that(1,2) by (auto simp: pipe_active_def in_idle_def out_idle_def fun_eq_iff)
    have "dir_ok ik ?u (ins s') in_idle NN_PIPE_IN" "dir_ok ok ?u (outs s') out_idle NN_PIPE_OUT"
      using d(6,7) ne unfolding dir_ok_def u that(5,6) by auto
    moreover have "members s' = {q. pipe_active ?u q}" using d(3) unfolding u that(4) by auto
    moreover have "finite (members s')" using d(4) unfolding that(4) by simp
    moreover have "distinct (w_events ?u)" "current_connections (w_stats ?u) = int (card (members s'))"
      using d(5) that(4,7) u(4,5) by simp_all
    ultimately show ?thesis using that(3) unfolding sys_inv_def prod.case by blast
  qed
  show ?thesis
  proof (cases "pipe_active w p")
    case False
    then have m: "p \<notin> members s" "p \<notin> ins s" "p \<notin> outs s" using d(3) SI_ready(4,5) [OF si] by auto
    have "sys_exec vt (Stop p t) (w, s) = Some (upd_pipe p ?idle ?w, s)"
      using False by (simp add: nn_pipebase_stop_def pipe_active_def)
    then show ?thesis using post [of ?w s] d m by simp
  next
    case True
    then have m: "p \<in> members s" using d(3) by auto
    from rm_law [OF d(1) m, of ?w] obtain w1 s1 where
      *: "sb_rm vt ?w s p = Some (w1, s1)" "stat_frame ?w w1" "pinv s1" "members s1 = members s - {p}"
        "ins s1 = ins s - {p}" "outs s1 = outs s - {p}" by blast
    note fr = stat_frame_facts [OF *(2)]
    have card: "0 < card (members s)" using m d(4) card_gt_0_iff by blast
    let ?st = "(w_stats w1)\<lparr>current_connections := current_connections (w_stats w1) + (-1)\<rparr>"
    have "nn_sockbase_stat_increment w1 NN_STAT_CURRENT_CONNECTIONS (-1) = Some (w1\<lparr>w_stats := ?st\<rparr>)"
      using card d(8) fr(6) by (simp add: nn_sockbase_stat_increment_def INT_MAX_def)
    then have "sys_exec vt (Stop p t) (w, s) = Some (upd_pipe p ?idle (w1\<lparr>w_stats := ?st\<rparr>), s1)"
      using True *(1) by (simp add: nn_pipebase_stop_def nn_sock_rm_def pipe_active_def)
    moreover have "current_connections ?st = int (card (members s - {p}))"
      using card d(4,8) fr(6) m by (simp add: card_Diff_singleton)
    ultimately show ?thesis using post [of "w1\<lparr>w_stats := ?st\<rparr>" s1] *(3-6) fr(1,7) by simp
  qed
qed

text \<open>No operation that the environment may perform trips an assertion, and the invariant is
  kept. For the operations of the user and of the context the transport's invariant is kept too.\<close>

theorem sys_exec_safe:
  assumes "SI st" and "sys_guard ik room op st"
  shows "\<exists>st'. sys_exec vt op st = Some st' \<and> (trans_ok tinv (fst st') \<longrightarrow> SI st')"
    and "op \<in> {Deliver, Send m, Recv} \<Longrightarrow> sys_exec vt op st = Some st' \<Longrightarrow> SI st'"
proof -
  obtain w s where st: "st = (w, s)" by force
  show "\<exists>st'. sys_exec vt op st = Some st' \<and> (trans_ok tinv (fst st') \<longrightarrow> SI st')"
  proof (cases op)
    case (Start p t) then show ?thesis using exec_start [of w s p t] assms st by simp
  next
    case (Stop p t) then show ?thesis using exec_stop [of w s p t] assms st by simp
  next
    case (Sent p t) then show ?thesis using exec_sent [of w s p t] assms st by simp
  next
    case (Received p t) then show ?thesis using exec_received [of w s p t] assms st by simp
  next
    case Deliver then show ?thesis using exec_deliver [of w s] assms st by auto
  next
    case (Send m) then show ?thesis using exec_send [of w s m] assms st by auto
  next
    case Recv then show ?thesis using exec_recv [of w s] assms st by auto
  qed
  assume "op \<in> {Deliver, Send m, Recv}" and e: "sys_exec vt op st = Some st'"
  then consider "op = Deliver" | "op = Send m" | "op = Recv" by blast
  then show "SI st'"
    using assms(1) e exec_deliver [of w s] exec_send [of w s m] exec_recv [of w s] unfolding st by cases simp_all
qed

lemma sys_step_inv: "SI st \<Longrightarrow> sys_step vt tinv ik room st st' \<Longrightarrow> SI st'"
  using sys_exec_safe(1) by (fastforce elim!: sys_step.cases)

lemma sys_reach_inv:
  assumes "SI st" and "sys_reach vt tinv ik room st st'"
  shows "SI st'"
  using assms(2) unfolding sys_reach_def by (induction rule: rtranclp_induct) (auto intro: assms(1) sys_step_inv)

theorem sys_reach_safe:
  assumes "SI st" and "sys_reach vt tinv ik room st st'" and "sys_guard ik room op st'"
  shows "sys_exec vt op st' \<noteq> None"
  using sys_exec_safe(1) [OF sys_reach_inv [OF assms(1,2)] assms(3)] by auto

text \<open>A socket without pipes, whatever the transport holds so far, satisfies the invariant; so every
  state it can get into is safe.\<close>

lemma SI_fresh:
  assumes "pinv s" "members s = {}" "ins s = {}" "outs s = {}" and "trans_ok tinv w" "fresh_socket w"
  shows "SI (w, s)"
  using assms by (simp add: sys_inv_def dir_ok_def fresh_socket_def)

lemma socket_safeI:
  assumes "SI st"
  shows "socket_safe vt tinv ik room members st"
  using sys_reach_safe [OF assms] sys_reach_inv [OF assms]
  by (fastforce simp: socket_safe_def sys_inv_def)

end

end
