(* ===== verification/Pipeline.thy ===== *)
theory Pipeline
  imports Sockbase
begin

text \<open>
  The raw PUSH and PULL sockets (\<open>src/protocols/pipeline/xpush.c\<close>, \<open>xpull.c\<close>; the cooked sockets of
  \<open>push.c\<close> and \<open>pull.c\<close> use the same functions). The per-pipe data of these sockets holds only the
  entry of the pipe in the load balancer or the fair queue, so it is part of that list's store.
\<close>

section \<open>Shared facts on pipe callbacks\<close>

lemma stat_frame_refl [simp, intro!]: "stat_frame w w"
  by (simp add: stat_frame_def)

lemma snd_priority_stat:
  assumes "priolist_inv lb"
  shows "\<exists>w'. nn_sockbase_stat_increment w NN_STAT_CURRENT_SND_PRIORITY (nn_lb_get_priority lb) = Some w'
     \<and> stat_frame w w'"
  using nn_priolist_get_priority_range [OF assms]
  by (auto simp: nn_sockbase_stat_increment_def nn_lb_get_priority_def stat_frame_def)

lemma pipe_prio_ok:
  assumes "prio_ok (w_pipes w p)"
  shows "\<exists>v. pipe_prio w p NN_SNDPRIO = Some v \<and> 1 \<le> v \<and> v \<le> 16"
    and "\<exists>v. pipe_prio w p NN_RCVPRIO = Some v \<and> 1 \<le> v \<and> v \<le> 16"
  using assms
  by (simp_all add: pipe_prio_def nn_pipebase_getopt_def NN_SOL_SOCKET_def NN_SNDPRIO_def NN_RCVPRIO_def prio_ok_def)

section \<open>PUSH\<close>

record nn_xpush =
  xpush_lb :: nn_lb

definition nn_xpush_init :: nn_xpush where
  "nn_xpush_init = \<lparr>xpush_lb = nn_lb_init\<rparr>"

definition nn_xpush_term :: "nn_xpush \<Rightarrow> unit option" where
  "nn_xpush_term self = nn_lb_term (xpush_lb self)"

definition nn_xpush_add :: "('t, nn_xpush) sock_add" where
  "nn_xpush_add w self pipe = do {
     sndprio \<leftarrow> pipe_prio w pipe NN_SNDPRIO;
     Some (w, self\<lparr>xpush_lb := nn_lb_add (xpush_lb self) pipe sndprio\<rparr>, Inr ()) }"

definition nn_xpush_rm :: "('t, nn_xpush) sock_fn" where
  "nn_xpush_rm w self pipe = do {
     lb \<leftarrow> nn_lb_rm (xpush_lb self) pipe;
     w \<leftarrow> nn_sockbase_stat_increment w NN_STAT_CURRENT_SND_PRIORITY (nn_lb_get_priority lb);
     Some (w, self\<lparr>xpush_lb := lb\<rparr>) }"

definition nn_xpush_in :: "('t, nn_xpush) sock_fn" where
  "nn_xpush_in w self pipe = Some (w, self)"

definition nn_xpush_out :: "('t, nn_xpush) sock_fn" where
  "nn_xpush_out w self pipe = do {
     lb \<leftarrow> nn_lb_out (xpush_lb self) pipe;
     w \<leftarrow> nn_sockbase_stat_increment w NN_STAT_CURRENT_SND_PRIORITY (nn_lb_get_priority lb);
     Some (w, self\<lparr>xpush_lb := lb\<rparr>) }"

definition nn_xpush_events :: "nn_xpush \<Rightarrow> u32" where
  "nn_xpush_events self = (if nn_lb_can_send (xpush_lb self) then NN_SOCKBASE_EVENT_OUT else 0)"

definition nn_xpush_send :: "'t nn_pipebase_vfptr \<Rightarrow> 't world \<Rightarrow> nn_xpush \<Rightarrow> nn_msg \<Rightarrow>
  ('t world \<times> nn_xpush \<times> (errno + u32)) option" where
  "nn_xpush_send vf w self msg = do {
     (w, lb, r) \<leftarrow> nn_lb_send vf w (xpush_lb self) msg;
     Some (w, self\<lparr>xpush_lb := lb\<rparr>, (case r of Inl e \<Rightarrow> Inl e | Inr (rc, _) \<Rightarrow> Inr rc)) }"

definition nn_xpush_sockbase_vfptr :: "'t nn_pipebase_vfptr \<Rightarrow> ('t, nn_xpush) nn_sockbase_vfptr" where
  "nn_xpush_sockbase_vfptr vf = \<lparr>sb_add = nn_xpush_add, sb_rm = nn_xpush_rm, sb_in = nn_xpush_in,
     sb_out = nn_xpush_out, sb_send = Some (nn_xpush_send vf), sb_recv = None\<rparr>"

section \<open>PULL\<close>

record nn_xpull =
  xpull_fq :: nn_fq

definition nn_xpull_init :: nn_xpull where
  "nn_xpull_init = \<lparr>xpull_fq = nn_fq_init\<rparr>"

definition nn_xpull_term :: "nn_xpull \<Rightarrow> unit option" where
  "nn_xpull_term self = nn_fq_term (xpull_fq self)"

definition nn_xpull_add :: "('t, nn_xpull) sock_add" where
  "nn_xpull_add w self pipe = do {
     rcvprio \<leftarrow> pipe_prio w pipe NN_RCVPRIO;
     Some (w, self\<lparr>xpull_fq := nn_fq_add (xpull_fq self) pipe rcvprio\<rparr>, Inr ()) }"

definition nn_xpull_rm :: "('t, nn_xpull) sock_fn" where
  "nn_xpull_rm w self pipe = do {
     fq \<leftarrow> nn_fq_rm (xpull_fq self) pipe;
     Some (w, self\<lparr>xpull_fq := fq\<rparr>) }"

definition nn_xpull_in :: "('t, nn_xpull) sock_fn" where
  "nn_xpull_in w self pipe = do {
     fq \<leftarrow> nn_fq_in (xpull_fq self) pipe;
     Some (w, self\<lparr>xpull_fq := fq\<rparr>) }"

definition nn_xpull_out :: "('t, nn_xpull) sock_fn" where
  "nn_xpull_out w self pipe = Some (w, self)"

definition nn_xpull_events :: "nn_xpull \<Rightarrow> u32" where
  "nn_xpull_events self = (if nn_fq_can_recv (xpull_fq self) then NN_SOCKBASE_EVENT_IN else 0)"

definition nn_xpull_recv :: "'t nn_pipebase_vfptr \<Rightarrow> 't world \<Rightarrow> nn_xpull \<Rightarrow>
  ('t world \<times> nn_xpull \<times> (errno + nn_msg)) option" where
  "nn_xpull_recv vf w self = do {
     (w, fq, r) \<leftarrow> nn_fq_recv vf w (xpull_fq self);
     Some (w, self\<lparr>xpull_fq := fq\<rparr>, (case r of Inl e \<Rightarrow> Inl e | Inr (_, _, msg) \<Rightarrow> Inr msg)) }"

definition nn_xpull_sockbase_vfptr :: "'t nn_pipebase_vfptr \<Rightarrow> ('t, nn_xpull) nn_sockbase_vfptr" where
  "nn_xpull_sockbase_vfptr vf = \<lparr>sb_add = nn_xpull_add, sb_rm = nn_xpull_rm, sb_in = nn_xpull_in,
     sb_out = nn_xpull_out, sb_send = None, sb_recv = Some (nn_xpull_recv vf)\<rparr>"

lemmas xpush_defs = nn_xpush_sockbase_vfptr_def nn_xpush_add_def nn_xpush_rm_def nn_xpush_in_def
  nn_xpush_out_def nn_xpush_send_def
lemmas xpull_defs = nn_xpull_sockbase_vfptr_def nn_xpull_add_def nn_xpull_rm_def nn_xpull_in_def
  nn_xpull_out_def nn_xpull_recv_def

section \<open>Operations on load balancers and fair queues, in the form the contract asks for\<close>

lemma lb_add_ok:
  assumes "priolist_inv lb" and "p \<notin> pl_members lb" and "prio_ok (w_pipes w p)"
  shows "\<exists>v. pipe_prio w p NN_SNDPRIO = Some v \<and> priolist_inv (nn_lb_add lb p v)
     \<and> pl_members (nn_lb_add lb p v) = insert p (pl_members lb) \<and> pl_active (nn_lb_add lb p v) = pl_active lb"
  using pipe_prio_ok(1) [OF assms(3)] nn_priolist_add_ok [OF assms(1,2)] by (auto simp: nn_lb_add_def)

lemma fq_add_ok:
  assumes "priolist_inv fq" and "p \<notin> pl_members fq" and "prio_ok (w_pipes w p)"
  shows "\<exists>v. pipe_prio w p NN_RCVPRIO = Some v \<and> priolist_inv (nn_fq_add fq p v)
     \<and> pl_members (nn_fq_add fq p v) = insert p (pl_members fq) \<and> pl_active (nn_fq_add fq p v) = pl_active fq"
  using pipe_prio_ok(2) [OF assms(3)] nn_priolist_add_ok [OF assms(1,2)] by (auto simp: nn_fq_add_def)

lemmas lb_rm_ok = nn_priolist_rm_ok [folded nn_lb_rm_def]
lemmas lb_out_ok = nn_priolist_activate_ok [folded nn_lb_out_def]
lemmas fq_rm_ok = nn_priolist_rm_ok [folded nn_fq_rm_def]
lemmas fq_in_ok = nn_priolist_activate_ok [folded nn_fq_in_def]

context transport
begin

lemma lb_send_ready:
  assumes "priolist_inv lb" and "trans_ok tinv w" and "out_ready w (pl_active lb)"
  shows "\<exists>w' lb' r. nn_lb_send vf w lb m = Some (w', lb', r) \<and> (\<forall>v. r = Inr v \<longrightarrow> fst v = 0) \<and> trans_ok tinv w'
     \<and> out_step (pl_active lb) w w' \<and> priolist_inv lb' \<and> pl_members lb' = pl_members lb
     \<and> pl_active lb' = {q \<in> pl_active lb. out_idle w' q}"
proof (cases "pl_active lb = {}")
  case True
  then show ?thesis using nn_lb_send_empty [OF assms(1) True] assms by simp
next
  case False
  from nn_lb_send_ok [OF assms(1) False assms(2,3), of m] obtain w' lb' p where
    *: "nn_lb_send vf w lb m = Some (w', lb', Inr (0, p))" "p \<in> pl_active lb" "trans_ok tinv w'" "out_step {p} w w'"
      "priolist_inv lb'" "pl_members lb' = pl_members lb" "pl_active lb' = {q \<in> pl_active lb. out_idle w' q}" by blast
  moreover have "out_step (pl_active lb) w w'" using *(2,4) by (auto simp: out_step_def)
  ultimately show ?thesis by (intro exI [of _ w'] exI [of _ lb'] exI [of _ "Inr (0, p)"]) simp
qed

lemma fq_recv_ready:
  assumes "priolist_inv fq" and "trans_ok tinv w" and "in_ready w (pl_active fq)"
  shows "\<exists>w' fq' r. nn_fq_recv vf w fq = Some (w', fq', r) \<and> trans_ok tinv w'
     \<and> in_step (pl_active fq) w w' \<and> priolist_inv fq' \<and> pl_members fq' = pl_members fq
     \<and> pl_active fq' = {q \<in> pl_active fq. in_idle w' q}
     \<and> (case r of Inl e \<Rightarrow> e = EAGAIN \<and> w' = w \<and> fq' = fq
        | Inr (rc, p, m) \<Rightarrow> p \<in> pl_active fq \<and> (rc AND NN_PIPE_PARSED = 0 \<longrightarrow> sphdr m = [])
            \<and> avail (w_trans w') p < avail (w_trans w) p \<and> (\<forall>q. avail (w_trans w') q \<le> avail (w_trans w) q))"
proof (cases "pl_active fq = {}")
  case True
  then show ?thesis using nn_fq_recv_empty [OF assms(1) True] assms
    by (intro exI [of _ w] exI [of _ fq] exI [of _ "Inl EAGAIN"]) simp
next
  case False
  from nn_fq_recv_ok [OF assms(1) False assms(2,3)] obtain w' fq' rc p m where
    *: "nn_fq_recv vf w fq = Some (w', fq', Inr (rc, p, m))" "p \<in> pl_active fq"
      "rc AND NN_PIPE_PARSED = 0 \<longrightarrow> sphdr m = []"
      "avail (w_trans w') p < avail (w_trans w) p" "\<forall>q. avail (w_trans w') q \<le> avail (w_trans w) q"
      "trans_ok tinv w'" "in_step {p} w w'" "priolist_inv fq'" "pl_members fq' = pl_members fq"
      "pl_active fq' = {q \<in> pl_active fq. in_idle w' q}" by blast
  moreover have "in_step (pl_active fq) w w'" using *(2,7) by (auto simp: in_step_def)
  ultimately show ?thesis by (intro exI [of _ w'] exI [of _ fq'] exI [of _ "Inr (rc, p, m)"]) simp
qed

end

sublocale transport \<subseteq> xpush: raw_socket vf tinv avail "nn_xpush_sockbase_vfptr vf" Ignores Tracks
  "\<lambda>s. priolist_inv (xpush_lb s)" "\<lambda>s. pl_members (xpush_lb s)" "\<lambda>_. {}" "\<lambda>s. pl_active (xpush_lb s)" "\<lambda>_. True"
proof (unfold_locales, goal_cases)
  case (2 s p w) then show ?case using lb_add_ok [of "xpush_lb s" p w] by (auto simp: xpush_defs split del: if_split)
next
  case (3 s p w) then show ?case using lb_rm_ok [of "xpush_lb s" p] snd_priority_stat [of _ w]
    by (fastforce simp: xpush_defs)
next
  case (5 s p w) then show ?case using lb_out_ok [of "xpush_lb s" p] snd_priority_stat [of _ w]
    by (fastforce simp: xpush_defs tracked_def)
next
  case (6 f s w m) then show ?case using lb_send_ready [of "xpush_lb s" w m]
    by (fastforce simp: xpush_defs split: sum.splits)
qed (auto simp: xpush_defs tracked_def)

sublocale transport \<subseteq> xpull: raw_socket vf tinv avail "nn_xpull_sockbase_vfptr vf" Tracks Ignores
  "\<lambda>s. priolist_inv (xpull_fq s)" "\<lambda>s. pl_members (xpull_fq s)" "\<lambda>s. pl_active (xpull_fq s)" "\<lambda>_. {}" "\<lambda>_. True"
proof (unfold_locales, goal_cases)
  case (2 s p w) then show ?case using fq_add_ok [of "xpull_fq s" p w] by (auto simp: xpull_defs split del: if_split)
next
  case (3 s p w) then show ?case using fq_rm_ok [of "xpull_fq s" p] by (auto simp: xpull_defs)
next
  case (4 s p w) then show ?case using fq_in_ok [of "xpull_fq s" p] by (auto simp: xpull_defs tracked_def)
next
  case (7 g s w) then show ?case using fq_recv_ready [of "xpull_fq s" w] by (fastforce simp: xpull_defs)
qed (auto simp: xpull_defs tracked_def)

end
