(* ===== verification/Pair_Pub_Bus.thy ===== *)
theory Pair_Pub_Bus
  imports Pipeline
begin

text \<open>
  The raw PAIR, PUB and BUS sockets and the cooked BUS socket
  (\<open>src/protocols/pair/xpair.c\<close>, \<open>pubsub/xpub.c\<close>, \<open>bus/xbus.c\<close>, \<open>bus/bus.c\<close>).
\<close>

section \<open>PAIR\<close>

record nn_xpair =
  xpair_excl :: nn_excl

definition nn_xpair_init :: nn_xpair where
  "nn_xpair_init = \<lparr>xpair_excl = nn_excl_init\<rparr>"

definition nn_xpair_term :: "nn_xpair \<Rightarrow> unit option" where
  "nn_xpair_term self = nn_excl_term (xpair_excl self)"

definition nn_xpair_add :: "('t, nn_xpair) sock_add" where
  "nn_xpair_add w self pipe =
     (let (excl, rc) = nn_excl_add (xpair_excl self) pipe in Some (w, self\<lparr>xpair_excl := excl\<rparr>, rc))"

definition nn_xpair_rm :: "('t, nn_xpair) sock_fn" where
  "nn_xpair_rm w self pipe = do {
     excl \<leftarrow> nn_excl_rm (xpair_excl self) pipe;
     Some (w, self\<lparr>xpair_excl := excl\<rparr>) }"

definition nn_xpair_in :: "('t, nn_xpair) sock_fn" where
  "nn_xpair_in w self pipe = do {
     excl \<leftarrow> nn_excl_in (xpair_excl self) pipe;
     Some (w, self\<lparr>xpair_excl := excl\<rparr>) }"

definition nn_xpair_out :: "('t, nn_xpair) sock_fn" where
  "nn_xpair_out w self pipe = do {
     excl \<leftarrow> nn_excl_out (xpair_excl self) pipe;
     Some (w, self\<lparr>xpair_excl := excl\<rparr>) }"

definition nn_xpair_events :: "nn_xpair \<Rightarrow> u32" where
  "nn_xpair_events self =
    (let events = 0;
         events = (if nn_excl_can_recv (xpair_excl self) then events OR NN_SOCKBASE_EVENT_IN else events)
     in if nn_excl_can_send (xpair_excl self) then events OR NN_SOCKBASE_EVENT_OUT else events)"

definition nn_xpair_send :: "'t nn_pipebase_vfptr \<Rightarrow> 't world \<Rightarrow> nn_xpair \<Rightarrow> nn_msg \<Rightarrow>
  ('t world \<times> nn_xpair \<times> (errno + u32)) option" where
  "nn_xpair_send vf w self msg = do {
     (w, excl, r) \<leftarrow> nn_excl_send vf w (xpair_excl self) msg;
     Some (w, self\<lparr>xpair_excl := excl\<rparr>, r) }"

definition nn_xpair_recv :: "'t nn_pipebase_vfptr \<Rightarrow> 't world \<Rightarrow> nn_xpair \<Rightarrow>
  ('t world \<times> nn_xpair \<times> (errno + nn_msg)) option" where
  "nn_xpair_recv vf w self = do {
     (w, excl, r) \<leftarrow> nn_excl_recv vf w (xpair_excl self);
     Some (w, self\<lparr>xpair_excl := excl\<rparr>, (case r of Inl e \<Rightarrow> Inl e | Inr (_, msg) \<Rightarrow> Inr msg)) }"

definition nn_xpair_sockbase_vfptr :: "'t nn_pipebase_vfptr \<Rightarrow> ('t, nn_xpair) nn_sockbase_vfptr" where
  "nn_xpair_sockbase_vfptr vf = \<lparr>sb_add = nn_xpair_add, sb_rm = nn_xpair_rm, sb_in = nn_xpair_in,
     sb_out = nn_xpair_out, sb_send = Some (nn_xpair_send vf), sb_recv = Some (nn_xpair_recv vf)\<rparr>"

lemmas xpair_defs = nn_xpair_sockbase_vfptr_def nn_xpair_add_def nn_xpair_rm_def nn_xpair_in_def
  nn_xpair_out_def nn_xpair_send_def nn_xpair_recv_def

lemma option_subset: "set_option x \<subseteq> set_option y \<Longrightarrow> x = None \<or> x = y"
  by (cases x; cases y) auto

sublocale transport \<subseteq> xpair: raw_socket vf tinv avail "nn_xpair_sockbase_vfptr vf" Tracks Tracks
  "\<lambda>s. excl_inv (xpair_excl s)" "\<lambda>s. set_option (ex_pipe (xpair_excl s))"
  "\<lambda>s. set_option (ex_inpipe (xpair_excl s))" "\<lambda>s. set_option (ex_outpipe (xpair_excl s))" "\<lambda>_. True"
proof (unfold_locales, goal_cases)
  case (2 s p w)
  show ?case
  proof (cases "ex_pipe (xpair_excl s)")
    case None
    let ?e = "(xpair_excl s)\<lparr>ex_pipe := Some p\<rparr>"
    have "sb_add (nn_xpair_sockbase_vfptr vf) w s p = Some (w, s\<lparr>xpair_excl := ?e\<rparr>, Inr ())"
      using None by (simp add: xpair_defs nn_excl_add_def)
    moreover have "ex_inpipe ?e = None" "ex_outpipe ?e = None" using 2(1) None by (simp_all add: excl_inv_def)
    ultimately show ?thesis using None by (simp add: excl_inv_def)
  next
    case (Some q)
    then have "sb_add (nn_xpair_sockbase_vfptr vf) w s p = Some (w, s, Inl EISCONN)"
      by (simp add: xpair_defs nn_excl_add_def)
    then show ?thesis using 2(1) by (intro exI [of _ w] exI [of _ s] exI [of _ "Inl EISCONN"]) simp
  qed
next
  case (3 s p w) then show ?case by (auto simp: xpair_defs excl_defs excl_inv_def)
next
  case (4 s p w) then show ?case by (auto simp: xpair_defs excl_defs excl_inv_def tracked_def)
next
  case (5 s p w) then show ?case by (auto simp: xpair_defs excl_defs excl_inv_def tracked_def)
next
  case (6 f s w m)
  then obtain w' e' r where *: "nn_excl_send vf w (xpair_excl s) m = Some (w', e', r)" "trans_ok tinv w'"
    "\<forall>v. r = Inr v \<longrightarrow> v = 0" "out_step (set_option (ex_outpipe (xpair_excl s))) w w'"
    "ex_pipe e' = ex_pipe (xpair_excl s)" "ex_inpipe e' = ex_inpipe (xpair_excl s)"
    "set_option (ex_outpipe e') = {p \<in> set_option (ex_outpipe (xpair_excl s)). out_idle w' p}"
    using nn_excl_send_ok [of w "xpair_excl s" m] by blast
  have "ex_outpipe e' = None \<or> ex_outpipe e' = ex_outpipe (xpair_excl s)"
    by (rule option_subset) (simp only: *(7), blast)
  then have "excl_inv e'" using 6(2) *(5,6) unfolding excl_inv_def by metis
  moreover have "f w s m = Some (w', s\<lparr>xpair_excl := e'\<rparr>, r)" using 6(1) *(1) by (auto simp: xpair_defs)
  ultimately show ?case using *
    by (intro exI [of _ w'] exI [of _ "s\<lparr>xpair_excl := e'\<rparr>"] exI [of _ r]) simp
next
  case (7 g s w)
  then obtain w' e' r where *: "nn_excl_recv vf w (xpair_excl s) = Some (w', e', r)" "trans_ok tinv w'"
    "in_step (set_option (ex_inpipe (xpair_excl s))) w w'"
    "ex_pipe e' = ex_pipe (xpair_excl s)" "ex_outpipe e' = ex_outpipe (xpair_excl s)"
    "set_option (ex_inpipe e') = {p \<in> set_option (ex_inpipe (xpair_excl s)). in_idle w' p}"
    using nn_excl_recv_ok [of w "xpair_excl s"] by blast
  have "ex_inpipe e' = None \<or> ex_inpipe e' = ex_inpipe (xpair_excl s)"
    by (rule option_subset) (simp only: *(6), blast)
  then have "excl_inv e'" using 7(2) *(4,5) unfolding excl_inv_def by metis
  moreover have "g w s = Some (w', s\<lparr>xpair_excl := e'\<rparr>, (case r of Inl e \<Rightarrow> Inl e | Inr (_, msg) \<Rightarrow> Inr msg))"
    using 7(1) *(1) by (auto simp: xpair_defs)
  ultimately show ?case using *
    by (intro exI [of _ w'] exI [of _ "s\<lparr>xpair_excl := e'\<rparr>"] exI) simp
qed simp

section \<open>PUB\<close>

record nn_xpub =
  xpub_outpipes :: nn_dist

definition nn_xpub_init :: nn_xpub where
  "nn_xpub_init = \<lparr>xpub_outpipes = nn_dist_init\<rparr>"

definition nn_xpub_term :: "nn_xpub \<Rightarrow> unit option" where
  "nn_xpub_term self = nn_dist_term (xpub_outpipes self)"

definition nn_xpub_add :: "('t, nn_xpub) sock_add" where
  "nn_xpub_add w self pipe = Some (w, self\<lparr>xpub_outpipes := nn_dist_add (xpub_outpipes self) pipe\<rparr>, Inr ())"

definition nn_xpub_rm :: "('t, nn_xpub) sock_fn" where
  "nn_xpub_rm w self pipe = do {
     d \<leftarrow> nn_dist_rm (xpub_outpipes self) pipe;
     Some (w, self\<lparr>xpub_outpipes := d\<rparr>) }"

definition nn_xpub_in :: "('t, nn_xpub) sock_fn" where
  "nn_xpub_in w self pipe = do { nn_assert False; Some (w, self) }"

definition nn_xpub_out :: "('t, nn_xpub) sock_fn" where
  "nn_xpub_out w self pipe = do {
     d \<leftarrow> nn_dist_out (xpub_outpipes self) pipe;
     Some (w, self\<lparr>xpub_outpipes := d\<rparr>) }"

definition nn_xpub_events :: "nn_xpub \<Rightarrow> u32" where
  "nn_xpub_events self = NN_SOCKBASE_EVENT_OUT"

definition nn_xpub_send :: "'t nn_pipebase_vfptr \<Rightarrow> 't world \<Rightarrow> nn_xpub \<Rightarrow> nn_msg \<Rightarrow>
  ('t world \<times> nn_xpub \<times> (errno + u32)) option" where
  "nn_xpub_send vf w self msg = do {
     (w, d) \<leftarrow> nn_dist_send vf w (xpub_outpipes self) msg None;
     Some (w, self\<lparr>xpub_outpipes := d\<rparr>, Inr 0) }"

definition nn_xpub_sockbase_vfptr :: "'t nn_pipebase_vfptr \<Rightarrow> ('t, nn_xpub) nn_sockbase_vfptr" where
  "nn_xpub_sockbase_vfptr vf = \<lparr>sb_add = nn_xpub_add, sb_rm = nn_xpub_rm, sb_in = nn_xpub_in,
     sb_out = nn_xpub_out, sb_send = Some (nn_xpub_send vf), sb_recv = None\<rparr>"

lemmas xpub_defs = nn_xpub_sockbase_vfptr_def nn_xpub_add_def nn_xpub_rm_def nn_xpub_in_def
  nn_xpub_out_def nn_xpub_send_def

sublocale transport \<subseteq> xpub: raw_socket vf tinv avail "nn_xpub_sockbase_vfptr vf" Refuses Tracks
  "\<lambda>s. dist_inv (xpub_outpipes s)" "\<lambda>s. dist_members (xpub_outpipes s)" "\<lambda>_. {}"
  "\<lambda>s. set (d_pipes (xpub_outpipes s))" "\<lambda>_. True"
proof (unfold_locales, goal_cases)
  case (2 s p w) then show ?case using nn_dist_add_ok [of "xpub_outpipes s" p]
    by (auto simp: xpub_defs split del: if_split)
next
  case (3 s p w) then show ?case using nn_dist_rm_ok [of "xpub_outpipes s" p] by (auto simp: xpub_defs)
next
  case (5 s p w) then show ?case using nn_dist_out_ok [of "xpub_outpipes s" p]
    by (auto simp: xpub_defs tracked_def)
next
  case (6 f s w m) then show ?case using nn_dist_send_ok [of "xpub_outpipes s" w m None]
    by (auto simp: xpub_defs)
qed (auto simp: xpub_defs)

section \<open>Receiving until a message is accepted\<close>

text \<open>The \<open>while (1)\<close> loops of \<open>nn_xbus_recv\<close> and \<open>nn_xsub_recv\<close>: messages that are not accepted are
  dropped. The loop ends when the queue has no more messages; \<open>fq_recv_until_ok\<close> shows that it does.\<close>

partial_function (option) fq_recv_until :: "'t nn_pipebase_vfptr \<Rightarrow> (nn_msg \<Rightarrow> bool option) \<Rightarrow> 't world \<Rightarrow> nn_fq \<Rightarrow>
  ('t world \<times> nn_fq \<times> (errno + u32 \<times> pipe \<times> nn_msg)) option" where
  "fq_recv_until vf accept w fq = do {
     (w, fq, r) \<leftarrow> nn_fq_recv vf w fq;
     (case r of
        Inl e \<Rightarrow> Some (w, fq, Inl e)
      | Inr (rc, p, msg) \<Rightarrow> do {
          ok \<leftarrow> accept msg;
          if ok then Some (w, fq, Inr (rc, p, msg)) else fq_recv_until vf accept w fq }) }"

lemma sum_avail_less:
  fixes f g :: "pipe \<Rightarrow> nat"
  assumes "finite A" and "B \<subseteq> A" and "p \<in> A" and "g p < f p" and "\<And>q. g q \<le> f q"
  shows "sum g B < sum f A"
proof -
  have "sum g B \<le> sum g A" using assms(1,2) by (intro sum_mono2) auto
  also have "\<dots> < sum f A" using assms by (intro sum_strict_mono_ex1) auto
  finally show ?thesis .
qed

context transport
begin

lemma fq_recv_until_ok:
  assumes "priolist_inv fq" and "trans_ok tinv w" and "in_ready w (pl_active fq)" and "finite (pl_active fq)"
    and acc: "\<And>m. accept m \<noteq> None"
  shows "\<exists>w' fq' r. fq_recv_until vf accept w fq = Some (w', fq', r) \<and> trans_ok tinv w'
     \<and> in_step (pl_active fq) w w' \<and> priolist_inv fq' \<and> pl_members fq' = pl_members fq
     \<and> pl_active fq' = {q \<in> pl_active fq. in_idle w' q}
     \<and> (case r of Inl e \<Rightarrow> e = EAGAIN \<and> pl_active fq' = {}
        | Inr (rc, p, m) \<Rightarrow> accept m = Some True \<and> p \<in> pl_active fq \<and> (rc AND NN_PIPE_PARSED = 0 \<longrightarrow> sphdr m = []))"
  using assms(1-4)
proof (induction "sum (avail (w_trans w)) (pl_active fq)" arbitrary: w fq rule: less_induct)
  case less
  from fq_recv_ready [OF less.prems(1-3)] obtain w1 fq1 r where
    1: "nn_fq_recv vf w fq = Some (w1, fq1, r)" "trans_ok tinv w1" "in_step (pl_active fq) w w1" "priolist_inv fq1"
      "pl_members fq1 = pl_members fq" "pl_active fq1 = {q \<in> pl_active fq. in_idle w1 q}"
    and r: "case r of Inl e \<Rightarrow> e = EAGAIN \<and> w1 = w \<and> fq1 = fq
        | Inr (rc, p, m) \<Rightarrow> p \<in> pl_active fq \<and> (rc AND NN_PIPE_PARSED = 0 \<longrightarrow> sphdr m = [])
            \<and> avail (w_trans w1) p < avail (w_trans w) p \<and> (\<forall>q. avail (w_trans w1) q \<le> avail (w_trans w) q)" by blast
  show ?case
  proof (cases r)
    case (Inl e)
    then have e: "e = EAGAIN" "w1 = w" "fq1 = fq" using r by auto
    have "pl_active fq = {}"
      using nn_fq_recv_ok [OF less.prems(1) _ less.prems(2,3)] 1(1) Inl by fastforce
    then show ?thesis using 1 Inl e by (subst fq_recv_until.simps) simp
  next
    case (Inr v)
    obtain rc p m where v: "v = (rc, p, m)" by (cases v) auto
    have p: "p \<in> pl_active fq" "rc AND NN_PIPE_PARSED = 0 \<longrightarrow> sphdr m = []"
      "avail (w_trans w1) p < avail (w_trans w) p" "\<And>q. avail (w_trans w1) q \<le> avail (w_trans w) q"
      using r Inr v by auto
    from acc [of m] consider "accept m = Some True" | "accept m = Some False" by (cases "accept m") auto
    then show ?thesis
    proof cases
      assume "accept m = Some True"
      then show ?thesis using 1 Inr v p by (subst fq_recv_until.simps) simp
    next
      assume rejected: "accept m = Some False"
      have sub: "pl_active fq1 \<subseteq> pl_active fq" using 1(6) by auto
      have ready: "in_ready w1 (pl_active fq1)"
        using less.prems(3) 1(6) in_step_facts(3) [OF 1(3)] by (auto simp: in_ready_def)
      have fin: "finite (pl_active fq1)" using sub less.prems(4) finite_subset by blast
      have "sum (avail (w_trans w1)) (pl_active fq1) < sum (avail (w_trans w)) (pl_active fq)"
        using sum_avail_less [OF less.prems(4) sub p(1), of "avail (w_trans w1)" "avail (w_trans w)"] p(3,4) by simp
      from less.hyps [OF this 1(4,2) ready fin] obtain w2 fq2 r2 where
        2: "fq_recv_until vf accept w1 fq1 = Some (w2, fq2, r2)" "trans_ok tinv w2"
          "in_step (pl_active fq1) w1 w2" "priolist_inv fq2" "pl_members fq2 = pl_members fq1"
          "pl_active fq2 = {q \<in> pl_active fq1. in_idle w2 q}"
          "case r2 of Inl e \<Rightarrow> e = EAGAIN \<and> pl_active fq2 = {}
           | Inr (rc, p, m) \<Rightarrow> accept m = Some True \<and> p \<in> pl_active fq1 \<and> (rc AND NN_PIPE_PARSED = 0 \<longrightarrow> sphdr m = [])"
        by blast
      have "fq_recv_until vf accept w fq = Some (w2, fq2, r2)"
        using 1(1) Inr v 2(1) rejected by (subst fq_recv_until.simps) simp
      moreover have "in_step (pl_active fq) w w2"
        using in_step_trans [OF 1(3) 2(3)] sub by (simp add: sup.absorb1)
      moreover have "in_idle w1 q" if "q \<in> pl_active fq" "in_idle w2 q" for q
        using that 1(6) in_step_facts(6) [OF 2(3), of q] by auto
      then have "pl_active fq2 = {q \<in> pl_active fq. in_idle w2 q}" using 1(6) 2(6) by auto
      moreover have "case r2 of Inl e \<Rightarrow> e = EAGAIN \<and> pl_active fq2 = {}
           | Inr (rc, p, m) \<Rightarrow> accept m = Some True \<and> p \<in> pl_active fq \<and> (rc AND NN_PIPE_PARSED = 0 \<longrightarrow> sphdr m = [])"
        using 2(7) sub by (auto split: sum.splits prod.splits)
      ultimately show ?thesis using 1(5) 2(2,4,5) by auto
    qed
  qed
qed

end

section \<open>BUS\<close>

text \<open>The raw BUS socket puts the pointer of the pipe a message came from in an 8-byte header, in the
  byte order of the machine; a pipe is identified with its address here, and the null pointer is
  no pipe.\<close>

definition pipe_bytes :: "pipe \<Rightarrow> bytes" where
  "pipe_bytes p = map (\<lambda>i. ucast (drop_bit (8 * i) (of_nat p :: u64))) [0..<8]"

definition bytes_pipe :: "bytes \<Rightarrow> pipe option" where
  "bytes_pipe bs = (let a = foldr (\<lambda>b a. push_bit 8 a OR ucast b) bs (0 :: u64)
     in if a = 0 then None else Some (unat a))"

record nn_xbus =
  xbus_outpipes :: nn_dist
  xbus_inpipes :: nn_fq

definition nn_xbus_init :: nn_xbus where
  "nn_xbus_init = \<lparr>xbus_outpipes = nn_dist_init, xbus_inpipes = nn_fq_init\<rparr>"

definition nn_xbus_term :: "nn_xbus \<Rightarrow> unit option" where
  "nn_xbus_term self = do { nn_fq_term (xbus_inpipes self); nn_dist_term (xbus_outpipes self) }"

definition nn_xbus_add :: "('t, nn_xbus) sock_add" where
  "nn_xbus_add w self pipe = do {
     rcvprio \<leftarrow> pipe_prio w pipe NN_RCVPRIO;
     let self = self\<lparr>xbus_inpipes := nn_fq_add (xbus_inpipes self) pipe rcvprio\<rparr>;
     Some (w, self\<lparr>xbus_outpipes := nn_dist_add (xbus_outpipes self) pipe\<rparr>, Inr ()) }"

definition nn_xbus_rm :: "('t, nn_xbus) sock_fn" where
  "nn_xbus_rm w self pipe = do {
     fq \<leftarrow> nn_fq_rm (xbus_inpipes self) pipe;
     d \<leftarrow> nn_dist_rm (xbus_outpipes self) pipe;
     Some (w, self\<lparr>xbus_inpipes := fq, xbus_outpipes := d\<rparr>) }"

definition nn_xbus_in :: "('t, nn_xbus) sock_fn" where
  "nn_xbus_in w self pipe = do {
     fq \<leftarrow> nn_fq_in (xbus_inpipes self) pipe;
     Some (w, self\<lparr>xbus_inpipes := fq\<rparr>) }"

definition nn_xbus_out :: "('t, nn_xbus) sock_fn" where
  "nn_xbus_out w self pipe = do {
     d \<leftarrow> nn_dist_out (xbus_outpipes self) pipe;
     Some (w, self\<lparr>xbus_outpipes := d\<rparr>) }"

definition nn_xbus_events :: "nn_xbus \<Rightarrow> u32" where
  "nn_xbus_events self =
     (if nn_fq_can_recv (xbus_inpipes self) then NN_SOCKBASE_EVENT_IN else 0) OR NN_SOCKBASE_EVENT_OUT"

definition nn_xbus_send :: "'t nn_pipebase_vfptr \<Rightarrow> 't world \<Rightarrow> nn_xbus \<Rightarrow> nn_msg \<Rightarrow>
  ('t world \<times> nn_xbus \<times> (errno + u32)) option" where
  "nn_xbus_send vf w self msg =
    (let hdrsz = length (sphdr msg) in
     if hdrsz \<noteq> 0 \<and> hdrsz \<noteq> 8 then Some (w, self, Inl EINVAL)
     else
       (let exclude = (if hdrsz = 0 then None else bytes_pipe (sphdr msg)) in do {
          (w, d) \<leftarrow> nn_dist_send vf w (xbus_outpipes self) (msg\<lparr>sphdr := []\<rparr>) exclude;
          Some (w, self\<lparr>xbus_outpipes := d\<rparr>, Inr 0) }))"

definition nn_xbus_recv :: "'t nn_pipebase_vfptr \<Rightarrow> 't world \<Rightarrow> nn_xbus \<Rightarrow>
  ('t world \<times> nn_xbus \<times> (errno + nn_msg)) option" where
  "nn_xbus_recv vf w self = do {
     (w, fq, r) \<leftarrow> fq_recv_until vf (\<lambda>msg. Some (length (sphdr msg) = 0)) w (xbus_inpipes self);
     let self = self\<lparr>xbus_inpipes := fq\<rparr>;
     (case r of
        Inl e \<Rightarrow> Some (w, self, Inl e)
      | Inr (_, pipe, msg) \<Rightarrow> Some (w, self, Inr (msg\<lparr>sphdr := pipe_bytes pipe\<rparr>))) }"

definition nn_xbus_sockbase_vfptr :: "'t nn_pipebase_vfptr \<Rightarrow> ('t, nn_xbus) nn_sockbase_vfptr" where
  "nn_xbus_sockbase_vfptr vf = \<lparr>sb_add = nn_xbus_add, sb_rm = nn_xbus_rm, sb_in = nn_xbus_in,
     sb_out = nn_xbus_out, sb_send = Some (nn_xbus_send vf), sb_recv = Some (nn_xbus_recv vf)\<rparr>"

definition nn_bus_send :: "'t nn_pipebase_vfptr \<Rightarrow> 't world \<Rightarrow> nn_xbus \<Rightarrow> nn_msg \<Rightarrow>
  ('t world \<times> nn_xbus \<times> (errno + u32)) option" where
  "nn_bus_send vf w self msg =
    (if length (sphdr msg) \<noteq> 0 then Some (w, self, Inl EINVAL)
     else do {
       (w, self, rc) \<leftarrow> nn_xbus_send vf w self msg;
       nn_assert (rc = Inr 0);
       Some (w, self, Inr 0) })"

definition nn_bus_recv :: "'t nn_pipebase_vfptr \<Rightarrow> 't world \<Rightarrow> nn_xbus \<Rightarrow>
  ('t world \<times> nn_xbus \<times> (errno + nn_msg)) option" where
  "nn_bus_recv vf w self = do {
     (w, self, r) \<leftarrow> nn_xbus_recv vf w self;
     (case r of
        Inl e \<Rightarrow> (if e = EAGAIN then Some (w, self, Inl EAGAIN) else None)
      | Inr msg \<Rightarrow> do {
          nn_assert (length (sphdr msg) = 8);
          Some (w, self, Inr (msg\<lparr>sphdr := []\<rparr>)) }) }"

definition nn_bus_sockbase_vfptr :: "'t nn_pipebase_vfptr \<Rightarrow> ('t, nn_xbus) nn_sockbase_vfptr" where
  "nn_bus_sockbase_vfptr vf = (nn_xbus_sockbase_vfptr vf)\<lparr>sb_send := Some (nn_bus_send vf),
     sb_recv := Some (nn_bus_recv vf)\<rparr>"

lemmas xbus_defs = nn_xbus_sockbase_vfptr_def nn_bus_sockbase_vfptr_def nn_xbus_add_def nn_xbus_rm_def
  nn_xbus_in_def nn_xbus_out_def

definition xbus_inv :: "nn_xbus \<Rightarrow> bool" where
  "xbus_inv s \<longleftrightarrow> dist_inv (xbus_outpipes s) \<and> priolist_inv (xbus_inpipes s)
     \<and> dist_members (xbus_outpipes s) = pl_members (xbus_inpipes s)"

lemma pipe_bytes_length [simp]: "length (pipe_bytes p) = 8"
  by (simp add: pipe_bytes_def)

lemma join_low_byte: "push_bit 8 (drop_bit (k + 8) a) OR ucast (ucast (drop_bit k a) :: u8) = drop_bit k (a :: u64)"
proof (rule bit_word_eqI)
  fix n assume "n < LENGTH(64)"
  then show "bit (push_bit 8 (drop_bit (k + 8) a) OR ucast (ucast (drop_bit k a) :: u8)) n = bit (drop_bit k a) n"
    by (cases "n < 8") (auto simp: bit_simps)
qed

lemma join_bytes:
  "foldr (\<lambda>b a. push_bit 8 a OR ucast b) (map (\<lambda>i. ucast (drop_bit (8 * i) a) :: u8) [m..<m + n]) (drop_bit (8 * (m + n)) a)
    = drop_bit (8 * m) (a :: u64)"
proof (induction n arbitrary: m)
  case (Suc n)
  have "[m..<m + Suc n] = m # [Suc m..<Suc m + n]" by (simp add: upt_rec)
  moreover have "drop_bit (8 * (m + Suc n)) a = drop_bit (8 * (Suc m + n)) a" by simp
  ultimately show ?case using Suc.IH [of "Suc m"] join_low_byte [of "8 * m" a] by (simp add: add.commute)
qed simp

lemma bytes_pipe_bytes:
  assumes "0 < p" and "p < 2 ^ 64"
  shows "bytes_pipe (pipe_bytes p) = Some p"
proof -
  let ?a = "of_nat p :: u64"
  have "foldr (\<lambda>b a. push_bit 8 a OR ucast b) (pipe_bytes p) (0 :: u64) = ?a"
  proof -
    have "drop_bit (8 * (0 + 8)) ?a = 0" by (rule bit_word_eqI) (auto simp: bit_simps)
    then show ?thesis using join_bytes [of ?a 0 8] by (simp add: pipe_bytes_def)
  qed
  moreover have "?a \<noteq> 0" "unat ?a = p" using assms by (auto simp: unat_of_nat word_of_nat_eq_0_iff dest: dvd_imp_le)
  ultimately show ?thesis by (simp add: bytes_pipe_def)
qed

context transport
begin

lemma xbus_send_ready:
  assumes inv: "xbus_inv s" and w: "trans_ok tinv w" "out_ready w (set (d_pipes (xbus_outpipes s)))"
  shows "\<exists>w' s' r. nn_xbus_send vf w s m = Some (w', s', r)
     \<and> r = (if length (sphdr m) = 0 \<or> length (sphdr m) = 8 then Inr 0 else Inl EINVAL)
     \<and> trans_ok tinv w' \<and> out_step (set (d_pipes (xbus_outpipes s))) w w' \<and> xbus_inv s'
     \<and> dist_members (xbus_outpipes s') = dist_members (xbus_outpipes s) \<and> xbus_inpipes s' = xbus_inpipes s
     \<and> set (d_pipes (xbus_outpipes s')) = {p \<in> set (d_pipes (xbus_outpipes s)). out_idle w' p}"
proof (cases "length (sphdr m) = 0 \<or> length (sphdr m) = 8")
  case True
  define ex where "ex = (if length (sphdr m) = 0 then None else bytes_pipe (sphdr m))"
  from nn_dist_send_ok [OF _ w, of "m\<lparr>sphdr := []\<rparr>" ex] inv obtain w' d where
    *: "nn_dist_send vf w (xbus_outpipes s) (m\<lparr>sphdr := []\<rparr>) ex = Some (w', d)" "trans_ok tinv w'"
      "out_step (set (d_pipes (xbus_outpipes s))) w w'" "dist_inv d" "dist_members d = dist_members (xbus_outpipes s)"
      "d_pipes d = filter (out_idle w') (d_pipes (xbus_outpipes s))" by (auto simp: xbus_inv_def)
  have "nn_xbus_send vf w s m = Some (w', s\<lparr>xbus_outpipes := d\<rparr>, Inr 0)"
    using True *(1) by (auto simp: nn_xbus_send_def ex_def Let_def)
  then show ?thesis using True * inv by (simp add: xbus_inv_def)
next
  case False
  then show ?thesis using inv w by (auto simp: nn_xbus_send_def out_ready_def)
qed

lemma xbus_recv_ready:
  assumes inv: "xbus_inv s" and w: "trans_ok tinv w" "in_ready w (pl_active (xbus_inpipes s))" "finite (pl_active (xbus_inpipes s))"
  shows "\<exists>w' s' r. nn_xbus_recv vf w s = Some (w', s', r)
     \<and> (case r of Inl e \<Rightarrow> e = EAGAIN | Inr m \<Rightarrow> \<exists>p \<in> pl_active (xbus_inpipes s). sphdr m = pipe_bytes p)
     \<and> trans_ok tinv w' \<and> in_step (pl_active (xbus_inpipes s)) w w' \<and> xbus_inv s'
     \<and> xbus_outpipes s' = xbus_outpipes s \<and> pl_members (xbus_inpipes s') = pl_members (xbus_inpipes s)
     \<and> pl_active (xbus_inpipes s') = {p \<in> pl_active (xbus_inpipes s). in_idle w' p}"
proof -
  from fq_recv_until_ok [OF _ w, of "\<lambda>msg. Some (length (sphdr msg) = 0)"] inv obtain w' fq r where
    *: "fq_recv_until vf (\<lambda>msg. Some (length (sphdr msg) = 0)) w (xbus_inpipes s) = Some (w', fq, r)"
      "trans_ok tinv w'" "in_step (pl_active (xbus_inpipes s)) w w'" "priolist_inv fq"
      "pl_members fq = pl_members (xbus_inpipes s)" "pl_active fq = {q \<in> pl_active (xbus_inpipes s). in_idle w' q}"
    and r: "case r of Inl e \<Rightarrow> e = EAGAIN \<and> pl_active fq = {}
        | Inr (rc, p, m) \<Rightarrow> Some (length (sphdr m) = 0) = Some True \<and> p \<in> pl_active (xbus_inpipes s)
            \<and> (rc AND NN_PIPE_PARSED = 0 \<longrightarrow> sphdr m = [])" by (auto simp: xbus_inv_def)
  have "xbus_inv (s\<lparr>xbus_inpipes := fq\<rparr>)" using inv *(4,5) by (simp add: xbus_inv_def)
  then show ?thesis using *(1-6) r
    by (cases r) (auto simp: nn_xbus_recv_def split: prod.splits)
qed

end

sublocale transport \<subseteq> xbus: raw_socket vf tinv avail "nn_xbus_sockbase_vfptr vf" Tracks Tracks xbus_inv
  "\<lambda>s. dist_members (xbus_outpipes s)" "\<lambda>s. pl_active (xbus_inpipes s)" "\<lambda>s. set (d_pipes (xbus_outpipes s))" "\<lambda>_. True"
proof (unfold_locales, goal_cases)
  case (2 s p w)
  then show ?case using fq_add_ok [of "xbus_inpipes s" p w] nn_dist_add_ok [of "xbus_outpipes s" p]
    by (auto simp: xbus_defs xbus_inv_def Let_def split del: if_split)
next
  case (3 s p w)
  then show ?case using fq_rm_ok [of "xbus_inpipes s" p] nn_dist_rm_ok [of "xbus_outpipes s" p]
    by (auto simp: xbus_defs xbus_inv_def)
next
  case (4 s p w)
  then show ?case using fq_in_ok [of "xbus_inpipes s" p] by (auto simp: xbus_defs xbus_inv_def tracked_def)
next
  case (5 s p w)
  then show ?case using nn_dist_out_ok [of "xbus_outpipes s" p] by (auto simp: xbus_defs xbus_inv_def tracked_def)
next
  case (6 f s w m)
  then show ?case using xbus_send_ready [of s w m] by (auto simp: xbus_defs xbus_inv_def)
next
  case (7 g s w)
  then show ?case using xbus_recv_ready [of s w] by (auto simp: xbus_defs xbus_inv_def)
qed simp

sublocale transport \<subseteq> bus: raw_socket vf tinv avail "nn_bus_sockbase_vfptr vf" Tracks Tracks xbus_inv
  "\<lambda>s. dist_members (xbus_outpipes s)" "\<lambda>s. pl_active (xbus_inpipes s)" "\<lambda>s. set (d_pipes (xbus_outpipes s))" "\<lambda>_. True"
proof (unfold_locales, goal_cases)
  case (2 s p w) then show ?case using xbus.add_law [of s p w] by (simp add: nn_bus_sockbase_vfptr_def)
next
  case (3 s p w) then show ?case using xbus.rm_law [of s p w] by (simp add: nn_bus_sockbase_vfptr_def)
next
  case (4 s p w) then show ?case using xbus.in_law [of s p w] by (simp add: nn_bus_sockbase_vfptr_def)
next
  case (5 s p w) then show ?case using xbus.out_law [of s p w] by (simp add: nn_bus_sockbase_vfptr_def)
next
  case (6 f s w m)
  then show ?case using xbus_send_ready [of s w m]
    by (cases "sphdr m = []") (auto simp: nn_bus_sockbase_vfptr_def nn_bus_send_def out_ready_def)
next
  case (7 g s w)
  then obtain w' s' r where *: "nn_xbus_recv vf w s = Some (w', s', r)"
    "case r of Inl e \<Rightarrow> e = EAGAIN | Inr m \<Rightarrow> \<exists>p \<in> pl_active (xbus_inpipes s). sphdr m = pipe_bytes p"
    "trans_ok tinv w'" "in_step (pl_active (xbus_inpipes s)) w w'" "xbus_inv s'"
    "xbus_outpipes s' = xbus_outpipes s" "pl_members (xbus_inpipes s') = pl_members (xbus_inpipes s)"
    "pl_active (xbus_inpipes s') = {p \<in> pl_active (xbus_inpipes s). in_idle w' p}"
    using xbus_recv_ready [of s w] by blast
  obtain r' where "nn_bus_recv vf w s = Some (w', s', r')"
    using *(1,2) by (cases r) (auto simp: nn_bus_recv_def)
  moreover have "g = nn_bus_recv vf" using 7(1) by (simp add: nn_bus_sockbase_vfptr_def)
  ultimately show ?case using * by simp
qed simp

end
