(* ===== verification/Xreq.thy ===== *)
theory Xreq
  imports Pair_Pub_Bus
begin

text \<open>
  The raw REQ socket (\<open>src/protocols/reqrep/xreq.c\<close>): requests go out through the load balancer, replies
  come in through the fair queue, and the first word of a reply becomes its header.
\<close>

section \<open>REQ\<close>

record nn_xreq =
  xreq_lb :: nn_lb
  xreq_fq :: nn_fq

definition nn_xreq_init :: nn_xreq where
  "nn_xreq_init = \<lparr>xreq_lb = nn_lb_init, xreq_fq = nn_fq_init\<rparr>"

definition nn_xreq_term :: "nn_xreq \<Rightarrow> unit option" where
  "nn_xreq_term self = do { nn_fq_term (xreq_fq self); nn_lb_term (xreq_lb self) }"

definition nn_xreq_add :: "('t, nn_xreq) sock_add" where
  "nn_xreq_add w self pipe = do {
     sndprio \<leftarrow> pipe_prio w pipe NN_SNDPRIO;
     rcvprio \<leftarrow> pipe_prio w pipe NN_RCVPRIO;
     let self = self\<lparr>xreq_lb := nn_lb_add (xreq_lb self) pipe sndprio\<rparr>;
     Some (w, self\<lparr>xreq_fq := nn_fq_add (xreq_fq self) pipe rcvprio\<rparr>, Inr ()) }"

definition nn_xreq_rm :: "('t, nn_xreq) sock_fn" where
  "nn_xreq_rm w self pipe = do {
     lb \<leftarrow> nn_lb_rm (xreq_lb self) pipe;
     fq \<leftarrow> nn_fq_rm (xreq_fq self) pipe;
     w \<leftarrow> nn_sockbase_stat_increment w NN_STAT_CURRENT_SND_PRIORITY (nn_lb_get_priority lb);
     Some (w, self\<lparr>xreq_lb := lb, xreq_fq := fq\<rparr>) }"

definition nn_xreq_in :: "('t, nn_xreq) sock_fn" where
  "nn_xreq_in w self pipe = do {
     fq \<leftarrow> nn_fq_in (xreq_fq self) pipe;
     Some (w, self\<lparr>xreq_fq := fq\<rparr>) }"

definition nn_xreq_out :: "('t, nn_xreq) sock_fn" where
  "nn_xreq_out w self pipe = do {
     lb \<leftarrow> nn_lb_out (xreq_lb self) pipe;
     w \<leftarrow> nn_sockbase_stat_increment w NN_STAT_CURRENT_SND_PRIORITY (nn_lb_get_priority lb);
     Some (w, self\<lparr>xreq_lb := lb\<rparr>) }"

definition nn_xreq_events :: "nn_xreq \<Rightarrow> u32" where
  "nn_xreq_events self = (if nn_fq_can_recv (xreq_fq self) then NN_SOCKBASE_EVENT_IN else 0) OR
     (if nn_lb_can_send (xreq_lb self) then NN_SOCKBASE_EVENT_OUT else 0)"

text \<open>The pipe the message went to is returned with the result, as through the pointer \<open>to\<close>.\<close>

definition nn_xreq_send_to :: "'t nn_pipebase_vfptr \<Rightarrow> 't world \<Rightarrow> nn_xreq \<Rightarrow> nn_msg \<Rightarrow>
  ('t world \<times> nn_xreq \<times> (errno + u32 \<times> pipe)) option" where
  "nn_xreq_send_to vf w self msg = do {
     (w, lb, r) \<leftarrow> nn_lb_send vf w (xreq_lb self) msg;
     let self = self\<lparr>xreq_lb := lb\<rparr>;
     (case r of
        Inl e \<Rightarrow> do { nn_assert (e = EAGAIN); Some (w, self, Inl EAGAIN) }
      | Inr (_, to) \<Rightarrow> Some (w, self, Inr (0, to))) }"

definition nn_xreq_send :: "'t nn_pipebase_vfptr \<Rightarrow> 't world \<Rightarrow> nn_xreq \<Rightarrow> nn_msg \<Rightarrow>
  ('t world \<times> nn_xreq \<times> (errno + u32)) option" where
  "nn_xreq_send vf w self msg = do {
     (w, self, r) \<leftarrow> nn_xreq_send_to vf w self msg;
     Some (w, self, map_sum id fst r) }"

text \<open>The header of a message that arrived unparsed is its first 32-bit word.\<close>

definition split_word :: "nn_msg \<Rightarrow> (errno + nn_msg) option" where
  "split_word msg =
    (if length (body msg) < 4 then Some (Inl EAGAIN)
     else do {
       nn_assert (length (sphdr msg) = 0);
       Some (Inr (msg\<lparr>sphdr := take 4 (body msg), body := drop 4 (body msg)\<rparr>)) })"

definition nn_xreq_recv :: "'t nn_pipebase_vfptr \<Rightarrow> 't world \<Rightarrow> nn_xreq \<Rightarrow>
  ('t world \<times> nn_xreq \<times> (errno + nn_msg)) option" where
  "nn_xreq_recv vf w self = do {
     (w, fq, r) \<leftarrow> nn_fq_recv vf w (xreq_fq self);
     let self = self\<lparr>xreq_fq := fq\<rparr>;
     (case r of
        Inl e \<Rightarrow> do { nn_assert (e = EAGAIN); Some (w, self, Inl EAGAIN) }
      | Inr (rc, _, msg) \<Rightarrow>
          if rc AND NN_PIPE_PARSED = 0 then do { m \<leftarrow> split_word msg; Some (w, self, m) }
          else Some (w, self, Inr msg)) }"

definition nn_xreq_sockbase_vfptr :: "'t nn_pipebase_vfptr \<Rightarrow> ('t, nn_xreq) nn_sockbase_vfptr" where
  "nn_xreq_sockbase_vfptr vf = \<lparr>sb_add = nn_xreq_add, sb_rm = nn_xreq_rm, sb_in = nn_xreq_in,
     sb_out = nn_xreq_out, sb_send = Some (nn_xreq_send vf), sb_recv = Some (nn_xreq_recv vf)\<rparr>"

lemmas xreq_defs = nn_xreq_sockbase_vfptr_def nn_xreq_add_def nn_xreq_rm_def nn_xreq_in_def
  nn_xreq_out_def nn_xreq_send_def nn_xreq_send_to_def nn_xreq_recv_def

definition xreq_inv :: "nn_xreq \<Rightarrow> bool" where
  "xreq_inv s \<longleftrightarrow> priolist_inv (xreq_lb s) \<and> priolist_inv (xreq_fq s) \<and> pl_members (xreq_fq s) = pl_members (xreq_lb s)"

lemma split_word_cases:
  assumes "sphdr m = []"
  shows "\<exists>r. split_word m = Some r"
  using assms by (auto simp: split_word_def)

context transport
begin

lemma xreq_send_ready:
  assumes inv: "xreq_inv s" and w: "trans_ok tinv w" "out_ready w (pl_active (xreq_lb s))"
  shows "\<exists>w' s' r. nn_xreq_send_to vf w s m = Some (w', s', r)
     \<and> (case r of Inl e \<Rightarrow> e = EAGAIN \<and> pl_active (xreq_lb s) = {} | Inr (v, p) \<Rightarrow> v = 0 \<and> p \<in> pl_active (xreq_lb s))
     \<and> trans_ok tinv w' \<and> out_step (pl_active (xreq_lb s)) w w' \<and> xreq_inv s' \<and> xreq_fq s' = xreq_fq s
     \<and> pl_members (xreq_lb s') = pl_members (xreq_lb s)
     \<and> pl_active (xreq_lb s') = {p \<in> pl_active (xreq_lb s). out_idle w' p}"
proof (cases "pl_active (xreq_lb s) = {}")
  case True
  have "nn_lb_send vf w (xreq_lb s) m = Some (w, xreq_lb s, Inl EAGAIN)"
    using nn_lb_send_empty [OF _ True] inv by (simp add: xreq_inv_def)
  then have "nn_xreq_send_to vf w s m = Some (w, s, Inl EAGAIN)" by (simp add: xreq_defs Let_def)
  then show ?thesis using inv w True by simp
next
  case False
  from inv have "priolist_inv (xreq_lb s)" by (simp add: xreq_inv_def)
  from nn_lb_send_ok [OF this False w, of m] obtain w' lb p where
    *: "nn_lb_send vf w (xreq_lb s) m = Some (w', lb, Inr (0, p))" "p \<in> pl_active (xreq_lb s)" "trans_ok tinv w'"
      "out_step {p} w w'" "priolist_inv lb" "pl_members lb = pl_members (xreq_lb s)"
      "pl_active lb = {q \<in> pl_active (xreq_lb s). out_idle w' q}" by blast
  have "nn_xreq_send_to vf w s m = Some (w', s\<lparr>xreq_lb := lb\<rparr>, Inr (0, p))" using *(1) by (simp add: xreq_defs Let_def)
  moreover have "out_step (pl_active (xreq_lb s)) w w'" using *(2,4) by (auto simp: out_step_def)
  ultimately show ?thesis using * inv by (simp add: xreq_inv_def)
qed

lemma xreq_recv_ready:
  assumes inv: "xreq_inv s" and w: "trans_ok tinv w" "in_ready w (pl_active (xreq_fq s))"
  shows "\<exists>w' s' r. nn_xreq_recv vf w s = Some (w', s', r) \<and> trans_ok tinv w'
     \<and> in_step (pl_active (xreq_fq s)) w w' \<and> xreq_inv s' \<and> xreq_lb s' = xreq_lb s
     \<and> pl_members (xreq_fq s') = pl_members (xreq_fq s)
     \<and> pl_active (xreq_fq s') = {p \<in> pl_active (xreq_fq s). in_idle w' p}
     \<and> (case r of Inl e \<Rightarrow> e = EAGAIN
        | Inr _ \<Rightarrow> \<exists>p \<in> pl_active (xreq_fq s). avail (w_trans w') p < avail (w_trans w) p \<and> (\<forall>q. avail (w_trans w') q \<le> avail (w_trans w) q))"
proof -
  from inv have "priolist_inv (xreq_fq s)" by (simp add: xreq_inv_def)
  from fq_recv_ready [OF this w] obtain w' fq r where
    *: "nn_fq_recv vf w (xreq_fq s) = Some (w', fq, r)" "trans_ok tinv w'" "in_step (pl_active (xreq_fq s)) w w'"
      "priolist_inv fq" "pl_members fq = pl_members (xreq_fq s)" "pl_active fq = {q \<in> pl_active (xreq_fq s). in_idle w' q}"
    and r: "case r of Inl e \<Rightarrow> e = EAGAIN \<and> w' = w \<and> fq = xreq_fq s
        | Inr (rc, p, m) \<Rightarrow> p \<in> pl_active (xreq_fq s) \<and> (rc AND NN_PIPE_PARSED = 0 \<longrightarrow> sphdr m = [])
            \<and> avail (w_trans w') p < avail (w_trans w) p \<and> (\<forall>q. avail (w_trans w') q \<le> avail (w_trans w) q)" by blast
  have "\<exists>r'. nn_xreq_recv vf w s = Some (w', s\<lparr>xreq_fq := fq\<rparr>, r') \<and> (case r' of Inl e \<Rightarrow> e = EAGAIN
    | Inr _ \<Rightarrow> \<exists>p \<in> pl_active (xreq_fq s). avail (w_trans w') p < avail (w_trans w) p \<and> (\<forall>q. avail (w_trans w') q \<le> avail (w_trans w) q))"
  proof (cases r)
    case (Inl e) then show ?thesis using *(1) r by (simp add: nn_xreq_recv_def Let_def)
  next
    case (Inr v)
    obtain rc p m where v: "v = (rc, p, m)" by (cases v) auto
    then have p: "p \<in> pl_active (xreq_fq s)" "avail (w_trans w') p < avail (w_trans w) p" "\<forall>q. avail (w_trans w') q \<le> avail (w_trans w) q"
      "rc AND NN_PIPE_PARSED = 0 \<longrightarrow> sphdr m = []" using r Inr by auto
    show ?thesis
    proof (cases "rc AND NN_PIPE_PARSED = 0")
      case True
      then obtain r' where "split_word m = Some r'" "\<forall>e. r' = Inl e \<longrightarrow> e = EAGAIN"
        using p(4) by (cases "length (body m) < 4") (auto simp: split_word_def)
      then show ?thesis using *(1) Inr v True p by (auto simp: nn_xreq_recv_def Let_def split: sum.splits)
    next
      case False
      then show ?thesis using *(1) Inr v p by (auto simp: nn_xreq_recv_def Let_def)
    qed
  qed
  then show ?thesis using * inv by (auto simp: xreq_inv_def)
qed

end

sublocale transport \<subseteq> xreq: raw_socket vf tinv avail "nn_xreq_sockbase_vfptr vf" Tracks Tracks xreq_inv
  "\<lambda>s. pl_members (xreq_lb s)" "\<lambda>s. pl_active (xreq_fq s)" "\<lambda>s. pl_active (xreq_lb s)" "\<lambda>_. True"
proof (unfold_locales, goal_cases)
  case (2 s p w)
  then show ?case using fq_add_ok [of "xreq_fq s" p w] lb_add_ok [of "xreq_lb s" p w]
    by (auto simp: xreq_defs xreq_inv_def Let_def split del: if_split)
next
  case (3 s p w)
  then show ?case using fq_rm_ok [of "xreq_fq s" p] lb_rm_ok [of "xreq_lb s" p] snd_priority_stat [of _ w]
    by (fastforce simp: xreq_defs xreq_inv_def)
next
  case (4 s p w)
  then show ?case using fq_in_ok [of "xreq_fq s" p] by (auto simp: xreq_defs xreq_inv_def tracked_def)
next
  case (5 s p w)
  then show ?case using lb_out_ok [of "xreq_lb s" p] snd_priority_stat [of _ w]
    by (fastforce simp: xreq_defs xreq_inv_def tracked_def)
next
  case (6 f s w m)
  from xreq_send_ready [OF 6(2-4), of m] obtain w' s' r where
    *: "nn_xreq_send_to vf w s m = Some (w', s', r)"
      "case r of Inl e \<Rightarrow> e = EAGAIN \<and> pl_active (xreq_lb s) = {} | Inr (v, p) \<Rightarrow> v = 0 \<and> p \<in> pl_active (xreq_lb s)" "trans_ok tinv w'"
      "out_step (pl_active (xreq_lb s)) w w'" "xreq_inv s'" "xreq_fq s' = xreq_fq s"
      "pl_members (xreq_lb s') = pl_members (xreq_lb s)" "pl_active (xreq_lb s') = {p \<in> pl_active (xreq_lb s). out_idle w' p}"
    by blast
  have "f w s m = Some (w', s', map_sum id fst r)" using 6(1) *(1) by (auto simp: nn_xreq_sockbase_vfptr_def nn_xreq_send_def)
  moreover have "\<forall>v. map_sum id fst r = Inr v \<longrightarrow> v = 0" using *(2) by (cases r) auto
  ultimately show ?case using * by simp
next
  case (7 g s w)
  then show ?case using xreq_recv_ready [of s w] by (auto simp: nn_xreq_sockbase_vfptr_def)
qed simp

end
