(* ===== verification/Xrep.thy ===== *)
theory Xrep
  imports Xreq Nn_Hash
begin

text \<open>
  The raw REP socket (\<open>src/protocols/reqrep/xrep.c\<close>). It gives every pipe a 31-bit key, prepends the key
  to the backtrace of a request, and routes a reply by the key it finds there. Keys are looked up in
  the hash table of \<open>Nn_Hash\<close>, whose items are named by their pipe here. A new pipe needs a key that is
  not in use: this is the \<open>room\<close> of the contract \<open>raw_socket\<close>.
\<close>

definition NN_XREP_OUT :: u32 where "NN_XREP_OUT = 1"

record nn_xrep =
  xrep_next_key :: u32
  xrep_items :: hash_store
  xrep_outpipes :: nn_hash
  xrep_inpipes :: nn_fq
  xrep_flags :: "pipe \<Rightarrow> u32"

text \<open>\<open>key\<close> is the value of \<open>nn_random_generate\<close>; \<open>items\<close> and \<open>flags\<close> are the unspecified contents of memory.\<close>

definition nn_xrep_init :: "u32 \<Rightarrow> hash_store \<Rightarrow> (pipe \<Rightarrow> u32) \<Rightarrow> nn_xrep" where
  "nn_xrep_init key items flags = \<lparr>xrep_next_key = key, xrep_items = items, xrep_outpipes = nn_hash_init,
     xrep_inpipes = nn_fq_init, xrep_flags = flags\<rparr>"

definition nn_xrep_term :: "nn_xrep \<Rightarrow> unit option" where
  "nn_xrep_term self = do { nn_fq_term (xrep_inpipes self); nn_hash_term (xrep_outpipes self) }"

definition xrep_key :: "nn_xrep \<Rightarrow> u32" where
  "xrep_key self = xrep_next_key self AND 0x7fffffff"

definition nn_xrep_add :: "('t, nn_xrep) sock_add" where
  "nn_xrep_add w self pipe = do {
     rcvprio \<leftarrow> pipe_prio w pipe NN_RCVPRIO;
     let items = nn_hash_item_init (xrep_items self) pipe;
     let self = self\<lparr>xrep_flags := (xrep_flags self)(pipe := 0)\<rparr>;
     (items, h) \<leftarrow> nn_hash_insert items (xrep_outpipes self) (xrep_key self) pipe;
     let self = self\<lparr>xrep_items := items, xrep_outpipes := h, xrep_next_key := xrep_next_key self + 1\<rparr>;
     Some (w, self\<lparr>xrep_inpipes := nn_fq_add (xrep_inpipes self) pipe rcvprio\<rparr>, Inr ()) }"

definition nn_xrep_rm :: "('t, nn_xrep) sock_fn" where
  "nn_xrep_rm w self pipe = do {
     fq \<leftarrow> nn_fq_rm (xrep_inpipes self) pipe;
     (items, h) \<leftarrow> nn_hash_erase (xrep_items self) (xrep_outpipes self) pipe;
     nn_hash_item_term items pipe;
     Some (w, self\<lparr>xrep_inpipes := fq, xrep_items := items, xrep_outpipes := h\<rparr>) }"

definition nn_xrep_in :: "('t, nn_xrep) sock_fn" where
  "nn_xrep_in w self pipe = do {
     fq \<leftarrow> nn_fq_in (xrep_inpipes self) pipe;
     Some (w, self\<lparr>xrep_inpipes := fq\<rparr>) }"

definition nn_xrep_out :: "('t, nn_xrep) sock_fn" where
  "nn_xrep_out w self pipe =
     Some (w, self\<lparr>xrep_flags := (xrep_flags self)(pipe := xrep_flags self pipe OR NN_XREP_OUT)\<rparr>)"

definition nn_xrep_events :: "nn_xrep \<Rightarrow> u32" where
  "nn_xrep_events self =
     (if nn_fq_can_recv (xrep_inpipes self) then NN_SOCKBASE_EVENT_IN else 0) OR NN_SOCKBASE_EVENT_OUT"

definition nn_xrep_send :: "'t nn_pipebase_vfptr \<Rightarrow> 't world \<Rightarrow> nn_xrep \<Rightarrow> nn_msg \<Rightarrow>
  ('t world \<times> nn_xrep \<times> (errno + u32)) option" where
  "nn_xrep_send vf w self msg =
    (if length (sphdr msg) < 4 then Some (w, self, Inr 0)
     else do {
       key \<leftarrow> nn_getl (sphdr msg);
       let msg = msg\<lparr>sphdr := drop 4 (sphdr msg)\<rparr>;
       (case nn_hash_get (xrep_items self) (xrep_outpipes self) key of
          None \<Rightarrow> Some (w, self, Inr 0)
        | Some pipe \<Rightarrow>
            if xrep_flags self pipe AND NN_XREP_OUT = 0 then Some (w, self, Inr 0)
            else do {
              (w, rc) \<leftarrow> nn_pipe_send vf w pipe msg;
              let self = (if rc AND NN_PIPE_RELEASE \<noteq> 0
                then self\<lparr>xrep_flags := (xrep_flags self)(pipe := xrep_flags self pipe AND NOT NN_XREP_OUT)\<rparr> else self);
              Some (w, self, Inr 0) }) })"

text \<open>The loop over the backtrace: the number of words up to and including the first one with its highest
  bit set, or \<open>EAGAIN\<close> when the message ends before.\<close>

function backtrace :: "bytes \<Rightarrow> nat \<Rightarrow> (errno + nat) option" where
  "backtrace data i =
    (if (i + 1) * 4 > length data then Some (Inl EAGAIN)
     else do {
       v \<leftarrow> nn_getl (drop (4 * i) data);
       if v AND 0x80000000 \<noteq> 0 then Some (Inr (i + 1)) else backtrace data (i + 1) })"
  by auto
termination by (relation "measure (\<lambda>(data, i). length data - 4 * i)") auto

declare backtrace.simps [simp del]

definition split_backtrace :: "int \<Rightarrow> nn_msg \<Rightarrow> (errno + nn_msg) option" where
  "split_backtrace maxttl msg = do {
     r \<leftarrow> backtrace (body msg) 0;
     (case r of
        Inl e \<Rightarrow> Some (Inl e)
      | Inr i \<Rightarrow>
          if int i > maxttl then Some (Inl EAGAIN)
          else do {
            nn_assert (length (sphdr msg) = 0);
            Some (Inr (msg\<lparr>sphdr := take (i * 4) (body msg), body := drop (i * 4) (body msg)\<rparr>)) }) }"

definition push_key :: "u32 \<Rightarrow> nn_msg \<Rightarrow> nn_msg option" where
  "push_key key msg = do {
     b \<leftarrow> nn_putl (replicate 4 0) key;
     Some (msg\<lparr>sphdr := b @ sphdr msg\<rparr>) }"

text \<open>\<open>maxttl\<close> is the socket option \<open>NN_MAXTTL\<close>.\<close>

definition nn_xrep_recv :: "int \<Rightarrow> 't nn_pipebase_vfptr \<Rightarrow> 't world \<Rightarrow> nn_xrep \<Rightarrow>
  ('t world \<times> nn_xrep \<times> (errno + nn_msg)) option" where
  "nn_xrep_recv maxttl vf w self = do {
     (w, fq, r) \<leftarrow> nn_fq_recv vf w (xrep_inpipes self);
     let self = self\<lparr>xrep_inpipes := fq\<rparr>;
     (case r of
        Inl e \<Rightarrow> Some (w, self, Inl e)
      | Inr (rc, pipe, msg) \<Rightarrow> do {
          m \<leftarrow> (if rc AND NN_PIPE_PARSED = 0 then split_backtrace maxttl msg else Some (Inr msg));
          (case m of
             Inl e \<Rightarrow> Some (w, self, Inl e)
           | Inr msg \<Rightarrow> do {
               msg \<leftarrow> push_key (hi_key (xrep_items self pipe)) msg;
               Some (w, self, Inr msg) }) }) }"

definition nn_xrep_sockbase_vfptr :: "int \<Rightarrow> 't nn_pipebase_vfptr \<Rightarrow> ('t, nn_xrep) nn_sockbase_vfptr" where
  "nn_xrep_sockbase_vfptr maxttl vf = \<lparr>sb_add = nn_xrep_add, sb_rm = nn_xrep_rm, sb_in = nn_xrep_in,
     sb_out = nn_xrep_out, sb_send = Some (nn_xrep_send vf), sb_recv = Some (nn_xrep_recv maxttl vf)\<rparr>"

lemmas xrep_defs = nn_xrep_sockbase_vfptr_def nn_xrep_add_def nn_xrep_rm_def nn_xrep_in_def
  nn_xrep_out_def nn_xrep_send_def nn_xrep_recv_def

section \<open>The backtrace\<close>

lemma getl_at:
  assumes "(i + 1) * 4 \<le> length data"
  obtains v where "nn_getl (drop (4 * i) data) = Some v"
proof -
  have "4 \<le> length (drop (4 * i) data)" using assms by simp
  then show thesis using wire32.get_total that by blast
qed

lemma backtrace_total: "\<exists>r. backtrace data i = Some r \<and> (\<forall>n. r = Inr n \<longrightarrow> i < n \<and> n * 4 \<le> length data)"
proof (induction data i rule: backtrace.induct)
  case (1 data i)
  show ?case
  proof (cases "(i + 1) * 4 > length data")
    case True then show ?thesis by (subst backtrace.simps) simp
  next
    case False
    then obtain v where v: "nn_getl (drop (4 * i) data) = Some v" using getl_at [of i data] by (metis not_less)
    show ?thesis
    proof (cases "v AND 0x80000000 = 0")
      case True
      from 1 [OF False v] True obtain r where "backtrace data (i + 1) = Some r"
        "\<forall>n. r = Inr n \<longrightarrow> i + 1 < n \<and> n * 4 \<le> length data" by auto
      then show ?thesis using False v True by (subst backtrace.simps) auto
    next
      case nz: False
      then show ?thesis using False v by (subst backtrace.simps) simp
    qed
  qed
qed

lemma split_backtrace_total:
  assumes "sphdr m = []"
  shows "\<exists>r. split_backtrace ttl m = Some r \<and>
    (\<forall>m'. r = Inr m' \<longrightarrow> sphdr m' @ body m' = body m \<and> 4 dvd length (sphdr m') \<and> 4 \<le> length (sphdr m')
       \<and> int (length (sphdr m')) \<le> 4 * ttl)"
proof -
  from backtrace_total [of "body m" 0] obtain r where
    r: "backtrace (body m) 0 = Some r" "\<forall>n. r = Inr n \<longrightarrow> 0 < n \<and> n * 4 \<le> length (body m)" by blast
  then show ?thesis using assms by (cases r) (auto simp: split_backtrace_def)
qed

text \<open>A backtrace is a stack of words of which only the last has its highest bit set.\<close>

definition word_bytes :: "u32 \<Rightarrow> bytes" where
  "word_bytes v = [ucast (drop_bit 24 v), ucast (drop_bit 16 v), ucast (drop_bit 8 v), ucast v]"

lemma putl_word_bytes: "nn_putl (replicate 4 0) v = Some (word_bytes v)"
  by (simp add: word_bytes_def numeral_eq_Suc)

lemma getl_word_bytes: "nn_getl (word_bytes v @ rest) = Some v"
  using wire32.get_after_put_append [OF putl_word_bytes] .

lemma length_word_bytes [simp]: "length (word_bytes v) = 4"
  by (simp add: word_bytes_def)

definition stack_bytes :: "u32 list \<Rightarrow> bytes" where
  "stack_bytes vs = concat (map word_bytes vs)"

lemma length_stack_bytes [simp]: "length (stack_bytes vs) = 4 * length vs"
  by (induction vs) (auto simp: stack_bytes_def)

lemma backtrace_stack:
  assumes "\<forall>v \<in> set vs. v AND 0x80000000 = 0" and "b AND 0x80000000 \<noteq> 0"
  shows "backtrace (stack_bytes (us @ vs @ [b]) @ rest) (length us) = Some (Inr (length us + length vs + 1))"
  using assms(1)
proof (induction vs arbitrary: us)
  case Nil
  have "nn_getl (drop (4 * length us) (stack_bytes (us @ [b]) @ rest)) = Some b"
    using getl_word_bytes [of b rest] by (simp add: stack_bytes_def flip: length_stack_bytes)
  then show ?case using assms(2) by (subst backtrace.simps) simp
next
  case (Cons v vs)
  have "nn_getl (drop (4 * length us) (stack_bytes (us @ (v # vs) @ [b]) @ rest)) = Some v"
    using getl_word_bytes [of v "stack_bytes (vs @ [b]) @ rest"] by (simp add: stack_bytes_def flip: length_stack_bytes)
  moreover have "backtrace (stack_bytes (us @ (v # vs) @ [b]) @ rest) (length us + 1) = Some (Inr (length us + 1 + length vs + 1))"
    using Cons.IH [of "us @ [v]"] Cons.prems by simp
  ultimately show ?case using Cons.prems by (subst backtrace.simps) simp
qed

section \<open>The contract\<close>

definition xrep_ready :: "nn_xrep \<Rightarrow> pipe set" where
  "xrep_ready s = {p. hi_inlist (xrep_items s p) \<and> xrep_flags s p AND NN_XREP_OUT \<noteq> 0}"

definition xrep_inv :: "nn_xrep \<Rightarrow> bool" where
  "xrep_inv s \<longleftrightarrow> hash_inv (xrep_items s) (xrep_outpipes s) \<and> priolist_inv (xrep_inpipes s)
     \<and> pl_members (xrep_inpipes s) = {p. hi_inlist (xrep_items s p)}"

definition xrep_room :: "nn_xrep \<Rightarrow> bool" where
  "xrep_room s \<longleftrightarrow> hash_room (xrep_outpipes s) \<and> nn_hash_get (xrep_items s) (xrep_outpipes s) (xrep_key s) = None"

lemma xrep_out_bit: "x AND NN_XREP_OUT \<noteq> 0 \<longleftrightarrow> bit x 0"
  using bit_iff_and_push_bit_not_eq_0 [of x 0] by (simp add: NN_XREP_OUT_def)

lemma xrep_out_flags [simp]:
  "bit (x OR NN_XREP_OUT) 0" "\<not> bit (x AND NOT NN_XREP_OUT) 0" for x :: u32
  by (auto simp: NN_XREP_OUT_def bit_simps)

lemma xrep_ready_bit: "p \<in> xrep_ready s \<longleftrightarrow> hi_inlist (xrep_items s p) \<and> bit (xrep_flags s p) 0"
  by (simp add: xrep_ready_def xrep_out_bit)

text \<open>In a consistent table a pipe is found under its own key, and under no other.\<close>

lemma xrep_get:
  assumes "hash_inv st h"
  shows "nn_hash_get st h key = Some p \<longleftrightarrow> hi_inlist (st p) \<and> hi_key (st p) = key"
  using nn_hash_get_iff [OF assms] assms by (auto simp: hash_inv_def)

lemma xrep_add_ok:
  assumes inv: "xrep_inv s" and new: "p \<notin> pl_members (xrep_inpipes s)" and prio: "prio_ok (w_pipes w p)" and room: "xrep_room s"
  shows "\<exists>s'. nn_xrep_add w s p = Some (w, s', Inr ()) \<and> xrep_inv s'
     \<and> pl_members (xrep_inpipes s') = insert p (pl_members (xrep_inpipes s))
     \<and> pl_active (xrep_inpipes s') = pl_active (xrep_inpipes s) \<and> xrep_ready s' = xrep_ready s
     \<and> nn_hash_get (xrep_items s') (xrep_outpipes s') = (nn_hash_get (xrep_items s) (xrep_outpipes s))(xrep_key s \<mapsto> p)"
proof -
  let ?it = "nn_hash_item_init (xrep_items s) p"
  have np: "\<not> hi_inlist (xrep_items s p)" using inv new by (auto simp: xrep_inv_def)
  then have it: "?it = xrep_items s" by (auto simp: nn_hash_item_init_def fun_eq_iff)
  have h: "hash_inv (xrep_items s) (xrep_outpipes s)" "hash_room (xrep_outpipes s)"
    "nn_hash_get (xrep_items s) (xrep_outpipes s) (xrep_key s) = None" "priolist_inv (xrep_inpipes s)"
    using inv room by (auto simp: xrep_inv_def xrep_room_def)
  from nn_hash_insert_ok [OF h(1-3) np] obtain st' h' where
    ins: "nn_hash_insert (xrep_items s) (xrep_outpipes s) (xrep_key s) p = Some (st', h')" "hash_inv st' h'"
      "nn_hash_get st' h' = (nn_hash_get (xrep_items s) (xrep_outpipes s))(xrep_key s \<mapsto> p)"
      "\<forall>it. hi_inlist (st' it) \<longleftrightarrow> hi_inlist (xrep_items s it) \<or> it = p" by blast
  from fq_add_ok [OF h(4) new prio] obtain v where
    v: "pipe_prio w p NN_RCVPRIO = Some v" "priolist_inv (nn_fq_add (xrep_inpipes s) p v)"
      "pl_members (nn_fq_add (xrep_inpipes s) p v) = insert p (pl_members (xrep_inpipes s))"
      "pl_active (nn_fq_add (xrep_inpipes s) p v) = pl_active (xrep_inpipes s)" by blast
  let ?s = "s\<lparr>xrep_flags := (xrep_flags s)(p := 0), xrep_items := st', xrep_outpipes := h',
     xrep_next_key := xrep_next_key s + 1, xrep_inpipes := nn_fq_add (xrep_inpipes s) p v\<rparr>"
  have "nn_xrep_add w s p = Some (w, ?s, Inr ())"
    using v(1) ins(1) it by (simp add: nn_xrep_add_def Let_def xrep_key_def)
  moreover have "xrep_ready ?s = xrep_ready s" using ins(4) np by (auto simp: xrep_ready_bit split: if_splits)
  moreover have "xrep_inv ?s" using inv ins v by (auto simp: xrep_inv_def)
  ultimately show ?thesis using v ins by simp
qed

lemma xrep_rm_ok:
  assumes inv: "xrep_inv s" and mem: "p \<in> pl_members (xrep_inpipes s)"
  shows "\<exists>s'. nn_xrep_rm w s p = Some (w, s') \<and> xrep_inv s'
     \<and> pl_members (xrep_inpipes s') = pl_members (xrep_inpipes s) - {p}
     \<and> pl_active (xrep_inpipes s') = pl_active (xrep_inpipes s) - {p} \<and> xrep_ready s' = xrep_ready s - {p}"
proof -
  have h: "hash_inv (xrep_items s) (xrep_outpipes s)" "priolist_inv (xrep_inpipes s)" "hi_inlist (xrep_items s p)"
    using inv mem by (auto simp: xrep_inv_def)
  then have "nn_hash_get (xrep_items s) (xrep_outpipes s) (hi_key (xrep_items s p)) = Some p" by (simp add: xrep_get)
  from nn_hash_erase_ok [OF h(1) this] obtain st' h' where
    del: "nn_hash_erase (xrep_items s) (xrep_outpipes s) p = Some (st', h')" "hash_inv st' h'"
      "\<forall>j. hi_inlist (st' j) \<longleftrightarrow> hi_inlist (xrep_items s j) \<and> j \<noteq> p" by blast
  from fq_rm_ok [OF h(2) mem] obtain fq where
    fq: "nn_fq_rm (xrep_inpipes s) p = Some fq" "priolist_inv fq" "pl_members fq = pl_members (xrep_inpipes s) - {p}"
      "pl_active fq = pl_active (xrep_inpipes s) - {p}" by blast
  let ?s = "s\<lparr>xrep_inpipes := fq, xrep_items := st', xrep_outpipes := h'\<rparr>"
  have "nn_xrep_rm w s p = Some (w, ?s)" using fq(1) del(1,3) by (simp add: nn_xrep_rm_def nn_hash_item_term_def)
  moreover have "xrep_inv ?s" unfolding xrep_inv_def using inv del(2,3) fq(2,3) by (simp add: xrep_inv_def) blast
  moreover have "xrep_ready ?s = xrep_ready s - {p}" by (simp add: set_eq_iff xrep_ready_bit del(3)) blast
  ultimately show ?thesis using fq by simp
qed

context transport
begin

text \<open>A reply is sent to the pipe whose key heads it, if that pipe is ready, and dropped otherwise.\<close>

lemma xrep_send_ready:
  assumes inv: "xrep_inv s" and w: "trans_ok tinv w" "out_ready w (xrep_ready s)"
  shows "\<exists>w' s'. nn_xrep_send vf w s m = Some (w', s', Inr 0) \<and> trans_ok tinv w' \<and> out_step (xrep_ready s) w w' \<and> xrep_inv s'
     \<and> xrep_inpipes s' = xrep_inpipes s \<and> xrep_items s' = xrep_items s \<and> xrep_outpipes s' = xrep_outpipes s
     \<and> xrep_ready s' = {p \<in> xrep_ready s. out_idle w' p}"
proof -
  have idle: "{p \<in> xrep_ready s. out_idle w p} = xrep_ready s" using w(2) by (auto simp: out_ready_def)
  have drop: "?thesis" if "nn_xrep_send vf w s m = Some (w, s, Inr 0)" using that inv w(1) idle by simp
  show ?thesis
  proof (cases "length (sphdr m) < 4")
    case True
    then show ?thesis by (intro drop) (simp add: nn_xrep_send_def)
  next
    case False
    then obtain key where key: "nn_getl (sphdr m) = Some key" using wire32.get_total [of "sphdr m"] by auto
    show ?thesis
    proof (cases "nn_hash_get (xrep_items s) (xrep_outpipes s) key")
      case None
      then show ?thesis using False key by (intro drop) (simp add: nn_xrep_send_def)
    next
      case (Some p)
      then have mem: "hi_inlist (xrep_items s p)" using inv by (simp add: xrep_inv_def xrep_get)
      show ?thesis
      proof (cases "p \<in> xrep_ready s")
        case False2: False
        then have "xrep_flags s p AND NN_XREP_OUT = 0" using mem by (simp add: xrep_ready_def)
        then show ?thesis using False key Some by (intro drop) (simp add: nn_xrep_send_def)
      next
        case True
        then have "pipe_active w p" "out_idle w p" using w(2) by (auto simp: out_ready_def)
        from nn_pipe_send_ok [OF w(1) this, of "m\<lparr>sphdr := drop 4 (sphdr m)\<rparr>"] obtain w' rc where
          *: "nn_pipe_send vf w p (m\<lparr>sphdr := drop 4 (sphdr m)\<rparr>) = Some (w', rc)" "trans_ok tinv w'" "out_step {p} w w'"
            "rc AND NN_PIPE_RELEASE = 0 \<longleftrightarrow> out_idle w' p" by blast
        have fl: "xrep_flags s p AND NN_XREP_OUT \<noteq> 0" using True by (simp add: xrep_ready_def)
        let ?s = "if rc AND NN_PIPE_RELEASE \<noteq> 0
          then s\<lparr>xrep_flags := (xrep_flags s)(p := xrep_flags s p AND NOT NN_XREP_OUT)\<rparr> else s"
        have "nn_xrep_send vf w s m = Some (w', ?s, Inr 0)"
          using False key Some fl *(1) by (simp add: nn_xrep_send_def Let_def)
        moreover have other: "out_idle w' q" if "q \<in> xrep_ready s" "q \<noteq> p" for q
          using that w(2) out_step_facts(6) [OF *(3), of q] by (auto simp: out_ready_def)
        have "xrep_ready ?s = (if rc AND NN_PIPE_RELEASE \<noteq> 0 then xrep_ready s - {p} else xrep_ready s)"
          by (auto simp: xrep_ready_bit split: if_splits)
        then have "xrep_ready ?s = {q \<in> xrep_ready s. out_idle w' q}" using *(4) other by auto
        moreover have "out_step (xrep_ready s) w w'" using *(3) True by (auto simp: out_step_def)
        ultimately show ?thesis using *(2) inv by (intro exI [of _ w'] exI [of _ ?s]) (simp add: xrep_inv_def)
      qed
    qed
  qed
qed

lemma xrep_recv_ready:
  assumes inv: "xrep_inv s" and w: "trans_ok tinv w" "in_ready w (pl_active (xrep_inpipes s))"
  shows "\<exists>w' s' r. nn_xrep_recv ttl vf w s = Some (w', s', r) \<and> trans_ok tinv w'
     \<and> in_step (pl_active (xrep_inpipes s)) w w' \<and> xrep_inv s'
     \<and> xrep_items s' = xrep_items s \<and> xrep_flags s' = xrep_flags s \<and> xrep_outpipes s' = xrep_outpipes s
     \<and> pl_members (xrep_inpipes s') = pl_members (xrep_inpipes s)
     \<and> pl_active (xrep_inpipes s') = {p \<in> pl_active (xrep_inpipes s). in_idle w' p}
     \<and> (\<forall>m. r = Inr m \<longrightarrow> (\<exists>p \<in> pl_active (xrep_inpipes s). take 4 (sphdr m) = word_bytes (hi_key (xrep_items s p))))"
proof -
  from inv have "priolist_inv (xrep_inpipes s)" by (simp add: xrep_inv_def)
  from fq_recv_ready [OF this w] obtain w' fq r where
    *: "nn_fq_recv vf w (xrep_inpipes s) = Some (w', fq, r)" "trans_ok tinv w'" "in_step (pl_active (xrep_inpipes s)) w w'"
      "priolist_inv fq" "pl_members fq = pl_members (xrep_inpipes s)" "pl_active fq = {q \<in> pl_active (xrep_inpipes s). in_idle w' q}"
    and r: "case r of Inl e \<Rightarrow> e = EAGAIN \<and> w' = w \<and> fq = xrep_inpipes s
        | Inr (rc, p, m) \<Rightarrow> p \<in> pl_active (xrep_inpipes s) \<and> (rc AND NN_PIPE_PARSED = 0 \<longrightarrow> sphdr m = [])
            \<and> avail (w_trans w') p < avail (w_trans w) p \<and> (\<forall>q. avail (w_trans w') q \<le> avail (w_trans w) q)" by blast
  let ?s = "s\<lparr>xrep_inpipes := fq\<rparr>"
  have "\<exists>r'. nn_xrep_recv ttl vf w s = Some (w', ?s, r') \<and>
    (\<forall>m. r' = Inr m \<longrightarrow> (\<exists>p \<in> pl_active (xrep_inpipes s). take 4 (sphdr m) = word_bytes (hi_key (xrep_items s p))))"
  proof (cases r)
    case (Inl e) then show ?thesis using *(1) by (simp add: nn_xrep_recv_def Let_def)
  next
    case (Inr v)
    obtain rc p m where v: "v = (rc, p, m)" by (cases v) auto
    have p: "p \<in> pl_active (xrep_inpipes s)" "rc AND NN_PIPE_PARSED = 0 \<longrightarrow> sphdr m = []" using r Inr v by auto
    then obtain m' where m': "(if rc AND NN_PIPE_PARSED = 0 then split_backtrace ttl m else Some (Inr m)) = Some m'"
      using split_backtrace_total [of m ttl] by (cases "rc AND NN_PIPE_PARSED = 0") auto
    then show ?thesis using *(1) Inr v p(1)
      by (cases m') (auto simp: nn_xrep_recv_def Let_def push_key_def putl_word_bytes)
  qed
  then show ?thesis using * inv by (auto simp: xrep_inv_def)
qed

end

sublocale transport \<subseteq> xrep: raw_socket vf tinv avail "nn_xrep_sockbase_vfptr ttl vf" Tracks Tracks xrep_inv
  "\<lambda>s. pl_members (xrep_inpipes s)" "\<lambda>s. pl_active (xrep_inpipes s)" xrep_ready xrep_room for ttl
proof (unfold_locales, goal_cases)
  case (2 s p w)
  from xrep_add_ok [OF 2] obtain s' where "nn_xrep_add w s p = Some (w, s', Inr ())" "xrep_inv s'"
    "pl_members (xrep_inpipes s') = insert p (pl_members (xrep_inpipes s))"
    "pl_active (xrep_inpipes s') = pl_active (xrep_inpipes s)" "xrep_ready s' = xrep_ready s" by blast
  then show ?case by (intro exI [of _ w] exI [of _ s'] exI [of _ "Inr ()"]) (simp add: nn_xrep_sockbase_vfptr_def)
next
  case (3 s p w)
  then show ?case using xrep_rm_ok [of s p w] by (auto simp: nn_xrep_sockbase_vfptr_def)
next
  case (4 s p w)
  then show ?case using fq_in_ok [of "xrep_inpipes s" p]
    by (auto simp: nn_xrep_sockbase_vfptr_def nn_xrep_in_def xrep_inv_def xrep_ready_def tracked_def)
next
  case (5 s p w)
  let ?s = "s\<lparr>xrep_flags := (xrep_flags s)(p := xrep_flags s p OR NN_XREP_OUT)\<rparr>"
  have "hi_inlist (xrep_items s p)" using 5 by (auto simp: xrep_inv_def)
  then have "xrep_ready ?s = insert p (xrep_ready s)" by (auto simp: xrep_ready_bit split: if_splits)
  then show ?case using 5(1) by (auto simp: nn_xrep_sockbase_vfptr_def nn_xrep_out_def tracked_def xrep_inv_def)
next
  case (6 f s w m)
  then show ?case using xrep_send_ready [of s w m] by (auto simp: nn_xrep_sockbase_vfptr_def)
next
  case (7 g s w)
  from xrep_recv_ready [OF 7(2-4), of ttl] obtain w' s' r where
    *: "nn_xrep_recv ttl vf w s = Some (w', s', r)" "trans_ok tinv w'" "in_step (pl_active (xrep_inpipes s)) w w'" "xrep_inv s'"
      "xrep_items s' = xrep_items s" "xrep_flags s' = xrep_flags s" "pl_members (xrep_inpipes s') = pl_members (xrep_inpipes s)"
      "pl_active (xrep_inpipes s') = {p \<in> pl_active (xrep_inpipes s). in_idle w' p}" by blast
  have "xrep_ready s' = xrep_ready s" using *(5,6) by (simp add: xrep_ready_def)
  moreover have "g = nn_xrep_recv ttl vf" using 7(1) by (simp add: nn_xrep_sockbase_vfptr_def)
  ultimately show ?case using * by simp
qed simp

end
