(* ===== verification/Survey_Raw.thy ===== *)
theory Survey_Raw
  imports Xrep
begin

text \<open>
  The raw SURVEYOR and RESPONDENT sockets (\<open>src/protocols/survey/xsurveyor.c\<close>, \<open>xrespondent.c\<close>). The
  RESPONDENT routes responses by key like the REP socket; an isomorphism of the two states carries
  every operation over, so the facts of \<open>Xrep\<close> hold for it.
\<close>

section \<open>SURVEYOR\<close>

record nn_xsurveyor =
  xsurv_outpipes :: nn_dist
  xsurv_inpipes :: nn_fq

definition nn_xsurveyor_init :: nn_xsurveyor where
  "nn_xsurveyor_init = \<lparr>xsurv_outpipes = nn_dist_init, xsurv_inpipes = nn_fq_init\<rparr>"

definition nn_xsurveyor_term :: "nn_xsurveyor \<Rightarrow> unit option" where
  "nn_xsurveyor_term self = do { nn_fq_term (xsurv_inpipes self); nn_dist_term (xsurv_outpipes self) }"

definition nn_xsurveyor_add :: "('t, nn_xsurveyor) sock_add" where
  "nn_xsurveyor_add w self pipe = do {
     rcvprio \<leftarrow> pipe_prio w pipe NN_RCVPRIO;
     let self = self\<lparr>xsurv_inpipes := nn_fq_add (xsurv_inpipes self) pipe rcvprio\<rparr>;
     Some (w, self\<lparr>xsurv_outpipes := nn_dist_add (xsurv_outpipes self) pipe\<rparr>, Inr ()) }"

definition nn_xsurveyor_rm :: "('t, nn_xsurveyor) sock_fn" where
  "nn_xsurveyor_rm w self pipe = do {
     fq \<leftarrow> nn_fq_rm (xsurv_inpipes self) pipe;
     d \<leftarrow> nn_dist_rm (xsurv_outpipes self) pipe;
     Some (w, self\<lparr>xsurv_inpipes := fq, xsurv_outpipes := d\<rparr>) }"

definition nn_xsurveyor_in :: "('t, nn_xsurveyor) sock_fn" where
  "nn_xsurveyor_in w self pipe = do {
     fq \<leftarrow> nn_fq_in (xsurv_inpipes self) pipe;
     Some (w, self\<lparr>xsurv_inpipes := fq\<rparr>) }"

definition nn_xsurveyor_out :: "('t, nn_xsurveyor) sock_fn" where
  "nn_xsurveyor_out w self pipe = do {
     d \<leftarrow> nn_dist_out (xsurv_outpipes self) pipe;
     Some (w, self\<lparr>xsurv_outpipes := d\<rparr>) }"

definition nn_xsurveyor_events :: "nn_xsurveyor \<Rightarrow> u32" where
  "nn_xsurveyor_events self =
    (let events = NN_SOCKBASE_EVENT_OUT
     in if nn_fq_can_recv (xsurv_inpipes self) then events OR NN_SOCKBASE_EVENT_IN else events)"

definition nn_xsurveyor_send :: "'t nn_pipebase_vfptr \<Rightarrow> 't world \<Rightarrow> nn_xsurveyor \<Rightarrow> nn_msg \<Rightarrow>
  ('t world \<times> nn_xsurveyor \<times> (errno + u32)) option" where
  "nn_xsurveyor_send vf w self msg = do {
     (w, d) \<leftarrow> nn_dist_send vf w (xsurv_outpipes self) msg None;
     Some (w, self\<lparr>xsurv_outpipes := d\<rparr>, Inr 0) }"

definition nn_xsurveyor_recv :: "'t nn_pipebase_vfptr \<Rightarrow> 't world \<Rightarrow> nn_xsurveyor \<Rightarrow>
  ('t world \<times> nn_xsurveyor \<times> (errno + nn_msg)) option" where
  "nn_xsurveyor_recv vf w self = do {
     (w, fq, r) \<leftarrow> nn_fq_recv vf w (xsurv_inpipes self);
     let self = self\<lparr>xsurv_inpipes := fq\<rparr>;
     (case r of
        Inl e \<Rightarrow> Some (w, self, Inl e)
      | Inr (rc, _, msg) \<Rightarrow>
          if rc AND NN_PIPE_PARSED = 0 then do { m \<leftarrow> split_word msg; Some (w, self, m) }
          else Some (w, self, Inr msg)) }"

definition nn_xsurveyor_sockbase_vfptr :: "'t nn_pipebase_vfptr \<Rightarrow> ('t, nn_xsurveyor) nn_sockbase_vfptr" where
  "nn_xsurveyor_sockbase_vfptr vf = \<lparr>sb_add = nn_xsurveyor_add, sb_rm = nn_xsurveyor_rm, sb_in = nn_xsurveyor_in,
     sb_out = nn_xsurveyor_out, sb_send = Some (nn_xsurveyor_send vf), sb_recv = Some (nn_xsurveyor_recv vf)\<rparr>"

lemmas xsurveyor_defs = nn_xsurveyor_sockbase_vfptr_def nn_xsurveyor_add_def nn_xsurveyor_rm_def nn_xsurveyor_in_def
  nn_xsurveyor_out_def nn_xsurveyor_send_def nn_xsurveyor_recv_def

definition xsurveyor_inv :: "nn_xsurveyor \<Rightarrow> bool" where
  "xsurveyor_inv s \<longleftrightarrow> dist_inv (xsurv_outpipes s) \<and> priolist_inv (xsurv_inpipes s)
     \<and> pl_members (xsurv_inpipes s) = dist_members (xsurv_outpipes s)"

context transport
begin

lemma xsurveyor_recv_ready:
  assumes inv: "xsurveyor_inv s" and w: "trans_ok tinv w" "in_ready w (pl_active (xsurv_inpipes s))"
  shows "\<exists>w' s' r. nn_xsurveyor_recv vf w s = Some (w', s', r) \<and> trans_ok tinv w'
     \<and> (case r of Inl e \<Rightarrow> e = EAGAIN | Inr _ \<Rightarrow> \<exists>p \<in> pl_active (xsurv_inpipes s). avail (w_trans w') p < avail (w_trans w) p
          \<and> (\<forall>q. avail (w_trans w') q \<le> avail (w_trans w) q))
     \<and> in_step (pl_active (xsurv_inpipes s)) w w' \<and> xsurveyor_inv s' \<and> xsurv_outpipes s' = xsurv_outpipes s
     \<and> pl_members (xsurv_inpipes s') = pl_members (xsurv_inpipes s)
     \<and> pl_active (xsurv_inpipes s') = {p \<in> pl_active (xsurv_inpipes s). in_idle w' p}"
proof -
  from inv have "priolist_inv (xsurv_inpipes s)" by (simp add: xsurveyor_inv_def)
  from fq_recv_ready [OF this w] obtain w' fq r where
    *: "nn_fq_recv vf w (xsurv_inpipes s) = Some (w', fq, r)" "trans_ok tinv w'" "in_step (pl_active (xsurv_inpipes s)) w w'"
      "priolist_inv fq" "pl_members fq = pl_members (xsurv_inpipes s)" "pl_active fq = {q \<in> pl_active (xsurv_inpipes s). in_idle w' q}"
    and r: "case r of Inl e \<Rightarrow> e = EAGAIN \<and> w' = w \<and> fq = xsurv_inpipes s
        | Inr (rc, p, m) \<Rightarrow> p \<in> pl_active (xsurv_inpipes s) \<and> (rc AND NN_PIPE_PARSED = 0 \<longrightarrow> sphdr m = [])
            \<and> avail (w_trans w') p < avail (w_trans w) p \<and> (\<forall>q. avail (w_trans w') q \<le> avail (w_trans w) q)" by blast
  have "\<exists>r'. nn_xsurveyor_recv vf w s = Some (w', s\<lparr>xsurv_inpipes := fq\<rparr>, r')
      \<and> (case r' of Inl e \<Rightarrow> e = EAGAIN | Inr _ \<Rightarrow> \<exists>p \<in> pl_active (xsurv_inpipes s). avail (w_trans w') p < avail (w_trans w) p
          \<and> (\<forall>q. avail (w_trans w') q \<le> avail (w_trans w) q))"
  proof (cases r)
    case (Inl e) then show ?thesis using *(1) r by (simp add: nn_xsurveyor_recv_def Let_def)
  next
    case (Inr v)
    obtain rc p m where v: "v = (rc, p, m)" by (cases v) auto
    then show ?thesis using *(1) r Inr
      by (cases "rc AND NN_PIPE_PARSED = 0") (auto simp: nn_xsurveyor_recv_def Let_def split_word_def)
  qed
  then show ?thesis using * inv by (auto simp: xsurveyor_inv_def)
qed

end

sublocale transport \<subseteq> xsurveyor: raw_socket vf tinv avail "nn_xsurveyor_sockbase_vfptr vf" Tracks Tracks xsurveyor_inv
  "\<lambda>s. dist_members (xsurv_outpipes s)" "\<lambda>s. pl_active (xsurv_inpipes s)" "\<lambda>s. set (d_pipes (xsurv_outpipes s))" "\<lambda>_. True"
proof (unfold_locales, goal_cases)
  case (2 s p w)
  then show ?case using fq_add_ok [of "xsurv_inpipes s" p w] nn_dist_add_ok [of "xsurv_outpipes s" p]
    by (auto simp: xsurveyor_defs xsurveyor_inv_def Let_def split del: if_split)
next
  case (3 s p w)
  then show ?case using fq_rm_ok [of "xsurv_inpipes s" p] nn_dist_rm_ok [of "xsurv_outpipes s" p]
    by (auto simp: xsurveyor_defs xsurveyor_inv_def)
next
  case (4 s p w)
  then show ?case using fq_in_ok [of "xsurv_inpipes s" p] by (auto simp: xsurveyor_defs xsurveyor_inv_def tracked_def)
next
  case (5 s p w)
  then show ?case using nn_dist_out_ok [of "xsurv_outpipes s" p] by (auto simp: xsurveyor_defs xsurveyor_inv_def tracked_def)
next
  case (6 f s w m)
  then show ?case using nn_dist_send_ok [of "xsurv_outpipes s" w m None]
    by (auto simp: xsurveyor_defs xsurveyor_inv_def)
next
  case (7 g s w)
  then show ?case using xsurveyor_recv_ready [of s w] by (auto simp: nn_xsurveyor_sockbase_vfptr_def)
qed simp

section \<open>RESPONDENT\<close>

definition NN_XRESPONDENT_OUT :: u32 where "NN_XRESPONDENT_OUT = 1"

record nn_xrespondent =
  xresp_next_key :: u32
  xresp_items :: hash_store
  xresp_outpipes :: nn_hash
  xresp_inpipes :: nn_fq
  xresp_flags :: "pipe \<Rightarrow> u32"

text \<open>\<open>key\<close> is the value of \<open>nn_random_generate\<close>; \<open>items\<close> and \<open>flags\<close> are the unspecified contents of memory.\<close>

definition nn_xrespondent_init :: "u32 \<Rightarrow> hash_store \<Rightarrow> (pipe \<Rightarrow> u32) \<Rightarrow> nn_xrespondent" where
  "nn_xrespondent_init key items flags = \<lparr>xresp_next_key = key, xresp_items = items, xresp_outpipes = nn_hash_init,
     xresp_inpipes = nn_fq_init, xresp_flags = flags\<rparr>"

definition nn_xrespondent_term :: "nn_xrespondent \<Rightarrow> unit option" where
  "nn_xrespondent_term self = do { nn_fq_term (xresp_inpipes self); nn_hash_term (xresp_outpipes self) }"

definition xresp_key :: "nn_xrespondent \<Rightarrow> u32" where
  "xresp_key self = xresp_next_key self AND 0x7fffffff"

definition nn_xrespondent_add :: "('t, nn_xrespondent) sock_add" where
  "nn_xrespondent_add w self pipe = do {
     rcvprio \<leftarrow> pipe_prio w pipe NN_RCVPRIO;
     let items = nn_hash_item_init (xresp_items self) pipe;
     let self = self\<lparr>xresp_flags := (xresp_flags self)(pipe := 0)\<rparr>;
     (items, h) \<leftarrow> nn_hash_insert items (xresp_outpipes self) (xresp_key self) pipe;
     let self = self\<lparr>xresp_items := items, xresp_outpipes := h, xresp_next_key := xresp_next_key self + 1\<rparr>;
     Some (w, self\<lparr>xresp_inpipes := nn_fq_add (xresp_inpipes self) pipe rcvprio\<rparr>, Inr ()) }"

definition nn_xrespondent_rm :: "('t, nn_xrespondent) sock_fn" where
  "nn_xrespondent_rm w self pipe = do {
     fq \<leftarrow> nn_fq_rm (xresp_inpipes self) pipe;
     (items, h) \<leftarrow> nn_hash_erase (xresp_items self) (xresp_outpipes self) pipe;
     nn_hash_item_term items pipe;
     Some (w, self\<lparr>xresp_inpipes := fq, xresp_items := items, xresp_outpipes := h\<rparr>) }"

definition nn_xrespondent_in :: "('t, nn_xrespondent) sock_fn" where
  "nn_xrespondent_in w self pipe = do {
     fq \<leftarrow> nn_fq_in (xresp_inpipes self) pipe;
     Some (w, self\<lparr>xresp_inpipes := fq\<rparr>) }"

definition nn_xrespondent_out :: "('t, nn_xrespondent) sock_fn" where
  "nn_xrespondent_out w self pipe =
     Some (w, self\<lparr>xresp_flags := (xresp_flags self)(pipe := xresp_flags self pipe OR NN_XRESPONDENT_OUT)\<rparr>)"

definition nn_xrespondent_events :: "nn_xrespondent \<Rightarrow> u32" where
  "nn_xrespondent_events self =
     (if nn_fq_can_recv (xresp_inpipes self) then NN_SOCKBASE_EVENT_IN else 0) OR NN_SOCKBASE_EVENT_OUT"

definition nn_xrespondent_send :: "'t nn_pipebase_vfptr \<Rightarrow> 't world \<Rightarrow> nn_xrespondent \<Rightarrow> nn_msg \<Rightarrow>
  ('t world \<times> nn_xrespondent \<times> (errno + u32)) option" where
  "nn_xrespondent_send vf w self msg =
    (if length (sphdr msg) < 4 then Some (w, self, Inr 0)
     else do {
       key \<leftarrow> nn_getl (sphdr msg);
       let msg = msg\<lparr>sphdr := drop 4 (sphdr msg)\<rparr>;
       (case nn_hash_get (xresp_items self) (xresp_outpipes self) key of
          None \<Rightarrow> Some (w, self, Inr 0)
        | Some pipe \<Rightarrow>
            if xresp_flags self pipe AND NN_XRESPONDENT_OUT = 0 then Some (w, self, Inr 0)
            else do {
              (w, rc) \<leftarrow> nn_pipe_send vf w pipe msg;
              let self = (if rc AND NN_PIPE_RELEASE \<noteq> 0
                then self\<lparr>xresp_flags := (xresp_flags self)(pipe := xresp_flags self pipe AND NOT NN_XRESPONDENT_OUT)\<rparr> else self);
              Some (w, self, Inr 0) }) })"

text \<open>\<open>maxttl\<close> is the socket option \<open>NN_MAXTTL\<close>.\<close>

definition nn_xrespondent_recv :: "int \<Rightarrow> 't nn_pipebase_vfptr \<Rightarrow> 't world \<Rightarrow> nn_xrespondent \<Rightarrow>
  ('t world \<times> nn_xrespondent \<times> (errno + nn_msg)) option" where
  "nn_xrespondent_recv maxttl vf w self = do {
     (w, fq, r) \<leftarrow> nn_fq_recv vf w (xresp_inpipes self);
     let self = self\<lparr>xresp_inpipes := fq\<rparr>;
     (case r of
        Inl e \<Rightarrow> Some (w, self, Inl e)
      | Inr (rc, pipe, msg) \<Rightarrow> do {
          m \<leftarrow> (if rc AND NN_PIPE_PARSED = 0 then split_backtrace maxttl msg else Some (Inr msg));
          (case m of
             Inl e \<Rightarrow> Some (w, self, Inl e)
           | Inr msg \<Rightarrow> do {
               msg \<leftarrow> push_key (hi_key (xresp_items self pipe)) msg;
               Some (w, self, Inr msg) }) }) }"

definition nn_xrespondent_sockbase_vfptr :: "int \<Rightarrow> 't nn_pipebase_vfptr \<Rightarrow> ('t, nn_xrespondent) nn_sockbase_vfptr" where
  "nn_xrespondent_sockbase_vfptr maxttl vf = \<lparr>sb_add = nn_xrespondent_add, sb_rm = nn_xrespondent_rm, sb_in = nn_xrespondent_in,
     sb_out = nn_xrespondent_out, sb_send = Some (nn_xrespondent_send vf), sb_recv = Some (nn_xrespondent_recv maxttl vf)\<rparr>"


section \<open>Equivalence with the REP socket\<close>

definition as_xrep :: "nn_xrespondent \<Rightarrow> nn_xrep" where
  "as_xrep s = \<lparr>xrep_next_key = xresp_next_key s, xrep_items = xresp_items s, xrep_outpipes = xresp_outpipes s,
     xrep_inpipes = xresp_inpipes s, xrep_flags = xresp_flags s\<rparr>"

definition of_xrep :: "nn_xrep \<Rightarrow> nn_xrespondent" where
  "of_xrep s = \<lparr>xresp_next_key = xrep_next_key s, xresp_items = xrep_items s, xresp_outpipes = xrep_outpipes s,
     xresp_inpipes = xrep_inpipes s, xresp_flags = xrep_flags s\<rparr>"

lemma as_of_xrep [simp]: "as_xrep (of_xrep s) = s" "of_xrep (as_xrep r) = r"
  by (simp_all add: as_xrep_def of_xrep_def)

lemma option_bind_cong: "(\<And>a. x = Some a \<Longrightarrow> f a = g a) \<Longrightarrow> x \<bind> f = x \<bind> g"
  by (cases x) auto

lemma map_option_bind: "map_option f (x \<bind> g) = x \<bind> (\<lambda>a. map_option f (g a))"
  by (cases x) auto

lemma xrespondent_add_eq: "nn_xrespondent_add w s p = map_option (\<lambda>(w, s, r). (w, of_xrep s, r)) (nn_xrep_add w (as_xrep s) p)"
  by (auto simp: nn_xrespondent_add_def nn_xrep_add_def map_option_bind Let_def xresp_key_def xrep_key_def as_xrep_def of_xrep_def
      intro!: option_bind_cong split: prod.splits)

lemma xrespondent_rm_eq: "nn_xrespondent_rm w s p = map_option (\<lambda>(w, s). (w, of_xrep s)) (nn_xrep_rm w (as_xrep s) p)"
  by (auto simp: nn_xrespondent_rm_def nn_xrep_rm_def map_option_bind as_xrep_def of_xrep_def intro!: option_bind_cong split: prod.splits)

lemma xrespondent_in_eq: "nn_xrespondent_in w s p = map_option (\<lambda>(w, s). (w, of_xrep s)) (nn_xrep_in w (as_xrep s) p)"
  by (auto simp: nn_xrespondent_in_def nn_xrep_in_def map_option_bind as_xrep_def of_xrep_def intro!: option_bind_cong)

lemma xrespondent_out_eq: "nn_xrespondent_out w s p = map_option (\<lambda>(w, s). (w, of_xrep s)) (nn_xrep_out w (as_xrep s) p)"
  by (simp add: nn_xrespondent_out_def nn_xrep_out_def as_xrep_def of_xrep_def NN_XREP_OUT_def NN_XRESPONDENT_OUT_def)

lemma xrespondent_send_eq:
  "nn_xrespondent_send vf w s m = map_option (\<lambda>(w, s, r). (w, of_xrep s, r)) (nn_xrep_send vf w (as_xrep s) m)"
  by (auto simp: nn_xrespondent_send_def nn_xrep_send_def map_option_bind Let_def as_xrep_def of_xrep_def
      NN_XREP_OUT_def NN_XRESPONDENT_OUT_def intro!: option_bind_cong split: prod.splits option.splits)

lemma xrespondent_recv_eq:
  "nn_xrespondent_recv ttl vf w s = map_option (\<lambda>(w, s, r). (w, of_xrep s, r)) (nn_xrep_recv ttl vf w (as_xrep s))"
  by (auto simp: nn_xrespondent_recv_def nn_xrep_recv_def map_option_bind Let_def as_xrep_def of_xrep_def
      intro!: option_bind_cong split: prod.splits sum.splits)

lemma xrespondent_life:
  "as_xrep (nn_xrespondent_init key items flags) = nn_xrep_init key items flags"
  "nn_xrespondent_term x = nn_xrep_term (as_xrep x)"
  "nn_xrespondent_events x = nn_xrep_events (as_xrep x)"
  by (simp_all add: as_xrep_def nn_xrespondent_init_def nn_xrep_init_def nn_xrespondent_term_def nn_xrep_term_def
      nn_xrespondent_events_def nn_xrep_events_def)

lemmas xrespondent_eqs = xrespondent_add_eq xrespondent_rm_eq xrespondent_in_eq xrespondent_out_eq
  xrespondent_send_eq xrespondent_recv_eq

sublocale transport \<subseteq> xrespondent: raw_socket vf tinv avail "nn_xrespondent_sockbase_vfptr ttl vf" Tracks Tracks
  "\<lambda>s. xrep_inv (as_xrep s)" "\<lambda>s. pl_members (xrep_inpipes (as_xrep s))" "\<lambda>s. pl_active (xrep_inpipes (as_xrep s))"
  "\<lambda>s. xrep_ready (as_xrep s)" "\<lambda>s. xrep_room (as_xrep s)" for ttl
proof (unfold_locales, goal_cases)
  case (2 s p w)
  from xrep.add_law [OF 2, of ttl] obtain w' s' rc where
    *: "nn_xrep_add w (as_xrep s) p = Some (w', s', rc)" "stat_frame w w'" "xrep_inv s'"
      "pl_members (xrep_inpipes s') = (if isl rc then pl_members (xrep_inpipes (as_xrep s))
         else insert p (pl_members (xrep_inpipes (as_xrep s))))"
      "pl_active (xrep_inpipes s') = pl_active (xrep_inpipes (as_xrep s))" "xrep_ready s' = xrep_ready (as_xrep s)"
    unfolding nn_xrep_sockbase_vfptr_def by auto
  have "sb_add (nn_xrespondent_sockbase_vfptr ttl vf) w s p = Some (w', of_xrep s', rc)"
    using *(1) by (simp add: nn_xrespondent_sockbase_vfptr_def xrespondent_eqs)
  then show ?case using * by (intro exI [of _ w'] exI [of _ "of_xrep s'"] exI [of _ rc]) simp
next
  case (3 s p w)
  then show ?case using xrep.rm_law [of "as_xrep s" p ttl w]
    by (auto simp: nn_xrespondent_sockbase_vfptr_def nn_xrep_sockbase_vfptr_def xrespondent_eqs)
next
  case (4 s p w)
  then show ?case using xrep.in_law [of "as_xrep s" p ttl w]
    by (auto simp: nn_xrespondent_sockbase_vfptr_def nn_xrep_sockbase_vfptr_def xrespondent_eqs)
next
  case (5 s p w)
  then show ?case using xrep.out_law [of "as_xrep s" p ttl w]
    by (auto simp: nn_xrespondent_sockbase_vfptr_def nn_xrep_sockbase_vfptr_def xrespondent_eqs)
next
  case (6 f s w m)
  have "f = nn_xrespondent_send vf" using 6(1) by (simp add: nn_xrespondent_sockbase_vfptr_def)
  then show ?case using xrep_send_ready [OF 6(2-4), of m] by (auto simp: xrespondent_eqs)
next
  case (7 g s w)
  from xrep_recv_ready [OF 7(2-4), of ttl] obtain w' s' r where
    *: "nn_xrep_recv ttl vf w (as_xrep s) = Some (w', s', r)" "trans_ok tinv w'"
      "in_step (pl_active (xrep_inpipes (as_xrep s))) w w'" "xrep_inv s'"
      "xrep_items s' = xrep_items (as_xrep s)" "xrep_flags s' = xrep_flags (as_xrep s)"
      "pl_members (xrep_inpipes s') = pl_members (xrep_inpipes (as_xrep s))"
      "pl_active (xrep_inpipes s') = {p \<in> pl_active (xrep_inpipes (as_xrep s)). in_idle w' p}" by blast
  have "xrep_ready s' = xrep_ready (as_xrep s)" using *(5,6) by (simp add: xrep_ready_def)
  moreover have "g w s = Some (w', of_xrep s', r)" using 7(1) *(1) by (auto simp: nn_xrespondent_sockbase_vfptr_def xrespondent_eqs)
  ultimately show ?case using * by (intro exI [of _ w'] exI [of _ "of_xrep s'"] exI [of _ r]) simp
qed simp

end
