(* ===== verification/Rep.thy ===== *)
theory Rep
  imports Survey_Raw
begin

text \<open>
  The cooked REP and RESPONDENT sockets (\<open>src/protocols/reqrep/rep.c\<close>, \<open>src/protocols/survey/respondent.c\<close>).
  They keep the backtrace of the request being processed; the reply carries it back, so it goes to
  the pipe the request came from with the backtrace the request had.
\<close>

section \<open>REP\<close>

definition NN_REP_INPROGRESS :: u32 where "NN_REP_INPROGRESS = 1"

record nn_rep =
  rep_xrep :: nn_xrep
  rep_flags :: u32
  rep_backtrace :: bytes

text \<open>The backtrace is not initialised; \<open>junk\<close> stands for its value.\<close>

definition nn_rep_init :: "nn_xrep \<Rightarrow> bytes \<Rightarrow> nn_rep" where
  "nn_rep_init xrep junk = \<lparr>rep_xrep = xrep, rep_flags = 0, rep_backtrace = junk\<rparr>"

definition nn_rep_term :: "nn_rep \<Rightarrow> unit option" where
  "nn_rep_term self = nn_xrep_term (rep_xrep self)"

definition nn_rep_events :: "nn_rep \<Rightarrow> u32" where
  "nn_rep_events self =
    (let events = nn_xrep_events (rep_xrep self)
     in if rep_flags self AND NN_REP_INPROGRESS = 0 then events AND NOT NN_SOCKBASE_EVENT_OUT else events)"

definition nn_rep_send :: "'t nn_pipebase_vfptr \<Rightarrow> 't world \<Rightarrow> nn_rep \<Rightarrow> nn_msg \<Rightarrow>
  ('t world \<times> nn_rep \<times> (errno + u32)) option" where
  "nn_rep_send vf w self msg =
    (if rep_flags self AND NN_REP_INPROGRESS = 0 then Some (w, self, Inl EFSM)
     else do {
       nn_assert (length (sphdr msg) = 0);
       let msg = msg\<lparr>sphdr := rep_backtrace self\<rparr>;
       let self = self\<lparr>rep_flags := rep_flags self AND NOT NN_REP_INPROGRESS\<rparr>;
       (w, xrep, r) \<leftarrow> nn_xrep_send vf w (rep_xrep self) msg;
       nn_assert (r = Inr 0 \<or> r = Inl EAGAIN);
       Some (w, self\<lparr>rep_xrep := xrep\<rparr>, Inr 0) })"

definition nn_rep_recv :: "int \<Rightarrow> 't nn_pipebase_vfptr \<Rightarrow> 't world \<Rightarrow> nn_rep \<Rightarrow>
  ('t world \<times> nn_rep \<times> (errno + nn_msg)) option" where
  "nn_rep_recv maxttl vf w self = do {
     let self = (if rep_flags self AND NN_REP_INPROGRESS \<noteq> 0
       then self\<lparr>rep_flags := rep_flags self AND NOT NN_REP_INPROGRESS\<rparr> else self);
     (w, xrep, r) \<leftarrow> nn_xrep_recv maxttl vf w (rep_xrep self);
     let self = self\<lparr>rep_xrep := xrep\<rparr>;
     (case r of
        Inl e \<Rightarrow> do { nn_assert (e = EAGAIN); Some (w, self, Inl EAGAIN) }
      | Inr msg \<Rightarrow> Some (w, self\<lparr>rep_backtrace := sphdr msg, rep_flags := rep_flags self OR NN_REP_INPROGRESS\<rparr>,
                          Inr (msg\<lparr>sphdr := []\<rparr>))) }"

section \<open>RESPONDENT\<close>

definition NN_RESPONDENT_INPROGRESS :: u32 where "NN_RESPONDENT_INPROGRESS = 1"

record nn_respondent =
  resp_xrespondent :: nn_xrespondent
  resp_flags :: u32
  resp_backtrace :: bytes

definition nn_respondent_init :: "nn_xrespondent \<Rightarrow> bytes \<Rightarrow> nn_respondent" where
  "nn_respondent_init x junk = \<lparr>resp_xrespondent = x, resp_flags = 0, resp_backtrace = junk\<rparr>"

definition nn_respondent_term :: "nn_respondent \<Rightarrow> unit option" where
  "nn_respondent_term self = nn_xrespondent_term (resp_xrespondent self)"

definition nn_respondent_events :: "nn_respondent \<Rightarrow> u32" where
  "nn_respondent_events self =
    (let events = nn_xrespondent_events (resp_xrespondent self)
     in if resp_flags self AND NN_RESPONDENT_INPROGRESS = 0 then events AND NOT NN_SOCKBASE_EVENT_OUT else events)"

definition nn_respondent_send :: "'t nn_pipebase_vfptr \<Rightarrow> 't world \<Rightarrow> nn_respondent \<Rightarrow> nn_msg \<Rightarrow>
  ('t world \<times> nn_respondent \<times> (errno + u32)) option" where
  "nn_respondent_send vf w self msg =
    (if resp_flags self AND NN_RESPONDENT_INPROGRESS = 0 then Some (w, self, Inl EFSM)
     else do {
       nn_assert (length (sphdr msg) = 0);
       let msg = msg\<lparr>sphdr := resp_backtrace self\<rparr>;
       let self = self\<lparr>resp_flags := resp_flags self AND NOT NN_RESPONDENT_INPROGRESS\<rparr>;
       (w, x, r) \<leftarrow> nn_xrespondent_send vf w (resp_xrespondent self) msg;
       nn_assert (r = Inr 0 \<or> r = Inl EAGAIN);
       Some (w, self\<lparr>resp_xrespondent := x\<rparr>, Inr 0) })"

definition nn_respondent_recv :: "int \<Rightarrow> 't nn_pipebase_vfptr \<Rightarrow> 't world \<Rightarrow> nn_respondent \<Rightarrow>
  ('t world \<times> nn_respondent \<times> (errno + nn_msg)) option" where
  "nn_respondent_recv maxttl vf w self = do {
     let self = (if resp_flags self AND NN_RESPONDENT_INPROGRESS \<noteq> 0
       then self\<lparr>resp_flags := resp_flags self AND NOT NN_RESPONDENT_INPROGRESS\<rparr> else self);
     (w, x, r) \<leftarrow> nn_xrespondent_recv maxttl vf w (resp_xrespondent self);
     let self = self\<lparr>resp_xrespondent := x\<rparr>;
     (case r of
        Inl e \<Rightarrow> do { nn_assert (e = EAGAIN); Some (w, self, Inl EAGAIN) }
      | Inr msg \<Rightarrow> Some (w, self\<lparr>resp_backtrace := sphdr msg, resp_flags := resp_flags self OR NN_RESPONDENT_INPROGRESS\<rparr>,
                          Inr (msg\<lparr>sphdr := []\<rparr>))) }"

section \<open>A reply goes where its request came from\<close>

lemma inprogress_bit: "x AND NN_REP_INPROGRESS \<noteq> 0 \<longleftrightarrow> bit x 0"
  using bit_iff_and_push_bit_not_eq_0 [of x 0] by (simp add: NN_REP_INPROGRESS_def)

lemma inprogress_flags [simp]: "bit (x OR NN_REP_INPROGRESS) 0" "\<not> bit (x AND NOT NN_REP_INPROGRESS) 0" for x :: u32
  by (auto simp: NN_REP_INPROGRESS_def bit_simps)

text \<open>The request that the fair queue hands over from pipe \<open>p\<close> has its backtrace in the first words.\<close>

definition request_of :: "u32 list \<Rightarrow> u32 \<Rightarrow> bytes \<Rightarrow> nn_msg \<Rightarrow> bool" where
  "request_of vs b payload m \<longleftrightarrow> sphdr m = [] \<and> body m = stack_bytes (vs @ [b]) @ payload
     \<and> (\<forall>v \<in> set vs. v AND 0x80000000 = 0) \<and> b AND 0x80000000 \<noteq> 0"

lemma split_backtrace_request:
  assumes "request_of vs b payload m" and "int (length vs + 1) \<le> ttl"
  shows "split_backtrace ttl m = Some (Inr (m\<lparr>sphdr := stack_bytes (vs @ [b]), body := payload\<rparr>))"
proof -
  have m: "sphdr m = []" "body m = stack_bytes (vs @ [b]) @ payload" using assms(1) by (auto simp: request_of_def)
  have "backtrace (body m) 0 = Some (Inr (length vs + 1))"
    using backtrace_stack [of vs b "[]" payload] assms(1) by (simp add: request_of_def)
  moreover have "take ((length vs + 1) * 4) (body m) = stack_bytes (vs @ [b])" "drop ((length vs + 1) * 4) (body m) = payload"
    unfolding m(2) by simp_all
  ultimately show ?thesis using assms(2) m(1) by (simp add: split_backtrace_def)
qed

lemma nn_rep_recv_request:
  assumes fq: "nn_fq_recv vf w (xrep_inpipes (rep_xrep s)) = Some (w', fq, Inr (rc, p, m))" and rc: "rc AND NN_PIPE_PARSED = 0"
    and m: "request_of vs b payload m" and ttl: "int (length vs + 1) \<le> ttl"
  obtains s' where "nn_rep_recv ttl vf w s = Some (w', s', Inr (m\<lparr>sphdr := [], body := payload\<rparr>))"
    "rep_backtrace s' = word_bytes (hi_key (xrep_items (rep_xrep s) p)) @ stack_bytes (vs @ [b])"
    "rep_xrep s' = (rep_xrep s)\<lparr>xrep_inpipes := fq\<rparr>" "rep_flags s' AND NN_REP_INPROGRESS \<noteq> 0"
proof -
  let ?m = "m\<lparr>sphdr := word_bytes (hi_key (xrep_items (rep_xrep s) p)) @ stack_bytes (vs @ [b]), body := payload\<rparr>"
  have "nn_xrep_recv ttl vf w (rep_xrep s) = Some (w', (rep_xrep s)\<lparr>xrep_inpipes := fq\<rparr>, Inr ?m)"
    using fq rc split_backtrace_request [OF m ttl] by (simp add: nn_xrep_recv_def Let_def push_key_def putl_word_bytes)
  moreover obtain s0 where s0: "s0 = (if rep_flags s AND NN_REP_INPROGRESS \<noteq> 0
      then s\<lparr>rep_flags := rep_flags s AND NOT NN_REP_INPROGRESS\<rparr> else s)" by simp
  moreover from s0 have "rep_xrep s0 = rep_xrep s" by simp
  ultimately have res: "nn_rep_recv ttl vf w s = Some (w', s0\<lparr>rep_xrep := (rep_xrep s)\<lparr>xrep_inpipes := fq\<rparr>,
      rep_backtrace := sphdr ?m, rep_flags := rep_flags s0 OR NN_REP_INPROGRESS\<rparr>, Inr (m\<lparr>sphdr := [], body := payload\<rparr>))"
    by (simp add: nn_rep_recv_def Let_def flip: s0)
  have "NN_REP_INPROGRESS \<noteq> 0" by (simp add: NN_REP_INPROGRESS_def)
  then show thesis by (intro that [OF res]) simp_all
qed

text \<open>The reply: it is sent on the pipe with the backtrace of the request as its header, or dropped when
  that pipe has gone or cannot take it; in every case the socket waits for the next request then.\<close>

lemma nn_rep_send_reply:
  assumes inv: "hash_inv (xrep_items (rep_xrep s)) (xrep_outpipes (rep_xrep s))"
    and s: "rep_backtrace s = word_bytes (hi_key (xrep_items (rep_xrep s) p)) @ stack" "rep_flags s AND NN_REP_INPROGRESS \<noteq> 0"
    and p: "hi_inlist (xrep_items (rep_xrep s) p)" "xrep_flags (rep_xrep s) p AND NN_XREP_OUT \<noteq> 0" and r: "sphdr r = []"
    and snd: "nn_pipe_send vf w p (r\<lparr>sphdr := stack\<rparr>) = Some (w', rc)"
  obtains s' where "nn_rep_send vf w s r = Some (w', s', Inr 0)" "rep_flags s' AND NN_REP_INPROGRESS = 0"
    "xrep_items (rep_xrep s') = xrep_items (rep_xrep s)" "xrep_outpipes (rep_xrep s') = xrep_outpipes (rep_xrep s)"
    "xrep_inpipes (rep_xrep s') = xrep_inpipes (rep_xrep s)"
proof -
  let ?key = "hi_key (xrep_items (rep_xrep s) p)"
  let ?x = "if rc AND NN_PIPE_RELEASE \<noteq> 0 then (rep_xrep s)\<lparr>xrep_flags := (xrep_flags (rep_xrep s))
    (p := xrep_flags (rep_xrep s) p AND NOT NN_XREP_OUT)\<rparr> else rep_xrep s"
  have get: "nn_hash_get (xrep_items (rep_xrep s)) (xrep_outpipes (rep_xrep s)) ?key = Some p" using inv p(1) by (simp add: xrep_get)
  have "nn_xrep_send vf w (rep_xrep s) (r\<lparr>sphdr := rep_backtrace s\<rparr>) = Some (w', ?x, Inr 0)"
    using get p(2) snd by (simp add: nn_xrep_send_def Let_def s(1) getl_word_bytes)
  then have "nn_rep_send vf w s r = Some (w', s\<lparr>rep_flags := rep_flags s AND NOT NN_REP_INPROGRESS, rep_xrep := ?x\<rparr>, Inr 0)"
    using s(2) r by (simp add: nn_rep_send_def Let_def)
  moreover have "rep_flags (s\<lparr>rep_flags := rep_flags s AND NOT NN_REP_INPROGRESS, rep_xrep := ?x\<rparr>) AND NN_REP_INPROGRESS = 0"
    using inprogress_bit [of "rep_flags s AND NOT NN_REP_INPROGRESS"] by (simp del: bit.conj_cancel_right)
  ultimately show thesis by (rule that) simp_all
qed

section \<open>Equivalence of RESPONDENT and REP\<close>

definition as_rep :: "nn_respondent \<Rightarrow> nn_rep" where
  "as_rep s = \<lparr>rep_xrep = as_xrep (resp_xrespondent s), rep_flags = resp_flags s, rep_backtrace = resp_backtrace s\<rparr>"

definition of_rep :: "nn_rep \<Rightarrow> nn_respondent" where
  "of_rep s = \<lparr>resp_xrespondent = of_xrep (rep_xrep s), resp_flags = rep_flags s, resp_backtrace = rep_backtrace s\<rparr>"

lemma respondent_send_eq:
  "nn_respondent_send vf w s m = map_option (\<lambda>(w, s, r). (w, of_rep s, r)) (nn_rep_send vf w (as_rep s) m)"
  by (auto simp: nn_respondent_send_def nn_rep_send_def map_option_bind Let_def as_rep_def of_rep_def xrespondent_send_eq
      NN_REP_INPROGRESS_def NN_RESPONDENT_INPROGRESS_def bind_map_option intro!: option_bind_cong split: prod.splits)

lemma respondent_recv_eq:
  "nn_respondent_recv ttl vf w s = map_option (\<lambda>(w, s, r). (w, of_rep s, r)) (nn_rep_recv ttl vf w (as_rep s))"
  by (auto simp: nn_respondent_recv_def nn_rep_recv_def map_option_bind Let_def as_rep_def of_rep_def xrespondent_recv_eq
      NN_REP_INPROGRESS_def NN_RESPONDENT_INPROGRESS_def bind_map_option intro!: option_bind_cong split: prod.splits sum.splits)

lemma as_of_rep [simp]: "as_rep (of_rep r) = r" "of_rep (as_rep s) = s"
  by (simp_all add: as_rep_def of_rep_def)

lemma respondent_life:
  "as_rep (nn_respondent_init x junk) = nn_rep_init (as_xrep x) junk"
  "nn_respondent_term s = nn_rep_term (as_rep s)"
  "nn_respondent_events s = nn_rep_events (as_rep s)"
  by (simp_all add: as_rep_def nn_respondent_init_def nn_rep_init_def nn_respondent_term_def nn_rep_term_def nn_respondent_events_def
      nn_rep_events_def NN_REP_INPROGRESS_def NN_RESPONDENT_INPROGRESS_def xrespondent_life)

end
