(* ===== verification/Trie.thy ===== *)
theory Trie
  imports Prelude "HOL-Library.Sublist"
begin

text \<open>
  The subscriptions of a SUB socket (\<open>protocols/pubsub/trie.c\<close>): a compressed trie whose nodes carry a reference
  count, a prefix of at most ten bytes and an array of children, which is sparse with up to eight children and
  dense over a range of bytes beyond that. A child slot of the dense array may be empty. A null pointer is
  \<open>None\<close>; dereferencing it, failing an assertion and reading past the end of the data make an operation \<open>None\<close>.
\<close>

definition NN_TRIE_PREFIX_MAX :: nat where "NN_TRIE_PREFIX_MAX = 10"
definition NN_TRIE_SPARSE_MAX :: nat where "NN_TRIE_SPARSE_MAX = 8"

datatype nn_trie_node = TNode (refcount: u32) (prefix_bytes: bytes) (children: nn_trie_children)
  and nn_trie_children = Sparse "(u8 \<times> nn_trie_node) list" | Dense u8 "nn_trie_node option list" u16

record nn_trie =
  root :: "nn_trie_node option"

section \<open>Nodes\<close>

fun nn_node_check_prefix :: "bytes \<Rightarrow> bytes \<Rightarrow> nat" where
  "nn_node_check_prefix [] data = 0"
| "nn_node_check_prefix (p # ps) [] = 0"
| "nn_node_check_prefix (p # ps) (d # ds) = (if p \<noteq> d then 0 else Suc (nn_node_check_prefix ps ds))"

definition nn_node_has_subscribers :: "nn_trie_node \<Rightarrow> bool" where
  "nn_node_has_subscribers node = (refcount node \<noteq> 0)"

text \<open>The slot for a character: there may be no slot, or an empty one.\<close>

definition nn_node_next :: "nn_trie_children \<Rightarrow> u8 \<Rightarrow> nn_trie_node option option" where
  "nn_node_next ch c = (case ch of
     Sparse cs \<Rightarrow> map_option Some (map_of cs c)
   | Dense mn slots nbr \<Rightarrow>
       if c < mn \<or> unat c \<ge> unat mn + length slots then None else Some (slots ! (unat c - unat mn)))"

definition nn_node_compact :: "nn_trie_node \<Rightarrow> nn_trie_node" where
  "nn_node_compact self =
    (if nn_node_has_subscribers self then self
     else case children self of
       Sparse [(c, TNode r p ch)] \<Rightarrow>
         if length (prefix_bytes self) + length p + 1 > NN_TRIE_PREFIX_MAX then self
         else TNode r (prefix_bytes self @ c # p) ch
     | _ \<Rightarrow> self)"

text \<open>Writing to the slot of a child that is there.\<close>

fun put_sparse :: "(u8 \<times> nn_trie_node) list \<Rightarrow> u8 \<Rightarrow> nn_trie_node \<Rightarrow> (u8 \<times> nn_trie_node) list" where
  "put_sparse [] c n = []"
| "put_sparse ((k, m) # cs) c n = (if k = c then (k, n) # cs else (k, m) # put_sparse cs c n)"

definition put_child :: "nn_trie_children \<Rightarrow> u8 \<Rightarrow> nn_trie_node \<Rightarrow> nn_trie_children" where
  "put_child ch c n = (case ch of
     Sparse cs \<Rightarrow> Sparse (put_sparse cs c n)
   | Dense mn slots nbr \<Rightarrow> Dense mn (slots[unat c - unat mn := Some n]) nbr)"

section \<open>Subscribing\<close>

text \<open>Step 4: nodes for what is left of the subscription; the last one gets its first reference.\<close>

function new_nodes :: "bytes \<Rightarrow> nn_trie_node" where
  "new_nodes data =
    (if length data > NN_TRIE_PREFIX_MAX
     then TNode 0 (take NN_TRIE_PREFIX_MAX data)
       (Sparse [(data ! NN_TRIE_PREFIX_MAX, new_nodes (drop (NN_TRIE_PREFIX_MAX + 1) data))])
     else TNode 1 data (Sparse []))"
  by pat_completeness auto
termination by (relation "measure length") auto

declare new_nodes.simps [simp del]

text \<open>Step 3: room for a new child. The conversion of a full sparse array gives the node a new, dense one; it also
  resets the reference count of the node.\<close>

definition resize_dense :: "u8 \<Rightarrow> nn_trie_node option list \<Rightarrow> u8 \<Rightarrow> u8 \<times> nn_trie_node option list" where
  "resize_dense mn slots c =
    (let mx = unat mn + length slots - 1 in
     if c < mn \<or> unat c > mx then
       (let new_min = min mn c; new_max = max mx (unat c); old_children = length slots;
            new_children = new_max - unat new_min + 1
        in (new_min, if mn \<noteq> new_min then replicate (unat mn - unat new_min) None @ slots
              else slots @ replicate (new_children - old_children) None))
     else (mn, slots))"

fun fill_dense :: "u8 \<Rightarrow> (u8 \<times> nn_trie_node) list \<Rightarrow> nn_trie_node option list \<Rightarrow> nn_trie_node option list" where
  "fill_dense mn [] slots = slots"
| "fill_dense mn ((k, n) # cs) slots = fill_dense mn cs (slots[unat k - unat mn := Some n])"

definition to_dense :: "(u8 \<times> nn_trie_node) list \<Rightarrow> u8 \<Rightarrow> u8 \<times> nn_trie_node option list" where
  "to_dense cs c =
    (let new_min = min (foldl min 255 (map fst cs)) c; new_max = max (foldl max 0 (map fst cs)) c
     in (new_min, fill_dense new_min cs (replicate (unat new_max - unat new_min + 1) None)))"

definition trie_step3 :: "nn_trie_node \<Rightarrow> bytes \<Rightarrow> (nn_trie_node \<times> int) option" where
  "trie_step3 node data = (case data of
     [] \<Rightarrow> Some (TNode (refcount node + 1) (prefix_bytes node) (children node), if refcount node + 1 = 1 then 1 else 0)
   | c # rest \<Rightarrow> (case children node of
       Sparse cs \<Rightarrow>
         if length cs < NN_TRIE_SPARSE_MAX
         then Some (TNode (refcount node) (prefix_bytes node) (Sparse (cs @ [(c, new_nodes rest)])), 1)
         else do {
           let (mn, slots) = to_dense cs c;
           nn_assert (slots ! (unat c - unat mn) = None);
           Some (TNode 0 (prefix_bytes node)
             (Dense mn (slots[unat c - unat mn := Some (new_nodes rest)]) (of_nat (length cs) + 1)), 1) }
     | Dense mn slots nbr \<Rightarrow> do {
         let (mn, slots) = resize_dense mn slots c;
         nn_assert (slots ! (unat c - unat mn) = None);
         Some (TNode (refcount node) (prefix_bytes node)
           (Dense mn (slots[unat c - unat mn := Some (new_nodes rest)]) (nbr + 1)), 1) }))"

text \<open>Steps 1 and 2: the way to the node, splitting a node whose prefix matches in part only.\<close>

function nn_node_subscribe :: "nn_trie_node option \<Rightarrow> bytes \<Rightarrow> (nn_trie_node \<times> int) option" where
  "nn_node_subscribe None data = Some (new_nodes data, 1)"
| "nn_node_subscribe (Some (TNode r p ch)) data =
    (let pos = nn_node_check_prefix p data in
     if pos < length p then
       (let old = nn_node_compact (TNode r (drop (pos + 1) p) ch)
        in trie_step3 (TNode 0 (take pos p) (Sparse [(p ! pos, old)])) (drop pos data))
     else (case drop pos data of
       [] \<Rightarrow> Some (TNode (r + 1) p ch, if r + 1 = 1 then 1 else 0)
     | c # rest \<Rightarrow> (case nn_node_next ch c of
         Some (Some n) \<Rightarrow> do {
           (n, rc) \<leftarrow> nn_node_subscribe (Some n) rest;
           Some (TNode r p (put_child ch c n), rc) }
       | _ \<Rightarrow> trie_step3 (TNode r p ch) (c # rest))))"
  by pat_completeness auto
termination
  by (relation "measure (\<lambda>(n, data). length data)") (auto dest!: arg_cong [where f = length])

definition nn_trie_init :: nn_trie where
  "nn_trie_init = \<lparr>root = None\<rparr>"

definition nn_trie_subscribe :: "nn_trie \<Rightarrow> bytes \<Rightarrow> (nn_trie \<times> int) option" where
  "nn_trie_subscribe self data = do {
     (n, rc) \<leftarrow> nn_node_subscribe (root self) data;
     Some (self\<lparr>root := Some n\<rparr>, rc) }"

section \<open>Matching\<close>

text \<open>A byte is read to find the next node even when there is none left.\<close>

function nn_node_match :: "nn_trie_node option \<Rightarrow> bytes \<Rightarrow> bool option" where
  "nn_node_match None data = Some False"
| "nn_node_match (Some (TNode r p ch)) data =
    (if nn_node_check_prefix p data \<noteq> length p then Some False
     else if r \<noteq> 0 then Some True
     else (case drop (length p) data of
       [] \<Rightarrow> None
     | c # rest \<Rightarrow> nn_node_match (case nn_node_next ch c of Some n \<Rightarrow> n | None \<Rightarrow> None) rest))"
  by pat_completeness auto
termination
  by (relation "measure (\<lambda>(n, data). length data)") (auto dest!: arg_cong [where f = length])

definition nn_trie_match :: "nn_trie \<Rightarrow> bytes \<Rightarrow> bool option" where
  "nn_trie_match self data = nn_node_match (root self) data"

section \<open>Unsubscribing\<close>

text \<open>The end of the subscription has been reached at a node.\<close>

definition trie_found :: "nn_trie_node option \<Rightarrow> nn_trie_node option \<times> (errno + int)" where
  "trie_found self = (case self of
     None \<Rightarrow> (None, Inl EINVAL)
   | Some node \<Rightarrow>
       if \<not> nn_node_has_subscribers node then (Some node, Inl EINVAL)
       else
         (let node = TNode (refcount node - 1) (prefix_bytes node) (children node) in
          if refcount node = 0 then
            (if children node = Sparse [] then (None, Inr 1) else (Some (nn_node_compact node), Inr 1))
          else (Some node, Inr 0)))"

text \<open>The child for a character has been destroyed.\<close>

fun drop_sparse :: "(u8 \<times> nn_trie_node) list \<Rightarrow> u8 \<Rightarrow> (u8 \<times> nn_trie_node) list option" where
  "drop_sparse [] c = None"
| "drop_sparse ((k, m) # cs) c = (if k = c then Some cs else map_option (\<lambda>cs. (k, m) # cs) (drop_sparse cs c))"

fun dense_entries :: "u8 \<Rightarrow> nn_trie_node option list \<Rightarrow> (u8 \<times> nn_trie_node) list" where
  "dense_entries k [] = []"
| "dense_entries k (None # slots) = dense_entries (k + 1) slots"
| "dense_entries k (Some n # slots) = (k, n) # dense_entries (k + 1) slots"

definition trim_dense :: "u8 \<Rightarrow> nn_trie_node option list \<Rightarrow> u8 \<Rightarrow> u8 \<times> nn_trie_node option list" where
  "trim_dense mn slots c =
    (if c = mn then
       (let i = length (takeWhile (\<lambda>n. n = None) slots) in (mn + of_nat i, drop i slots))
     else if unat c = unat mn + length slots - 1 then
       (let i = length slots - 1 - length (takeWhile (\<lambda>n. n = None) (rev (tl slots))) in (mn, take (i + 1) slots))
     else (mn, slots))"

definition trie_prune :: "nn_trie_node \<Rightarrow> u8 \<Rightarrow> (nn_trie_node option \<times> (errno + int)) option" where
  "trie_prune self c = (case children self of
     Sparse cs \<Rightarrow> do {
       cs \<leftarrow> drop_sparse cs c;
       let self = TNode (refcount self) (prefix_bytes self) (Sparse cs);
       if cs = [] \<and> \<not> nn_node_has_subscribers self then Some (None, Inr 1)
       else Some (Some (nn_node_compact self), Inr 1) }
   | Dense mn slots nbr \<Rightarrow>
       (let slots = slots[unat c - unat mn := None] in
        if unat nbr > NN_TRIE_SPARSE_MAX + 1
        then (let (mn, slots) = trim_dense mn slots c
              in Some (Some (TNode (refcount self) (prefix_bytes self) (Dense mn slots (nbr - 1))), Inr 1))
        else do {
          let cs = dense_entries mn slots;
          nn_assert (length cs = NN_TRIE_SPARSE_MAX);
          Some (Some (TNode 0 (prefix_bytes self) (Sparse cs)), Inr 1) }))"

function nn_node_unsubscribe :: "nn_trie_node option \<Rightarrow> bytes \<Rightarrow> (nn_trie_node option \<times> (errno + int)) option" where
  "nn_node_unsubscribe self data =
    (if data = [] then Some (trie_found self)
     else (case self of
       None \<Rightarrow> None
     | Some (TNode r p ch) \<Rightarrow>
         if nn_node_check_prefix p data \<noteq> length p then Some (self, Inr 0)
         else (case drop (length p) data of
           [] \<Rightarrow> Some (trie_found self)
         | c # rest \<Rightarrow> (case nn_node_next ch c of
             None \<Rightarrow> Some (self, Inr 0)
           | Some slot \<Rightarrow> do {
               (slot, rc) \<leftarrow> nn_node_unsubscribe slot rest;
               (case slot of
                  Some n \<Rightarrow> Some (Some (TNode r p (put_child ch c n)), if rc = Inr 0 then Inr 0 else Inr 1)
                | None \<Rightarrow> if rc = Inr 0 then Some (self, Inr 0) else trie_prune (TNode r p ch) c) }))))"
  by pat_completeness auto
termination
  by (relation "measure (\<lambda>(n, data). length data)") (auto dest!: arg_cong [where f = length])

declare nn_node_unsubscribe.simps [simp del]

definition nn_trie_unsubscribe :: "nn_trie \<Rightarrow> bytes \<Rightarrow> (nn_trie \<times> (errno + int)) option" where
  "nn_trie_unsubscribe self data = do {
     (n, rc) \<leftarrow> nn_node_unsubscribe (root self) data;
     Some (self\<lparr>root := n\<rparr>, rc) }"

end
