(* ===== verification/Trie_Correct.thy ===== *)
theory Trie_Correct
  imports Trie
begin

text \<open>
  The trie against its specification, the number of subscriptions of each string. Adding and removing are
  characterised completely, including the subscriptions that a change between the sparse and the dense
  representation forgets; matching finds exactly the messages with a subscribed prefix as long as it stays within the message.
\<close>

section \<open>The abstract view\<close>

definition child :: "nn_trie_children \<Rightarrow> u8 \<Rightarrow> nn_trie_node option" where
  "child ch c = (case nn_node_next ch c of Some n \<Rightarrow> n | None \<Rightarrow> None)"

function sub_count :: "nn_trie_node option \<Rightarrow> bytes \<Rightarrow> nat" where
  "sub_count None s = 0"
| "sub_count (Some (TNode r p ch)) s =
    (if nn_node_check_prefix p s \<noteq> length p then 0
     else (case drop (length p) s of [] \<Rightarrow> unat r | c # rest \<Rightarrow> sub_count (child ch c) rest))"
  by pat_completeness auto
termination
  by (relation "measure (\<lambda>(n, data). length data)") (auto dest!: arg_cong [where f = length])

lemma check_prefix_le: "nn_node_check_prefix p s \<le> length p" "nn_node_check_prefix p s \<le> length s"
  by (induction p s rule: nn_node_check_prefix.induct) auto

lemma check_prefix_take: "take (nn_node_check_prefix p s) s = take (nn_node_check_prefix p s) p"
  by (induction p s rule: nn_node_check_prefix.induct) auto

lemma check_prefix_mismatch:
  "nn_node_check_prefix p s < length p \<Longrightarrow> drop (nn_node_check_prefix p s) s = c # rest \<Longrightarrow> c \<noteq> p ! nn_node_check_prefix p s"
  by (induction p s rule: nn_node_check_prefix.induct) (auto split: if_splits)

lemma check_prefix_append [simp]: "nn_node_check_prefix p (p @ s) = length p"
  by (induction p) auto

lemma check_prefix_full: "nn_node_check_prefix p s = length p \<longleftrightarrow> (\<exists>r. s = p @ r)"
proof
  assume "nn_node_check_prefix p s = length p"
  then have "take (length p) s = p" using check_prefix_take [of p s] by simp
  then show "\<exists>r. s = p @ r" by (metis append_take_drop_id)
qed auto

declare sub_count.simps(2) [simp del]

lemma sub_count_append [simp]:
  "sub_count (Some (TNode r p ch)) (p @ s) = (case s of [] \<Rightarrow> unat r | c # rest \<Rightarrow> sub_count (child ch c) rest)"
  by (simp add: sub_count.simps(2))

lemma sub_count_self [simp]: "sub_count (Some (TNode r p ch)) p = unat r"
  using sub_count_append [of r p ch "[]"] by simp

lemma sub_count_mismatch: "\<not> prefix p s \<Longrightarrow> sub_count (Some (TNode r p ch)) s = 0"
  by (auto simp: sub_count.simps(2) check_prefix_full prefix_def)

text \<open>Two nodes with the same string and the same children have the same subscriptions below that string.\<close>

lemma sub_count_eqI:
  assumes "\<And>s. sub_count n (p @ s) = sub_count m (p @ s)" and "\<And>s. \<not> prefix p s \<Longrightarrow> sub_count n s = sub_count m s"
  shows "sub_count n = sub_count m"
proof
  fix s show "sub_count n s = sub_count m s" using assms by (cases "prefix p s") (auto simp: prefix_def)
qed

lemma child_Sparse [simp]: "child (Sparse cs) = map_of cs"
  by (rule ext) (auto simp: child_def nn_node_next_def split: option.splits)

lemma sub_count_new_nodes: "sub_count (Some (new_nodes d)) s = (if s = d then 1 else 0)"
proof (induction d arbitrary: s rule: new_nodes.induct)
  case (1 d)
  show ?case
  proof (cases "length d > NN_TRIE_PREFIX_MAX")
    case True
    let ?p = "take NN_TRIE_PREFIX_MAX d" and ?c = "d ! NN_TRIE_PREFIX_MAX" and ?r = "drop (NN_TRIE_PREFIX_MAX + 1) d"
    have d: "d = ?p @ ?c # ?r" using True by (metis Suc_eq_plus1 append_take_drop_id Cons_nth_drop_Suc)
    have n: "new_nodes d = TNode 0 ?p (Sparse [(?c, new_nodes ?r)])" using True by (simp add: new_nodes.simps [of d])
    show ?thesis
    proof (cases "prefix ?p s")
      case pre: True
      then obtain t where s: "s = ?p @ t" by (auto simp: prefix_def)
      show ?thesis
      proof (cases t)
        case Nil
        then have "s \<noteq> d" using s True by (metis append_Nil2 length_take min.absorb4 nat_neq_iff)
        then show ?thesis using s Nil sub_count_append [of 0 ?p "Sparse [(?c, new_nodes ?r)]" t] n by simp
      next
        case (Cons a u)
        have "sub_count (Some (new_nodes d)) s = sub_count (map_of [(?c, new_nodes ?r)] a) u"
          using s Cons sub_count_append [of 0 ?p "Sparse [(?c, new_nodes ?r)]" t] n by simp
        also have "\<dots> = (if a = ?c \<and> u = ?r then 1 else 0)" using "1.IH" [OF True, of u]
          by (cases "a = ?c"; cases "u = ?r") simp_all
        also have "(a = ?c \<and> u = ?r) = (s = d)" using s Cons d by (metis append_same_eq list.inject same_append_eq)
        finally show ?thesis .
      qed
    next
      case False
      then have "s \<noteq> d" by (metis take_is_prefix)
      then show ?thesis using False n by (simp add: sub_count_mismatch)
    qed
  next
    case False
    then have n: "new_nodes d = TNode 1 d (Sparse [])" by (simp add: new_nodes.simps [of d])
    show ?thesis
    proof (cases "prefix d s")
      case True
      then obtain t where "s = d @ t" by (auto simp: prefix_def)
      then show ?thesis using n by (cases t) simp_all
    next
      case f: False
      then have "s \<noteq> d" by auto
      then show ?thesis using f n by (simp add: sub_count_mismatch)
    qed
  qed
qed

text \<open>A node that only leads to one child can be joined with it.\<close>

lemma sub_count_join:
  "sub_count (Some (TNode r (p @ c # q) ch)) = sub_count (Some (TNode 0 p (Sparse [(c, TNode r q ch)])))"
proof (rule sub_count_eqI)
  fix s show "sub_count (Some (TNode r (p @ c # q) ch)) (p @ s) = sub_count (Some (TNode 0 p (Sparse [(c, TNode r q ch)]))) (p @ s)"
  proof (cases "\<exists>t. s = c # t \<and> prefix q t")
    case True
    then obtain u where s: "s = c # q @ u" by (auto simp: prefix_def)
    have "sub_count (Some (TNode r (p @ c # q) ch)) (p @ s) = (case u of [] \<Rightarrow> unat r | c # rest \<Rightarrow> sub_count (child ch c) rest)"
      using sub_count_append [of r "p @ c # q" ch u] s by simp
    then show ?thesis using s by simp
  next
    case False
    then have "\<not> prefix (p @ c # q) (p @ s)" by (cases s) auto
    then have "sub_count (Some (TNode r (p @ c # q) ch)) (p @ s) = 0" by (rule sub_count_mismatch)
    moreover have "(case s of [] \<Rightarrow> 0 | a # rest \<Rightarrow> sub_count (map_of [(c, TNode r q ch)] a) rest) = 0"
      using False sub_count_mismatch by (cases s) auto
    ultimately show ?thesis by (cases s) simp_all
  qed
next
  fix s assume "\<not> prefix p s"
  moreover from this have "\<not> prefix (p @ c # q) s" using append_prefixD by blast
  ultimately show "sub_count (Some (TNode r (p @ c # q) ch)) s = sub_count (Some (TNode 0 p (Sparse [(c, TNode r q ch)]))) s"
    by (simp add: sub_count_mismatch)
qed

lemma nn_node_compact_cases:
  obtains "nn_node_compact n = n"
  | p c r q ch where "n = TNode 0 p (Sparse [(c, TNode r q ch)])" "nn_node_compact n = TNode r (p @ c # q) ch"
proof (cases n)
  case (TNode r p ch)
  show thesis
  proof (cases "\<exists>c r2 q ch2. r = 0 \<and> ch = Sparse [(c, TNode r2 q ch2)] \<and> length p + length q + 1 \<le> NN_TRIE_PREFIX_MAX")
    case True
    then obtain c r2 q ch2 where "r = 0" "ch = Sparse [(c, TNode r2 q ch2)]" "length p + length q + 1 \<le> NN_TRIE_PREFIX_MAX" by blast
    then show thesis using TNode by (intro that(2)) (simp_all add: nn_node_compact_def nn_node_has_subscribers_def)
  next
    case False
    then have "nn_node_compact n = n"
      by (auto simp: TNode nn_node_compact_def nn_node_has_subscribers_def split: nn_trie_children.splits list.splits nn_trie_node.splits)
    then show thesis by (rule that(1))
  qed
qed

lemma sub_count_compact: "sub_count (Some (nn_node_compact n)) = sub_count (Some n)"
  by (cases n rule: nn_node_compact_cases) (simp_all only: sub_count_join)

section \<open>Adding a child\<close>

fun children_ok :: "nn_trie_children \<Rightarrow> bool" where
  "children_ok (Sparse cs) \<longleftrightarrow> distinct (map fst cs) \<and> length cs \<le> NN_TRIE_SPARSE_MAX"
| "children_ok (Dense mn slots nbr) \<longleftrightarrow> slots \<noteq> [] \<and> unat mn + length slots \<le> 256
     \<and> unat nbr = length (filter (\<lambda>n. n \<noteq> None) slots) \<and> NN_TRIE_SPARSE_MAX < unat nbr"

fun child_nodes :: "nn_trie_children \<Rightarrow> nn_trie_node set" where
  "child_nodes (Sparse cs) = snd ` set cs"
| "child_nodes (Dense mn slots nbr) = {n. Some n \<in> set slots}"

inductive node_ok :: "nn_trie_node \<Rightarrow> bool" where
  node_okI: "children_ok ch \<Longrightarrow> (\<And>n. n \<in> child_nodes ch \<Longrightarrow> node_ok n) \<Longrightarrow> node_ok (TNode r p ch)"

inductive_simps node_ok_iff: "node_ok (TNode r p ch)"

lemma child_Dense:
  "child (Dense mn slots nbr) c = (if mn \<le> c \<and> unat c < unat mn + length slots then slots ! (unat c - unat mn) else None)"
  by (auto simp: child_def nn_node_next_def not_less)

lemma child_Dense_Nil [simp]: "child (Dense mn [] nbr) c = None"
  by (auto simp: child_Dense word_le_nat_alt)

lemma child_in_nodes: "child ch c = Some n \<Longrightarrow> n \<in> child_nodes ch"
proof (cases ch)
  case (Sparse cs)
  then show "child ch c = Some n \<Longrightarrow> ?thesis" by (force dest: map_of_SomeD)
next
  case (Dense mn slots nbr)
  assume a: "child ch c = Some n"
  then have "unat c < unat mn + length slots" "slots ! (unat c - unat mn) = Some n" "mn \<le> c"
    by (auto simp: Dense child_Dense split: if_splits)
  then have "Some n \<in> set slots" by (metis add.commute less_diff_conv2 nth_mem word_le_nat_alt)
  then show ?thesis by (simp add: Dense)
qed

lemma node_ok_child: "node_ok (TNode r p ch) \<Longrightarrow> child ch c = Some n \<Longrightarrow> node_ok n"
  using child_in_nodes by (auto simp: node_ok_iff)

lemma put_sparse_map: "map_of cs c \<noteq> None \<Longrightarrow> map_of (put_sparse cs c n) = (map_of cs)(c \<mapsto> n)"
  by (induction cs c n rule: put_sparse.induct) (auto simp: fun_upd_twist)

lemma put_sparse_keys [simp]: "map fst (put_sparse cs c n) = map fst cs"
  by (induction cs c n rule: put_sparse.induct) auto

lemma put_sparse_length [simp]: "length (put_sparse cs c n) = length cs"
  by (metis length_map put_sparse_keys)

lemma put_sparse_nodes: "snd ` set (put_sparse cs c n) \<subseteq> insert n (snd ` set cs)"
  by (induction cs c n rule: put_sparse.induct) auto

text \<open>The slots of a dense array, indexed by characters.\<close>

lemma dense_upd:
  assumes "mn \<le> c" and "unat c < unat mn + length slots"
  shows "child (Dense mn (slots[unat c - unat mn := v]) k) = (child (Dense mn slots nbr))(c := v)"
proof
  fix d
  have "unat d - unat mn = unat c - unat mn \<longleftrightarrow> d = c" if "mn \<le> d"
    using assms that by (metis le_add_diff_inverse word_le_nat_alt word_unat_eq_iff)
  moreover have "unat c - unat mn < length slots" using assms by (simp add: word_le_nat_alt)
  ultimately show "child (Dense mn (slots[unat c - unat mn := v]) k) d = ((child (Dense mn slots nbr))(c := v)) d"
    using assms by (auto simp: child_Dense nth_list_update)
qed

lemma put_child_map:
  assumes "child ch c \<noteq> None"
  shows "child (put_child ch c n) = (child ch)(c \<mapsto> n)"
proof (cases ch)
  case (Sparse cs) then show ?thesis using assms by (simp add: put_child_def put_sparse_map)
next
  case (Dense mn slots nbr)
  then have "mn \<le> c" "unat c < unat mn + length slots" using assms by (auto simp: child_Dense split: if_splits)
  from dense_upd [OF this, of "Some n" nbr nbr] show ?thesis by (simp add: put_child_def Dense)
qed

lemma filter_upd_length:
  assumes "i < length xs" and "P (xs ! i) = P v"
  shows "length (filter P (xs[i := v])) = length (filter P xs)"
  using assms
proof (induction xs arbitrary: i)
  case (Cons x xs) then show ?case by (cases i) auto
qed simp

lemma put_child_ok:
  assumes "node_ok (TNode r p ch)" and "child ch c \<noteq> None" and "node_ok n"
  shows "node_ok (TNode r' p' (put_child ch c n))"
proof (cases ch)
  case (Sparse cs)
  then show ?thesis using assms(1,3) put_sparse_nodes [of cs c n] by (auto simp: node_ok_iff put_child_def)
next
  case (Dense mn slots nbr)
  then have i: "unat c - unat mn < length slots" "slots ! (unat c - unat mn) \<noteq> None"
    using assms(2) by (auto simp: child_Dense word_le_nat_alt split: if_splits)
  have "Some m \<in> set (slots[unat c - unat mn := Some n]) \<Longrightarrow> node_ok m" for m
    using assms(1,3) set_update_subset_insert [of slots "unat c - unat mn" "Some n"] by (auto simp: Dense node_ok_iff)
  then show ?thesis using assms(1) i filter_upd_length [of "unat c - unat mn" slots "\<lambda>n. n \<noteq> None" "Some n"]
    by (simp add: Dense put_child_def node_ok_iff)
qed

text \<open>Growing a dense array and filling it from a sparse one keep the children.\<close>

lemma resize_dense_ok:
  assumes "resize_dense mn slots c = (mn', slots')" and "slots \<noteq> []" and "unat mn + length slots \<le> 256"
  shows "child (Dense mn' slots' k) = child (Dense mn slots nbr)" and "mn' \<le> c" and "unat c < unat mn' + length slots'"
    and "unat mn' + length slots' \<le> 256" and "slots' \<noteq> []"
    and "length (filter (\<lambda>n. n \<noteq> None) slots') = length (filter (\<lambda>n. n \<noteq> None) slots)"
    and "\<And>n. Some n \<in> set slots' \<longleftrightarrow> Some n \<in> set slots"
proof -
  have c: "unat c < 256" using unsigned_less [where ?'a = nat and w = c] by simp
  have len: "1 \<le> length slots" using assms(2) by (cases slots) auto
  consider "c < mn" | "unat c > unat mn + length slots - 1" | "mn \<le> c" "unat c \<le> unat mn + length slots - 1" by (meson not_less)
  then have "child (Dense mn' slots' k) = child (Dense mn slots nbr) \<and> mn' \<le> c \<and> unat c < unat mn' + length slots'
    \<and> unat mn' + length slots' \<le> 256 \<and> slots' \<noteq> []
    \<and> length (filter (\<lambda>n. n \<noteq> None) slots') = length (filter (\<lambda>n. n \<noteq> None) slots)
    \<and> (\<forall>n. Some n \<in> set slots' \<longleftrightarrow> Some n \<in> set slots)"
  proof cases
    case 1
    then have less: "unat c < unat mn" by (simp add: word_less_nat_alt)
    have eq: "mn' = c" "slots' = replicate (unat mn - unat c) None @ slots"
      using assms(1) 1 by (auto simp: resize_dense_def Let_def min_def)
    have "child (Dense mn' slots' k) d = child (Dense mn slots nbr) d" for d
      using less by (auto simp: eq child_Dense nth_append word_le_nat_alt)
    then show ?thesis using less assms(2,3) by (auto simp: eq)
  next
    case 2
    then have le: "unat mn + length slots \<le> unat c" "mn \<le> c" using len by (auto simp: word_le_nat_alt)
    have eq: "mn' = mn" "slots' = slots @ replicate (unat c - unat mn + 1 - length slots) None"
      using assms(1) 2 le by (auto simp: resize_dense_def Let_def min_def max_def)
    have "child (Dense mn' slots' k) d = child (Dense mn slots nbr) d" for d
      using le by (auto simp: eq child_Dense nth_append word_le_nat_alt)
    then show ?thesis using le assms(2,3) c by (auto simp: eq)
  next
    case 3
    then have "\<not> c < mn" "\<not> unat c > unat mn + length slots - 1" by simp_all
    then have "mn' = mn" "slots' = slots" using assms(1) by (simp_all only: resize_dense_def Let_def if_False simp_thms prod.inject)
    then show ?thesis using 3 assms(2,3) len by (auto simp: child_Dense)
  qed
  then show "child (Dense mn' slots' k) = child (Dense mn slots nbr)" "mn' \<le> c" "unat c < unat mn' + length slots'"
    "unat mn' + length slots' \<le> 256" "slots' \<noteq> []"
    "length (filter (\<lambda>n. n \<noteq> None) slots') = length (filter (\<lambda>n. n \<noteq> None) slots)"
    "\<And>n. Some n \<in> set slots' \<longleftrightarrow> Some n \<in> set slots" by blast+
qed

lemma filter_upd_None:
  assumes "i < length xs" and "xs ! i = None"
  shows "length (filter (\<lambda>n. n \<noteq> None) (xs[i := Some v])) = Suc (length (filter (\<lambda>n. n \<noteq> None) xs))"
  using assms
proof (induction xs arbitrary: i)
  case (Cons x xs) then show ?case by (cases i) auto
qed simp

lemma fill_dense_ok:
  assumes "distinct (map fst cs)" and "\<And>k. k \<in> fst ` set cs \<Longrightarrow> mn \<le> k \<and> unat k < unat mn + length slots \<and> child (Dense mn slots 0) k = None"
  shows "length (fill_dense mn cs slots) = length slots"
    and "child (Dense mn (fill_dense mn cs slots) nbr) = child (Dense mn slots 0) ++ map_of cs"
    and "length (filter (\<lambda>n. n \<noteq> None) (fill_dense mn cs slots)) = length (filter (\<lambda>n. n \<noteq> None) slots) + length cs"
    and "Some n \<in> set (fill_dense mn cs slots) \<Longrightarrow> Some n \<in> set slots \<or> n \<in> snd ` set cs"
proof -
  have "length (fill_dense mn cs slots) = length slots
    \<and> child (Dense mn (fill_dense mn cs slots) nbr) = child (Dense mn slots 0) ++ map_of cs
    \<and> length (filter (\<lambda>n. n \<noteq> None) (fill_dense mn cs slots)) = length (filter (\<lambda>n. n \<noteq> None) slots) + length cs
    \<and> (\<forall>n. Some n \<in> set (fill_dense mn cs slots) \<longrightarrow> Some n \<in> set slots \<or> n \<in> snd ` set cs)"
    using assms
  proof (induction mn cs slots rule: fill_dense.induct)
    case (1 mn slots)
    have "child (Dense mn slots nbr) = child (Dense mn slots 0)" by (rule ext) (simp add: child_Dense)
    then show ?case by simp
  next
    case (2 mn k n cs slots)
    let ?i = "unat k - unat mn"
    have k: "mn \<le> k" "unat k < unat mn + length slots" "child (Dense mn slots 0) k = None" using "2.prems"(2) by auto
    then have i: "?i < length slots" "slots ! ?i = None" by (auto simp: child_Dense word_le_nat_alt)
    note upd = dense_upd [OF k(1,2), of "Some n" 0 0]
    have prem: "mn \<le> j \<and> unat j < unat mn + length (slots[?i := Some n]) \<and> child (Dense mn (slots[?i := Some n]) 0) j = None"
      if "j \<in> fst ` set cs" for j using that "2.prems" by (auto simp: upd)
    have IH: "length (fill_dense mn cs (slots[?i := Some n])) = length (slots[?i := Some n])"
      "child (Dense mn (fill_dense mn cs (slots[?i := Some n])) nbr) = child (Dense mn (slots[?i := Some n]) 0) ++ map_of cs"
      "length (filter (\<lambda>n. n \<noteq> None) (fill_dense mn cs (slots[?i := Some n])))
        = length (filter (\<lambda>n. n \<noteq> None) (slots[?i := Some n])) + length cs"
      "\<forall>m. Some m \<in> set (fill_dense mn cs (slots[?i := Some n])) \<longrightarrow> Some m \<in> set (slots[?i := Some n]) \<or> m \<in> snd ` set cs"
      using "2.IH" prem "2.prems"(1) by simp_all
    have "k \<notin> dom (map_of cs)" using "2.prems"(1) by (simp add: dom_map_of_conv_image_fst)
    then have "(child (Dense mn slots 0))(k \<mapsto> n) ++ map_of cs = child (Dense mn slots 0) ++ (map_of cs)(k \<mapsto> n)"
      by (metis map_add_upd map_add_upd_left)
    then have ch: "child (Dense mn (fill_dense mn ((k, n) # cs) slots) nbr) = child (Dense mn slots 0) ++ map_of ((k, n) # cs)"
      by (simp only: fill_dense.simps IH(2) upd map_of.simps fst_conv snd_conv)
    show ?case
    proof (intro conjI ch)
      show "length (filter (\<lambda>n. n \<noteq> None) (fill_dense mn ((k, n) # cs) slots)) = length (filter (\<lambda>n. n \<noteq> None) slots) + length ((k, n) # cs)"
        using IH(3) filter_upd_None [OF i, of n] by simp
      show "\<forall>m. Some m \<in> set (fill_dense mn ((k, n) # cs) slots) \<longrightarrow> Some m \<in> set slots \<or> m \<in> snd ` set ((k, n) # cs)"
        using IH(4) set_update_subset_insert [of slots ?i "Some n"] by auto
    qed (use IH(1) in simp)
  qed
  then show "length (fill_dense mn cs slots) = length slots"
    "child (Dense mn (fill_dense mn cs slots) nbr) = child (Dense mn slots 0) ++ map_of cs"
    "length (filter (\<lambda>n. n \<noteq> None) (fill_dense mn cs slots)) = length (filter (\<lambda>n. n \<noteq> None) slots) + length cs"
    "Some n \<in> set (fill_dense mn cs slots) \<Longrightarrow> Some n \<in> set slots \<or> n \<in> snd ` set cs" by blast+
qed

lemma foldl_min_le: "foldl min a xs \<le> a" "x \<in> set xs \<Longrightarrow> foldl min a xs \<le> x" for a :: "'a :: linorder"
proof (induction xs arbitrary: a)
  case (Cons y xs)
  { case 1 show ?case using Cons.IH(1) [of "min a y"] by simp }
  { case 2 show ?case using 2 Cons.IH(1) [of "min a y"] Cons.IH(2) [of "min a y"] by auto }
qed simp_all

lemma foldl_max_ge: "a \<le> foldl max a xs" "x \<in> set xs \<Longrightarrow> x \<le> foldl max a xs" for a :: "'a :: linorder"
proof (induction xs arbitrary: a)
  case (Cons y xs)
  { case 1 show ?case using Cons.IH(1) [of "max a y"] by simp }
  { case 2 show ?case using 2 Cons.IH(1) [of "max a y"] Cons.IH(2) [of "max a y"] by auto }
qed simp_all

lemma to_dense_ok:
  assumes cs: "distinct (map fst cs)" and eq: "to_dense cs c = (mn, slots)"
  shows "child (Dense mn slots nbr) = map_of cs" and "mn \<le> c" and "unat c < unat mn + length slots"
    and "unat mn + length slots \<le> 256" and "slots \<noteq> []"
    and "length (filter (\<lambda>n. n \<noteq> None) slots) = length cs"
    and "Some n \<in> set slots \<Longrightarrow> n \<in> snd ` set cs"
proof -
  define mx where "mx = max (foldl max 0 (map fst cs)) c"
  let ?e = "replicate (unat mx - unat mn + 1) None :: nn_trie_node option list"
  have mn: "mn = min (foldl min 255 (map fst cs)) c" and slots: "slots = fill_dense mn cs ?e"
    using eq by (auto simp: to_dense_def Let_def mx_def)
  have le: "mn \<le> c" "c \<le> mx" "mn \<le> mx" "\<And>k. k \<in> fst ` set cs \<Longrightarrow> mn \<le> k \<and> k \<le> mx"
    using foldl_min_le(2) [of _ "map fst cs" 255] foldl_max_ge(2) [of _ "map fst cs" 0]
    by (auto simp: mn mx_def min.coboundedI1 max.coboundedI1 intro: order_trans [OF min.cobounded2 max.cobounded2])
  have none: "child (Dense mn ?e 0) k = None" for k by (auto simp: child_Dense word_le_nat_alt nth_Cons')
  have len: "unat mn + length ?e = unat mx + 1" using le(3) by (simp add: word_le_nat_alt)
  have "unat mx < 256" using unsigned_less [where ?'a = nat and w = mx] by simp
  moreover have pre: "mn \<le> k \<and> unat k < unat mn + length ?e \<and> child (Dense mn ?e 0) k = None" if "k \<in> fst ` set cs" for k
    using le(4) [OF that] none len by (simp add: word_le_nat_alt)
  note fill = fill_dense_ok [OF cs pre]
  have ls: "length slots = length ?e" unfolding slots by (rule fill(1))
  ultimately show "unat mn + length slots \<le> 256" unfolding ls len by simp
  have "child (Dense mn ?e 0) = Map.empty" using none by blast
  then show "child (Dense mn slots nbr) = map_of cs" using fill(2) [of nbr] by (simp add: slots)
  show "mn \<le> c" by (rule le(1))
  show "unat c < unat mn + length slots" unfolding ls len using le(2) by (simp add: word_le_nat_alt)
  show "length (filter (\<lambda>n. n \<noteq> None) slots) = length cs" using fill(3) by (simp add: slots)
  show "Some n \<in> set slots \<Longrightarrow> n \<in> snd ` set cs" using fill(4) [of n] by (auto simp: slots)
  have "length slots \<noteq> 0" unfolding ls by simp
  then show "slots \<noteq> []" by auto
qed

lemma new_nodes_ok: "node_ok (new_nodes d)"
proof (induction d rule: new_nodes.induct)
  case (1 d) then show ?case by (simp add: new_nodes.simps [of d] node_ok_iff NN_TRIE_SPARSE_MAX_def)
qed

text \<open>Step 3 makes the new nodes the child for the character, keeps the others and, in a full sparse array, forgets the
  subscriptions to the node's own string.\<close>

definition sparse_full :: "nn_trie_children \<Rightarrow> bool" where
  "sparse_full ch = (case ch of Sparse cs \<Rightarrow> length cs \<ge> NN_TRIE_SPARSE_MAX | Dense _ _ _ \<Rightarrow> False)"

lemma dense_slot_None:
  assumes "child (Dense mn slots nbr) c = None" "mn \<le> c" "unat c < unat mn + length slots"
  shows "slots ! (unat c - unat mn) = None" and "unat c - unat mn < length slots"
  using assms by (auto simp: child_Dense word_le_nat_alt)

lemma dense_add_ok:
  assumes slots: "child (Dense mn slots k) c = None" "mn \<le> c" "unat c < unat mn + length slots" "unat mn + length slots \<le> 256"
    and cnt: "Suc (length (filter (\<lambda>n. n \<noteq> None) slots)) = unat nbr" "NN_TRIE_SPARSE_MAX < unat nbr"
    and ok: "\<And>m. Some m \<in> set slots \<Longrightarrow> node_ok m" "node_ok n"
  shows "child (Dense mn (slots[unat c - unat mn := Some n]) nbr) = (child (Dense mn slots k))(c \<mapsto> n)"
    and "node_ok (TNode r p (Dense mn (slots[unat c - unat mn := Some n]) nbr))"
proof -
  note i = dense_slot_None [OF slots(1-3)]
  show "child (Dense mn (slots[unat c - unat mn := Some n]) nbr) = (child (Dense mn slots k))(c \<mapsto> n)"
    by (rule dense_upd [OF slots(2,3)])
  have "node_ok m" if "Some m \<in> set (slots[unat c - unat mn := Some n])" for m
    using that ok set_update_subset_insert [of slots "unat c - unat mn" "Some n"] by auto
  moreover have "slots[unat c - unat mn := Some n] \<noteq> []" using i(2) by auto
  ultimately show "node_ok (TNode r p (Dense mn (slots[unat c - unat mn := Some n]) nbr))"
    using filter_upd_None [OF i(2,1), of n] slots(4) cnt by (simp add: node_ok_iff)
qed

lemma step3_ok:
  assumes ok: "node_ok (TNode r p ch)" and c: "child ch c = None"
  obtains ch' where "trie_step3 (TNode r p ch) (c # rest) = Some (TNode (if sparse_full ch then 0 else r) p ch', 1)"
    "child ch' = (child ch)(c \<mapsto> new_nodes rest)" "node_ok (TNode (if sparse_full ch then 0 else r) p ch')"
proof (cases ch)
  case (Sparse cs)
  have cs: "distinct (map fst cs)" "length cs \<le> NN_TRIE_SPARSE_MAX" "\<And>n. n \<in> snd ` set cs \<Longrightarrow> node_ok n" "map_of cs c = None"
    using ok c by (auto simp: Sparse node_ok_iff)
  show thesis
  proof (cases "length cs < NN_TRIE_SPARSE_MAX")
    case True
    have "c \<notin> fst ` set cs" using cs(4) by (simp add: map_of_eq_None_iff)
    then have "node_ok (TNode r p (Sparse (cs @ [(c, new_nodes rest)])))" using cs True new_nodes_ok by (auto simp: node_ok_iff)
    moreover have "map_of (cs @ [(c, new_nodes rest)]) = (map_of cs)(c \<mapsto> new_nodes rest)"
      using cs(4) by (auto simp: map_add_def fun_eq_iff split: option.splits)
    ultimately show thesis using True by (intro that [of "Sparse (cs @ [(c, new_nodes rest)])"])
      (simp_all add: Sparse trie_step3_def sparse_full_def)
  next
    case False
    then have len: "length cs = 8" using cs(2) by (simp add: NN_TRIE_SPARSE_MAX_def)
    obtain mn slots where d: "to_dense cs c = (mn, slots)" by force
    note D = to_dense_ok [OF cs(1) d]
    have none: "child (Dense mn slots 0) c = None" using cs(4) by (simp add: D(1))
    have nbr: "unat (of_nat (length cs) + 1 :: u16) = 9" by (simp add: len)
    have cnt: "Suc (length (filter (\<lambda>n. n \<noteq> None) slots)) = unat (of_nat (length cs) + 1 :: u16)"
      "NN_TRIE_SPARSE_MAX < unat (of_nat (length cs) + 1 :: u16)" unfolding nbr D(6) len by (simp_all add: NN_TRIE_SPARSE_MAX_def)
    have all: "node_ok m" if "Some m \<in> set slots" for m using cs(3) D(7) [OF that] .
    note add = dense_add_ok [OF none D(2-4) cnt all new_nodes_ok]
    show thesis using False add(1) D(1) [of 0] dense_slot_None(1) [OF none D(2,3)]
      by (intro that [OF _ _ add(2)]) (simp_all add: Sparse trie_step3_def sparse_full_def d)
  qed
next
  case (Dense mn slots nbr)
  have sl: "slots \<noteq> []" "unat mn + length slots \<le> 256" "unat nbr = length (filter (\<lambda>n. n \<noteq> None) slots)" "NN_TRIE_SPARSE_MAX < unat nbr"
    "\<And>m. Some m \<in> set slots \<Longrightarrow> node_ok m" using ok by (auto simp: Dense node_ok_iff)
  obtain mn' slots' where d: "resize_dense mn slots c = (mn', slots')" by force
  note D = resize_dense_ok [OF d sl(1,2)]
  have none: "child (Dense mn' slots' 0) c = None" using c by (simp add: D(1) [of 0 nbr] Dense)
  have "unat nbr \<le> length slots" using sl(3) by simp
  then have "unat nbr + 1 < 2 ^ 16" using sl(2) by simp
  then have nbr: "unat (nbr + 1) = unat nbr + 1" by (simp add: unat_word_ariths(1))
  have all: "node_ok m" if "Some m \<in> set slots'" for m using sl(5) D(7) that by blast
  have cnt: "Suc (length (filter (\<lambda>n. n \<noteq> None) slots')) = unat (nbr + 1)" "NN_TRIE_SPARSE_MAX < unat (nbr + 1)"
    unfolding nbr using D(6) sl(3,4) by simp_all
  note add = dense_add_ok [OF none D(2-4) cnt all new_nodes_ok]
  show thesis using add(1) D(1) [of 0 nbr] dense_slot_None(1) [OF none D(2,3)]
    by (intro that [OF _ _ add(2)]) (simp_all add: Dense trie_step3_def sparse_full_def d)
qed

section \<open>Subscribing\<close>

lemma node_ok_compact: "node_ok n \<Longrightarrow> node_ok (nn_node_compact n)"
  by (cases n rule: nn_node_compact_cases) (auto simp: node_ok_iff)

text \<open>Changing the count of a node or one of its children.\<close>

lemma sub_count_upd:
  assumes "child ch' = (child ch)(c := v)"
  shows "sub_count (Some (TNode r' p ch')) s = (if s = p then unat r' else
     if prefix (p @ [c]) s then sub_count v (drop (length p + 1) s) else sub_count (Some (TNode r p ch)) s)"
proof (cases "prefix p s")
  case True
  then obtain t where s: "s = p @ t" by (auto simp: prefix_def)
  show ?thesis
  proof (cases t)
    case (Cons a u) then show ?thesis using assms s by (cases "a = c") simp_all
  qed (simp add: s)
next
  case False
  then have "s \<noteq> p" "\<not> prefix (p @ [c]) s" using append_prefixD by auto
  then show ?thesis using False by (simp add: sub_count_mismatch)
qed

lemma sub_count_refcount:
  "sub_count (Some (TNode r' p ch)) s = (if s = p then unat r' else sub_count (Some (TNode r p ch)) s)"
proof (cases "prefix p s")
  case True
  then obtain t where "s = p @ t" by (auto simp: prefix_def)
  then show ?thesis by (cases t) simp_all
next
  case False then show ?thesis by (auto simp: sub_count_mismatch)
qed

text \<open>The string whose subscriptions are forgotten when another string is added.\<close>

function lost_sub :: "nn_trie_node option \<Rightarrow> bytes \<Rightarrow> bytes option" where
  "lost_sub None data = None"
| "lost_sub (Some (TNode r p ch)) data =
    (if nn_node_check_prefix p data \<noteq> length p then None
     else (case drop (length p) data of
       [] \<Rightarrow> None
     | c # rest \<Rightarrow> (case child ch c of
         Some n \<Rightarrow> map_option (\<lambda>l. p @ c # l) (lost_sub (Some n) rest)
       | None \<Rightarrow> if sparse_full ch then Some p else None)))"
  by pat_completeness auto
termination
  by (relation "measure (\<lambda>(n, data). length data)") (auto dest!: arg_cong [where f = length])

declare lost_sub.simps(2) [simp del]

lemma lost_sub_append [simp]: "lost_sub (Some (TNode r p ch)) (p @ c # rest) = (case child ch c of
    Some n \<Rightarrow> map_option (\<lambda>l. p @ c # l) (lost_sub (Some n) rest) | None \<Rightarrow> if sparse_full ch then Some p else None)"
  by (simp add: lost_sub.simps(2))

lemma lost_sub_self [simp]: "lost_sub (Some (TNode r p ch)) p = None"
  using check_prefix_append [of p "[]"] by (simp add: lost_sub.simps(2) del: check_prefix_append)

lemma lost_sub_mismatch: "nn_node_check_prefix p s \<noteq> length p \<Longrightarrow> lost_sub (Some (TNode r p ch)) s = None"
  by (simp add: lost_sub.simps(2))

definition subscribed :: "nn_trie_node option \<Rightarrow> bytes \<Rightarrow> bytes option \<Rightarrow> bytes \<Rightarrow> nat" where
  "subscribed t d lost s = (if s = d then sub_count t s + 1 else if lost = Some s then 0 else sub_count t s)"

lemma step3_subscribed:
  assumes ok: "node_ok (TNode r p ch)" and room: "d = [] \<longrightarrow> unat r + 1 < 2 ^ 32"
    and new: "\<And>c rest. d = c # rest \<Longrightarrow> child ch c = None"
  shows "\<exists>n rc. trie_step3 (TNode r p ch) d = Some (n, rc) \<and> node_ok n
     \<and> rc = (if sub_count (Some (TNode r p ch)) (p @ d) = 0 then 1 else 0)
     \<and> sub_count (Some n) = subscribed (Some (TNode r p ch)) (p @ d) (if d \<noteq> [] \<and> sparse_full ch then Some p else None)"
proof (cases d)
  case Nil
  then have r: "unat (r + 1) = unat r + 1" using room by (simp add: unat_word_ariths(1))
  then have "(r + 1 = 1) = (unat r = 0)" by (simp add: unat_eq_zero)
  then show ?thesis using Nil ok r sub_count_refcount [of "r + 1" p ch _ r]
    by (auto simp: trie_step3_def node_ok_iff subscribed_def fun_eq_iff)
next
  case (Cons c rest)
  from step3_ok [OF ok new [OF Cons], of rest] obtain ch' where
    *: "trie_step3 (TNode r p ch) (c # rest) = Some (TNode (if sparse_full ch then 0 else r) p ch', 1)"
      "child ch' = (child ch)(c \<mapsto> new_nodes rest)" "node_ok (TNode (if sparse_full ch then 0 else r) p ch')" .
  have z: "sub_count (Some (TNode r p ch)) (p @ c # t) = 0" for t using new [OF Cons] by simp
  have "sub_count (Some (TNode (if sparse_full ch then 0 else r) p ch')) s
      = subscribed (Some (TNode r p ch)) (p @ d) (if d \<noteq> [] \<and> sparse_full ch then Some p else None) s" for s
    using z Cons by (auto simp: sub_count_upd [OF *(2), where r = r] sub_count_new_nodes subscribed_def prefix_def)
  then show ?thesis using * Cons z by auto
qed

lemma nn_node_subscribe_ok:
  assumes "\<And>n. t = Some n \<Longrightarrow> node_ok n" and "sub_count t d + 1 < 2 ^ 32"
  shows "\<exists>n rc. nn_node_subscribe t d = Some (n, rc) \<and> node_ok n \<and> rc = (if sub_count t d = 0 then 1 else 0)
     \<and> sub_count (Some n) = subscribed t d (lost_sub t d)"
  using assms
proof (induction t d rule: nn_node_subscribe.induct)
  case (1 data)
  show ?case by (simp add: new_nodes_ok sub_count_new_nodes subscribed_def fun_eq_iff)
next
  case (2 r p ch d)
  have ok: "node_ok (TNode r p ch)" using "2.prems"(1) by blast
  let ?pos = "nn_node_check_prefix p d"
  show ?case
  proof (cases "?pos < length p")
    case True
    let ?q = "take ?pos p" and ?c = "p ! ?pos" and ?p2 = "drop (?pos + 1) p"
    let ?old = "nn_node_compact (TNode r ?p2 ch)" and ?d = "drop ?pos d"
    have p: "p = ?q @ ?c # ?p2" using True by (metis Suc_eq_plus1 append_take_drop_id Cons_nth_drop_Suc)
    have d: "d = ?q @ ?d" using check_prefix_take [of p d] by (metis append_take_drop_id)
    have "node_ok ?old" using ok by (intro node_ok_compact) (simp add: node_ok_iff)
    then have ok': "node_ok (TNode 0 ?q (Sparse [(?c, ?old)]))" by (simp add: node_ok_iff NN_TRIE_SPARSE_MAX_def)
    have new: "child (Sparse [(?c, ?old)]) c = None" if "?d = c # rest" for c rest
      using check_prefix_mismatch [OF True that] by simp
    have eq: "sub_count (Some (TNode 0 ?q (Sparse [(?c, ?old)]))) = sub_count (Some (TNode r p ch))"
    proof -
      have "sub_count (Some (TNode 0 ?q (Sparse [(?c, ?old)]))) = sub_count (Some (TNode 0 ?q (Sparse [(?c, TNode r ?p2 ch)])))"
      proof (rule sub_count_eqI)
        fix s show "sub_count (Some (TNode 0 ?q (Sparse [(?c, ?old)]))) (?q @ s)
          = sub_count (Some (TNode 0 ?q (Sparse [(?c, TNode r ?p2 ch)]))) (?q @ s)" by (cases s) (simp_all add: sub_count_compact)
      qed (simp add: sub_count_mismatch)
      also have "\<dots> = sub_count (Some (TNode r p ch))" using p sub_count_join [of r ?q ?c ?p2 ch] by simp
      finally show ?thesis .
    qed
    have lost: "lost_sub (Some (TNode r p ch)) d = None" using True by (simp add: lost_sub_mismatch)
    have full: "\<not> sparse_full (Sparse [(?c, ?old)])" by (simp add: sparse_full_def NN_TRIE_SPARSE_MAX_def)
    have sub: "nn_node_subscribe (Some (TNode r p ch)) d = trie_step3 (TNode 0 ?q (Sparse [(?c, ?old)])) ?d"
      using True by (simp add: Let_def)
    have f: "(if ?d \<noteq> [] \<and> sparse_full (Sparse [(?c, ?old)]) then Some ?q else None) = None" using full by simp
    have eq2: "subscribed (Some (TNode 0 ?q (Sparse [(?c, ?old)]))) = subscribed (Some (TNode r p ch))"
      by (simp only: subscribed_def [abs_def] eq)
    have "\<exists>n rc. trie_step3 (TNode 0 ?q (Sparse [(?c, ?old)])) ?d = Some (n, rc) \<and> node_ok n
        \<and> rc = (if sub_count (Some (TNode 0 ?q (Sparse [(?c, ?old)]))) (?q @ ?d) = 0 then 1 else 0)
        \<and> sub_count (Some n) = subscribed (Some (TNode 0 ?q (Sparse [(?c, ?old)]))) (?q @ ?d)
            (if ?d \<noteq> [] \<and> sparse_full (Sparse [(?c, ?old)]) then Some ?q else None)"
      by (rule step3_subscribed [OF ok' _ new]) simp
    then show ?thesis unfolding sub lost f eq eq2 d [symmetric] .
  next
    case False
    then have pos: "?pos = length p" using check_prefix_le(1) [of p d] by simp
    then obtain t where d: "d = p @ t" by (auto simp: check_prefix_full)
    show ?thesis
    proof (cases t)
      case Nil
      then have sub: "nn_node_subscribe (Some (TNode r p ch)) d = trie_step3 (TNode r p ch) t" using pos d by (simp add: trie_step3_def)
      have "unat r + 1 < 2 ^ 32" using "2.prems"(2) d Nil by simp
      from step3_subscribed [OF ok, of t] this Nil d show ?thesis unfolding sub by auto
    next
      case (Cons c rest)
      show ?thesis
      proof (cases "child ch c")
        case None
        then have sub: "nn_node_subscribe (Some (TNode r p ch)) d = trie_step3 (TNode r p ch) t"
          using d Cons by (auto simp: child_def split: option.splits)
        from step3_subscribed [OF ok, of t] None Cons d show ?thesis unfolding sub by auto
      next
        case (Some n)
        then have nx: "nn_node_next ch c = Some (Some n)" by (auto simp: child_def split: option.splits)
        have cnt: "sub_count (Some (TNode r p ch)) d = sub_count (Some n) rest" using d Cons Some by simp
        have "\<exists>n' rc. nn_node_subscribe (Some n) rest = Some (n', rc) \<and> node_ok n' \<and> rc = (if sub_count (Some n) rest = 0 then 1 else 0)
            \<and> sub_count (Some n') = subscribed (Some n) rest (lost_sub (Some n) rest)"
          using "2.IH" [of ?pos c rest "Some n" n] nx pos d Cons "2.prems"(2) cnt node_ok_child [OF ok Some] by simp
        then obtain n' rc where n': "nn_node_subscribe (Some n) rest = Some (n', rc)" "node_ok n'"
          "rc = (if sub_count (Some n) rest = 0 then 1 else 0)" "sub_count (Some n') = subscribed (Some n) rest (lost_sub (Some n) rest)" by blast
        have sub: "nn_node_subscribe (Some (TNode r p ch)) d = Some (TNode r p (put_child ch c n'), rc)"
          using d Cons nx n'(1) by simp
        have m: "child (put_child ch c n') = (child ch)(c \<mapsto> n')" by (rule put_child_map) (simp add: Some)
        have lost: "lost_sub (Some (TNode r p ch)) d = map_option (\<lambda>l. p @ c # l) (lost_sub (Some n) rest)" using d Cons Some by simp
        have "sub_count (Some (TNode r p (put_child ch c n'))) s = subscribed (Some (TNode r p ch)) d (lost_sub (Some (TNode r p ch)) d) s" for s
        proof (cases "prefix (p @ [c]) s")
          case True
          then obtain u where "s = p @ c # u" by (auto simp: prefix_def)
          then show ?thesis using d Cons Some by (auto simp: m n'(4) subscribed_def lost)
        next
          case False
          then show ?thesis using d Cons Some by (auto simp: sub_count_upd [OF m, where r = r] subscribed_def lost)
        qed
        then show ?thesis using sub n'(3) cnt put_child_ok [OF ok _ n'(2)] Some by auto
      qed
    qed
  qed
qed

section \<open>Matching\<close>

text \<open>When matching stays within the message its answer is whether some prefix of the message is subscribed to; when it reads past
  the end no prefix is.\<close>

definition wants :: "nn_trie_node option \<Rightarrow> bytes \<Rightarrow> bool" where
  "wants t data \<longleftrightarrow> (\<exists>s. prefix s data \<and> 0 < sub_count t s)"

lemma wants_None [simp]: "\<not> wants None data"
  by (simp add: wants_def)

lemma wants_mismatch: "\<not> prefix p data \<Longrightarrow> \<not> wants (Some (TNode r p ch)) data"
  using sub_count_mismatch prefix_order.trans unfolding wants_def by (metis less_numeral_extra(3))

lemma wants_append:
  "wants (Some (TNode r p ch)) (p @ s) \<longleftrightarrow> r \<noteq> 0 \<or> (case s of [] \<Rightarrow> False | c # rest \<Rightarrow> wants (child ch c) rest)"
proof
  assume "wants (Some (TNode r p ch)) (p @ s)"
  then obtain u where u: "prefix u (p @ s)" "0 < sub_count (Some (TNode r p ch)) u" by (auto simp: wants_def)
  then obtain v where v: "u = p @ v" "prefix v s" using sub_count_mismatch by (metis less_numeral_extra(3) prefix_def same_prefix_prefix)
  show "r \<noteq> 0 \<or> (case s of [] \<Rightarrow> False | c # rest \<Rightarrow> wants (child ch c) rest)"
  proof (cases v)
    case Nil then show ?thesis using u(2) v by (auto simp: unat_eq_zero)
  next
    case (Cons c w)
    then obtain rest where "s = c # rest" "prefix w rest" using v(2) by (auto simp: prefix_def)
    then show ?thesis using u(2) v Cons by (auto simp: wants_def)
  qed
next
  assume "r \<noteq> 0 \<or> (case s of [] \<Rightarrow> False | c # rest \<Rightarrow> wants (child ch c) rest)"
  then consider "r \<noteq> 0" | c rest where "s = c # rest" "wants (child ch c) rest" by (auto split: list.splits)
  then show "wants (Some (TNode r p ch)) (p @ s)"
  proof cases
    case 1
    then have "0 < unat r" using unat_eq_zero [of r] by auto
    then show ?thesis by (auto simp: wants_def intro!: exI [of _ p])
  next
    case 2
    then obtain u where "prefix u rest" "0 < sub_count (child ch c) u" by (auto simp: wants_def)
    then show ?thesis using 2(1) by (auto simp: wants_def intro!: exI [of _ "p @ c # u"])
  qed
qed

lemma nn_node_match_ok: "case nn_node_match t data of Some b \<Rightarrow> b = wants t data | None \<Rightarrow> \<not> wants t data"
proof (induction t data rule: nn_node_match.induct)
  case (2 r p ch data)
  show ?case
  proof (cases "nn_node_check_prefix p data = length p")
    case True
    then obtain s where d: "data = p @ s" by (auto simp: check_prefix_full)
    show ?thesis
    proof (cases "r = 0")
      case r: True
      show ?thesis
      proof (cases s)
        case Nil then show ?thesis using d r wants_append [of r p ch s] by simp
      next
        case (Cons c rest)
        have "nn_node_match (Some (TNode r p ch)) data = nn_node_match (child ch c) rest" using d r Cons by (simp add: child_def)
        moreover have "case nn_node_match (child ch c) rest of Some b \<Rightarrow> b = wants (child ch c) rest | None \<Rightarrow> \<not> wants (child ch c) rest"
          using "2.IH" [of c rest] d r Cons unfolding child_def by simp
        moreover have "wants (Some (TNode r p ch)) data = wants (child ch c) rest" using d r Cons by (simp add: wants_append)
        ultimately show ?thesis by (simp only:)
      qed
    next
      case False then show ?thesis using d wants_append [of r p ch s] by simp
    qed
  next
    case False
    then show ?thesis using wants_mismatch [of p data r ch] by (auto simp: check_prefix_full prefix_def)
  qed
qed simp

section \<open>Unsubscribing\<close>

lemma drop_sparse_ok:
  assumes "distinct (map fst cs)" and "map_of cs c \<noteq> None"
  obtains cs' where "drop_sparse cs c = Some cs'" "map_of cs' = (map_of cs)(c := None)" "distinct (map fst cs')"
    "set cs' \<subseteq> set cs" "length cs = Suc (length cs')"
proof -
  have "\<exists>cs'. drop_sparse cs c = Some cs' \<and> map_of cs' = (map_of cs)(c := None) \<and> distinct (map fst cs')
      \<and> set cs' \<subseteq> set cs \<and> length cs = Suc (length cs')"
    using assms
  proof (induction cs c rule: drop_sparse.induct)
    case (2 k m cs c)
    show ?case
    proof (cases "k = c")
      case True
      then have "map_of cs c = None" using "2.prems"(1) by (auto simp: map_of_eq_None_iff)
      then show ?thesis using True "2.prems" by (auto simp: fun_upd_idem)
    next
      case False
      have "distinct (map fst cs)" "map_of cs c \<noteq> None" using "2.prems" False by (auto split: if_splits)
      from "2.IH" [OF False this] obtain cs' where IH: "drop_sparse cs c = Some cs'" "map_of cs' = (map_of cs)(c := None)"
        "distinct (map fst cs')" "set cs' \<subseteq> set cs" "length cs = Suc (length cs')" by blast
      moreover have "k \<notin> fst ` set cs'" using "2.prems"(1) IH(4) by auto
      ultimately show ?thesis using False by (auto simp: fun_upd_twist)
    qed
  qed simp
  then show thesis using that by blast
qed

lemma dense_entries_ok:
  assumes "unat k + length slots \<le> 256"
  shows "map_of (dense_entries k slots) d = child (Dense k slots nbr) d"
    and "x \<in> set (dense_entries k slots) \<Longrightarrow> k \<le> fst x \<and> Some (snd x) \<in> set slots"
    and "distinct (map fst (dense_entries k slots))"
    and "length (dense_entries k slots) = length (filter (\<lambda>n. n \<noteq> None) slots)"
proof -
  have suc: "unat (k + 1) = unat k + 1" "k < k + 1" if "unat k + 1 < 256" for k :: u8
  proof -
    show "unat (k + 1) = unat k + 1" using that by (simp add: unat_word_ariths(1))
    then show "k < k + 1" by (simp add: word_less_nat_alt)
  qed
  have "(\<forall>d. map_of (dense_entries k slots) d = child (Dense k slots nbr) d)
    \<and> (\<forall>x \<in> set (dense_entries k slots). k \<le> fst x \<and> Some (snd x) \<in> set slots)
    \<and> distinct (map fst (dense_entries k slots))
    \<and> length (dense_entries k slots) = length (filter (\<lambda>n. n \<noteq> None) slots)"
    using assms
  proof (induction slots arbitrary: k)
    case Nil show ?case by simp
  next
    case (Cons v slots)
    have step: "child (Dense k (v # slots) nbr) d = (if d = k then v else child (Dense (k + 1) slots nbr) d)" for d
    proof (cases "slots = []")
      case True
      have "k \<le> d \<and> unat d < unat k + 1 \<longleftrightarrow> d = k" by (auto simp: word_le_nat_alt word_unat_eq_iff)
      then show ?thesis using True by (auto simp: child_Dense [of k "[v]"])
    next
      case False
      then have "unat k + 1 < 256" using Cons.prems by (cases slots) auto
      note s = suc [OF this]
      have "k + 1 \<le> d \<longleftrightarrow> k \<le> d \<and> d \<noteq> k" by (auto simp: word_le_nat_alt s word_unat_eq_iff)
      then show ?thesis by (auto simp: child_Dense s word_le_nat_alt nth_Cons')
    qed
    show ?case
    proof (cases "slots = []")
      case True then show ?thesis using step by (cases v) auto
    next
      case False
      then have "unat k + 1 < 256" using Cons.prems by (cases slots) auto
      note s = suc [OF this]
      have "unat (k + 1) + length slots \<le> 256" using Cons.prems s by simp
      note IH = Cons.IH [OF this]
      have "k \<notin> fst ` set (dense_entries (k + 1) slots)" using IH s(2) by force
      moreover have "\<forall>x \<in> set (dense_entries (k + 1) slots). k \<le> fst x" using IH s(2) by (meson order.strict_implies_order order_trans)
      moreover have "\<not> k + 1 \<le> k" using s(2) by simp
      then have "child (Dense (k + 1) slots nbr) k = None" by (simp add: child_Dense)
      ultimately show ?thesis using IH step by (cases v) auto
    qed
  qed
  then show "map_of (dense_entries k slots) d = child (Dense k slots nbr) d"
    "x \<in> set (dense_entries k slots) \<Longrightarrow> k \<le> fst x \<and> Some (snd x) \<in> set slots"
    "distinct (map fst (dense_entries k slots))"
    "length (dense_entries k slots) = length (filter (\<lambda>n. n \<noteq> None) slots)" by blast+
qed

text \<open>Trimming a dense array whose slot for a character has been cleared.\<close>

lemma trim_dense_ok:
  assumes eq: "trim_dense mn slots c = (mn', slots')" and b: "unat mn + length slots \<le> 256" and some: "\<exists>n. Some n \<in> set slots"
  shows "child (Dense mn' slots' k) = child (Dense mn slots nbr)" and "unat mn' + length slots' \<le> 256" and "slots' \<noteq> []"
    and "length (filter (\<lambda>n. n \<noteq> None) slots') = length (filter (\<lambda>n. n \<noteq> None) slots)"
    and "set slots' \<subseteq> set slots"
proof -
  have "child (Dense mn' slots' k) = child (Dense mn slots nbr) \<and> unat mn' + length slots' \<le> 256 \<and> slots' \<noteq> []
    \<and> length (filter (\<lambda>n. n \<noteq> None) slots') = length (filter (\<lambda>n. n \<noteq> None) slots) \<and> set slots' \<subseteq> set slots"
  proof (cases "c = mn")
    case True
    define i where "i = length (takeWhile (\<lambda>n. n = None) slots)"
    have "takeWhile (\<lambda>n. n = None) slots \<noteq> slots" using some by (metis option.distinct(1) set_takeWhileD)
    then have i: "i < length slots" unfolding i_def
      by (metis length_takeWhile_le nat_less_le takeWhile_eq_take take_all_iff le_refl)
    have none: "slots ! j = None" if "j < i" for j
      using that nth_mem [of j "takeWhile (\<lambda>n. n = None) slots"] takeWhile_nth [of j "\<lambda>n. n = None" slots] set_takeWhileD
      unfolding i_def by metis
    have s: "mn' = mn + of_nat i" "slots' = drop i slots" using eq True by (auto simp: trim_dense_def i_def Let_def)
    have u: "unat mn' = unat mn + i" using i b by (simp add: s unat_word_ariths(1) unat_of_nat take_bit_nat_eq_self_iff)
    have "child (Dense mn' slots' k) d = child (Dense mn slots nbr) d" for d
      using i none [of "unat d - unat mn"] by (auto simp: child_Dense u word_le_nat_alt s(2))
    moreover have "filter (\<lambda>n. n \<noteq> None) (take i slots) = []"
      using none i by (auto simp: filter_empty_conv in_set_conv_nth)
    then have "filter (\<lambda>n. n \<noteq> None) slots' = filter (\<lambda>n. n \<noteq> None) slots"
      by (metis append_Nil append_take_drop_id filter_append s(2))
    ultimately show ?thesis using u i b by (auto simp: s(2) dest: in_set_dropD)
  next
    case False
    note left = this
    show ?thesis
    proof (cases "unat c = unat mn + length slots - 1")
      case True
      define j where "j = length (takeWhile (\<lambda>n. n = None) (rev (tl slots)))"
      define i where "i = length slots - 1 - j"
      have ne: "slots \<noteq> []" using some by auto
      have j: "j \<le> length slots - 1" unfolding j_def using length_takeWhile_le [of _ "rev (tl slots)"] by simp
      have none: "slots ! m = None" if "i < m" "m < length slots" for m
      proof -
        have lt: "length slots - 1 - m < j" using that i_def by simp
        then have "rev (tl slots) ! (length slots - 1 - m) = None"
          using nth_mem [of "length slots - 1 - m" "takeWhile (\<lambda>n. n = None) (rev (tl slots))"]
            takeWhile_nth [of "length slots - 1 - m" "\<lambda>n. n = None" "rev (tl slots)"] set_takeWhileD unfolding j_def by metis
        moreover have "rev (tl slots) ! (length slots - 1 - m) = slots ! m"
        proof -
          have e: "Suc (length slots - Suc (Suc (length slots - Suc m))) = m" using that by arith
          show ?thesis using that lt j by (subst rev_nth) (auto simp: nth_tl e)
        qed
        ultimately show ?thesis by simp
      qed
      have s: "mn' = mn" "slots' = take (i + 1) slots" using eq left True by (auto simp: trim_dense_def i_def j_def Let_def)
      have "child (Dense mn' slots' k) d = child (Dense mn slots nbr) d" for d
        using none [of "unat d - unat mn"] by (auto simp: child_Dense s word_le_nat_alt)
      moreover have "filter (\<lambda>n. n \<noteq> None) (drop (i + 1) slots) = []"
        using none by (auto simp: filter_empty_conv in_set_conv_nth)
      then have "filter (\<lambda>n. n \<noteq> None) slots' = filter (\<lambda>n. n \<noteq> None) slots"
        by (metis append_Nil2 append_take_drop_id filter_append s(2))
      ultimately show ?thesis using b ne by (auto simp: s dest: in_set_takeD)
    next
      case False
      then have "mn' = mn" "slots' = slots" using eq left by (auto simp: trim_dense_def)
      then show ?thesis using b some by (auto simp: child_Dense fun_eq_iff)
    qed
  qed
  then show "child (Dense mn' slots' k) = child (Dense mn slots nbr)" "unat mn' + length slots' \<le> 256" "slots' \<noteq> []"
    "length (filter (\<lambda>n. n \<noteq> None) slots') = length (filter (\<lambda>n. n \<noteq> None) slots)" "set slots' \<subseteq> set slots" by blast+
qed

text \<open>Removing the child for a character: nothing below it is left, the other subscriptions stay, except that the node loses its own when its array
  becomes sparse.\<close>

definition shrinks :: "nn_trie_children \<Rightarrow> bool" where
  "shrinks ch = (case ch of Sparse _ \<Rightarrow> False | Dense _ _ nbr \<Rightarrow> unat nbr \<le> NN_TRIE_SPARSE_MAX + 1)"

lemma filter_upd_Some:
  assumes "i < length xs" and "xs ! i = Some v"
  shows "Suc (length (filter (\<lambda>n. n \<noteq> None) (xs[i := None]))) = length (filter (\<lambda>n. n \<noteq> None) xs)"
  using assms
proof (induction xs arbitrary: i)
  case (Cons x xs) then show ?case by (cases i) auto
qed simp

lemma trie_prune_node:
  assumes ok: "node_ok (TNode r p ch)" and c: "child ch c = Some n"
  obtains ch' where "children_ok ch'" "child_nodes ch' \<subseteq> child_nodes ch" "child ch' = (child ch)(c := None)"
    "trie_prune (TNode r p ch) c = Some (if ch' = Sparse [] \<and> r = 0 then None
       else Some (nn_node_compact (TNode (if shrinks ch then 0 else r) p ch')), Inr 1)"
    "shrinks ch \<longrightarrow> ch' \<noteq> Sparse []"
proof (cases ch)
  case (Sparse cs)
  have "distinct (map fst cs)" "map_of cs c \<noteq> None" "length cs \<le> NN_TRIE_SPARSE_MAX" using ok c by (auto simp: Sparse node_ok_iff)
  from drop_sparse_ok [OF this(1,2)] this(3) obtain cs' where "drop_sparse cs c = Some cs'" "map_of cs' = (map_of cs)(c := None)"
    "distinct (map fst cs')" "set cs' \<subseteq> set cs" "length cs' \<le> NN_TRIE_SPARSE_MAX" by (metis Suc_leD)
  then show thesis by (intro that [of "Sparse cs'"]) (auto simp: Sparse trie_prune_def shrinks_def nn_node_has_subscribers_def)
next
  case (Dense mn slots nbr)
  have sl: "unat mn + length slots \<le> 256" "unat nbr = length (filter (\<lambda>n. n \<noteq> None) slots)" "NN_TRIE_SPARSE_MAX < unat nbr"
    using ok by (auto simp: Dense node_ok_iff)
  have i: "mn \<le> c" "unat c < unat mn + length slots" "slots ! (unat c - unat mn) = Some n" "unat c - unat mn < length slots"
    using c by (auto simp: Dense child_Dense word_le_nat_alt split: if_splits)
  define slots1 where "slots1 = slots[unat c - unat mn := None]"
  have ch1: "child (Dense mn slots1 k) = (child ch)(c := None)" for k unfolding slots1_def Dense by (rule dense_upd [OF i(1,2)])
  have cnt: "Suc (length (filter (\<lambda>n. n \<noteq> None) slots1)) = unat nbr"
    using filter_upd_Some [OF i(4,3)] sl(2) by (simp add: slots1_def)
  have sub: "Some m \<in> set slots1 \<Longrightarrow> Some m \<in> set slots" for m
    unfolding slots1_def by (metis insertE option.distinct(1) set_update_subset_insert subsetD)
  have b1: "unat mn + length slots1 \<le> 256" using sl(1) by (simp add: slots1_def)
  show thesis
  proof (cases "shrinks ch")
    case False
    then have big: "unat nbr > NN_TRIE_SPARSE_MAX + 1" by (simp add: shrinks_def Dense)
    then have "filter (\<lambda>n. n \<noteq> None) slots1 \<noteq> []" using cnt by (metis Suc_eq_plus1 add_cancel_left_left list.size(3) not_less_iff_gr_or_eq not_add_less1 plus_1_eq_Suc)
    then have some: "\<exists>m. Some m \<in> set slots1" by (auto simp: filter_empty_conv)
    obtain mn' slots' where t: "trim_dense mn slots1 c = (mn', slots')" by force
    note T = trim_dense_ok [OF t b1 some]
    have "unat (nbr - 1) = unat nbr - 1" using big by (simp add: unat_sub word_le_nat_alt)
    then have "children_ok (Dense mn' slots' (nbr - 1))" using T(2-4) cnt big by (simp; linarith)
    moreover have "child (Dense mn' slots' (nbr - 1)) = (child ch)(c := None)" using T(1) [of "nbr - 1" 0] ch1 [of 0] by simp
    moreover have "child_nodes (Dense mn' slots' (nbr - 1)) \<subseteq> child_nodes ch" using T(5) sub by (auto simp: Dense)
    moreover have "nn_node_compact (TNode r p (Dense mn' slots' (nbr - 1))) = TNode r p (Dense mn' slots' (nbr - 1))"
      by (simp add: nn_node_compact_def)
    ultimately show thesis using big t False
      by (intro that [of "Dense mn' slots' (nbr - 1)"]) (simp_all add: Dense trie_prune_def Let_def slots1_def)
  next
    case True
    then have small: "\<not> unat nbr > NN_TRIE_SPARSE_MAX + 1" by (simp add: shrinks_def Dense)
    note E = dense_entries_ok [OF b1]
    have len: "length (dense_entries mn slots1) = NN_TRIE_SPARSE_MAX" using E(4) cnt small sl(3) by simp
    have "children_ok (Sparse (dense_entries mn slots1))" using E(3) len by simp
    moreover have "child (Sparse (dense_entries mn slots1)) = (child ch)(c := None)"
      using E(1) [where nbr = 0] ch1 [of 0] by (simp add: fun_eq_iff)
    moreover have "child_nodes (Sparse (dense_entries mn slots1)) \<subseteq> child_nodes ch" using E(2) sub by (force simp: Dense)
    moreover have "nn_node_compact (TNode 0 p (Sparse (dense_entries mn slots1))) = TNode 0 p (Sparse (dense_entries mn slots1))"
      by (rule nn_node_compact_cases [of "TNode 0 p (Sparse (dense_entries mn slots1))"])
        (use len in \<open>auto simp: NN_TRIE_SPARSE_MAX_def\<close>)
    moreover have "dense_entries mn slots1 \<noteq> []" using len by (auto simp: NN_TRIE_SPARSE_MAX_def)
    ultimately show thesis using small len True
      by (intro that [of "Sparse (dense_entries mn slots1)"]) (simp_all add: Dense trie_prune_def Let_def slots1_def)
  qed
qed

lemma trie_prune_ok:
  assumes ok: "node_ok (TNode r p ch)" and c: "child ch c = Some n"
  obtains t where "trie_prune (TNode r p ch) c = Some (t, Inr 1)" "\<forall>m. t = Some m \<longrightarrow> node_ok m"
    "\<forall>s. sub_count t s = (if prefix (p @ [c]) s \<or> s = p \<and> shrinks ch then 0 else sub_count (Some (TNode r p ch)) s)"
    "t = None \<longrightarrow> \<not> shrinks ch"
proof -
  from trie_prune_node [OF ok c] obtain ch' where
    *: "children_ok ch'" "child_nodes ch' \<subseteq> child_nodes ch" "child ch' = (child ch)(c := None)"
      "trie_prune (TNode r p ch) c = Some (if ch' = Sparse [] \<and> r = 0 then None
         else Some (nn_node_compact (TNode (if shrinks ch then 0 else r) p ch')), Inr 1)"
      "shrinks ch \<longrightarrow> ch' \<noteq> Sparse []" .
  let ?n = "TNode (if shrinks ch then 0 else r) p ch'"
  have cnt: "sub_count (Some ?n) s = (if prefix (p @ [c]) s \<or> s = p \<and> shrinks ch then 0 else sub_count (Some (TNode r p ch)) s)" for s
    by (auto simp: sub_count_upd [OF *(3), where r = r])
  have okn: "node_ok ?n" using ok *(1,2) by (auto simp: node_ok_iff)
  show thesis
  proof (cases "ch' = Sparse [] \<and> r = 0")
    case True
    have "sub_count (Some (TNode 0 p (Sparse []))) s = 0" for s
    proof (cases "prefix p s")
      case True
      then obtain u where "s = p @ u" by (auto simp: prefix_def)
      then show ?thesis by (cases u) simp_all
    qed (simp add: sub_count_mismatch)
    then have "sub_count (Some ?n) s = 0" for s using True by simp
    then have "sub_count None s = (if prefix (p @ [c]) s \<or> s = p \<and> shrinks ch then 0 else sub_count (Some (TNode r p ch)) s)" for s
      using cnt [of s] by (simp only: sub_count.simps(1))
    then show thesis using True *(4,5) by (intro that [of None]) auto
  next
    case False
    then show thesis using *(4) cnt node_ok_compact [OF okn]
      by (intro that [of "Some (nn_node_compact ?n)"]) (simp_all only: sub_count_compact if_False option.inject option.distinct simp_thms)
  qed
qed

text \<open>The string whose subscriptions are forgotten when another one is removed.\<close>

function unsub_lost :: "nn_trie_node option \<Rightarrow> bytes \<Rightarrow> bytes option" where
  "unsub_lost None data = None"
| "unsub_lost (Some (TNode r p ch)) data =
    (if nn_node_check_prefix p data \<noteq> length p then None
     else (case drop (length p) data of
       [] \<Rightarrow> None
     | c # rest \<Rightarrow> (case child ch c of
         None \<Rightarrow> None
       | Some n \<Rightarrow> (case nn_node_unsubscribe (Some n) rest of
           Some (None, _) \<Rightarrow> if shrinks ch then Some p else None
         | _ \<Rightarrow> map_option (\<lambda>l. p @ c # l) (unsub_lost (Some n) rest)))))"
  by pat_completeness auto
termination
  by (relation "measure (\<lambda>(n, data). length data)") (auto dest!: arg_cong [where f = length])

declare unsub_lost.simps(2) [simp del]

definition unsubscribed :: "nn_trie_node option \<Rightarrow> bytes \<Rightarrow> bytes option \<Rightarrow> bytes \<Rightarrow> nat" where
  "unsubscribed t d lost s = (if s = d then sub_count t s - 1 else if lost = Some s then 0 else sub_count t s)"

lemma trie_found_ok:
  assumes ok: "node_ok (TNode r p ch)" and pos: "0 < unat r"
  obtains t where "trie_found (Some (TNode r p ch)) = (t, Inr (if unat r = 1 then 1 else 0))" "\<forall>m. t = Some m \<longrightarrow> node_ok m"
    "sub_count t = unsubscribed (Some (TNode r p ch)) p None" "unat r \<noteq> 1 \<longrightarrow> t \<noteq> None"
proof -
  have r: "unat (r - 1) = unat r - 1" "r \<noteq> 0" "(r - 1 = 0) = (unat r = 1)"
    using pos by (auto simp: unat_sub word_le_nat_alt word_unat_eq_iff)
  let ?n = "TNode (r - 1) p ch"
  have cnt: "sub_count (Some ?n) = unsubscribed (Some (TNode r p ch)) p None"
    by (auto simp: fun_eq_iff unsubscribed_def sub_count_refcount [of "r - 1" p ch _ r] r(1))
  have okn: "node_ok ?n" using ok by (simp add: node_ok_iff)
  consider "unat r \<noteq> 1" | "unat r = 1" "ch = Sparse []" | "unat r = 1" "ch \<noteq> Sparse []" by blast
  then show thesis
  proof cases
    case 1
    then show thesis using cnt okn r by (intro that [of "Some ?n"]) (simp_all add: trie_found_def nn_node_has_subscribers_def Let_def)
  next
    case 2
    have "sub_count None = sub_count (Some ?n)"
    proof (rule sub_count_eqI [where p = p])
      fix s show "sub_count None (p @ s) = sub_count (Some ?n) (p @ s)" using 2 r(1) by (cases s) simp_all
    qed (simp add: sub_count_mismatch)
    then show thesis using 2 cnt r by (intro that [of None]) (simp_all add: trie_found_def nn_node_has_subscribers_def Let_def)
  next
    case 3
    then show thesis using cnt node_ok_compact [OF okn] r
      by (intro that [of "Some (nn_node_compact ?n)"]) (simp_all add: trie_found_def nn_node_has_subscribers_def Let_def sub_count_compact)
  qed
qed

lemma unsub_lost_self: "unsub_lost (Some (TNode r p ch)) p = None"
  using check_prefix_append [of p "[]"] by (simp add: unsub_lost.simps(2) del: check_prefix_append)

lemma unsub_lost_child:
  assumes "child ch c = Some n" and "nn_node_unsubscribe (Some n) rest = Some (t, rc)"
  shows "unsub_lost (Some (TNode r p ch)) (p @ c # rest) = (case t of
     None \<Rightarrow> if shrinks ch then Some p else None
   | Some _ \<Rightarrow> map_option (\<lambda>l. p @ c # l) (unsub_lost (Some n) rest))"
  using assms by (cases t) (simp_all add: unsub_lost.simps(2))

lemma nn_node_unsubscribe_found: "nn_node_unsubscribe (Some (TNode r p ch)) p = Some (trie_found (Some (TNode r p ch)))"
  using check_prefix_append [of p "[]"] by (simp add: nn_node_unsubscribe.simps [of _ p] del: check_prefix_append)

lemma nn_node_unsubscribe_child:
  assumes "child ch c = Some n"
  shows "nn_node_unsubscribe (Some (TNode r p ch)) (p @ c # rest) = do {
     (slot, rc) \<leftarrow> nn_node_unsubscribe (Some n) rest;
     (case slot of
        Some n \<Rightarrow> Some (Some (TNode r p (put_child ch c n)), if rc = Inr 0 then Inr 0 else Inr 1)
      | None \<Rightarrow> if rc = Inr 0 then Some (Some (TNode r p ch), Inr 0) else trie_prune (TNode r p ch) c) }"
proof -
  have "nn_node_next ch c = Some (Some n)" using assms by (auto simp: child_def split: option.splits)
  then show ?thesis by (subst nn_node_unsubscribe.simps) simp
qed

lemma nn_node_unsubscribe_ok:
  assumes "node_ok n" and "0 < sub_count (Some n) d"
  shows "\<exists>t. nn_node_unsubscribe (Some n) d = Some (t, Inr (if sub_count (Some n) d = 1 then 1 else 0))
     \<and> (\<forall>m. t = Some m \<longrightarrow> node_ok m) \<and> sub_count t = unsubscribed (Some n) d (unsub_lost (Some n) d)
     \<and> (t = None \<longrightarrow> sub_count (Some n) d = 1 \<and> unsub_lost (Some n) d = None)"
  using assms
proof (induction d arbitrary: n rule: length_induct)
  case (1 d)
  obtain r p ch where n: "n = TNode r p ch" by (cases n)
  have ok: "node_ok (TNode r p ch)" using "1.prems"(1) n by simp
  have "prefix p d" using "1.prems"(2) sub_count_mismatch n by (metis less_numeral_extra(3))
  then obtain u where d: "d = p @ u" by (auto simp: prefix_def)
  show ?case
  proof (cases u)
    case Nil
    then have "0 < unat r" using "1.prems"(2) n d by simp
    from trie_found_ok [OF ok this] obtain t where "trie_found (Some (TNode r p ch)) = (t, Inr (if unat r = 1 then 1 else 0))"
      "\<forall>m. t = Some m \<longrightarrow> node_ok m" "sub_count t = unsubscribed (Some (TNode r p ch)) p None" "unat r \<noteq> 1 \<longrightarrow> t \<noteq> None" .
    then show ?thesis using Nil n d by (auto simp: nn_node_unsubscribe_found unsub_lost_self)
  next
    case (Cons c rest)
    then have cnt: "sub_count (Some n) d = sub_count (child ch c) rest" using n d by simp
    then obtain m where m: "child ch c = Some m" using "1.prems"(2) by (cases "child ch c") auto
    have "\<exists>t. nn_node_unsubscribe (Some m) rest = Some (t, Inr (if sub_count (Some m) rest = 1 then 1 else 0))
       \<and> (\<forall>m. t = Some m \<longrightarrow> node_ok m) \<and> sub_count t = unsubscribed (Some m) rest (unsub_lost (Some m) rest)
       \<and> (t = None \<longrightarrow> sub_count (Some m) rest = 1 \<and> unsub_lost (Some m) rest = None)"
      using "1.IH" node_ok_child [OF ok m] "1.prems"(2) cnt m d Cons by simp
    then obtain t where t: "nn_node_unsubscribe (Some m) rest = Some (t, Inr (if sub_count (Some m) rest = 1 then 1 else 0))"
      "\<forall>m. t = Some m \<longrightarrow> node_ok m" "sub_count t = unsubscribed (Some m) rest (unsub_lost (Some m) rest)"
      "t = None \<longrightarrow> sub_count (Some m) rest = 1 \<and> unsub_lost (Some m) rest = None" by blast
    note un = nn_node_unsubscribe_child [OF m, of r p rest] and lost = unsub_lost_child [OF m t(1), of r p]
    have dd: "d = p @ c # rest" using d Cons by simp
    show ?thesis
    proof (cases t)
      case (Some m')
      have um: "child (put_child ch c m') = (child ch)(c \<mapsto> m')" by (rule put_child_map) (simp add: m)
      have "sub_count (Some (TNode r p (put_child ch c m'))) s = unsubscribed (Some n) d (unsub_lost (Some n) d) s" for s
      proof (cases "prefix (p @ [c]) s")
        case True
        then obtain v where "s = p @ c # v" by (auto simp: prefix_def)
        then show ?thesis using t(3) Some m by (auto simp: dd n um lost unsubscribed_def)
      next
        case False
        then show ?thesis using Some by (auto simp: dd n lost unsubscribed_def sub_count_upd [OF um, where r = r])
      qed
      moreover have "node_ok (TNode r p (put_child ch c m'))" using put_child_ok [OF ok, of c m'] t(2) Some m by simp
      ultimately show ?thesis using un t(1) Some cnt m by (auto simp: dd n)
    next
      case None
      from trie_prune_ok [OF ok m] obtain t' where t': "trie_prune (TNode r p ch) c = Some (t', Inr 1)" "\<forall>m. t' = Some m \<longrightarrow> node_ok m"
        "\<forall>s. sub_count t' s = (if prefix (p @ [c]) s \<or> s = p \<and> shrinks ch then 0 else sub_count (Some (TNode r p ch)) s)"
        "t' = None \<longrightarrow> \<not> shrinks ch" .
      have one: "sub_count (Some m) rest = 1" "unsub_lost (Some m) rest = None" using t(4) None by simp_all
      have zero: "sub_count (Some m) v = 0" if "v \<noteq> rest" for v
        using fun_cong [OF t(3), of v] that None one(2) by (simp add: unsubscribed_def)
      have "sub_count t' s = unsubscribed (Some n) d (unsub_lost (Some n) d) s" for s
      proof (cases "prefix (p @ [c]) s")
        case True
        then obtain v where "s = p @ c # v" by (auto simp: prefix_def)
        then show ?thesis using zero [of v] one m None by (auto simp: dd n t'(3) lost unsubscribed_def)
      next
        case False
        then show ?thesis using None by (auto simp: dd n t'(3) lost unsubscribed_def)
      qed
      then show ?thesis using un t(1) t' None one cnt m lost by (auto simp: dd n)
    qed
  qed
qed

section \<open>Unsubscribing a string that is not subscribed\<close>

text \<open>The string leads to an empty slot in the middle of a dense node. The code takes the slot for a child, and what is
  found there, nothing, for a child that has just been removed.\<close>

function unsub_hole :: "nn_trie_node option \<Rightarrow> bytes \<Rightarrow> bool" where
  "unsub_hole None data = False"
| "unsub_hole (Some (TNode r p ch)) data =
    (if data = [] \<or> nn_node_check_prefix p data \<noteq> length p then False
     else (case drop (length p) data of
       [] \<Rightarrow> False
     | c # rest \<Rightarrow> (case nn_node_next ch c of
         None \<Rightarrow> False
       | Some None \<Rightarrow> True
       | Some (Some n) \<Rightarrow> unsub_hole (Some n) rest)))"
  by pat_completeness auto
termination
  by (relation "measure (\<lambda>(n, data). length data)") (auto dest!: arg_cong [where f = length])

declare unsub_hole.simps(2) [simp del]

lemma put_child_same: "child ch c = Some n \<Longrightarrow> put_child ch c n = ch"
proof (cases ch)
  case (Sparse cs)
  have "map_of cs c = Some n \<Longrightarrow> put_sparse cs c n = cs" by (induction cs c n rule: put_sparse.induct) (auto split: if_splits)
  then show "child ch c = Some n \<Longrightarrow> ?thesis" using Sparse by (simp add: put_child_def)
next
  case (Dense mn slots nbr)
  assume "child ch c = Some n"
  then have "slots ! (unat c - unat mn) = Some n" by (auto simp: Dense child_Dense split: if_splits)
  then show ?thesis using Dense list_update_id [of slots "unat c - unat mn"] by (simp add: put_child_def)
qed

text \<open>Otherwise the trie stays as it is, or the string is a proper prefix of the string of the node at which the search ends, and the
  subscriptions of that longer string are taken for those of the string.\<close>

lemma nn_node_unsubscribe_missing:
  assumes "sub_count (Some n) d = 0" and "\<not> unsub_hole (Some n) d"
  shows "(\<exists>rc. nn_node_unsubscribe (Some n) d = Some (Some n, rc))
     \<or> (\<exists>e. e \<noteq> [] \<and> 0 < sub_count (Some n) (d @ e) \<and> nn_node_unsubscribe (Some n) d = nn_node_unsubscribe (Some n) (d @ e))"
  using assms
proof (induction d arbitrary: n rule: length_induct)
  case (1 d)
  obtain r p ch where n: "n = TNode r p ch" by (cases n)
  have none: "trie_found (Some (TNode 0 p ch)) = (Some (TNode 0 p ch), Inl EINVAL)"
    by (simp add: trie_found_def nn_node_has_subscribers_def)
  consider (empty) "d = []" | (mismatch) "d \<noteq> []" "nn_node_check_prefix p d \<noteq> length p"
    | (here) "d \<noteq> []" "d = p" | (below) c rest where "d = p @ c # rest"
    by (metis append_Nil2 check_prefix_full neq_Nil_conv)
  then show ?case
  proof cases
    case empty
    have u: "nn_node_unsubscribe (Some n) d = Some (trie_found (Some n))" using empty by (simp add: nn_node_unsubscribe.simps)
    show ?thesis
    proof (cases "r = 0")
      case True
      then show ?thesis using none u n by simp
    next
      case False
      then have "0 < sub_count (Some n) p" using n by (simp add: unat_gt_0)
      moreover from this "1.prems"(1) empty have "p \<noteq> []" by auto
      ultimately show ?thesis using empty u nn_node_unsubscribe_found [of r p ch] unfolding n by (intro disjI2 exI [of _ p]) simp
    qed
  next
    case mismatch
    then show ?thesis using n by (simp add: nn_node_unsubscribe.simps [of _ d])
  next
    case here
    then have "r = 0" using "1.prems"(1) n by (simp add: unat_eq_0)
    then show ?thesis using none nn_node_unsubscribe_found [of r p ch] here n by simp
  next
    case below
    have full: "nn_node_check_prefix p d = length p" "drop (length p) d = c # rest" "d \<noteq> []" using below by auto
    have hole: "unsub_hole (Some n) d = (case nn_node_next ch c of None \<Rightarrow> False | Some None \<Rightarrow> True | Some (Some m) \<Rightarrow> unsub_hole (Some m) rest)"
      using full n by (simp add: unsub_hole.simps(2))
    show ?thesis
    proof (cases "child ch c")
      case None
      then have "nn_node_next ch c = None" using "1.prems"(2) hole by (auto simp: child_def split: option.splits)
      then show ?thesis using full n by (simp add: nn_node_unsubscribe.simps [of _ d])
    next
      case (Some m)
      then have "\<not> unsub_hole (Some m) rest" using "1.prems"(2) hole by (auto simp: child_def split: option.splits)
      moreover have "sub_count (Some m) rest = 0" using "1.prems"(1) below n Some by simp
      moreover have "length rest < length d" using below by simp
      ultimately consider rc where "nn_node_unsubscribe (Some m) rest = Some (Some m, rc)"
        | e where "e \<noteq> []" "0 < sub_count (Some m) (rest @ e)" "nn_node_unsubscribe (Some m) rest = nn_node_unsubscribe (Some m) (rest @ e)"
        using "1.IH" by blast
      then show ?thesis
      proof cases
        case (1 rc)
        then show ?thesis using nn_node_unsubscribe_child [OF Some, of r p rest] below n by (simp add: put_child_same [OF Some])
      next
        case (2 e)
        have "nn_node_unsubscribe (Some n) d = nn_node_unsubscribe (Some n) (d @ e)"
          using nn_node_unsubscribe_child [OF Some, of r p rest] nn_node_unsubscribe_child [OF Some, of r p "rest @ e"] 2(3) below n by simp
        moreover have "0 < sub_count (Some n) (d @ e)" using 2(2) below n Some by simp
        ultimately show ?thesis using 2(1) by blast
      qed
    qed
  qed
qed

lemma subscribed_no_hole: "0 < sub_count (Some n) d \<Longrightarrow> \<not> unsub_hole (Some n) d"
proof (induction d arbitrary: n rule: length_induct)
  case (1 d)
  obtain r p ch where n: "n = TNode r p ch" by (cases n)
  then obtain u where d: "d = p @ u" using "1.prems" sub_count_mismatch by (metis less_numeral_extra(3) prefixE)
  show ?case
  proof (cases u)
    case Nil
    then show ?thesis using d n check_prefix_append [of p "[]"] by (simp add: unsub_hole.simps(2) del: check_prefix_append)
  next
    case (Cons c rest)
    then have "0 < sub_count (child ch c) rest" using "1.prems" d n by simp
    then obtain m where m: "child ch c = Some m" by (cases "child ch c") auto
    then have "\<not> unsub_hole (Some m) rest" using "1.IH" \<open>0 < sub_count (child ch c) rest\<close> d Cons by simp
    moreover have "nn_node_next ch c = Some (Some m)" using m by (auto simp: child_def split: option.splits)
    ultimately show ?thesis using d Cons n by (simp add: unsub_hole.simps(2))
  qed
qed

end
