(* ===== verification/Xsub.thy ===== *)
theory Xsub
  imports Pair_Pub_Bus Trie_Correct
begin

text \<open>
  The SUB socket (\<open>src/protocols/pubsub/xsub.c\<close>): a fair queue of the pipes and the trie of subscriptions,
  which the user changes by socket options and which decides on every message that arrives.
  The socket does not implement sending.
\<close>

definition NN_SUB :: int where "NN_SUB = 2 * 16 + 1"
definition NN_SUB_SUBSCRIBE :: int where "NN_SUB_SUBSCRIBE = 1"
definition NN_SUB_UNSUBSCRIBE :: int where "NN_SUB_UNSUBSCRIBE = 2"

record nn_xsub =
  xsub_fq :: nn_fq
  xsub_trie :: nn_trie

definition nn_xsub_init :: nn_xsub where
  "nn_xsub_init = \<lparr>xsub_fq = nn_fq_init, xsub_trie = nn_trie_init\<rparr>"

definition nn_xsub_add :: "('t, nn_xsub) sock_add" where
  "nn_xsub_add w self pipe = do {
     rcvprio \<leftarrow> pipe_prio w pipe NN_RCVPRIO;
     Some (w, self\<lparr>xsub_fq := nn_fq_add (xsub_fq self) pipe rcvprio\<rparr>, Inr ()) }"

definition nn_xsub_rm :: "('t, nn_xsub) sock_fn" where
  "nn_xsub_rm w self pipe = do {
     fq \<leftarrow> nn_fq_rm (xsub_fq self) pipe;
     Some (w, self\<lparr>xsub_fq := fq\<rparr>) }"

definition nn_xsub_in :: "('t, nn_xsub) sock_fn" where
  "nn_xsub_in w self pipe = do {
     fq \<leftarrow> nn_fq_in (xsub_fq self) pipe;
     Some (w, self\<lparr>xsub_fq := fq\<rparr>) }"

definition nn_xsub_out :: "('t, nn_xsub) sock_fn" where
  "nn_xsub_out w self pipe = Some (w, self)"

definition nn_xsub_events :: "nn_xsub \<Rightarrow> u32" where
  "nn_xsub_events self = (if nn_fq_can_recv (xsub_fq self) then NN_SOCKBASE_EVENT_IN else 0)"

definition nn_xsub_recv :: "'t nn_pipebase_vfptr \<Rightarrow> 't world \<Rightarrow> nn_xsub \<Rightarrow>
  ('t world \<times> nn_xsub \<times> (errno + nn_msg)) option" where
  "nn_xsub_recv vf w self = do {
     (w, fq, r) \<leftarrow> fq_recv_until vf (\<lambda>msg. nn_trie_match (xsub_trie self) (body msg)) w (xsub_fq self);
     let self = self\<lparr>xsub_fq := fq\<rparr>;
     (case r of
        Inl e \<Rightarrow> (if e = EAGAIN then Some (w, self, Inl EAGAIN) else None)
      | Inr (_, _, msg) \<Rightarrow> Some (w, self, Inr msg)) }"

definition nn_xsub_setopt :: "nn_xsub \<Rightarrow> int \<Rightarrow> int \<Rightarrow> bytes \<Rightarrow> (nn_xsub \<times> (errno + unit)) option" where
  "nn_xsub_setopt self level opt optval =
    (if level \<noteq> NN_SUB then Some (self, Inl ENOPROTOOPT)
     else if opt = NN_SUB_SUBSCRIBE then do {
       (trie, rc) \<leftarrow> nn_trie_subscribe (xsub_trie self) optval;
       Some (self\<lparr>xsub_trie := trie\<rparr>, Inr ()) }
     else if opt = NN_SUB_UNSUBSCRIBE then do {
       (trie, rc) \<leftarrow> nn_trie_unsubscribe (xsub_trie self) optval;
       Some (self\<lparr>xsub_trie := trie\<rparr>, (case rc of Inl e \<Rightarrow> Inl e | Inr _ \<Rightarrow> Inr ())) }
     else Some (self, Inl ENOPROTOOPT))"

definition nn_xsub_sockbase_vfptr :: "'t nn_pipebase_vfptr \<Rightarrow> ('t, nn_xsub) nn_sockbase_vfptr" where
  "nn_xsub_sockbase_vfptr vf = \<lparr>sb_add = nn_xsub_add, sb_rm = nn_xsub_rm, sb_in = nn_xsub_in,
     sb_out = nn_xsub_out, sb_send = None, sb_recv = Some (nn_xsub_recv vf)\<rparr>"

lemmas xsub_defs = nn_xsub_sockbase_vfptr_def nn_xsub_add_def nn_xsub_rm_def nn_xsub_in_def nn_xsub_out_def

section \<open>Tries that decide every message\<close>

text \<open>Matching stays within every message exactly when the root of the trie has subscribers of its own: otherwise the
  message that consists of the bytes of the root is read beyond its end.\<close>

definition decides :: "nn_trie \<Rightarrow> bool" where
  "decides t \<longleftrightarrow> (\<forall>n. root t = Some n \<longrightarrow> nn_node_has_subscribers n)"

lemma decides_iff: "decides t \<longleftrightarrow> (\<forall>data. nn_trie_match t data \<noteq> None)"
proof (cases "root t")
  case None then show ?thesis by (simp add: decides_def nn_trie_match_def)
next
  case (Some n)
  obtain r p ch where n: "n = TNode r p ch" by (cases n)
  show ?thesis
  proof (cases "r = 0")
    case True
    then have "nn_trie_match t p = None" using Some check_prefix_append [of p "[]"]
      by (simp add: nn_trie_match_def n del: check_prefix_append)
    then show ?thesis using Some True by (auto simp: decides_def nn_node_has_subscribers_def n)
  next
    case False
    then show ?thesis using Some by (auto simp: decides_def nn_trie_match_def nn_node_has_subscribers_def n)
  qed
qed

lemma decides_match:
  assumes "decides t"
  shows "nn_trie_match t data = Some (wants (root t) data)"
proof -
  from assms obtain b where "nn_node_match (root t) data = Some b" by (auto simp: decides_iff nn_trie_match_def)
  then show ?thesis using nn_node_match_ok [of "root t" data] by (simp add: nn_trie_match_def)
qed

lemma decides_init [simp]: "decides nn_trie_init"
  by (simp add: decides_def nn_trie_init_def)

context transport
begin

lemma xsub_recv_ready:
  assumes inv: "priolist_inv (xsub_fq s)" "decides (xsub_trie s)"
    and w: "trans_ok tinv w" "in_ready w (pl_active (xsub_fq s))" "finite (pl_active (xsub_fq s))"
  shows "\<exists>w' fq r. nn_xsub_recv vf w s = Some (w', s\<lparr>xsub_fq := fq\<rparr>, r)
     \<and> (case r of Inl e \<Rightarrow> e = EAGAIN \<and> pl_active fq = {} | Inr m \<Rightarrow> wants (root (xsub_trie s)) (body m))
     \<and> trans_ok tinv w' \<and> in_step (pl_active (xsub_fq s)) w w' \<and> priolist_inv fq
     \<and> pl_members fq = pl_members (xsub_fq s) \<and> pl_active fq = {p \<in> pl_active (xsub_fq s). in_idle w' p}"
proof -
  let ?acc = "\<lambda>msg. nn_trie_match (xsub_trie s) (body msg)"
  have "?acc m \<noteq> None" for m using inv(2) by (simp add: decides_match)
  from fq_recv_until_ok [OF inv(1) w, of ?acc, OF this] obtain w' fq r where
    *: "fq_recv_until vf ?acc w (xsub_fq s) = Some (w', fq, r)" "trans_ok tinv w'" "in_step (pl_active (xsub_fq s)) w w'"
      "priolist_inv fq" "pl_members fq = pl_members (xsub_fq s)" "pl_active fq = {q \<in> pl_active (xsub_fq s). in_idle w' q}"
    and r: "case r of Inl e \<Rightarrow> e = EAGAIN \<and> pl_active fq = {} | Inr (rc, p, m) \<Rightarrow> ?acc m = Some True
       \<and> p \<in> pl_active (xsub_fq s) \<and> (rc AND NN_PIPE_PARSED = 0 \<longrightarrow> sphdr m = [])" by blast
  show ?thesis
  proof (cases r)
    case (Inl e)
    then show ?thesis using * r by (intro exI [of _ w'] exI [of _ fq] exI [of _ "Inl EAGAIN"]) (simp add: nn_xsub_recv_def)
  next
    case (Inr v)
    obtain rc p m where v: "v = (rc, p, m)" by (cases v) auto
    then have "wants (root (xsub_trie s)) (body m)" using r Inr decides_match [OF inv(2)] by simp
    then show ?thesis using * Inr v by (intro exI [of _ w'] exI [of _ fq] exI [of _ "Inr m"]) (simp add: nn_xsub_recv_def)
  qed
qed

end

sublocale transport \<subseteq> xsub: raw_socket vf tinv avail "nn_xsub_sockbase_vfptr vf" Tracks Ignores
  "\<lambda>s. priolist_inv (xsub_fq s) \<and> decides (xsub_trie s)" "\<lambda>s. pl_members (xsub_fq s)" "\<lambda>s. pl_active (xsub_fq s)"
  "\<lambda>_. {}" "\<lambda>_. True"
proof (unfold_locales, goal_cases)
  case (2 s p w) then show ?case using fq_add_ok [of "xsub_fq s" p w] by (auto simp: xsub_defs split del: if_split)
next
  case (3 s p w) then show ?case using fq_rm_ok [of "xsub_fq s" p] by (auto simp: xsub_defs)
next
  case (4 s p w) then show ?case using fq_in_ok [of "xsub_fq s" p] by (auto simp: xsub_defs tracked_def)
next
  case (7 g s w) then show ?case using xsub_recv_ready [of s w] by (fastforce simp: xsub_defs)
qed (auto simp: xsub_defs tracked_def)

end
