(* ===== verification/Timer.thy ===== *)
theory Timer
  imports Fsm
begin

text \<open>
  Timers: the ordered set of timeouts of a worker (\<open>src/aio/timerset.c\<close>), the parts of the worker that timers use
  (\<open>src/aio/worker_posix.inc\<close>) and the timer state machine (\<open>src/aio/timer.c\<close>), for a socket
  with one timer. The state machine of the socket and that of its timer share a context. The clock is an argument.
\<close>

section \<open>Sets of timeouts\<close>

text \<open>The list of timeouts is the abstract list of \<open>Nn_List\<close>; a handle is the number of its list item.\<close>

record nn_timerset =
  ts_timeouts :: "nat list"
  ts_hndl :: "nat \<Rightarrow> u64"

definition nn_timerset_init :: nn_timerset where
  "nn_timerset_init = \<lparr>ts_timeouts = [], ts_hndl = (\<lambda>_. 0)\<rparr>"

definition nn_timerset_hndl_isactive :: "nn_timerset \<Rightarrow> nat \<Rightarrow> bool" where
  "nn_timerset_hndl_isactive self h \<longleftrightarrow> h \<in> set (ts_timeouts self)"

definition nn_timerset_add :: "u64 \<Rightarrow> nn_timerset \<Rightarrow> int \<Rightarrow> nat \<Rightarrow> (nn_timerset \<times> bool) option" where
  "nn_timerset_add now self timeout h =
    (let due = now + of_int timeout;
         self = self\<lparr>ts_hndl := (ts_hndl self)(h := due)\<rparr>;
         before = takeWhile (\<lambda>i. \<not> due < ts_hndl self i) (ts_timeouts self);
         after = dropWhile (\<lambda>i. \<not> due < ts_hndl self i) (ts_timeouts self)
     in do {
       nn_assert (\<not> nn_timerset_hndl_isactive self h);
       Some (self\<lparr>ts_timeouts := before @ h # after\<rparr>, before = []) })"

definition nn_timerset_rm :: "nn_timerset \<Rightarrow> nat \<Rightarrow> nn_timerset \<times> bool" where
  "nn_timerset_rm self h =
    (if \<not> nn_timerset_hndl_isactive self h then (self, False)
     else (self\<lparr>ts_timeouts := remove1 h (ts_timeouts self)\<rparr>, hd (ts_timeouts self) = h))"

definition nn_timerset_timeout :: "u64 \<Rightarrow> nn_timerset \<Rightarrow> int" where
  "nn_timerset_timeout now self = (case ts_timeouts self of
     [] \<Rightarrow> -1
   | h # _ \<Rightarrow> (let timeout = sint (ucast (ts_hndl self h - now) :: u32) in if timeout < 0 then 0 else timeout))"

definition nn_timerset_event :: "u64 \<Rightarrow> nn_timerset \<Rightarrow> nn_timerset \<times> (errno + nat)" where
  "nn_timerset_event now self = (case ts_timeouts self of
     [] \<Rightarrow> (self, Inl EAGAIN)
   | h # rest \<Rightarrow> if ts_hndl self h > now then (self, Inl EAGAIN) else (self\<lparr>ts_timeouts := rest\<rparr>, Inr h))"

definition timerset_inv :: "nn_timerset \<Rightarrow> bool" where
  "timerset_inv self \<longleftrightarrow> distinct (ts_timeouts self) \<and> sorted (map (ts_hndl self) (ts_timeouts self))"

lemma nn_timerset_add_ok:
  assumes "timerset_inv self" and "h \<notin> set (ts_timeouts self)"
  obtains self' first where "nn_timerset_add now self timeout h = Some (self', first)" "timerset_inv self'"
    "set (ts_timeouts self') = insert h (set (ts_timeouts self))" "ts_hndl self' = (ts_hndl self)(h := now + of_int timeout)"
    "first \<longleftrightarrow> hd (ts_timeouts self') = h"
proof -
  define due where "due = now + of_int timeout"
  define f where "f = (ts_hndl self)(h := due)"
  define before where "before = takeWhile (\<lambda>i. \<not> due < f i) (ts_timeouts self)"
  define after where "after = dropWhile (\<lambda>i. \<not> due < f i) (ts_timeouts self)"
  have xs: "before @ after = ts_timeouts self" by (simp add: before_def after_def)
  have eq: "map f (ts_timeouts self) = map (ts_hndl self) (ts_timeouts self)" using assms(2) by (auto simp: f_def)
  have srt: "sorted (map f (before @ after))" and dis: "distinct (before @ after)"
    using assms(1) unfolding xs eq by (simp_all add: timerset_inv_def)
  have le: "f i \<le> due" if "i \<in> set before" for i using set_takeWhileD [OF that [unfolded before_def]] by (simp only: not_less)
  have gt: "due \<le> f i" if "i \<in> set after" for i
  proof -
    from that have ne: "after \<noteq> []" by auto
    then have "due < f (hd after)" using hd_dropWhile [of "\<lambda>i. \<not> due < f i" "ts_timeouts self"] by (simp add: after_def)
    also have "\<dots> \<le> f i" using srt that ne by (cases after) (auto simp: sorted_append)
    finally show ?thesis by simp
  qed
  have "f h = due" by (simp add: f_def)
  then have sorted: "sorted (map f (before @ h # after))" using srt le gt by (simp add: sorted_append)
  have nh: "h \<notin> set (before @ after)" using assms(2) by (simp only: xs not_False_eq_True)
  have set: "set (before @ h # after) = insert h (set (ts_timeouts self))" by (simp flip: xs)
  have "before = [] \<longleftrightarrow> hd (before @ h # after) = h" using nh by (cases before) auto
  moreover have "nn_timerset_add now self timeout h = Some (self\<lparr>ts_hndl := f, ts_timeouts := before @ h # after\<rparr>, before = [])"
    using assms(2) by (simp add: nn_timerset_add_def nn_timerset_hndl_isactive_def Let_def before_def after_def f_def due_def)
  ultimately show thesis using sorted set dis nh
    by (intro that [of "self\<lparr>ts_hndl := f, ts_timeouts := before @ h # after\<rparr>" "before = []"])
      (simp_all add: timerset_inv_def f_def due_def)
qed

lemma nn_timerset_rm_ok:
  assumes "timerset_inv self"
  shows "timerset_inv (fst (nn_timerset_rm self h))"
    and "set (ts_timeouts (fst (nn_timerset_rm self h))) = set (ts_timeouts self) - {h}"
  using assms sorted_map_remove1 [of "ts_hndl self" "ts_timeouts self" h]
  by (simp_all add: nn_timerset_rm_def timerset_inv_def nn_timerset_hndl_isactive_def)

lemma nn_timerset_event_ok:
  assumes "timerset_inv self"
  shows "case nn_timerset_event now self of
      (self', Inl e) \<Rightarrow> e = EAGAIN \<and> self' = self \<and> (\<forall>h \<in> set (ts_timeouts self). now < ts_hndl self h)
    | (self', Inr h) \<Rightarrow> h \<in> set (ts_timeouts self) \<and> ts_hndl self h \<le> now \<and> (\<forall>i \<in> set (ts_timeouts self). ts_hndl self h \<le> ts_hndl self i)
        \<and> timerset_inv self' \<and> ts_hndl self' = ts_hndl self \<and> set (ts_timeouts self') = set (ts_timeouts self) - {h}"
proof (cases "ts_timeouts self")
  case Nil then show ?thesis by (simp add: nn_timerset_event_def)
next
  case (Cons h hs) then show ?thesis using assms by (auto simp: nn_timerset_event_def timerset_inv_def)
qed

section \<open>A socket with a timer\<close>

text \<open>The two state machines, the event by which the timer reports a timeout, and the tasks by which it talks to its worker. The
  worker's queue of tasks and its set of timeouts are shown as far as they concern this timer, whose handle is 0.\<close>

datatype sock_fsm = SockFsm | TimerFsm
datatype timer_event = Timer_done
datatype timer_task = Start_task | Stop_task
datatype timer_state = NN_TIMER_STATE_IDLE | NN_TIMER_STATE_ACTIVE | NN_TIMER_STATE_STOPPING

definition NN_TIMER_TIMEOUT :: int where "NN_TIMER_TIMEOUT = 1"
definition NN_TIMER_STOPPED :: int where "NN_TIMER_STOPPED = 2"
definition NN_TIMER_SRC_START_TASK :: int where "NN_TIMER_SRC_START_TASK = 1"
definition NN_TIMER_SRC_STOP_TASK :: int where "NN_TIMER_SRC_STOP_TASK = 2"
definition NN_WORKER_TIMER_TIMEOUT :: int where "NN_WORKER_TIMER_TIMEOUT = 1"
definition NN_WORKER_TASK_EXECUTE :: int where "NN_WORKER_TASK_EXECUTE = 1"

record nn_worker =
  wk_tasks :: "timer_task list"
  wk_timerset :: nn_timerset

record nn_timer =
  tm_state :: timer_state
  tm_timeout :: int

record 's timed =
  td_ctx :: "(sock_fsm, timer_event) nn_ctx"
  td_timer :: nn_timer
  td_worker :: nn_worker
  td_stopped :: bool
  td_sock :: 's

text \<open>State of a handler: the pipes and transports, and the socket.\<close>

type_synonym ('t, 's) tsock = "'t \<times> 's timed"

abbreviation ts_get :: "('t, 's) tsock \<Rightarrow> (sock_fsm, timer_event) nn_ctx" where "ts_get st \<equiv> td_ctx (snd st)"
abbreviation ts_upd :: "((sock_fsm, timer_event) nn_ctx \<Rightarrow> (sock_fsm, timer_event) nn_ctx) \<Rightarrow> ('t, 's) tsock \<Rightarrow> ('t, 's) tsock" where
  "ts_upd f st \<equiv> (fst st, (snd st)\<lparr>td_ctx := f (td_ctx (snd st))\<rparr>)"

definition wtimer :: nat where "wtimer = 0"

definition nn_worker_execute :: "timer_task \<Rightarrow> nn_worker \<Rightarrow> nn_worker option" where
  "nn_worker_execute task self = do {
     nn_assert (task \<notin> set (wk_tasks self));
     Some (self\<lparr>wk_tasks := wk_tasks self @ [task]\<rparr>) }"

definition nn_worker_add_timer :: "u64 \<Rightarrow> nn_worker \<Rightarrow> int \<Rightarrow> nn_worker option" where
  "nn_worker_add_timer now self timeout = do {
     (ts, _) \<leftarrow> nn_timerset_add now (wk_timerset self) timeout wtimer;
     Some (self\<lparr>wk_timerset := ts\<rparr>) }"

definition nn_worker_rm_timer :: "nn_worker \<Rightarrow> nn_worker" where
  "nn_worker_rm_timer self = self\<lparr>wk_timerset := fst (nn_timerset_rm (wk_timerset self) wtimer)\<rparr>"

definition nn_timer_init :: "int \<Rightarrow> 's timed \<Rightarrow> 's timed" where
  "nn_timer_init src self = self\<lparr>
     td_ctx := set_ev (Event Timer_done) nn_fsm_event_init (nn_fsm_init TimerFsm src None SockFsm (td_ctx self)),
     td_timer := \<lparr>tm_state = NN_TIMER_STATE_IDLE, tm_timeout = -1\<rparr>\<rparr>"

definition nn_timer_isidle :: "'s timed \<Rightarrow> bool" where
  "nn_timer_isidle self = nn_fsm_isidle (td_ctx self) TimerFsm"

definition nn_timer_term :: "'s timed \<Rightarrow> unit option" where
  "nn_timer_term self = do {
     nn_assert (tm_state (td_timer self) = NN_TIMER_STATE_IDLE);
     nn_assert (\<not> nn_fsm_event_active (td_ctx self) (Event Timer_done));
     nn_assert (\<not> nn_timerset_hndl_isactive (wk_timerset (td_worker self)) wtimer);
     nn_assert (wk_tasks (td_worker self) = []);
     nn_fsm_term (td_ctx self) TimerFsm }"

definition nn_timer_shutdown :: "int \<Rightarrow> int \<Rightarrow> nat option \<Rightarrow> ('t, 's) tsock \<Rightarrow> ('t, 's) tsock option" where
  "nn_timer_shutdown src type srcptr st = (let s = snd st; timer = td_timer s in
     if src = NN_FSM_ACTION \<and> type = NN_FSM_STOP then do {
       wk \<leftarrow> nn_worker_execute Stop_task (td_worker s);
       Some (fst st, s\<lparr>td_timer := timer\<lparr>tm_state := NN_TIMER_STATE_STOPPING\<rparr>, td_worker := wk\<rparr>) }
     else if tm_state timer = NN_TIMER_STATE_STOPPING then
       (if src \<noteq> NN_TIMER_SRC_STOP_TASK then Some st
        else do {
          nn_assert (type = NN_WORKER_TASK_EXECUTE);
          c \<leftarrow> nn_fsm_stopped TimerFsm NN_TIMER_STOPPED (td_ctx s);
          Some (fst st, s\<lparr>td_worker := nn_worker_rm_timer (td_worker s),
            td_timer := timer\<lparr>tm_state := NN_TIMER_STATE_IDLE\<rparr>, td_ctx := c\<rparr>) })
     else None)"

definition nn_timer_handler :: "u64 \<Rightarrow> int \<Rightarrow> int \<Rightarrow> nat option \<Rightarrow> ('t, 's) tsock \<Rightarrow> ('t, 's) tsock option" where
  "nn_timer_handler now src type srcptr st = (let s = snd st; timer = td_timer s in
     case tm_state timer of
       NN_TIMER_STATE_IDLE \<Rightarrow>
         if src = NN_FSM_ACTION \<and> type = NN_FSM_START then do {
           wk \<leftarrow> nn_worker_execute Start_task (td_worker s);
           Some (fst st, s\<lparr>td_timer := timer\<lparr>tm_state := NN_TIMER_STATE_ACTIVE\<rparr>, td_worker := wk\<rparr>) }
         else None
     | NN_TIMER_STATE_ACTIVE \<Rightarrow>
         if src = NN_TIMER_SRC_START_TASK then do {
           nn_assert (type = NN_WORKER_TASK_EXECUTE);
           nn_assert (tm_timeout timer \<ge> 0);
           wk \<leftarrow> nn_worker_add_timer now (td_worker s) (tm_timeout timer);
           Some (fst st, s\<lparr>td_timer := timer\<lparr>tm_timeout := -1\<rparr>, td_worker := wk\<rparr>) }
         else if srcptr = Some wtimer \<and> type = NN_WORKER_TIMER_TIMEOUT then do {
           nn_assert (tm_timeout timer = -1);
           c \<leftarrow> nn_fsm_raise TimerFsm (Event Timer_done) NN_TIMER_TIMEOUT (td_ctx s);
           Some (fst st, s\<lparr>td_ctx := c\<rparr>) }
         else None
     | NN_TIMER_STATE_STOPPING \<Rightarrow> None)"

definition nn_timer_start :: "u64 \<Rightarrow> int \<Rightarrow> ('t, 's) tsock \<Rightarrow> ('t, 's) tsock option" where
  "nn_timer_start now timeout st = do {
     nn_assert (timeout \<ge> 0);
     nn_fsm_start ts_get ts_upd (\<lambda>_. nn_timer_handler now) TimerFsm
       (fst st, (snd st)\<lparr>td_timer := (td_timer (snd st))\<lparr>tm_timeout := timeout\<rparr>\<rparr>) }"

definition nn_timer_stop :: "('t, 's) tsock \<Rightarrow> ('t, 's) tsock option" where
  "nn_timer_stop st = nn_fsm_stop ts_get ts_upd (\<lambda>_. nn_timer_shutdown) TimerFsm st"

section \<open>The worker\<close>

text \<open>Leaving the context processes the events that were raised; \<open>hdl\<close> and \<open>shut\<close> are the handlers of the socket's state machine.\<close>

type_synonym ('t, 's) sock_hdl = "int \<Rightarrow> int \<Rightarrow> nat option \<Rightarrow> ('t, 's) tsock \<Rightarrow> ('t, 's) tsock option"

definition timed_fn :: "u64 \<Rightarrow> ('t, 's) sock_hdl \<Rightarrow> (sock_fsm, ('t, 's) tsock) fsm_fn" where
  "timed_fn now hdl f = (case f of SockFsm \<Rightarrow> hdl | TimerFsm \<Rightarrow> nn_timer_handler now)"

definition timed_shutdown_fn :: "('t, 's) sock_hdl \<Rightarrow> (sock_fsm, ('t, 's) tsock) fsm_fn" where
  "timed_shutdown_fn shut f = (case f of SockFsm \<Rightarrow> shut | TimerFsm \<Rightarrow> nn_timer_shutdown)"

definition timed_leave :: "u64 \<Rightarrow> ('t, 's) sock_hdl \<Rightarrow> ('t, 's) sock_hdl \<Rightarrow> ('t, 's) tsock \<Rightarrow> ('t, 's) tsock option" where
  "timed_leave now hdl shut = ctx_process_events ts_get ts_upd
     (nn_fsm_event_process ts_get ts_upd (timed_fn now hdl) (timed_shutdown_fn shut))"

definition worker_feed :: "u64 \<Rightarrow> ('t, 's) sock_hdl \<Rightarrow> ('t, 's) sock_hdl \<Rightarrow> int \<Rightarrow> int \<Rightarrow> nat option \<Rightarrow>
  ('t, 's) tsock \<Rightarrow> ('t, 's) tsock option" where
  "worker_feed now hdl shut src type srcptr st = do {
     st \<leftarrow> nn_fsm_feed ts_get (timed_fn now hdl) (timed_shutdown_fn shut) TimerFsm src type srcptr st;
     timed_leave now hdl shut st }"

text \<open>The worker takes the next task, or the next timeout that is due.\<close>

definition worker_task :: "u64 \<Rightarrow> ('t, 's) sock_hdl \<Rightarrow> ('t, 's) sock_hdl \<Rightarrow> ('t, 's) tsock \<Rightarrow> ('t, 's) tsock option" where
  "worker_task now hdl shut st = (case wk_tasks (td_worker (snd st)) of
     [] \<Rightarrow> Some st
   | task # tasks \<Rightarrow> worker_feed now hdl shut
       (case task of Start_task \<Rightarrow> NN_TIMER_SRC_START_TASK | Stop_task \<Rightarrow> NN_TIMER_SRC_STOP_TASK) NN_WORKER_TASK_EXECUTE None
       (fst st, (snd st)\<lparr>td_worker := (td_worker (snd st))\<lparr>wk_tasks := tasks\<rparr>\<rparr>))"

definition worker_timeout :: "u64 \<Rightarrow> ('t, 's) sock_hdl \<Rightarrow> ('t, 's) sock_hdl \<Rightarrow> ('t, 's) tsock \<Rightarrow> ('t, 's) tsock option" where
  "worker_timeout now hdl shut st = (case nn_timerset_event now (wk_timerset (td_worker (snd st))) of
     (ts, Inl _) \<Rightarrow> Some st
   | (ts, Inr h) \<Rightarrow> worker_feed now hdl shut (-1) NN_WORKER_TIMER_TIMEOUT (Some h)
       (fst st, (snd st)\<lparr>td_worker := (td_worker (snd st))\<lparr>wk_timerset := ts\<rparr>\<rparr>))"

section \<open>The life of a timer\<close>

text \<open>Between two operations a timer is idle, running or stopping. A running timer has asked the worker to start it, or is in the
  worker's set, or has expired; a stopping timer waits for the worker to take the stop task.\<close>

abbreviation armed :: "'s timed \<Rightarrow> bool" where "armed s \<equiv> wtimer \<in> set (ts_timeouts (wk_timerset (td_worker s)))"
abbreviation timer_fsm :: "'s timed \<Rightarrow> fsm_state" where "timer_fsm s \<equiv> fsm_state (ctx_fsms (td_ctx s) TimerFsm)"
abbreviation sock_fsm :: "'s timed \<Rightarrow> fsm_state" where "sock_fsm s \<equiv> fsm_state (ctx_fsms (td_ctx s) SockFsm)"

definition timer_idle :: "'s timed \<Rightarrow> bool" where
  "timer_idle s \<longleftrightarrow> timer_fsm s = NN_FSM_STATE_IDLE \<and> tm_state (td_timer s) = NN_TIMER_STATE_IDLE
     \<and> wk_tasks (td_worker s) = [] \<and> \<not> armed s"

definition timer_running :: "'s timed \<Rightarrow> bool" where
  "timer_running s \<longleftrightarrow> timer_fsm s = NN_FSM_STATE_ACTIVE \<and> tm_state (td_timer s) = NN_TIMER_STATE_ACTIVE
     \<and> (wk_tasks (td_worker s) = [Start_task] \<and> 0 \<le> tm_timeout (td_timer s) \<and> \<not> armed s
        \<or> wk_tasks (td_worker s) = [] \<and> tm_timeout (td_timer s) = -1)"

definition timer_stopping :: "'s timed \<Rightarrow> bool" where
  "timer_stopping s \<longleftrightarrow> timer_fsm s = NN_FSM_STATE_STOPPING \<and> tm_state (td_timer s) = NN_TIMER_STATE_STOPPING
     \<and> (wk_tasks (td_worker s) = [Start_task, Stop_task] \<or> wk_tasks (td_worker s) = [Stop_task])"

text \<open>Nothing is raised, and the timer reports to the socket under its source number.\<close>

definition quiet :: "int \<Rightarrow> 's timed \<Rightarrow> bool" where
  "quiet src s \<longleftrightarrow> ctx_events (td_ctx s) = [] \<and> ctx_eventsto (td_ctx s) = []
     \<and> fsm_owner (ctx_fsms (td_ctx s) TimerFsm) = Some SockFsm \<and> fsm_src (ctx_fsms (td_ctx s) TimerFsm) = src
     \<and> timerset_inv (wk_timerset (td_worker s)) \<and> set (ts_timeouts (wk_timerset (td_worker s))) \<subseteq> {wtimer}"

text \<open>What an operation of the timer leaves alone.\<close>

definition timer_frame :: "'s timed \<Rightarrow> 's timed \<Rightarrow> bool" where
  "timer_frame s s' \<longleftrightarrow> td_sock s' = td_sock s \<and> td_stopped s' = td_stopped s \<and> sock_fsm s' = sock_fsm s"

lemmas timer_phase_defs = timer_idle_def timer_running_def timer_stopping_def quiet_def timer_frame_def

lemma timer_start_ok:
  assumes "timer_idle s" and "quiet src s" and "0 \<le> timeout"
  shows "\<exists>s'. nn_timer_start now timeout (w, s) = Some (w, s') \<and> timer_running s' \<and> quiet src s' \<and> timer_frame s s'"
  using assms by (auto simp: nn_timer_start_def nn_fsm_start_def nn_fsm_isidle_def nn_fsm_event_active_def nn_timer_handler_def
      nn_worker_execute_def timer_phase_defs Let_def)

lemma timer_stop_ok:
  assumes "timer_running s" and "quiet src s"
  shows "\<exists>s'. nn_timer_stop (w, s) = Some (w, s') \<and> timer_stopping s' \<and> quiet src s' \<and> timer_frame s s'"
  using assms by (auto simp: nn_timer_stop_def nn_fsm_stop_def nn_timer_shutdown_def nn_worker_execute_def timer_phase_defs Let_def)

lemma timed_leave_quiet: "quiet src s \<Longrightarrow> timed_leave now hdl shut (w, s) = Some (w, s)"
  unfolding timed_leave_def by (subst ctx_process_events.simps) (simp add: quiet_def)

lemma timed_leave_event:
  assumes "ctx_events (td_ctx s) = [e]" and "ctx_evs (td_ctx s) e = \<lparr>ev_fsm = Some SockFsm, ev_src = src, ev_srcptr = p, ev_type = type\<rparr>"
  shows "\<exists>c. ctx_events c = [] \<and> ctx_eventsto c = ctx_eventsto (td_ctx s) \<and> ctx_fsms c = ctx_fsms (td_ctx s)
    \<and> timed_leave now hdl shut (w, s) = do {
        st \<leftarrow> (if sock_fsm s \<noteq> NN_FSM_STATE_STOPPING then hdl else shut) src type p (w, s\<lparr>td_ctx := c\<rparr>);
        timed_leave now hdl shut st }"
proof (intro exI conjI)
  let ?c = "set_ev e \<lparr>ev_fsm = Some SockFsm, ev_src = -1, ev_srcptr = None, ev_type = -1\<rparr> ((td_ctx s)\<lparr>ctx_events := []\<rparr>)"
  show "timed_leave now hdl shut (w, s) = do {
        st \<leftarrow> (if sock_fsm s \<noteq> NN_FSM_STATE_STOPPING then hdl else shut) src type p (w, s\<lparr>td_ctx := ?c\<rparr>);
        timed_leave now hdl shut st }"
    unfolding timed_leave_def by (subst ctx_process_events.simps)
      (simp add: assms nn_fsm_event_process_def nn_fsm_feed_def timed_fn_def timed_shutdown_fn_def Let_def)
qed simp_all

lemma worker_idle:
  assumes "timer_idle s" and "quiet src s"
  shows "worker_task now hdl shut (w, s) = Some (w, s)" and "worker_timeout now hdl shut (w, s) = Some (w, s)"
proof -
  have "ts_timeouts (wk_timerset (td_worker s)) = []" using assms by (cases "ts_timeouts (wk_timerset (td_worker s))") (auto simp: timer_phase_defs)
  then show "worker_task now hdl shut (w, s) = Some (w, s)" "worker_timeout now hdl shut (w, s) = Some (w, s)"
    using assms(1) by (simp_all add: worker_task_def worker_timeout_def nn_timerset_event_def timer_idle_def)
qed

lemma worker_task_running:
  assumes "timer_running s" and "quiet src s"
  shows "\<exists>s'. worker_task now hdl shut (w, s) = Some (w, s') \<and> timer_running s' \<and> quiet src s' \<and> timer_frame s s'"
proof (cases "wk_tasks (td_worker s) = []")
  case True then show ?thesis using assms by (auto simp: worker_task_def timer_frame_def)
next
  case False
  then have s: "wk_tasks (td_worker s) = [Start_task]" "0 \<le> tm_timeout (td_timer s)" "\<not> armed s" "timer_fsm s = NN_FSM_STATE_ACTIVE"
    "tm_state (td_timer s) = NN_TIMER_STATE_ACTIVE" using assms(1) by (auto simp: timer_running_def)
  have "timerset_inv (wk_timerset (td_worker s))" using assms(2) by (simp add: quiet_def)
  from nn_timerset_add_ok [OF this s(3), of now "tm_timeout (td_timer s)"] obtain ts first where
    ts: "nn_timerset_add now (wk_timerset (td_worker s)) (tm_timeout (td_timer s)) wtimer = Some (ts, first)" "timerset_inv ts"
      "set (ts_timeouts ts) = insert wtimer (set (ts_timeouts (wk_timerset (td_worker s))))" by blast
  let ?s = "s\<lparr>td_timer := (td_timer s)\<lparr>tm_timeout := -1\<rparr>, td_worker := (td_worker s)\<lparr>wk_tasks := [], wk_timerset := ts\<rparr>\<rparr>"
  have q: "quiet src ?s" using assms(2) ts by (auto simp: quiet_def)
  have "worker_task now hdl shut (w, s) = timed_leave now hdl shut (w, ?s)"
    using s ts(1) by (simp add: worker_task_def worker_feed_def nn_fsm_feed_def timed_fn_def nn_timer_handler_def Let_def nn_worker_add_timer_def)
  then show ?thesis using q timed_leave_quiet [OF q, of now hdl shut w] s by (simp add: timer_running_def timer_frame_def)
qed

text \<open>A stopping timer ignores its start task; when the worker takes the stop task the socket is told that the timer has stopped.\<close>

lemma worker_task_ignored:
  assumes "timer_stopping s" and "quiet src s" and "wk_tasks (td_worker s) = [Start_task, Stop_task]"
  shows "\<exists>s'. worker_task now hdl shut (w, s) = Some (w, s') \<and> timer_stopping s' \<and> quiet src s' \<and> timer_frame s s'
    \<and> wk_tasks (td_worker s') = [Stop_task]"
proof -
  have s: "wk_tasks (td_worker s) = [Start_task, Stop_task]" "timer_fsm s = NN_FSM_STATE_STOPPING"
    "tm_state (td_timer s) = NN_TIMER_STATE_STOPPING" using assms by (auto simp: timer_stopping_def)
  let ?s = "s\<lparr>td_worker := (td_worker s)\<lparr>wk_tasks := [Stop_task]\<rparr>\<rparr>"
  have q: "quiet src ?s" using assms(2) by (simp add: quiet_def)
  have "worker_task now hdl shut (w, s) = timed_leave now hdl shut (w, ?s)"
    using s by (simp add: worker_task_def worker_feed_def nn_fsm_feed_def timed_shutdown_fn_def nn_timer_shutdown_def Let_def
        NN_TIMER_SRC_START_TASK_def NN_FSM_ACTION_def NN_TIMER_SRC_STOP_TASK_def)
  then show ?thesis using q timed_leave_quiet [OF q, of now hdl shut w] s
    by (intro exI [of _ ?s]) (simp add: timer_stopping_def timer_frame_def)
qed

lemma worker_task_stops:
  assumes "timer_stopping s" and "quiet src s" and "wk_tasks (td_worker s) = [Stop_task]"
  shows "\<exists>s' p. timer_idle s' \<and> quiet src s' \<and> timer_frame s s' \<and> worker_task now hdl shut (w, s) = do {
        st \<leftarrow> (if sock_fsm s \<noteq> NN_FSM_STATE_STOPPING then hdl else shut) src NN_TIMER_STOPPED p (w, s');
        timed_leave now hdl shut st }"
proof -
  have s: "timer_fsm s = NN_FSM_STATE_STOPPING" "tm_state (td_timer s) = NN_TIMER_STATE_STOPPING"
    using assms(1) by (auto simp: timer_stopping_def)
  note q = assms(2) [unfolded quiet_def]
  let ?m = "ctx_fsms (td_ctx s) TimerFsm" and ?wk = "nn_worker_rm_timer ((td_worker s)\<lparr>wk_tasks := []\<rparr>)"
  define ev where "ev = \<lparr>ev_fsm = Some SockFsm, ev_src = src, ev_srcptr = fsm_srcptr ?m, ev_type = NN_TIMER_STOPPED\<rparr>"
  define c where "c = set_fsm TimerFsm (\<lambda>m. m\<lparr>fsm_state := NN_FSM_STATE_IDLE\<rparr>)
    ((set_ev (Stopped TimerFsm) ev (td_ctx s))\<lparr>ctx_events := [Stopped TimerFsm]\<rparr>)"
  define s1 where "s1 = s\<lparr>td_worker := ?wk, td_timer := (td_timer s)\<lparr>tm_state := NN_TIMER_STATE_IDLE\<rparr>, td_ctx := c\<rparr>"
  have "nn_fsm_stopped TimerFsm NN_TIMER_STOPPED (td_ctx s) = Some c"
    using s(1) q by (simp add: nn_fsm_stopped_def nn_fsm_raise_def nn_ctx_raise_def nn_fsm_event_active_def Let_def c_def ev_def)
  then have 1: "worker_task now hdl shut (w, s) = timed_leave now hdl shut (w, s1)"
    using s assms(3) by (simp add: worker_task_def worker_feed_def nn_fsm_feed_def timed_shutdown_fn_def nn_timer_shutdown_def Let_def
        NN_FSM_ACTION_def NN_TIMER_SRC_STOP_TASK_def s1_def)
  have "ctx_events (td_ctx s1) = [Stopped TimerFsm]" "ctx_evs (td_ctx s1) (Stopped TimerFsm) = ev"
    by (simp_all add: s1_def c_def set_fsm_def set_ev_def)
  from timed_leave_event [OF this(1), of src "fsm_srcptr ?m" NN_TIMER_STOPPED now hdl shut w] this(2) obtain c2 where
    c2: "ctx_events c2 = []" "ctx_eventsto c2 = ctx_eventsto c" "ctx_fsms c2 = ctx_fsms c"
      "timed_leave now hdl shut (w, s1) = do {
        st \<leftarrow> (if sock_fsm s1 \<noteq> NN_FSM_STATE_STOPPING then hdl else shut) src NN_TIMER_STOPPED (fsm_srcptr ?m) (w, s1\<lparr>td_ctx := c2\<rparr>);
        timed_leave now hdl shut st }" by (auto simp: ev_def s1_def)
  let ?s2 = "s1\<lparr>td_ctx := c2\<rparr>"
  have wk: "wk_tasks ?wk = []" "timerset_inv (wk_timerset ?wk)" "wtimer \<notin> set (ts_timeouts (wk_timerset ?wk))"
    "set (ts_timeouts (wk_timerset ?wk)) \<subseteq> {wtimer}"
    using q nn_timerset_rm_ok [of "wk_timerset (td_worker s)" wtimer] by (auto simp: nn_worker_rm_timer_def)
  have f: "ctx_fsms c2 SockFsm = ctx_fsms (td_ctx s) SockFsm" "ctx_fsms c2 TimerFsm = ?m\<lparr>fsm_state := NN_FSM_STATE_IDLE\<rparr>"
    "ctx_eventsto c2 = []" using c2(2,3) q by (simp_all add: c_def set_fsm_def set_ev_def)
  have "timer_idle ?s2" "quiet src ?s2" "timer_frame s ?s2" using wk f c2(1) q by (simp_all add: timer_idle_def quiet_def timer_frame_def s1_def)
  moreover have "sock_fsm s1 = sock_fsm s" by (simp add: s1_def c_def set_fsm_def set_ev_def)
  ultimately show ?thesis using 1 c2(4) by (intro exI [of _ ?s2] exI [of _ "fsm_srcptr ?m"]) simp
qed

lemma worker_task_stopping:
  assumes "timer_stopping s" and "quiet src s"
  shows "(\<exists>s'. worker_task now hdl shut (w, s) = Some (w, s') \<and> timer_stopping s' \<and> quiet src s' \<and> timer_frame s s')
    \<or> (\<exists>s' p. timer_idle s' \<and> quiet src s' \<and> timer_frame s s' \<and> worker_task now hdl shut (w, s) = do {
        st \<leftarrow> (if sock_fsm s \<noteq> NN_FSM_STATE_STOPPING then hdl else shut) src NN_TIMER_STOPPED p (w, s');
        timed_leave now hdl shut st })"
proof (cases "wk_tasks (td_worker s) = [Stop_task]")
  case True
  from worker_task_stops [OF assms True, of now hdl shut w] show ?thesis by blast
next
  case False
  then have "wk_tasks (td_worker s) = [Start_task, Stop_task]" using assms(1) by (auto simp: timer_stopping_def)
  from worker_task_ignored [OF assms this, of now hdl shut w] show ?thesis by blast
qed

text \<open>So the socket is told once the worker has taken all queued tasks.\<close>

fun worker_run :: "nat \<Rightarrow> u64 \<Rightarrow> ('t, 's) sock_hdl \<Rightarrow> ('t, 's) sock_hdl \<Rightarrow> ('t, 's) tsock \<Rightarrow> ('t, 's) tsock option" where
  "worker_run 0 now hdl shut st = Some st"
| "worker_run (Suc n) now hdl shut st = do { st \<leftarrow> worker_task now hdl shut st; worker_run n now hdl shut st }"

lemma worker_run_one: "worker_run (Suc 0) now hdl shut st = worker_task now hdl shut st"
  by (cases "worker_task now hdl shut st") simp_all

lemma worker_run_stops:
  assumes "timer_stopping s" and "quiet src s"
  shows "\<exists>s' p. timer_idle s' \<and> quiet src s' \<and> timer_frame s s' \<and> worker_run (length (wk_tasks (td_worker s))) now hdl shut (w, s) = do {
        st \<leftarrow> (if sock_fsm s \<noteq> NN_FSM_STATE_STOPPING then hdl else shut) src NN_TIMER_STOPPED p (w, s');
        timed_leave now hdl shut st }"
proof (cases "wk_tasks (td_worker s) = [Stop_task]")
  case True
  from worker_task_stops [OF assms True, of now hdl shut w] show ?thesis using True worker_run_one [of now hdl shut "(w, s)"] by (simp split del: if_split)
next
  case False
  then have t: "wk_tasks (td_worker s) = [Start_task, Stop_task]" using assms(1) by (auto simp: timer_stopping_def)
  from worker_task_ignored [OF assms t, of now hdl shut w] obtain s1 where
    1: "worker_task now hdl shut (w, s) = Some (w, s1)" "timer_stopping s1" "quiet src s1" "timer_frame s s1" "wk_tasks (td_worker s1) = [Stop_task]" by blast
  from worker_task_stops [OF 1(2,3,5), of now hdl shut w] show ?thesis
    using 1(1,4) t worker_run_one [of now hdl shut "(w, s1)"] by (simp add: timer_frame_def split del: if_split)
qed

lemma worker_timeout_stopping:
  assumes "timer_stopping s" and "quiet src s"
  shows "\<exists>s'. worker_timeout now hdl shut (w, s) = Some (w, s') \<and> timer_stopping s' \<and> quiet src s' \<and> timer_frame s s'"
proof (cases "nn_timerset_event now (wk_timerset (td_worker s))")
  case (Pair ts r)
  have inv: "timerset_inv (wk_timerset (td_worker s))" using assms(2) by (simp add: quiet_def)
  show ?thesis
  proof (cases r)
    case (Inl e) then show ?thesis using assms Pair by (simp add: worker_timeout_def timer_frame_def)
  next
    case (Inr h)
    then have ts: "timerset_inv ts" "set (ts_timeouts ts) \<subseteq> {wtimer}"
      using nn_timerset_event_ok [OF inv, of now] Pair assms(2) by (auto simp: quiet_def)
    let ?s = "s\<lparr>td_worker := (td_worker s)\<lparr>wk_timerset := ts\<rparr>\<rparr>"
    have q: "quiet src ?s" using assms(2) ts by (simp add: quiet_def)
    have "worker_timeout now hdl shut (w, s) = timed_leave now hdl shut (w, ?s)"
      using assms(1) Pair Inr by (simp add: worker_timeout_def worker_feed_def nn_fsm_feed_def timed_shutdown_fn_def nn_timer_shutdown_def
          timer_stopping_def Let_def NN_TIMER_SRC_STOP_TASK_def NN_FSM_ACTION_def)
    then show ?thesis using timed_leave_quiet [OF q, of now hdl shut w] q assms(1) by (simp add: timer_stopping_def timer_frame_def)
  qed
qed

text \<open>A timer that is due reports a timeout to the socket.\<close>

lemma worker_timeout_fires:
  assumes "timer_running s" and "quiet src s" and "nn_timerset_event now (wk_timerset (td_worker s)) = (ts, Inr h)"
  shows "\<exists>s' p. timer_running s' \<and> quiet src s' \<and> timer_frame s s' \<and> worker_timeout now hdl shut (w, s) = do {
        st \<leftarrow> (if sock_fsm s \<noteq> NN_FSM_STATE_STOPPING then hdl else shut) src NN_TIMER_TIMEOUT p (w, s');
        timed_leave now hdl shut st }"
proof -
  note q = assms(2) [unfolded quiet_def]
  have ts: "timerset_inv ts" "set (ts_timeouts ts) \<subseteq> {wtimer}" "h = wtimer" "armed s"
    using nn_timerset_event_ok [of "wk_timerset (td_worker s)" now] assms(3) q by auto
  have s: "wk_tasks (td_worker s) = []" "tm_timeout (td_timer s) = -1" "timer_fsm s = NN_FSM_STATE_ACTIVE"
    "tm_state (td_timer s) = NN_TIMER_STATE_ACTIVE" using assms(1) ts(4) by (auto simp: timer_running_def)
  let ?m = "ctx_fsms (td_ctx s) TimerFsm"
  define ev where "ev = \<lparr>ev_fsm = Some SockFsm, ev_src = src, ev_srcptr = fsm_srcptr ?m, ev_type = NN_TIMER_TIMEOUT\<rparr>"
  define c where "c = (set_ev (Event Timer_done) ev (td_ctx s))\<lparr>ctx_events := [Event Timer_done]\<rparr>"
  define s1 where "s1 = s\<lparr>td_worker := (td_worker s)\<lparr>wk_timerset := ts\<rparr>, td_ctx := c\<rparr>"
  have "nn_fsm_raise TimerFsm (Event Timer_done) NN_TIMER_TIMEOUT (td_ctx s) = Some c"
    using q by (simp add: nn_fsm_raise_def nn_ctx_raise_def nn_fsm_event_active_def Let_def c_def ev_def)
  then have 1: "worker_timeout now hdl shut (w, s) = timed_leave now hdl shut (w, s1)"
    using s assms(3) ts(3) by (simp add: worker_timeout_def worker_feed_def nn_fsm_feed_def timed_fn_def nn_timer_handler_def Let_def
        NN_TIMER_SRC_START_TASK_def s1_def)
  have "ctx_events (td_ctx s1) = [Event Timer_done]" "ctx_evs (td_ctx s1) (Event Timer_done) = ev"
    by (simp_all add: s1_def c_def set_ev_def)
  from timed_leave_event [OF this(1), of src "fsm_srcptr ?m" NN_TIMER_TIMEOUT now hdl shut w] this(2) obtain c2 where
    c2: "ctx_events c2 = []" "ctx_eventsto c2 = ctx_eventsto c" "ctx_fsms c2 = ctx_fsms c"
      "timed_leave now hdl shut (w, s1) = do {
        st \<leftarrow> (if sock_fsm s1 \<noteq> NN_FSM_STATE_STOPPING then hdl else shut) src NN_TIMER_TIMEOUT (fsm_srcptr ?m) (w, s1\<lparr>td_ctx := c2\<rparr>);
        timed_leave now hdl shut st }" by (auto simp: ev_def s1_def)
  let ?s2 = "s1\<lparr>td_ctx := c2\<rparr>"
  have f: "ctx_fsms c2 = ctx_fsms (td_ctx s)" "ctx_eventsto c2 = []" using c2(2,3) q by (simp_all add: c_def set_ev_def)
  have "timer_running ?s2" "quiet src ?s2" "timer_frame s ?s2"
    using s ts f c2(1) q by (simp_all add: timer_running_def quiet_def timer_frame_def s1_def)
  moreover have "sock_fsm s1 = sock_fsm s" by (simp add: s1_def c_def set_ev_def)
  ultimately show ?thesis using 1 c2(4) by (intro exI [of _ ?s2] exI [of _ "fsm_srcptr ?m"]) simp
qed

lemma worker_timeout_running:
  assumes "timer_running s" and "quiet src s"
  shows "worker_timeout now hdl shut (w, s) = Some (w, s)
    \<or> (\<exists>s' p. timer_running s' \<and> quiet src s' \<and> timer_frame s s' \<and> worker_timeout now hdl shut (w, s) = do {
        st \<leftarrow> (if sock_fsm s \<noteq> NN_FSM_STATE_STOPPING then hdl else shut) src NN_TIMER_TIMEOUT p (w, s');
        timed_leave now hdl shut st })"
proof (cases "nn_timerset_event now (wk_timerset (td_worker s))")
  case (Pair ts r)
  show ?thesis
  proof (cases r)
    case (Inl e) then show ?thesis using Pair by (simp add: worker_timeout_def)
  next
    case (Inr h)
    from worker_timeout_fires [OF assms Pair [unfolded Inr], of hdl shut w] show ?thesis by (rule disjI2)
  qed
qed

lemma timer_due_event:
  assumes "quiet src s" and "armed s" and "ts_hndl (wk_timerset (td_worker s)) wtimer \<le> now"
  shows "\<exists>ts h. nn_timerset_event now (wk_timerset (td_worker s)) = (ts, Inr h)"
proof -
  have "timerset_inv (wk_timerset (td_worker s))" using assms(1) by (simp add: quiet_def)
  from nn_timerset_event_ok [OF this, of now] assms(2,3) show ?thesis
    by (cases "nn_timerset_event now (wk_timerset (td_worker s))"; cases "snd (nn_timerset_event now (wk_timerset (td_worker s)))") auto
qed

end
