(* ===== verification/Req.thy ===== *)
theory Req
  imports Xrep Timer
begin

text \<open>
  The REQ socket (\<open>src/protocols/reqrep/req.c\<close>, \<open>task.h\<close>): a state machine on top of the raw REQ socket that numbers the requests,
  sends a request again when no reply arrives in time or its pipe goes away, and drops replies to other requests.
  \<open>now\<close> is the clock, \<open>vf\<close> the transport. A reply that has been terminated is \<open>None\<close>; using it is an error.
\<close>

section \<open>Data\<close>

datatype req_state = NN_REQ_STATE_IDLE | NN_REQ_STATE_PASSIVE | NN_REQ_STATE_DELAYED | NN_REQ_STATE_ACTIVE
  | NN_REQ_STATE_TIMED_OUT | NN_REQ_STATE_CANCELLING | NN_REQ_STATE_STOPPING_TIMER | NN_REQ_STATE_DONE | NN_REQ_STATE_STOPPING

definition NN_REQ_DEFAULT_RESEND_IVL :: int where "NN_REQ_DEFAULT_RESEND_IVL = 60000"
definition NN_REQ_ACTION_IN :: int where "NN_REQ_ACTION_IN = 2"
definition NN_REQ_ACTION_OUT :: int where "NN_REQ_ACTION_OUT = 3"
definition NN_REQ_ACTION_SENT :: int where "NN_REQ_ACTION_SENT = 4"
definition NN_REQ_ACTION_RECEIVED :: int where "NN_REQ_ACTION_RECEIVED = 5"
definition NN_REQ_ACTION_PIPE_RM :: int where "NN_REQ_ACTION_PIPE_RM = 6"
definition NN_REQ_SRC_RESEND_TIMER :: int where "NN_REQ_SRC_RESEND_TIMER = 1"
definition NN_REQ :: int where "NN_REQ = 3 * 16 + 0"
definition NN_REQ_RESEND_IVL :: int where "NN_REQ_RESEND_IVL = 1"

record nn_task =
  task_id :: u32
  task_request :: nn_msg
  task_reply :: "nn_msg option"
  task_sent_to :: "pipe option"

record nn_req =
  req_xreq :: nn_xreq
  req_state :: req_state
  req_lastid :: u32
  req_resend_ivl :: int
  req_task :: nn_task

type_synonym 't req_st = "('t world, nn_req) tsock"

abbreviation upd_req :: "(nn_req \<Rightarrow> nn_req) \<Rightarrow> nn_req timed \<Rightarrow> nn_req timed" where
  "upd_req f s \<equiv> s\<lparr>td_sock := f (td_sock s)\<rparr>"
abbreviation upd_task :: "(nn_task \<Rightarrow> nn_task) \<Rightarrow> nn_req timed \<Rightarrow> nn_req timed" where
  "upd_task f s \<equiv> upd_req (\<lambda>q. q\<lparr>req_task := f (req_task q)\<rparr>) s"
abbreviation st_of :: "nn_req timed \<Rightarrow> req_state" where "st_of s \<equiv> req_state (td_sock s)"
abbreviation task_of :: "nn_req timed \<Rightarrow> nn_task" where "task_of s \<equiv> req_task (td_sock s)"
abbreviation xreq_of :: "nn_req timed \<Rightarrow> nn_xreq" where "xreq_of s \<equiv> req_xreq (td_sock s)"

definition nn_req_inprogress :: "nn_req \<Rightarrow> bool" where
  "nn_req_inprogress self \<longleftrightarrow> req_state self \<notin> {NN_REQ_STATE_IDLE, NN_REQ_STATE_PASSIVE, NN_REQ_STATE_STOPPING}"

section \<open>The state machine\<close>

definition nn_req_action_send :: "'t nn_pipebase_vfptr \<Rightarrow> u64 \<Rightarrow> bool \<Rightarrow> 't req_st \<Rightarrow> 't req_st option" where
  "nn_req_action_send vf now allow_delay st = (case st of (w, s) \<Rightarrow> do {
     (w, xreq, r) \<leftarrow> nn_xreq_send_to vf w (xreq_of s) (task_request (task_of s));
     let s = upd_req (\<lambda>q. q\<lparr>req_xreq := xreq\<rparr>) s;
     (case r of
        Inl e \<Rightarrow> do {
          nn_assert (e = EAGAIN);
          nn_assert allow_delay;
          Some (w, upd_req (\<lambda>q. q\<lparr>req_state := NN_REQ_STATE_DELAYED\<rparr>) s) }
      | Inr (rc, to) \<Rightarrow> do {
          nn_assert (rc = 0);
          (w, s) \<leftarrow> nn_timer_start now (req_resend_ivl (td_sock s)) (w, s);
          let s = upd_task (\<lambda>t. t\<lparr>task_sent_to := Some to\<rparr>) s;
          Some (w, upd_req (\<lambda>q. q\<lparr>req_state := NN_REQ_STATE_ACTIVE\<rparr>) s) }) })"

text \<open>Three transitions of the state ACTIVE stop the timer and forget the pipe of the request.\<close>

definition req_leave_active :: "req_state \<Rightarrow> 't req_st \<Rightarrow> 't req_st option" where
  "req_leave_active state st = do {
     (w, s) \<leftarrow> nn_timer_stop st;
     let s = upd_task (\<lambda>t. t\<lparr>task_sent_to := None\<rparr>) s;
     Some (w, upd_req (\<lambda>q. q\<lparr>req_state := state\<rparr>) s) }"

definition req_set_state :: "req_state \<Rightarrow> 't req_st \<Rightarrow> 't req_st option" where
  "req_set_state state st = Some (fst st, upd_req (\<lambda>q. q\<lparr>req_state := state\<rparr>) (snd st))"

definition nn_req_handler :: "'t nn_pipebase_vfptr \<Rightarrow> u64 \<Rightarrow> ('t world, nn_req) sock_hdl" where
  "nn_req_handler vf now src type srcptr st = (case st_of (snd st) of
     NN_REQ_STATE_IDLE \<Rightarrow>
       if src = NN_FSM_ACTION \<and> type = NN_FSM_START then req_set_state NN_REQ_STATE_PASSIVE st else None
   | NN_REQ_STATE_PASSIVE \<Rightarrow>
       if src = NN_FSM_ACTION \<and> type = NN_REQ_ACTION_SENT then nn_req_action_send vf now True st else None
   | NN_REQ_STATE_DELAYED \<Rightarrow>
       if src = NN_FSM_ACTION \<and> type = NN_REQ_ACTION_OUT then nn_req_action_send vf now False st
       else if src = NN_FSM_ACTION \<and> type = NN_REQ_ACTION_SENT then Some st
       else None
   | NN_REQ_STATE_ACTIVE \<Rightarrow>
       if src = NN_FSM_ACTION then
         (if type = NN_REQ_ACTION_IN then req_leave_active NN_REQ_STATE_STOPPING_TIMER st
          else if type = NN_REQ_ACTION_SENT then req_leave_active NN_REQ_STATE_CANCELLING st
          else if type = NN_REQ_ACTION_PIPE_RM then req_leave_active NN_REQ_STATE_TIMED_OUT st
          else None)
       else if src = NN_REQ_SRC_RESEND_TIMER \<and> type = NN_TIMER_TIMEOUT then req_leave_active NN_REQ_STATE_TIMED_OUT st
       else None
   | NN_REQ_STATE_TIMED_OUT \<Rightarrow>
       if src = NN_REQ_SRC_RESEND_TIMER \<and> type = NN_TIMER_STOPPED then nn_req_action_send vf now True st
       else if src = NN_FSM_ACTION \<and> type = NN_REQ_ACTION_SENT then req_set_state NN_REQ_STATE_CANCELLING st
       else None
   | NN_REQ_STATE_CANCELLING \<Rightarrow>
       if src = NN_REQ_SRC_RESEND_TIMER \<and> type = NN_TIMER_STOPPED then nn_req_action_send vf now True st
       else if src = NN_FSM_ACTION \<and> type = NN_REQ_ACTION_SENT then Some st
       else None
   | NN_REQ_STATE_STOPPING_TIMER \<Rightarrow>
       if src = NN_REQ_SRC_RESEND_TIMER \<and> type = NN_TIMER_STOPPED then req_set_state NN_REQ_STATE_DONE st
       else if src = NN_FSM_ACTION \<and> type = NN_REQ_ACTION_SENT then req_set_state NN_REQ_STATE_CANCELLING st
       else None
   | NN_REQ_STATE_DONE \<Rightarrow>
       if src = NN_FSM_ACTION \<and> type = NN_REQ_ACTION_RECEIVED then req_set_state NN_REQ_STATE_PASSIVE st
       else if src = NN_FSM_ACTION \<and> type = NN_REQ_ACTION_SENT then nn_req_action_send vf now True st
       else None
   | NN_REQ_STATE_STOPPING \<Rightarrow> None)"

definition nn_req_shutdown :: "('t world, nn_req) sock_hdl" where
  "nn_req_shutdown src type srcptr st = do {
     st \<leftarrow> (if src = NN_FSM_ACTION \<and> type = NN_FSM_STOP
       then do { st \<leftarrow> nn_timer_stop st; req_set_state NN_REQ_STATE_STOPPING st } else Some st);
     if st_of (snd st) = NN_REQ_STATE_STOPPING then
       (if \<not> nn_timer_isidle (snd st) then Some st
        else do {
          (w, s) \<leftarrow> req_set_state NN_REQ_STATE_IDLE st;
          c \<leftarrow> nn_fsm_stopped_noevent SockFsm (td_ctx s);
          nn_assert (\<not> td_stopped s);
          Some (w, s\<lparr>td_ctx := c, td_stopped := True\<rparr>) })
     else None }"

definition req_action :: "'t nn_pipebase_vfptr \<Rightarrow> u64 \<Rightarrow> int \<Rightarrow> 't req_st \<Rightarrow> 't req_st option" where
  "req_action vf now = nn_fsm_action ts_get (timed_fn now (nn_req_handler vf now)) (timed_shutdown_fn nn_req_shutdown) SockFsm"

section \<open>Operations of the socket\<close>

definition nn_req_init :: "u32 \<Rightarrow> nn_xreq \<Rightarrow> nn_req" where
  "nn_req_init lastid xreq = \<lparr>req_xreq = xreq, req_state = NN_REQ_STATE_IDLE, req_lastid = lastid,
     req_resend_ivl = NN_REQ_DEFAULT_RESEND_IVL,
     req_task = \<lparr>task_id = lastid, task_request = empty_msg, task_reply = Some empty_msg, task_sent_to = None\<rparr>\<rparr>"

text \<open>A new socket with its state machine, its timer and an idle worker, before the state machine is started.\<close>

definition nn_req_create :: "u32 \<Rightarrow> nn_req timed" where
  "nn_req_create lastid = nn_timer_init NN_REQ_SRC_RESEND_TIMER
     \<lparr>td_ctx = nn_fsm_init_root SockFsm (nn_ctx_init
        (\<lambda>_. \<lparr>fsm_state = NN_FSM_STATE_IDLE, fsm_src = -1, fsm_srcptr = None, fsm_owner = None\<rparr>) (\<lambda>_. nn_fsm_event_init)),
      td_timer = \<lparr>tm_state = NN_TIMER_STATE_IDLE, tm_timeout = -1\<rparr>, td_worker = \<lparr>wk_tasks = [], wk_timerset = nn_timerset_init\<rparr>,
      td_stopped = False, td_sock = nn_req_init lastid nn_xreq_init\<rparr>"

definition nn_req_start :: "'t nn_pipebase_vfptr \<Rightarrow> u64 \<Rightarrow> 't req_st \<Rightarrow> 't req_st option" where
  "nn_req_start vf now = nn_fsm_start ts_get ts_upd (timed_fn now (nn_req_handler vf now)) SockFsm"

definition nn_req_stop :: "'t req_st \<Rightarrow> 't req_st option" where
  "nn_req_stop = nn_fsm_stop ts_get ts_upd (timed_shutdown_fn nn_req_shutdown) SockFsm"

definition nn_req_term :: "nn_req timed \<Rightarrow> unit option" where
  "nn_req_term self = do {
     nn_timer_term self;
     nn_assert (task_reply (task_of self) \<noteq> None);
     nn_fsm_term (td_ctx self) SockFsm;
     nn_xreq_term (xreq_of self) }"

definition nn_req_add :: "('t, nn_req timed) sock_add" where
  "nn_req_add w s pipe = do {
     (w, xreq, rc) \<leftarrow> nn_xreq_add w (xreq_of s) pipe;
     Some (w, upd_req (\<lambda>q. q\<lparr>req_xreq := xreq\<rparr>) s, rc) }"

definition nn_req_rm :: "'t nn_pipebase_vfptr \<Rightarrow> u64 \<Rightarrow> ('t, nn_req timed) sock_fn" where
  "nn_req_rm vf now w s pipe = do {
     (w, xreq) \<leftarrow> nn_xreq_rm w (xreq_of s) pipe;
     let s = upd_req (\<lambda>q. q\<lparr>req_xreq := xreq\<rparr>) s;
     if Some pipe = task_sent_to (task_of s) then req_action vf now NN_REQ_ACTION_PIPE_RM (w, s) else Some (w, s) }"

text \<open>A reply for another request, or one that is not expected or not well-formed.\<close>

definition reply_ignored :: "nn_req \<Rightarrow> nn_msg \<Rightarrow> bool option" where
  "reply_ignored self msg =
    (if \<not> nn_req_inprogress self then Some True
     else if length (sphdr msg) \<noteq> 4 then Some True
     else do {
       reqid \<leftarrow> nn_getl (sphdr msg);
       if reqid AND 0x80000000 = 0 then Some True
       else Some (reqid \<noteq> task_id (req_task self) OR 0x80000000) })"

text \<open>\<open>nn_xreq_recv\<close> reports EAGAIN both when there is no message, and when there was one that was too short; in the second
  case it has written the message and terminated it.\<close>

definition xreq_recv_terminates :: "'t nn_pipebase_vfptr \<Rightarrow> 't world \<Rightarrow> nn_xreq \<Rightarrow> bool" where
  "xreq_recv_terminates vf w self \<longleftrightarrow> (case nn_fq_recv vf w (xreq_fq self) of
     Some (_, _, Inr (rc, _, msg)) \<Rightarrow> rc AND NN_PIPE_PARSED = 0 \<and> length (body msg) < 4
   | _ \<Rightarrow> False)"

partial_function (option) req_in_loop :: "'t nn_pipebase_vfptr \<Rightarrow> u64 \<Rightarrow> 't req_st \<Rightarrow> 't req_st option" where
  "req_in_loop vf now st = do {
     (w, xreq, r) \<leftarrow> nn_xreq_recv vf (fst st) (xreq_of (snd st));
     let s = upd_req (\<lambda>q. q\<lparr>req_xreq := xreq\<rparr>) (snd st);
     (case r of
        Inl e \<Rightarrow> do {
          nn_assert (e = EAGAIN);
          Some (w, if xreq_recv_terminates vf (fst st) (xreq_of (snd st)) then upd_task (\<lambda>t. t\<lparr>task_reply := None\<rparr>) s else s) }
      | Inr msg \<Rightarrow> do {
          ignored \<leftarrow> reply_ignored (td_sock s) msg;
          if ignored then req_in_loop vf now (w, upd_task (\<lambda>t. t\<lparr>task_reply := None\<rparr>) s)
          else do {
            let s = upd_task (\<lambda>t. t\<lparr>task_reply := Some (msg\<lparr>sphdr := []\<rparr>)\<rparr>) s;
            if st_of s = NN_REQ_STATE_ACTIVE then req_action vf now NN_REQ_ACTION_IN (w, s) else Some (w, s) } }) }"

definition nn_req_in :: "'t nn_pipebase_vfptr \<Rightarrow> u64 \<Rightarrow> ('t, nn_req timed) sock_fn" where
  "nn_req_in vf now w s pipe = do {
     (w, xreq) \<leftarrow> nn_xreq_in w (xreq_of s) pipe;
     req_in_loop vf now (w, upd_req (\<lambda>q. q\<lparr>req_xreq := xreq\<rparr>) s) }"

definition nn_req_out :: "'t nn_pipebase_vfptr \<Rightarrow> u64 \<Rightarrow> ('t, nn_req timed) sock_fn" where
  "nn_req_out vf now w s pipe = do {
     (w, xreq) \<leftarrow> nn_xreq_out w (xreq_of s) pipe;
     let s = upd_req (\<lambda>q. q\<lparr>req_xreq := xreq\<rparr>) s;
     if st_of s = NN_REQ_STATE_DELAYED then req_action vf now NN_REQ_ACTION_OUT (w, s) else Some (w, s) }"

definition nn_req_events :: "nn_req \<Rightarrow> u32" where
  "nn_req_events self = (let rc = NN_SOCKBASE_EVENT_OUT in
     if req_state self = NN_REQ_STATE_DONE then rc OR NN_SOCKBASE_EVENT_IN else rc)"

definition nn_req_csend :: "'t nn_pipebase_vfptr \<Rightarrow> u64 \<Rightarrow> 't world \<Rightarrow> nn_req timed \<Rightarrow> nn_msg \<Rightarrow>
  ('t world \<times> nn_req timed \<times> (errno + u32)) option" where
  "nn_req_csend vf now w s msg = do {
     let s = upd_task (\<lambda>t. t\<lparr>task_id := task_id t + 1\<rparr>) s;
     nn_assert (length (sphdr msg) = 0);
     hdr \<leftarrow> nn_putl (replicate 4 0) (task_id (task_of s) OR 0x80000000);
     let s = upd_task (\<lambda>t. t\<lparr>task_request := msg\<lparr>sphdr := hdr\<rparr>\<rparr>) s;
     (w, s) \<leftarrow> req_action vf now NN_REQ_ACTION_SENT (w, s);
     Some (w, s, Inr 0) }"

definition nn_req_crecv :: "'t nn_pipebase_vfptr \<Rightarrow> u64 \<Rightarrow> 't world \<Rightarrow> nn_req timed \<Rightarrow>
  ('t world \<times> nn_req timed \<times> (errno + nn_msg)) option" where
  "nn_req_crecv vf now w s =
    (if \<not> nn_req_inprogress (td_sock s) then Some (w, s, Inl EFSM)
     else if st_of s \<noteq> NN_REQ_STATE_DONE then Some (w, s, Inl EAGAIN)
     else do {
       msg \<leftarrow> task_reply (task_of s);
       let s = upd_task (\<lambda>t. t\<lparr>task_reply := Some empty_msg\<rparr>) s;
       (w, s) \<leftarrow> req_action vf now NN_REQ_ACTION_RECEIVED (w, s);
       Some (w, s, Inr msg) })"

definition nn_req_setopt :: "nn_req \<Rightarrow> int \<Rightarrow> int \<Rightarrow> int \<Rightarrow> nat \<Rightarrow> nn_req \<times> (errno + unit)" where
  "nn_req_setopt self level opt optval optvallen =
    (if level \<noteq> NN_REQ then (self, Inl ENOPROTOOPT)
     else if opt = NN_REQ_RESEND_IVL then
       (if optvallen \<noteq> 4 then (self, Inl EINVAL) else (self\<lparr>req_resend_ivl := optval\<rparr>, Inr ()))
     else (self, Inl ENOPROTOOPT))"

definition nn_req_getopt :: "nn_req \<Rightarrow> int \<Rightarrow> int \<Rightarrow> nat \<Rightarrow> errno + (int \<times> nat)" where
  "nn_req_getopt self level opt optvallen =
    (if level \<noteq> NN_REQ then Inl ENOPROTOOPT
     else if opt = NN_REQ_RESEND_IVL then
       (if optvallen < 4 then Inl EINVAL else Inr (req_resend_ivl self, 4))
     else Inl ENOPROTOOPT)"

definition nn_req_sockbase_vfptr :: "'t nn_pipebase_vfptr \<Rightarrow> u64 \<Rightarrow> ('t, nn_req timed) nn_sockbase_vfptr" where
  "nn_req_sockbase_vfptr vf now = \<lparr>sb_add = nn_req_add, sb_rm = nn_req_rm vf now, sb_in = nn_req_in vf now,
     sb_out = nn_req_out vf now, sb_send = Some (nn_req_csend vf now), sb_recv = Some (nn_req_crecv vf now)\<rparr>"

end
