(* ===== verification/Timed_Socket.thy ===== *)
theory Timed_Socket
  imports Timer Sockbase
begin

text \<open>
  What a socket with a timer promises about its state machine, and what follows for the worker: the events of the timer that the worker
  passes on never hit a state that does not expect them. The REQ and SURVEYOR sockets are instances.
\<close>

text \<open>What can happen to such a socket: an operation of its pipes or its user, the user sets the interval of the timer, the socket is
  closed, or the worker takes a task or looks for timers that have expired.\<close>

datatype 't timedop = Timed_sys "'t sysop" | Timed_ivl int | Timed_stop | Worker_task | Worker_timeout

lemma timer_phase_sock [simp]:
  "timer_idle (s\<lparr>td_sock := q\<rparr>) = timer_idle s" "timer_running (s\<lparr>td_sock := q\<rparr>) = timer_running s"
  "timer_stopping (s\<lparr>td_sock := q\<rparr>) = timer_stopping s" "quiet src (s\<lparr>td_sock := q\<rparr>) = quiet src s"
  by (simp_all add: timer_phase_defs)

text \<open>The event \<open>type\<close> of the timer as the socket's state machine receives it.\<close>

definition timer_reports :: "('t, 's) sock_hdl \<Rightarrow> ('t, 's) sock_hdl \<Rightarrow> int \<Rightarrow> int \<Rightarrow> nat option \<Rightarrow> ('t, 's) tsock \<Rightarrow> ('t, 's) tsock option" where
  "timer_reports hdl shut src type ptr st = (if sock_fsm (snd st) \<noteq> NN_FSM_STATE_STOPPING then hdl else shut) src type ptr st"

locale timed_socket =
  fixes src :: int and hdl :: "u64 \<Rightarrow> ('t, 's) sock_hdl" and shut :: "('t, 's) sock_hdl" and inv :: "('t, 's) tsock \<Rightarrow> bool"
  assumes inv_quiet: "inv (w, s) \<Longrightarrow> quiet src s"
    and inv_phase: "inv (w, s) \<Longrightarrow> timer_idle s \<or> timer_running s \<or> timer_stopping s"
    and inv_frame: "inv (w, s) \<Longrightarrow> timer_frame s s' \<Longrightarrow> quiet src s' \<Longrightarrow>
      timer_running s \<and> timer_running s' \<or> timer_stopping s \<and> timer_stopping s' \<Longrightarrow> inv (w, s')"
    and inv_timeout: "inv (w, s) \<Longrightarrow> timer_running s \<Longrightarrow> \<exists>st'. timer_reports (hdl now) shut src NN_TIMER_TIMEOUT ptr (w, s) = Some st' \<and> inv st'"
    and inv_stopped: "inv (w, s) \<Longrightarrow> timer_stopping s \<Longrightarrow> timer_frame s s' \<Longrightarrow> quiet src s' \<Longrightarrow> timer_idle s' \<Longrightarrow>
      \<exists>st'. timer_reports (hdl now) shut src NN_TIMER_STOPPED ptr (w, s') = Some st' \<and> inv st'"
begin

lemma leave_inv:
  assumes "timer_reports (hdl now) shut src type ptr (w, s') = Some st'" and "inv st'" and "timer_frame s s'"
  shows "do { st \<leftarrow> (if sock_fsm s \<noteq> NN_FSM_STATE_STOPPING then hdl now else shut) src type ptr (w, s'); timed_leave now (hdl now) shut st } = Some st'"
proof -
  obtain w1 s1 where st': "st' = (w1, s1)" by force
  have "sock_fsm s' = sock_fsm s" using assms(3) by (simp add: timer_frame_def)
  then show ?thesis using assms(1,2) timed_leave_quiet [OF inv_quiet, of w1 s1 now "hdl now" shut w1]
    by (simp add: st' timer_reports_def split del: if_split)
qed

lemma term_ok:
  assumes "inv (w, s)" and "timer_idle s" and "sock_fsm s = NN_FSM_STATE_IDLE"
  shows "nn_timer_term s = Some ()" and "nn_fsm_term (td_ctx s) SockFsm = Some ()"
  using assms(2,3) inv_quiet [OF assms(1)]
  by (simp_all add: nn_timer_term_def nn_fsm_term_def nn_fsm_isidle_def nn_fsm_event_active_def nn_timerset_hndl_isactive_def timer_idle_def quiet_def)

lemma worker_task_ok:
  assumes inv: "inv (w, s)"
  shows "\<exists>st'. worker_task now (hdl now) shut (w, s) = Some st' \<and> inv st'"
proof -
  note q = inv_quiet [OF inv]
  consider "timer_idle s" | "timer_running s" | "timer_stopping s" using inv_phase [OF inv] by blast
  then show ?thesis
  proof cases
    case 1 then show ?thesis using worker_idle(1) [OF 1 q, of now "hdl now" shut w] inv by simp
  next
    case 2
    from worker_task_running [OF 2 q, of now "hdl now" shut w] obtain s' where
      "worker_task now (hdl now) shut (w, s) = Some (w, s')" "timer_running s'" "quiet src s'" "timer_frame s s'" by blast
    then show ?thesis using inv_frame [OF inv, of s'] 2 by blast
  next
    case 3
    from worker_task_stopping [OF 3 q, of now "hdl now" shut w]
    consider s' where "worker_task now (hdl now) shut (w, s) = Some (w, s')" "timer_stopping s'" "quiet src s'" "timer_frame s s'"
      | s' ptr where "timer_idle s'" "quiet src s'" "timer_frame s s'" "worker_task now (hdl now) shut (w, s) = do {
          st \<leftarrow> (if sock_fsm s \<noteq> NN_FSM_STATE_STOPPING then hdl now else shut) src NN_TIMER_STOPPED ptr (w, s');
          timed_leave now (hdl now) shut st }" by blast
    then show ?thesis
    proof cases
      case (1 s') then show ?thesis using inv_frame [OF inv, of s'] 3 by blast
    next
      case (2 s' ptr)
      from inv_stopped [OF inv 3 2(3,2,1), of now ptr] obtain st' where
        "timer_reports (hdl now) shut src NN_TIMER_STOPPED ptr (w, s') = Some st'" "inv st'" by blast
      from leave_inv [OF this 2(3)] this(2) show ?thesis unfolding 2(4) by blast
    qed
  qed
qed

lemma worker_timeout_ok:
  assumes inv: "inv (w, s)"
  shows "\<exists>st'. worker_timeout now (hdl now) shut (w, s) = Some st' \<and> inv st'"
proof -
  note q = inv_quiet [OF inv]
  consider "timer_idle s" | "timer_running s" | "timer_stopping s" using inv_phase [OF inv] by blast
  then show ?thesis
  proof cases
    case 1 then show ?thesis using worker_idle(2) [OF 1 q, of now "hdl now" shut w] inv by simp
  next
    case 2
    from worker_timeout_running [OF 2 q, of now "hdl now" shut w]
    consider "worker_timeout now (hdl now) shut (w, s) = Some (w, s)"
      | s' ptr where "timer_running s'" "quiet src s'" "timer_frame s s'" "worker_timeout now (hdl now) shut (w, s) = do {
          st \<leftarrow> (if sock_fsm s \<noteq> NN_FSM_STATE_STOPPING then hdl now else shut) src NN_TIMER_TIMEOUT ptr (w, s');
          timed_leave now (hdl now) shut st }" by blast
    then show ?thesis
    proof cases
      case 1 then show ?thesis using inv by simp
    next
      case (2 s' ptr)
      have "inv (w, s')" using inv_frame [OF inv 2(3,2)] 2(1) \<open>timer_running s\<close> by blast
      from inv_timeout [OF this 2(1), of now ptr] obtain st' where
        "timer_reports (hdl now) shut src NN_TIMER_TIMEOUT ptr (w, s') = Some st'" "inv st'" by blast
      from leave_inv [OF this 2(3)] this(2) show ?thesis unfolding 2(4) by blast
    qed
  next
    case 3
    from worker_timeout_stopping [OF 3 q, of now "hdl now" shut w] obtain s' where
      "worker_timeout now (hdl now) shut (w, s) = Some (w, s')" "timer_stopping s'" "quiet src s'" "timer_frame s s'" by blast
    then show ?thesis using inv_frame [OF inv, of s'] 3 by blast
  qed
qed

end

end
