(* ===== verification/Req_Safe.thy ===== *)
theory Req_Safe
  imports Req Timed_Socket
begin

text \<open>
  The REQ socket as a system: its pipes and its user as for the raw sockets, and the worker that runs its timer. The invariant ties the
  state of the protocol to that of the timer and to the raw REQ socket below; no permitted operation aborts.
\<close>

section \<open>Invariant\<close>

abbreviation xreq_sys :: "((pipe \<Rightarrow> nn_pipebase) \<Rightarrow> 't \<Rightarrow> bool) \<Rightarrow> 't world \<times> nn_xreq \<Rightarrow> bool" where
  "xreq_sys tinv \<equiv> sys_inv tinv Tracks Tracks xreq_inv (\<lambda>s. pl_members (xreq_lb s)) (\<lambda>s. pl_active (xreq_fq s)) (\<lambda>s. pl_active (xreq_lb s))"

abbreviation req_members :: "nn_req timed \<Rightarrow> pipe set" where
  "req_members s \<equiv> pl_members (xreq_lb (xreq_of s))"

definition req_running :: "nn_req timed \<Rightarrow> bool" where
  "req_running s \<longleftrightarrow> st_of s \<notin> {NN_REQ_STATE_IDLE, NN_REQ_STATE_STOPPING}"

definition req_timer :: "nn_req timed \<Rightarrow> bool" where
  "req_timer s \<longleftrightarrow>
     (if st_of s = NN_REQ_STATE_ACTIVE then timer_running s \<and> (\<exists>p \<in> req_members s. task_sent_to (task_of s) = Some p)
      else task_sent_to (task_of s) = None
        \<and> (if st_of s \<in> {NN_REQ_STATE_IDLE, NN_REQ_STATE_PASSIVE, NN_REQ_STATE_DELAYED, NN_REQ_STATE_DONE} then timer_idle s else timer_stopping s))"

definition req_ok :: "nn_req timed \<Rightarrow> bool" where
  "req_ok s \<longleftrightarrow> quiet NN_REQ_SRC_RESEND_TIMER s \<and> 0 \<le> req_resend_ivl (td_sock s) \<and> req_timer s
     \<and> (sock_fsm s, td_stopped s) = (if st_of s = NN_REQ_STATE_IDLE then (NN_FSM_STATE_IDLE, True)
        else if st_of s = NN_REQ_STATE_STOPPING then (NN_FSM_STATE_STOPPING, False) else (NN_FSM_STATE_ACTIVE, False))"

definition req_inv :: "((pipe \<Rightarrow> nn_pipebase) \<Rightarrow> 't \<Rightarrow> bool) \<Rightarrow> 't req_st \<Rightarrow> bool" where
  "req_inv tinv st \<longleftrightarrow> xreq_sys tinv (fst st, xreq_of (snd st)) \<and> req_ok (snd st)"

lemmas req_consts = NN_FSM_ACTION_def NN_FSM_START_def NN_FSM_STOP_def NN_REQ_ACTION_IN_def NN_REQ_ACTION_OUT_def NN_REQ_ACTION_SENT_def
  NN_REQ_ACTION_RECEIVED_def NN_REQ_ACTION_PIPE_RM_def NN_REQ_SRC_RESEND_TIMER_def NN_TIMER_TIMEOUT_def NN_TIMER_STOPPED_def

text \<open>The invariant does not depend on the messages and the number of the task.\<close>

lemma req_ok_task:
  assumes "\<And>t. task_sent_to (f t) = task_sent_to t"
  shows "req_ok (upd_task f s) = req_ok s"
  using assms by (simp add: req_ok_def req_timer_def)

lemma req_ok_xreq:
  assumes "req_ok s" and "req_members s \<subseteq> pl_members (xreq_lb x)"
  shows "req_ok (upd_req (\<lambda>q. q\<lparr>req_xreq := x\<rparr>) s)"
  using assms by (auto simp: req_ok_def req_timer_def subset_iff)

definition req_core :: "nn_req timed \<Rightarrow> bool" where
  "req_core s \<longleftrightarrow> quiet NN_REQ_SRC_RESEND_TIMER s \<and> 0 \<le> req_resend_ivl (td_sock s) \<and> sock_fsm s = NN_FSM_STATE_ACTIVE \<and> \<not> td_stopped s"

lemma req_ok_running: "req_running s \<Longrightarrow> req_ok s \<longleftrightarrow> req_core s \<and> req_timer s"
  by (auto simp: req_ok_def req_running_def req_core_def)

lemma req_core_sock [simp]:
  "req_core (s\<lparr>td_sock := q\<rparr>) \<longleftrightarrow> quiet NN_REQ_SRC_RESEND_TIMER s \<and> 0 \<le> req_resend_ivl q \<and> sock_fsm s = NN_FSM_STATE_ACTIVE \<and> \<not> td_stopped s"
  by (simp add: req_core_def)

lemma req_action_running:
  assumes "req_core s" and "0 < type"
  shows "req_action vf now type (w, s) = nn_req_handler vf now NN_FSM_ACTION type None (w, s)"
  using assms by (auto simp: req_action_def nn_fsm_action_def nn_fsm_feed_def timed_fn_def req_core_def)

lemma req_leave_active_ok:
  assumes "req_core s" and "timer_running s"
    and "state \<in> {NN_REQ_STATE_STOPPING_TIMER, NN_REQ_STATE_CANCELLING, NN_REQ_STATE_TIMED_OUT}"
  shows "\<exists>s'. req_leave_active state (w, s) = Some (w, s') \<and> req_ok s' \<and> req_running s'
    \<and> td_sock s' = (td_sock s)\<lparr>req_state := state, req_task := (task_of s)\<lparr>task_sent_to := None\<rparr>\<rparr>"
proof -
  have "quiet NN_REQ_SRC_RESEND_TIMER s" using assms(1) by (simp add: req_core_def)
  from timer_stop_ok [OF assms(2) this, of w] obtain s' where
    s': "nn_timer_stop (w, s) = Some (w, s')" "timer_stopping s'" "quiet NN_REQ_SRC_RESEND_TIMER s'" "timer_frame s s'" by blast
  show ?thesis using s' assms
    by (auto simp: req_leave_active_def req_ok_def req_core_def req_timer_def req_running_def timer_frame_def Let_def)
qed

lemma req_set_state_ok:
  assumes "req_ok s" and "req_running s"
    and "(st_of s, state) \<in> {(NN_REQ_STATE_TIMED_OUT, NN_REQ_STATE_CANCELLING), (NN_REQ_STATE_STOPPING_TIMER, NN_REQ_STATE_CANCELLING),
       (NN_REQ_STATE_DONE, NN_REQ_STATE_PASSIVE)}"
  shows "\<exists>s'. req_set_state state (w, s) = Some (w, s') \<and> req_ok s' \<and> req_running s' \<and> td_sock s' = (td_sock s)\<lparr>req_state := state\<rparr>"
  using assms by (auto simp: req_set_state_def req_ok_def req_timer_def req_running_def)

section \<open>The system\<close>

fun req_exec :: "'t nn_pipebase_vfptr \<Rightarrow> u64 \<Rightarrow> 't timedop \<Rightarrow> 't req_st \<Rightarrow> 't req_st option" where
  "req_exec vf now (Timed_sys op) st = sys_exec (nn_req_sockbase_vfptr vf now) op st"
| "req_exec vf now (Timed_ivl v) st = Some (fst st, upd_req (\<lambda>q. fst (nn_req_setopt q NN_REQ NN_REQ_RESEND_IVL v 4)) (snd st))"
| "req_exec vf now Timed_stop st = nn_req_stop st"
| "req_exec vf now Worker_task st = worker_task now (nn_req_handler vf now) nn_req_shutdown st"
| "req_exec vf now Worker_timeout st = worker_timeout now (nn_req_handler vf now) nn_req_shutdown st"

text \<open>The user sends messages without a header of their own, does not fetch a reply that has been destroyed, and sets no negative
  interval; the socket is stopped when its pipes are gone, and only the worker acts on it afterwards.\<close>

fun req_guard :: "'t timedop \<Rightarrow> 't req_st \<Rightarrow> bool" where
  "req_guard (Timed_sys op) st \<longleftrightarrow> req_running (snd st) \<and> sys_guard Tracks (\<lambda>_. True) op st
     \<and> (\<forall>m. op = Send m \<longrightarrow> sphdr m = [])
     \<and> (op = Recv \<longrightarrow> st_of (snd st) = NN_REQ_STATE_DONE \<longrightarrow> task_reply (task_of (snd st)) \<noteq> None)"
| "req_guard (Timed_ivl v) st \<longleftrightarrow> 0 \<le> v"
| "req_guard Timed_stop st \<longleftrightarrow> req_running (snd st) \<and> req_members (snd st) = {}"
| "req_guard Worker_task st \<longleftrightarrow> True"
| "req_guard Worker_timeout st \<longleftrightarrow> True"

inductive req_step :: "'t nn_pipebase_vfptr \<Rightarrow> ((pipe \<Rightarrow> nn_pipebase) \<Rightarrow> 't \<Rightarrow> bool) \<Rightarrow> 't req_st \<Rightarrow> 't req_st \<Rightarrow> bool" for vf tinv where
  req_stepI: "req_guard op st \<Longrightarrow> req_exec vf now op st = Some st' \<Longrightarrow> trans_ok tinv (fst st') \<Longrightarrow> req_step vf tinv st st'"

context transport
begin

section \<open>The raw socket below\<close>

lemma xreq_send_sys:
  assumes "xreq_sys tinv (w, x)"
  shows "\<exists>w' x' r. nn_xreq_send_to vf w x m = Some (w', x', r) \<and> xreq_sys tinv (w', x') \<and> pl_members (xreq_lb x') = pl_members (xreq_lb x)
     \<and> (case r of Inl e \<Rightarrow> e = EAGAIN \<and> pl_active (xreq_lb x) = {} | Inr (v, p) \<Rightarrow> v = 0 \<and> p \<in> pl_members (xreq_lb x'))"
proof -
  note d = xreq.SI_D [OF assms] and rd = xreq.SI_ready [OF assms]
  from xreq_send_ready [OF d(1,2) rd(1), of m] obtain w' x' r where
    *: "nn_xreq_send_to vf w x m = Some (w', x', r)" "pl_members (xreq_lb x') = pl_members (xreq_lb x)"
      "case r of Inl e \<Rightarrow> e = EAGAIN \<and> pl_active (xreq_lb x) = {} | Inr (v, p) \<Rightarrow> v = 0 \<and> p \<in> pl_active (xreq_lb x)" by blast
  have "sys_exec (nn_xreq_sockbase_vfptr vf) (Send m) (w, x) = Some (w', x')"
    using *(1) by (simp add: nn_xreq_sockbase_vfptr_def nn_xreq_send_def)
  then have "xreq_sys tinv (w', x')" using xreq.exec_send [OF assms, of m] by auto
  then show ?thesis using * rd(5) by (auto split: sum.splits)
qed

lemma xreq_recv_sys:
  assumes "xreq_sys tinv (w, x)"
  shows "\<exists>w' x' r. nn_xreq_recv vf w x = Some (w', x', r) \<and> xreq_sys tinv (w', x') \<and> pl_members (xreq_lb x') = pl_members (xreq_lb x)
     \<and> (case r of Inl e \<Rightarrow> e = EAGAIN
        | Inr _ \<Rightarrow> sum (avail (w_trans w')) (pl_active (xreq_fq x')) < sum (avail (w_trans w)) (pl_active (xreq_fq x)))"
proof -
  note d = xreq.SI_D [OF assms] and rd = xreq.SI_ready [OF assms]
  from xreq_recv_ready [OF d(1,2) rd(2)] obtain w' x' r where
    *: "nn_xreq_recv vf w x = Some (w', x', r)" "xreq_lb x' = xreq_lb x" "pl_active (xreq_fq x') = {p \<in> pl_active (xreq_fq x). in_idle w' p}"
    and r: "case r of Inl e \<Rightarrow> e = EAGAIN | Inr _ \<Rightarrow> \<exists>p \<in> pl_active (xreq_fq x). avail (w_trans w') p < avail (w_trans w) p
       \<and> (\<forall>q. avail (w_trans w') q \<le> avail (w_trans w) q)" by blast
  have "sys_exec (nn_xreq_sockbase_vfptr vf) Recv (w, x) = Some (w', x')"
    using *(1) by (simp add: nn_xreq_sockbase_vfptr_def)
  then have "xreq_sys tinv (w', x')" using xreq.exec_recv [OF assms] by auto
  moreover have "pl_active (xreq_fq x') \<subseteq> pl_active (xreq_fq x)" using *(3) by auto
  note sum_avail_less [OF rd(3) this, of _ "avail (w_trans w')" "avail (w_trans w)"]
  ultimately show ?thesis using * r by (cases r) fastforce+
qed

section \<open>Actions\<close>

lemma req_action_send_ok:
  assumes x: "xreq_sys tinv (w, xreq_of s)" and s: "timer_idle s" "req_core s" "task_sent_to (task_of s) = None"
    and d: "\<not> allow \<longrightarrow> pl_active (xreq_lb (xreq_of s)) \<noteq> {}"
  shows "\<exists>w' s'. nn_req_action_send vf now allow (w, s) = Some (w', s') \<and> req_inv tinv (w', s') \<and> req_running s' \<and> req_members s' = req_members s"
proof -
  from xreq_send_sys [OF x, of "task_request (task_of s)"] obtain w' x' r where
    *: "nn_xreq_send_to vf w (xreq_of s) (task_request (task_of s)) = Some (w', x', r)" "xreq_sys tinv (w', x')"
      "pl_members (xreq_lb x') = req_members s"
      "case r of Inl e \<Rightarrow> e = EAGAIN \<and> pl_active (xreq_lb (xreq_of s)) = {} | Inr (v, p) \<Rightarrow> v = 0 \<and> p \<in> pl_members (xreq_lb x')" by blast
  let ?s = "upd_req (\<lambda>q. q\<lparr>req_xreq := x'\<rparr>) s"
  show ?thesis
  proof (cases r)
    case (Inl e)
    then have "nn_req_action_send vf now allow (w, s) = Some (w', upd_req (\<lambda>q. q\<lparr>req_state := NN_REQ_STATE_DELAYED\<rparr>) ?s)"
      using *(1,4) d by (simp add: nn_req_action_send_def Let_def)
    then show ?thesis using * s by (simp add: req_inv_def req_ok_def req_core_def req_timer_def req_running_def)
  next
    case (Inr v)
    then obtain p where p: "r = Inr (0, p)" "p \<in> pl_members (xreq_lb x')" using *(4) by (cases v) auto
    have "timer_idle ?s" "quiet NN_REQ_SRC_RESEND_TIMER ?s" "0 \<le> req_resend_ivl (td_sock s)" using s by (simp_all add: req_core_def)
    from timer_start_ok [OF this, of now w'] obtain s' where
      s': "nn_timer_start now (req_resend_ivl (td_sock s)) (w', ?s) = Some (w', s')" "timer_running s'" "quiet NN_REQ_SRC_RESEND_TIMER s'"
        "timer_frame ?s s'" by blast
    then have "nn_req_action_send vf now allow (w, s) = Some (w', upd_req (\<lambda>q. q\<lparr>req_state := NN_REQ_STATE_ACTIVE\<rparr>)
        (upd_task (\<lambda>t. t\<lparr>task_sent_to := Some p\<rparr>) s'))"
      using *(1) p by (simp add: nn_req_action_send_def Let_def)
    then show ?thesis using * s s' p by (auto simp: req_inv_def req_ok_def req_core_def req_timer_def timer_frame_def req_running_def)
  qed
qed

lemma req_sent_ok:
  assumes inv: "req_inv tinv (w, s)" and run: "req_running s"
  shows "\<exists>w' s'. req_action vf now NN_REQ_ACTION_SENT (w, s) = Some (w', s') \<and> req_inv tinv (w', s') \<and> req_running s' \<and> req_members s' = req_members s"
proof -
  have x: "xreq_sys tinv (w, xreq_of s)" and ok: "req_ok s" "req_core s" "req_timer s"
    using inv req_ok_running [OF run] by (auto simp: req_inv_def)
  have act: "req_action vf now NN_REQ_ACTION_SENT (w, s) = nn_req_handler vf now NN_FSM_ACTION NN_REQ_ACTION_SENT None (w, s)"
    by (rule req_action_running [OF ok(2)]) (simp add: req_consts)
  consider "st_of s \<in> {NN_REQ_STATE_PASSIVE, NN_REQ_STATE_DONE}" | "st_of s \<in> {NN_REQ_STATE_DELAYED, NN_REQ_STATE_CANCELLING}"
    | "st_of s = NN_REQ_STATE_ACTIVE" | "st_of s \<in> {NN_REQ_STATE_TIMED_OUT, NN_REQ_STATE_STOPPING_TIMER}"
    using run by (cases "st_of s") (auto simp: req_running_def)
  then show ?thesis
  proof cases
    case 1
    then have "timer_idle s" "task_sent_to (task_of s) = None" using ok(3) by (auto simp: req_timer_def)
    from req_action_send_ok [OF x this(1) ok(2) this(2), of True now] 1 show ?thesis
      unfolding act by (auto simp: nn_req_handler_def req_consts)
  next
    case 2
    then show ?thesis using inv run unfolding act by (auto simp: nn_req_handler_def req_consts)
  next
    case 3
    then have "timer_running s" using ok(3) by (simp add: req_timer_def)
    from req_leave_active_ok [OF ok(2) this, of NN_REQ_STATE_CANCELLING w] 3 x show ?thesis
      unfolding act by (auto simp: nn_req_handler_def req_consts req_inv_def)
  next
    case 4
    from req_set_state_ok [OF ok(1) run, of NN_REQ_STATE_CANCELLING w] 4 x show ?thesis
      unfolding act by (auto simp: nn_req_handler_def req_consts req_inv_def)
  qed
qed

lemma reply_ignored_total: "\<exists>b. reply_ignored q msg = Some b"
  by (auto simp: reply_ignored_def nn_getl_def)

lemma req_in_loop_ok:
  assumes "req_inv tinv (w, s)" and "req_running s"
  shows "\<exists>w' s'. req_in_loop vf now (w, s) = Some (w', s') \<and> req_inv tinv (w', s') \<and> req_running s' \<and> req_members s' = req_members s"
  using assms
proof (induction "sum (avail (w_trans w)) (pl_active (xreq_fq (xreq_of s)))" arbitrary: w s rule: less_induct)
  case less
  have x: "xreq_sys tinv (w, xreq_of s)" and ok: "req_ok s" using less.prems(1) by (auto simp: req_inv_def)
  from xreq_recv_sys [OF x] obtain w1 x1 r where
    1: "nn_xreq_recv vf w (xreq_of s) = Some (w1, x1, r)" "xreq_sys tinv (w1, x1)" "pl_members (xreq_lb x1) = req_members s"
      "case r of Inl e \<Rightarrow> e = EAGAIN
        | Inr _ \<Rightarrow> sum (avail (w_trans w1)) (pl_active (xreq_fq x1)) < sum (avail (w_trans w)) (pl_active (xreq_fq (xreq_of s)))" by blast
  let ?s = "upd_req (\<lambda>q. q\<lparr>req_xreq := x1\<rparr>) s"
  have ok1: "req_ok ?s" by (rule req_ok_xreq [OF ok]) (simp add: 1(3))
  have task: "req_inv tinv (w1, upd_task (\<lambda>t. t\<lparr>task_reply := v\<rparr>) ?s)" "req_running (upd_task (\<lambda>t. t\<lparr>task_reply := v\<rparr>) ?s)" for v
    using ok1 1(2) less.prems(2) req_ok_task [of "\<lambda>t. t\<lparr>task_reply := v\<rparr>" ?s] by (simp_all add: req_inv_def req_running_def)
  show ?case
  proof (cases r)
    case (Inl e)
    have "req_inv tinv (w1, ?s)" "req_running ?s" using ok1 1(2) less.prems(2) by (simp_all add: req_inv_def req_running_def)
    then show ?thesis using 1 Inl task [of None]
      by (subst req_in_loop.simps) (cases "xreq_recv_terminates vf w (xreq_of s)"; simp add: Let_def)
  next
    case (Inr msg)
    obtain b where b: "reply_ignored (td_sock ?s) msg = Some b" using reply_ignored_total by blast
    show ?thesis
    proof (cases b)
      case True
      let ?s2 = "upd_task (\<lambda>t. t\<lparr>task_reply := None\<rparr>) ?s"
      have "sum (avail (w_trans w1)) (pl_active (xreq_fq (xreq_of ?s2))) < sum (avail (w_trans w)) (pl_active (xreq_fq (xreq_of s)))"
        using 1(4) Inr by simp
      from less.hyps [OF this task] obtain w' s' where
        "req_in_loop vf now (w1, ?s2) = Some (w', s')" "req_inv tinv (w', s')" "req_running s'" "req_members s' = req_members ?s2" by blast
      then show ?thesis using 1 Inr b True by (subst req_in_loop.simps) simp
    next
      case False
      let ?s2 = "upd_task (\<lambda>t. t\<lparr>task_reply := Some (msg\<lparr>sphdr := []\<rparr>)\<rparr>) ?s"
      show ?thesis
      proof (cases "st_of s = NN_REQ_STATE_ACTIVE")
        case act: True
        have core: "req_core ?s2" "timer_running ?s2"
          using task [of "Some (msg\<lparr>sphdr := []\<rparr>)"] act by (auto simp: req_inv_def req_ok_def req_core_def req_timer_def)
        have "req_action vf now NN_REQ_ACTION_IN (w1, ?s2) = req_leave_active NN_REQ_STATE_STOPPING_TIMER (w1, ?s2)"
          using req_action_running [OF core(1), of NN_REQ_ACTION_IN] act by (simp add: req_consts nn_req_handler_def)
        with req_leave_active_ok [OF core, of NN_REQ_STATE_STOPPING_TIMER w1] 1 obtain s' where
          "req_action vf now NN_REQ_ACTION_IN (w1, ?s2) = Some (w1, s')" "req_inv tinv (w1, s')" "req_running s'" "req_members s' = req_members s"
          by (auto simp: req_inv_def)
        then show ?thesis using 1(1) Inr b False act by (subst req_in_loop.simps) simp
      next
        case False
        then show ?thesis using 1 Inr b \<open>\<not> b\<close> task [of "Some (msg\<lparr>sphdr := []\<rparr>)"] by (subst req_in_loop.simps) simp
      qed
    qed
  qed
qed

section \<open>Steps\<close>

lemma req_deliver_ok:
  assumes inv: "req_inv tinv (w, s)" and run: "req_running s"
  shows "\<exists>st'. sys_exec (nn_req_sockbase_vfptr vf now) Deliver (w, s) = Some st' \<and> req_inv tinv st'"
proof (cases "w_events w")
  case Nil then show ?thesis using inv by simp
next
  case (Cons ev evs)
  obtain p e where ev: "ev = (p, e)" by force
  have x: "xreq_sys tinv (w, xreq_of s)" and ok: "req_ok s" "req_core s" "req_timer s"
    using inv req_ok_running [OF run] by (auto simp: req_inv_def)
  note d = xreq.SI_D [OF x]
  let ?w = "w\<lparr>w_events := evs\<rparr>"
  from xreq.exec_deliver [OF x] obtain w1 x1 where
    1: "nn_sock_pipe_event (nn_xreq_sockbase_vfptr vf) ?w (xreq_of s) (p, e) = Some (w1, x1)" "xreq_sys tinv (w1, x1)"
    using Cons ev by auto
  let ?s = "upd_req (\<lambda>q. q\<lparr>req_xreq := x1\<rparr>) s"
  show ?thesis
  proof (cases e)
    case NN_PIPE_IN
    have p: "p \<in> req_members s" "p \<notin> pl_active (xreq_fq (xreq_of s))"
      using d(3,6) Cons ev NN_PIPE_IN by (auto simp: dir_ok_def)
    from 1(1) NN_PIPE_IN have xin: "nn_xreq_in ?w (xreq_of s) p = Some (w1, x1)" by (simp add: nn_sock_pipe_event_def nn_xreq_sockbase_vfptr_def)
    then have "xreq_lb x1 = xreq_lb (xreq_of s)" by (auto simp: nn_xreq_in_def bind_Some_iff)
    then have "req_inv tinv (w1, ?s)" "req_running ?s" using ok(1) 1(2) run by (auto simp: req_inv_def req_running_def intro: req_ok_xreq)
    from req_in_loop_ok [OF this, of now] xin show ?thesis
      using Cons ev NN_PIPE_IN by (auto simp: nn_sock_pipe_event_def nn_req_sockbase_vfptr_def nn_req_in_def)
  next
    case NN_PIPE_OUT
    have p: "p \<in> req_members s" "p \<notin> pl_active (xreq_lb (xreq_of s))"
      using d(3,7) Cons ev NN_PIPE_OUT by (auto simp: dir_ok_def)
    from 1(1) NN_PIPE_OUT have xout: "nn_xreq_out ?w (xreq_of s) p = Some (w1, x1)" by (simp add: nn_sock_pipe_event_def nn_xreq_sockbase_vfptr_def)
    with xreq.out_law [OF d(1) p, of ?w] have
      lb: "pl_members (xreq_lb x1) = req_members s" "pl_active (xreq_lb x1) \<noteq> {}"
      by (auto simp: nn_xreq_sockbase_vfptr_def tracked_def)
    have ok1: "req_inv tinv (w1, ?s)" using ok(1) 1(2) lb(1) by (auto simp: req_inv_def intro: req_ok_xreq)
    have ex: "sys_exec (nn_req_sockbase_vfptr vf now) Deliver (w, s)
        = (if st_of s = NN_REQ_STATE_DELAYED then req_action vf now NN_REQ_ACTION_OUT (w1, ?s) else Some (w1, ?s))"
      using Cons ev NN_PIPE_OUT xout by (simp add: nn_sock_pipe_event_def nn_req_sockbase_vfptr_def nn_req_out_def Let_def)
    show ?thesis
    proof (cases "st_of s = NN_REQ_STATE_DELAYED")
      case True
      have s1: "req_core ?s" "timer_idle ?s" "task_sent_to (task_of ?s) = None"
        using ok(2,3) True by (auto simp: req_timer_def req_core_def)
      have "req_action vf now NN_REQ_ACTION_OUT (w1, ?s) = nn_req_action_send vf now False (w1, ?s)"
        using req_action_running [OF s1(1), of NN_REQ_ACTION_OUT] True by (simp add: req_consts nn_req_handler_def)
      moreover have "\<exists>w' s'. nn_req_action_send vf now False (w1, ?s) = Some (w', s') \<and> req_inv tinv (w', s') \<and> req_running s'
          \<and> req_members s' = req_members ?s"
        by (rule req_action_send_ok) (use 1(2) s1 lb in simp_all)
      ultimately show ?thesis using ex True by auto
    next
      case False then show ?thesis using ex ok1 by simp
    qed
  qed
qed

lemma req_send_ok:
  assumes inv: "req_inv tinv (w, s)" and run: "req_running s" and m: "sphdr m = []"
  shows "\<exists>st'. sys_exec (nn_req_sockbase_vfptr vf now) (Send m) (w, s) = Some st' \<and> req_inv tinv st'"
proof -
  obtain hdr where hdr: "nn_putl (replicate 4 0) ((task_id (task_of s) + 1) OR 0x80000000) = Some hdr" by (simp add: nn_putl_def)
  define s1 where "s1 = upd_task (\<lambda>t. t\<lparr>task_id := task_id t + 1, task_request := m\<lparr>sphdr := hdr\<rparr>\<rparr>) s"
  have "req_ok s1" using inv unfolding s1_def by (subst req_ok_task) (auto simp: req_inv_def)
  moreover have "xreq_of s1 = xreq_of s" "st_of s1 = st_of s" by (simp_all add: s1_def)
  ultimately have "req_inv tinv (w, s1)" "req_running s1" using inv run by (simp_all add: req_inv_def req_running_def)
  from req_sent_ok [OF this, of now] obtain w' s' where
    "req_action vf now NN_REQ_ACTION_SENT (w, s1) = Some (w', s')" "req_inv tinv (w', s')" by blast
  then show ?thesis using m hdr by (simp add: nn_req_sockbase_vfptr_def nn_req_csend_def Let_def s1_def)
qed

lemma req_recv_ok:
  assumes inv: "req_inv tinv (w, s)" and run: "req_running s" and r: "st_of s = NN_REQ_STATE_DONE \<longrightarrow> task_reply (task_of s) \<noteq> None"
  shows "\<exists>st'. sys_exec (nn_req_sockbase_vfptr vf now) Recv (w, s) = Some st' \<and> req_inv tinv st'"
proof (cases "st_of s = NN_REQ_STATE_DONE")
  case False
  then show ?thesis using inv by (auto simp: nn_req_sockbase_vfptr_def nn_req_crecv_def)
next
  case True
  then obtain msg where msg: "task_reply (task_of s) = Some msg" using r by auto
  let ?s = "upd_task (\<lambda>t. t\<lparr>task_reply := Some empty_msg\<rparr>) s"
  have ok: "req_ok ?s" "req_running ?s" "st_of ?s = NN_REQ_STATE_DONE"
    using inv run True req_ok_task [of "\<lambda>t. t\<lparr>task_reply := Some empty_msg\<rparr>" s] by (auto simp: req_inv_def req_running_def)
  from req_set_state_ok [OF ok(1,2), of NN_REQ_STATE_PASSIVE w] ok(3) obtain s' where
    s': "req_set_state NN_REQ_STATE_PASSIVE (w, ?s) = Some (w, s')" "req_ok s'" "td_sock s' = (td_sock ?s)\<lparr>req_state := NN_REQ_STATE_PASSIVE\<rparr>"
    by auto
  have "req_core ?s" using ok req_ok_running by blast
  from req_action_running [OF this, of NN_REQ_ACTION_RECEIVED vf now w] s'(1) True
  have "req_action vf now NN_REQ_ACTION_RECEIVED (w, ?s) = Some (w, s')" by (simp add: req_consts nn_req_handler_def)
  moreover have "nn_req_inprogress (td_sock s)" using True by (simp add: nn_req_inprogress_def)
  ultimately show ?thesis using True msg s'(2,3) inv
    by (simp add: nn_req_sockbase_vfptr_def nn_req_crecv_def Let_def req_inv_def)
qed

lemma req_done_ok:
  assumes inv: "req_inv tinv (w, s)" and op: "op \<in> {Sent p t, Received p t}" and g: "sys_guard Tracks (\<lambda>_. True) op (w, s)"
  shows "\<exists>st'. sys_exec (nn_req_sockbase_vfptr vf now) op (w, s) = Some st' \<and> (trans_ok tinv (fst st') \<longrightarrow> req_inv tinv st')"
proof -
  have x: "xreq_sys tinv (w, xreq_of s)" using inv by (simp add: req_inv_def)
  have g': "sys_guard Tracks (\<lambda>_. True) op (w, xreq_of s)" using g op by auto
  from xreq.sys_exec_safe(1) [OF x g'] obtain st' where
    st': "sys_exec (nn_xreq_sockbase_vfptr vf) op (w, xreq_of s) = Some st'" "trans_ok tinv (fst st') \<longrightarrow> xreq_sys tinv st'" by blast
  then have "snd st' = xreq_of s" "sys_exec (nn_req_sockbase_vfptr vf now) op (w, s) = Some (fst st', s)"
    using op by (auto simp: bind_Some_iff)
  then show ?thesis using st'(2) inv by (cases st') (auto simp: req_inv_def)
qed

lemma req_start_ok:
  assumes inv: "req_inv tinv (w, s)" and g: "sys_guard Tracks (\<lambda>_. True) (Start p t) (w, s)"
  shows "\<exists>st'. sys_exec (nn_req_sockbase_vfptr vf now) (Start p t) (w, s) = Some st' \<and> (trans_ok tinv (fst st') \<longrightarrow> req_inv tinv st')"
proof -
  have x: "xreq_sys tinv (w, xreq_of s)" and ok: "req_ok s" using inv by (auto simp: req_inv_def)
  have g': "sys_guard Tracks (\<lambda>_. True) (Start p t) (w, xreq_of s)" using g by simp
  from xreq.sys_exec_safe(1) [OF x g'] obtain w' x' where
    e: "sys_exec (nn_xreq_sockbase_vfptr vf) (Start p t) (w, xreq_of s) = Some (w', x')" "trans_ok tinv w' \<longrightarrow> xreq_sys tinv (w', x')" by force
  define w0 where "w0 = upd_pipe p (\<lambda>b. b\<lparr>pb_state := NN_PIPEBASE_STATE_ACTIVE, pb_instate := NN_PIPEBASE_INSTATE_ASYNC,
      pb_outstate := NN_PIPEBASE_OUTSTATE_IDLE\<rparr>) (w\<lparr>w_trans := t\<rparr>)"
  have idle: "pb_state (w_pipes w p) = NN_PIPEBASE_STATE_IDLE" and prio: "prio_ok (w_pipes w0 p)"
    using g by (auto simp: w0_def prio_ok_def)
  have np: "p \<notin> req_members s" using xreq.SI_D(3) [OF x] idle by (auto simp: pipe_active_def)
  from xreq.add_law [OF xreq.SI_D(1) [OF x] np prio] obtain w1 x1 rc where
    1: "nn_xreq_add w0 (xreq_of s) p = Some (w1, x1, rc)" "pl_members (xreq_lb x1) = (if isl rc then req_members s else insert p (req_members s))"
    by (auto simp: nn_xreq_sockbase_vfptr_def split del: if_split)
  then have sub: "req_members s \<subseteq> pl_members (xreq_lb x1)" by auto
  have "x1 = x'" using e(1) 1(1) idle
    by (auto simp: nn_pipebase_start_def nn_sock_add_def nn_xreq_sockbase_vfptr_def bind_Some_iff Let_def split: sum.splits simp flip: w0_def)
  have "sys_exec (nn_req_sockbase_vfptr vf now) (Start p t) (w, s) = Some (w', upd_req (\<lambda>q. q\<lparr>req_xreq := x'\<rparr>) s)"
    using e(1) 1(1) idle unfolding sys_exec.simps nn_pipebase_start_def nn_sock_add_def
    by (auto simp: nn_xreq_sockbase_vfptr_def nn_req_sockbase_vfptr_def nn_req_add_def bind_Some_iff Let_def
        split: sum.splits simp flip: w0_def)
  moreover have "req_ok (upd_req (\<lambda>q. q\<lparr>req_xreq := x'\<rparr>) s)" using req_ok_xreq [OF ok] sub \<open>x1 = x'\<close> by blast
  ultimately show ?thesis using e(2) by (auto simp: req_inv_def)
qed

lemma req_pipe_rm_ok:
  assumes ok: "req_ok s" "req_running s" and x: "pl_members (xreq_lb x') = req_members s - {p}"
  shows "\<exists>s'. (let s = upd_req (\<lambda>q. q\<lparr>req_xreq := x'\<rparr>) s in
     if Some p = task_sent_to (task_of s) then req_action vf now NN_REQ_ACTION_PIPE_RM (w, s) else Some (w, s)) = Some (w, s')
     \<and> req_ok s' \<and> xreq_of s' = x'"
proof -
  let ?s = "upd_req (\<lambda>q. q\<lparr>req_xreq := x'\<rparr>) s"
  have core: "req_core s" "req_timer s" using ok req_ok_running by blast+
  show ?thesis
  proof (cases "Some p = task_sent_to (task_of s)")
    case True
    then have act: "st_of s = NN_REQ_STATE_ACTIVE" "timer_running s" using core(2) by (auto simp: req_timer_def split: if_splits)
    have s1: "req_core ?s" "timer_running ?s" using core(1) act by (simp_all add: req_core_def)
    have "req_action vf now NN_REQ_ACTION_PIPE_RM (w, ?s) = req_leave_active NN_REQ_STATE_TIMED_OUT (w, ?s)"
      using req_action_running [OF s1(1), of NN_REQ_ACTION_PIPE_RM] act by (simp add: req_consts nn_req_handler_def)
    with req_leave_active_ok [OF s1, of NN_REQ_STATE_TIMED_OUT w] True show ?thesis by (auto simp: Let_def)
  next
    case False
    then have "req_ok ?s" using ok x by (auto simp: req_ok_def req_timer_def)
    then show ?thesis using False by (auto simp: Let_def)
  qed
qed

lemma req_stop_pipe_ok:
  assumes inv: "req_inv tinv (w, s)" and run: "req_running s" and g: "sys_guard Tracks (\<lambda>_. True) (Stop p t) (w, s)"
  shows "\<exists>st'. sys_exec (nn_req_sockbase_vfptr vf now) (Stop p t) (w, s) = Some st' \<and> (trans_ok tinv (fst st') \<longrightarrow> req_inv tinv st')"
proof -
  have x: "xreq_sys tinv (w, xreq_of s)" and ok: "req_ok s" using inv by (auto simp: req_inv_def)
  have g': "sys_guard Tracks (\<lambda>_. True) (Stop p t) (w, xreq_of s)" using g by simp
  from xreq.sys_exec_safe(1) [OF x g'] obtain w' x' where
    e: "sys_exec (nn_xreq_sockbase_vfptr vf) (Stop p t) (w, xreq_of s) = Some (w', x')" "trans_ok tinv w' \<longrightarrow> xreq_sys tinv (w', x')" by force
  show ?thesis
  proof (cases "pipe_active w p")
    case False
    then show ?thesis using e ok by (auto simp: nn_pipebase_stop_def pipe_active_def req_inv_def)
  next
    case True
    let ?w = "w\<lparr>w_trans := t\<rparr>"
    have p: "p \<in> req_members s" using True xreq.SI_D(3) [OF x] by auto
    from xreq.rm_law [OF xreq.SI_D(1) [OF x] p, of ?w] obtain w1 x1 where
      1: "nn_xreq_rm ?w (xreq_of s) p = Some (w1, x1)" "pl_members (xreq_lb x1) = req_members s - {p}"
      by (auto simp: nn_xreq_sockbase_vfptr_def)
    from req_pipe_rm_ok [OF ok run 1(2), of now w1] obtain s' where
      s': "nn_req_rm vf now ?w s p = Some (w1, s')" "req_ok s'" "xreq_of s' = x1" using 1(1) by (auto simp: nn_req_rm_def)
    have "x1 = x'" "sys_exec (nn_req_sockbase_vfptr vf now) (Stop p t) (w, s) = Some (w', s')"
      using e(1) 1(1) s'(1) True
      by (auto simp: nn_pipebase_stop_def nn_sock_rm_def nn_xreq_sockbase_vfptr_def nn_req_sockbase_vfptr_def bind_Some_iff pipe_active_def)
    then show ?thesis using e(2) s'(2,3) by (auto simp: req_inv_def)
  qed
qed

lemma req_stopped_ok:
  assumes x: "xreq_sys tinv (w, xreq_of s)" and s: "timer_idle s" "quiet NN_REQ_SRC_RESEND_TIMER s" "0 \<le> req_resend_ivl (td_sock s)"
    "task_sent_to (task_of s) = None" "st_of s \<in> {NN_REQ_STATE_TIMED_OUT, NN_REQ_STATE_CANCELLING, NN_REQ_STATE_STOPPING_TIMER, NN_REQ_STATE_STOPPING}"
    "(sock_fsm s, td_stopped s) = (if st_of s = NN_REQ_STATE_STOPPING then (NN_FSM_STATE_STOPPING, False) else (NN_FSM_STATE_ACTIVE, False))"
  shows "\<exists>st'. (if sock_fsm s \<noteq> NN_FSM_STATE_STOPPING then nn_req_handler vf now else nn_req_shutdown) NN_REQ_SRC_RESEND_TIMER NN_TIMER_STOPPED ptr (w, s)
     = Some st' \<and> req_inv tinv st'"
proof -
  have core: "st_of s \<noteq> NN_REQ_STATE_STOPPING \<Longrightarrow> req_core s" using s by (auto simp: req_core_def)
  consider "st_of s \<in> {NN_REQ_STATE_TIMED_OUT, NN_REQ_STATE_CANCELLING}" | "st_of s = NN_REQ_STATE_STOPPING_TIMER" | "st_of s = NN_REQ_STATE_STOPPING"
    using s(5) by auto
  then show ?thesis
  proof cases
    case 1
    then have "req_core s" using core by auto
    from req_action_send_ok [OF x s(1) this s(4), of True now] 1 s(6) show ?thesis
      by (auto simp: nn_req_handler_def req_consts)
  next
    case 2
    then show ?thesis using s x by (auto simp: nn_req_handler_def req_consts req_set_state_def req_inv_def req_ok_def req_timer_def)
  next
    case 3
    have "nn_timer_isidle s" using s(1,2) by (simp add: nn_timer_isidle_def nn_fsm_isidle_def timer_idle_def quiet_def nn_fsm_event_active_def)
    then show ?thesis using 3 s x
      by (auto simp: nn_req_shutdown_def req_consts req_set_state_def nn_fsm_stopped_noevent_def nn_timer_isidle_def
          req_inv_def req_ok_def req_timer_def timer_phase_defs)
  qed
qed

lemma req_frame:
  assumes "timer_frame s s'" and "quiet NN_REQ_SRC_RESEND_TIMER s'" and "req_ok s"
    and "timer_running s \<and> timer_running s' \<or> timer_stopping s \<and> timer_stopping s'"
  shows "req_ok s'" and "xreq_of s' = xreq_of s"
  using assms by (auto simp: timer_frame_def req_ok_def req_timer_def timer_idle_def timer_running_def timer_stopping_def split: if_splits)

lemma req_timeout_ok:
  assumes inv: "req_inv tinv (w, s)" and run: "timer_running s"
  shows "\<exists>st'. timer_reports (nn_req_handler vf now) nn_req_shutdown NN_REQ_SRC_RESEND_TIMER NN_TIMER_TIMEOUT ptr (w, s) = Some st' \<and> req_inv tinv st'"
proof -
  have x: "xreq_sys tinv (w, xreq_of s)" and ok: "req_ok s" using inv by (auto simp: req_inv_def)
  have st: "st_of s = NN_REQ_STATE_ACTIVE"
    using ok run by (cases "st_of s") (auto simp: req_ok_def req_timer_def timer_running_def timer_idle_def timer_stopping_def)
  then have core: "req_core s" "sock_fsm s = NN_FSM_STATE_ACTIVE" using ok by (auto simp: req_ok_def req_core_def)
  from req_leave_active_ok [OF core(1) run, of NN_REQ_STATE_TIMED_OUT w] st core(2) x show ?thesis
    by (auto simp: timer_reports_def nn_req_handler_def req_consts req_inv_def)
qed

end

sublocale transport \<subseteq> rq: timed_socket NN_REQ_SRC_RESEND_TIMER "nn_req_handler vf" nn_req_shutdown "req_inv tinv"
proof (unfold_locales, goal_cases)
  case (1 w s) then show ?case by (simp add: req_inv_def req_ok_def)
next
  case (2 w s) then show ?case by (auto simp: req_inv_def req_ok_def req_timer_def split: if_splits)
next
  case (3 w s s') then show ?case using req_frame [of s s'] by (auto simp: req_inv_def)
next
  case (4 w s now ptr) then show ?case by (rule req_timeout_ok)
next
  case (5 w s s' now ptr)
  have x: "xreq_sys tinv (w, xreq_of s)" and ok: "req_ok s" using 5(1) by (auto simp: req_inv_def)
  have f: "td_sock s' = td_sock s" "td_stopped s' = td_stopped s" "sock_fsm s' = sock_fsm s" using 5(3) by (simp_all add: timer_frame_def)
  have st: "st_of s \<in> {NN_REQ_STATE_TIMED_OUT, NN_REQ_STATE_CANCELLING, NN_REQ_STATE_STOPPING_TIMER, NN_REQ_STATE_STOPPING}"
      "task_sent_to (task_of s) = None"
    using ok 5(2) by (cases "st_of s"; auto simp: req_ok_def req_timer_def timer_running_def timer_idle_def timer_stopping_def)+
  show ?case unfolding timer_reports_def snd_conv by (rule req_stopped_ok) (use x 5(4,5) ok st f in \<open>auto simp: req_ok_def\<close>)
qed

context transport
begin

lemma req_stop_ok:
  assumes inv: "req_inv tinv (w, s)" and run: "req_running s" and m: "req_members s = {}"
  shows "\<exists>st'. nn_req_stop (w, s) = Some st' \<and> req_inv tinv st'"
proof -
  have x: "xreq_sys tinv (w, xreq_of s)" and ok: "req_core s" "req_timer s" using inv req_ok_running [OF run] by (auto simp: req_inv_def)
  define s1 where "s1 = s\<lparr>td_ctx := set_fsm SockFsm (\<lambda>m. m\<lparr>fsm_state := NN_FSM_STATE_STOPPING\<rparr>) (td_ctx s)\<rparr>"
  have s1: "quiet NN_REQ_SRC_RESEND_TIMER s1" "timer_idle s1 = timer_idle s" "timer_stopping s1 = timer_stopping s" "td_sock s1 = td_sock s"
    "sock_fsm s1 = NN_FSM_STATE_STOPPING" "td_stopped s1 = td_stopped s" "timer_fsm s1 = timer_fsm s"
    using ok(1) by (simp_all add: s1_def req_core_def timer_phase_defs)
  have sent: "task_sent_to (task_of s) = None" "timer_idle s \<or> timer_stopping s"
    using ok(2) m by (auto simp: req_timer_def split: if_splits)
  then have nostop: "nn_timer_stop (w, s1) = Some (w, s1)"
    using s1(7) by (auto simp: nn_timer_stop_def intro!: nn_fsm_stop_idle simp: timer_idle_def timer_stopping_def)
  let ?s2 = "upd_req (\<lambda>q. q\<lparr>req_state := NN_REQ_STATE_STOPPING\<rparr>) s1"
  have eq: "nn_req_stop (w, s) = nn_req_shutdown NN_FSM_ACTION NN_FSM_STOP None (w, s1)"
    using ok(1) by (simp add: nn_req_stop_def nn_fsm_stop_def timed_shutdown_fn_def req_core_def s1_def)
  show ?thesis
  proof (cases "timer_idle s")
    case True
    have "nn_req_shutdown NN_REQ_SRC_RESEND_TIMER NN_TIMER_STOPPED None (w, ?s2) = nn_req_shutdown NN_FSM_ACTION NN_FSM_STOP None (w, s1)"
      using nostop by (simp add: nn_req_shutdown_def req_consts req_set_state_def)
    moreover have "\<exists>st'. (if sock_fsm ?s2 \<noteq> NN_FSM_STATE_STOPPING then nn_req_handler vf now else nn_req_shutdown) NN_REQ_SRC_RESEND_TIMER
        NN_TIMER_STOPPED None (w, ?s2) = Some st' \<and> req_inv tinv st'" for now
      by (rule req_stopped_ok) (use x s1 True sent ok in \<open>simp_all add: req_core_def\<close>)
    ultimately show ?thesis using s1(5) eq by simp
  next
    case False
    then have st: "timer_stopping s1" using sent s1 by simp
    then have "\<not> nn_timer_isidle ?s2" by (simp add: nn_timer_isidle_def nn_fsm_isidle_def timer_stopping_def)
    then have "nn_req_stop (w, s) = Some (w, ?s2)" using eq nostop by (simp add: nn_req_shutdown_def req_set_state_def)
    then show ?thesis using x s1 st sent ok by (simp add: req_inv_def req_ok_def req_timer_def req_core_def)
  qed
qed

text \<open>A socket that has stopped can be destroyed.\<close>

lemma req_term_ok:
  assumes "req_inv tinv (w, s)" and "st_of s = NN_REQ_STATE_IDLE" and "req_members s = {}" and "task_reply (task_of s) \<noteq> None"
  shows "nn_req_term s = Some ()"
proof -
  have x: "xreq_inv (xreq_of s)" and s: "timer_idle s" "sock_fsm s = NN_FSM_STATE_IDLE"
    using assms(1,2) xreq.SI_D(1) by (auto simp: req_inv_def req_ok_def req_timer_def)
  have "nn_xreq_term (xreq_of s) = Some ()"
    using x assms(3) nn_priolist_term_ok [of "xreq_fq (xreq_of s)"] nn_priolist_term_ok [of "xreq_lb (xreq_of s)"]
      pl_active_members [of "xreq_fq (xreq_of s)"] pl_active_members [of "xreq_lb (xreq_of s)"]
    by (simp add: nn_xreq_term_def nn_fq_term_def nn_lb_term_def xreq_inv_def)
  then show ?thesis using rq.term_ok [OF assms(1) s] assms(4) by (simp add: nn_req_term_def)
qed

theorem req_exec_ok:
  assumes inv: "req_inv tinv st" and g: "req_guard op st"
  shows "\<exists>st'. req_exec vf now op st = Some st' \<and> (trans_ok tinv (fst st') \<longrightarrow> req_inv tinv st')"
proof -
  obtain w s where st: "st = (w, s)" by force
  show ?thesis
  proof (cases op)
    case (Timed_sys sop)
    then have g': "req_running s" "sys_guard Tracks (\<lambda>_. True) sop (w, s)" "\<forall>m. sop = Send m \<longrightarrow> sphdr m = []"
      "sop = Recv \<longrightarrow> st_of s = NN_REQ_STATE_DONE \<longrightarrow> task_reply (task_of s) \<noteq> None" using g st by auto
    note i = inv [unfolded st]
    show ?thesis
    proof (cases sop)
      case (Start p t) then show ?thesis using req_start_ok [OF i, of p t now] g'(2) Timed_sys st by simp
    next
      case (Stop p t) then show ?thesis using req_stop_pipe_ok [OF i g'(1), of p t now] g'(2) Timed_sys st by simp
    next
      case (Sent p t) then show ?thesis using req_done_ok [OF i _ g'(2), of p t now] Timed_sys st by simp
    next
      case (Received p t) then show ?thesis using req_done_ok [OF i _ g'(2), of p t now] Timed_sys st by simp
    next
      case Deliver then show ?thesis using req_deliver_ok [OF i g'(1), of now] Timed_sys st by auto
    next
      case (Send m) then show ?thesis using req_send_ok [OF i g'(1), of m now] g'(3) Timed_sys st by auto
    next
      case Recv then show ?thesis using req_recv_ok [OF i g'(1), of now] g'(4) Timed_sys st by auto
    qed
  next
    case (Timed_ivl v) then show ?thesis using inv g st by (auto simp: nn_req_setopt_def req_inv_def req_ok_def req_timer_def)
  next
    case Timed_stop then show ?thesis using req_stop_ok [of w s] inv g st by auto
  next
    case Worker_task then show ?thesis using rq.worker_task_ok [of w s now] inv st by auto
  next
    case Worker_timeout then show ?thesis using rq.worker_timeout_ok [of w s now] inv st by auto
  qed
qed

lemma req_reach_inv:
  assumes "(req_step vf tinv)\<^sup>*\<^sup>* st st'" and "req_inv tinv st"
  shows "req_inv tinv st'"
  using assms
proof (induction rule: rtranclp_induct)
  case (step y z)
  from step(2) obtain op now where "req_guard op y" "req_exec vf now op y = Some z" "trans_ok tinv (fst z)"
    by (auto elim: req_step.cases)
  then show ?case using req_exec_ok [of y op now] step by auto
qed

end

end
