(* ===== verification/Surveyor.thy ===== *)
theory Surveyor
  imports Survey_Raw Timed_Socket
begin

text \<open>
  The SURVEYOR socket (\<open>src/protocols/survey/surveyor.c\<close>): a state machine on top of the raw socket that numbers the surveys, ends a
  survey when its deadline has passed, and drops responses to other surveys.
\<close>

section \<open>Data\<close>

datatype surveyor_state = NN_SURVEYOR_STATE_IDLE | NN_SURVEYOR_STATE_PASSIVE | NN_SURVEYOR_STATE_ACTIVE
  | NN_SURVEYOR_STATE_CANCELLING | NN_SURVEYOR_STATE_STOPPING_TIMER | NN_SURVEYOR_STATE_STOPPING

definition NN_SURVEYOR_DEFAULT_DEADLINE :: int where "NN_SURVEYOR_DEFAULT_DEADLINE = 1000"
definition NN_SURVEYOR_ACTION_START :: int where "NN_SURVEYOR_ACTION_START = 1"
definition NN_SURVEYOR_ACTION_CANCEL :: int where "NN_SURVEYOR_ACTION_CANCEL = 2"
definition NN_SURVEYOR_SRC_DEADLINE_TIMER :: int where "NN_SURVEYOR_SRC_DEADLINE_TIMER = 1"
definition NN_SURVEYOR :: int where "NN_SURVEYOR = 6 * 16 + 2"
definition NN_SURVEYOR_DEADLINE :: int where "NN_SURVEYOR_DEADLINE = 1"

record nn_surveyor =
  surv_xsurveyor :: nn_xsurveyor
  surv_state :: surveyor_state
  surv_surveyid :: u32
  surv_tosend :: nn_msg
  surv_deadline :: int
  surv_timedout :: bool

type_synonym 't surv_st = "('t world, nn_surveyor) tsock"

abbreviation upd_surv :: "(nn_surveyor \<Rightarrow> nn_surveyor) \<Rightarrow> nn_surveyor timed \<Rightarrow> nn_surveyor timed" where
  "upd_surv f s \<equiv> s\<lparr>td_sock := f (td_sock s)\<rparr>"
abbreviation sv_of :: "nn_surveyor timed \<Rightarrow> surveyor_state" where "sv_of s \<equiv> surv_state (td_sock s)"
abbreviation xsurv_of :: "nn_surveyor timed \<Rightarrow> nn_xsurveyor" where "xsurv_of s \<equiv> surv_xsurveyor (td_sock s)"
abbreviation put_xsurv :: "nn_xsurveyor \<Rightarrow> nn_surveyor timed \<Rightarrow> nn_surveyor timed" where
  "put_xsurv x s \<equiv> upd_surv (\<lambda>q. q\<lparr>surv_xsurveyor := x\<rparr>) s"

definition nn_surveyor_inprogress :: "nn_surveyor \<Rightarrow> bool" where
  "nn_surveyor_inprogress self \<longleftrightarrow>
     surv_state self \<notin> {NN_SURVEYOR_STATE_IDLE, NN_SURVEYOR_STATE_PASSIVE, NN_SURVEYOR_STATE_STOPPING}"

section \<open>The state machine\<close>

definition nn_surveyor_resend :: "'t nn_pipebase_vfptr \<Rightarrow> 't surv_st \<Rightarrow> 't surv_st option" where
  "nn_surveyor_resend vf st = (case st of (w, s) \<Rightarrow> do {
     (w, x, rc) \<leftarrow> nn_xsurveyor_send vf w (xsurv_of s) (surv_tosend (td_sock s));
     nn_assert (rc = Inr 0);
     Some (w, put_xsurv x s) })"

definition surv_set_state :: "surveyor_state \<Rightarrow> 't surv_st \<Rightarrow> 't surv_st option" where
  "surv_set_state state st = Some (fst st, upd_surv (\<lambda>q. q\<lparr>surv_state := state\<rparr>) (snd st))"

text \<open>Two states start a survey in the same way.\<close>

definition surv_start_survey :: "'t nn_pipebase_vfptr \<Rightarrow> u64 \<Rightarrow> 't surv_st \<Rightarrow> 't surv_st option" where
  "surv_start_survey vf now st = do {
     st \<leftarrow> nn_surveyor_resend vf st;
     st \<leftarrow> nn_timer_start now (surv_deadline (td_sock (snd st))) st;
     surv_set_state NN_SURVEYOR_STATE_ACTIVE st }"

definition nn_surveyor_handler :: "'t nn_pipebase_vfptr \<Rightarrow> u64 \<Rightarrow> ('t world, nn_surveyor) sock_hdl" where
  "nn_surveyor_handler vf now src type srcptr st = (case sv_of (snd st) of
     NN_SURVEYOR_STATE_IDLE \<Rightarrow>
       if src = NN_FSM_ACTION \<and> type = NN_FSM_START then surv_set_state NN_SURVEYOR_STATE_PASSIVE st else None
   | NN_SURVEYOR_STATE_PASSIVE \<Rightarrow>
       if src = NN_FSM_ACTION \<and> type = NN_SURVEYOR_ACTION_START then surv_start_survey vf now st else None
   | NN_SURVEYOR_STATE_ACTIVE \<Rightarrow>
       if src = NN_FSM_ACTION \<and> type = NN_SURVEYOR_ACTION_CANCEL then do {
         st \<leftarrow> nn_timer_stop st; surv_set_state NN_SURVEYOR_STATE_CANCELLING st }
       else if src = NN_SURVEYOR_SRC_DEADLINE_TIMER \<and> type = NN_TIMER_TIMEOUT then do {
         st \<leftarrow> nn_timer_stop st;
         (w, s) \<leftarrow> surv_set_state NN_SURVEYOR_STATE_STOPPING_TIMER st;
         Some (w, upd_surv (\<lambda>q. q\<lparr>surv_timedout := True\<rparr>) s) }
       else None
   | NN_SURVEYOR_STATE_CANCELLING \<Rightarrow>
       if src = NN_FSM_ACTION \<and> type = NN_SURVEYOR_ACTION_CANCEL then Some st
       else if src = NN_SURVEYOR_SRC_DEADLINE_TIMER \<and> type = NN_TIMER_STOPPED then surv_start_survey vf now st
       else None
   | NN_SURVEYOR_STATE_STOPPING_TIMER \<Rightarrow>
       if src = NN_FSM_ACTION \<and> type = NN_SURVEYOR_ACTION_CANCEL then surv_set_state NN_SURVEYOR_STATE_CANCELLING st
       else if src = NN_SURVEYOR_SRC_DEADLINE_TIMER \<and> type = NN_TIMER_STOPPED then surv_set_state NN_SURVEYOR_STATE_PASSIVE st
       else None
   | NN_SURVEYOR_STATE_STOPPING \<Rightarrow> None)"

definition nn_surveyor_shutdown :: "('t world, nn_surveyor) sock_hdl" where
  "nn_surveyor_shutdown src type srcptr st = do {
     st \<leftarrow> (if src = NN_FSM_ACTION \<and> type = NN_FSM_STOP
       then do { st \<leftarrow> nn_timer_stop st; surv_set_state NN_SURVEYOR_STATE_STOPPING st } else Some st);
     if sv_of (snd st) = NN_SURVEYOR_STATE_STOPPING then
       (if \<not> nn_timer_isidle (snd st) then Some st
        else do {
          (w, s) \<leftarrow> surv_set_state NN_SURVEYOR_STATE_IDLE st;
          c \<leftarrow> nn_fsm_stopped_noevent SockFsm (td_ctx s);
          nn_assert (\<not> td_stopped s);
          Some (w, s\<lparr>td_ctx := c, td_stopped := True\<rparr>) })
     else None }"

definition surv_action :: "'t nn_pipebase_vfptr \<Rightarrow> u64 \<Rightarrow> int \<Rightarrow> 't surv_st \<Rightarrow> 't surv_st option" where
  "surv_action vf now = nn_fsm_action ts_get (timed_fn now (nn_surveyor_handler vf now)) (timed_shutdown_fn nn_surveyor_shutdown) SockFsm"

section \<open>Operations of the socket\<close>

definition nn_surveyor_init :: "u32 \<Rightarrow> nn_xsurveyor \<Rightarrow> nn_surveyor" where
  "nn_surveyor_init surveyid x = \<lparr>surv_xsurveyor = x, surv_state = NN_SURVEYOR_STATE_IDLE, surv_surveyid = surveyid,
     surv_tosend = empty_msg, surv_deadline = NN_SURVEYOR_DEFAULT_DEADLINE, surv_timedout = False\<rparr>"

definition nn_surveyor_create :: "u32 \<Rightarrow> nn_surveyor timed" where
  "nn_surveyor_create surveyid = nn_timer_init NN_SURVEYOR_SRC_DEADLINE_TIMER
     \<lparr>td_ctx = nn_fsm_init_root SockFsm (nn_ctx_init
        (\<lambda>_. \<lparr>fsm_state = NN_FSM_STATE_IDLE, fsm_src = -1, fsm_srcptr = None, fsm_owner = None\<rparr>) (\<lambda>_. nn_fsm_event_init)),
      td_timer = \<lparr>tm_state = NN_TIMER_STATE_IDLE, tm_timeout = -1\<rparr>, td_worker = \<lparr>wk_tasks = [], wk_timerset = nn_timerset_init\<rparr>,
      td_stopped = False, td_sock = nn_surveyor_init surveyid nn_xsurveyor_init\<rparr>"

definition nn_surveyor_start :: "'t nn_pipebase_vfptr \<Rightarrow> u64 \<Rightarrow> 't surv_st \<Rightarrow> 't surv_st option" where
  "nn_surveyor_start vf now = nn_fsm_start ts_get ts_upd (timed_fn now (nn_surveyor_handler vf now)) SockFsm"

definition nn_surveyor_stop :: "'t surv_st \<Rightarrow> 't surv_st option" where
  "nn_surveyor_stop = nn_fsm_stop ts_get ts_upd (timed_shutdown_fn nn_surveyor_shutdown) SockFsm"

definition nn_surveyor_term :: "nn_surveyor timed \<Rightarrow> unit option" where
  "nn_surveyor_term self = do {
     nn_timer_term self;
     nn_fsm_term (td_ctx self) SockFsm;
     nn_xsurveyor_term (xsurv_of self) }"

definition nn_surveyor_events :: "nn_surveyor \<Rightarrow> u32" where
  "nn_surveyor_events self = (let rc = nn_xsurveyor_events (surv_xsurveyor self) in
     if \<not> nn_surveyor_inprogress self then rc OR NN_SOCKBASE_EVENT_IN else rc)"

definition nn_surveyor_send :: "'t nn_pipebase_vfptr \<Rightarrow> u64 \<Rightarrow> 't world \<Rightarrow> nn_surveyor timed \<Rightarrow> nn_msg \<Rightarrow>
  ('t world \<times> nn_surveyor timed \<times> (errno + u32)) option" where
  "nn_surveyor_send vf now w s msg = do {
     let s = upd_surv (\<lambda>q. q\<lparr>surv_surveyid := (surv_surveyid q + 1) OR 0x80000000\<rparr>) s;
     nn_assert (length (sphdr msg) = 0);
     hdr \<leftarrow> nn_putl (replicate 4 0) (surv_surveyid (td_sock s));
     let s = upd_surv (\<lambda>q. q\<lparr>surv_tosend := msg\<lparr>sphdr := hdr\<rparr>\<rparr>) s;
     if nn_surveyor_inprogress (td_sock s) then
       (if nn_xsurveyor_events (xsurv_of s) AND NN_SOCKBASE_EVENT_OUT = 0 then Some (w, s, Inl EAGAIN)
        else do { (w, s) \<leftarrow> surv_action vf now NN_SURVEYOR_ACTION_CANCEL (w, s); Some (w, s, Inr 0) })
     else do { (w, s) \<leftarrow> surv_action vf now NN_SURVEYOR_ACTION_START (w, s); Some (w, s, Inr 0) } }"

text \<open>The loop over the responses ends when the fair queue has no more messages, or with a message that is too short.\<close>

partial_function (option) surv_recv_loop :: "'t nn_pipebase_vfptr \<Rightarrow> u32 \<Rightarrow> 't world \<Rightarrow> nn_xsurveyor \<Rightarrow>
  ('t world \<times> nn_xsurveyor \<times> (errno + nn_msg)) option" where
  "surv_recv_loop vf surveyid w x = do {
     (w, x, r) \<leftarrow> nn_xsurveyor_recv vf w x;
     (case r of
        Inl e \<Rightarrow> do { nn_assert (e = EAGAIN); Some (w, x, Inl EAGAIN) }
      | Inr msg \<Rightarrow>
          if length (sphdr msg) \<noteq> 4 then surv_recv_loop vf surveyid w x
          else do {
            i \<leftarrow> nn_getl (sphdr msg);
            if i \<noteq> surveyid then surv_recv_loop vf surveyid w x
            else Some (w, x, Inr (msg\<lparr>sphdr := []\<rparr>)) }) }"

definition nn_surveyor_recv :: "'t nn_pipebase_vfptr \<Rightarrow> 't world \<Rightarrow> nn_surveyor timed \<Rightarrow>
  ('t world \<times> nn_surveyor timed \<times> (errno + nn_msg)) option" where
  "nn_surveyor_recv vf w s =
    (if \<not> nn_surveyor_inprogress (td_sock s) then
       (if surv_timedout (td_sock s) then Some (w, upd_surv (\<lambda>q. q\<lparr>surv_timedout := False\<rparr>) s, Inl ETIMEDOUT)
        else Some (w, s, Inl EFSM))
     else do {
       (w, x, r) \<leftarrow> surv_recv_loop vf (surv_surveyid (td_sock s)) w (xsurv_of s);
       Some (w, put_xsurv x s, r) })"

definition nn_surveyor_setopt :: "nn_surveyor \<Rightarrow> int \<Rightarrow> int \<Rightarrow> int \<Rightarrow> nat \<Rightarrow> nn_surveyor \<times> (errno + unit)" where
  "nn_surveyor_setopt self level opt optval optvallen =
    (if level \<noteq> NN_SURVEYOR then (self, Inl ENOPROTOOPT)
     else if opt = NN_SURVEYOR_DEADLINE then
       (if optvallen \<noteq> 4 then (self, Inl EINVAL) else (self\<lparr>surv_deadline := optval\<rparr>, Inr ()))
     else (self, Inl ENOPROTOOPT))"

definition nn_surveyor_getopt :: "nn_surveyor \<Rightarrow> int \<Rightarrow> int \<Rightarrow> nat \<Rightarrow> errno + (int \<times> nat)" where
  "nn_surveyor_getopt self level opt optvallen =
    (if level \<noteq> NN_SURVEYOR then Inl ENOPROTOOPT
     else if opt = NN_SURVEYOR_DEADLINE then
       (if optvallen < 4 then Inl EINVAL else Inr (surv_deadline self, 4))
     else Inl ENOPROTOOPT)"

text \<open>The callbacks on pipes are those of the raw socket, on the raw part of the state.\<close>

definition on_xsurveyor :: "('t, nn_xsurveyor) sock_fn \<Rightarrow> ('t, nn_surveyor timed) sock_fn" where
  "on_xsurveyor f w s pipe = do { (w, x) \<leftarrow> f w (xsurv_of s) pipe; Some (w, put_xsurv x s) }"

definition nn_surveyor_sockbase_vfptr :: "'t nn_pipebase_vfptr \<Rightarrow> u64 \<Rightarrow> ('t, nn_surveyor timed) nn_sockbase_vfptr" where
  "nn_surveyor_sockbase_vfptr vf now = \<lparr>
     sb_add = (\<lambda>w s pipe. do { (w, x, rc) \<leftarrow> nn_xsurveyor_add w (xsurv_of s) pipe; Some (w, put_xsurv x s, rc) }),
     sb_rm = on_xsurveyor nn_xsurveyor_rm, sb_in = on_xsurveyor nn_xsurveyor_in, sb_out = on_xsurveyor nn_xsurveyor_out,
     sb_send = Some (nn_surveyor_send vf now), sb_recv = Some (nn_surveyor_recv vf)\<rparr>"

end
