(* ===== verification/Surveyor_Safe.thy ===== *)
theory Surveyor_Safe
  imports Surveyor
begin

text \<open>
  The SURVEYOR socket as a system with its pipes, its user and the worker that runs its timer. The invariant ties the state of the
  protocol to that of the timer; no permitted operation aborts.
\<close>

section \<open>Invariant\<close>

abbreviation xsurv_sys :: "((pipe \<Rightarrow> nn_pipebase) \<Rightarrow> 't \<Rightarrow> bool) \<Rightarrow> 't world \<times> nn_xsurveyor \<Rightarrow> bool" where
  "xsurv_sys tinv \<equiv> sys_inv tinv Tracks Tracks xsurveyor_inv (\<lambda>s. dist_members (xsurv_outpipes s)) (\<lambda>s. pl_active (xsurv_inpipes s))
     (\<lambda>s. set (d_pipes (xsurv_outpipes s)))"

abbreviation surv_members :: "nn_surveyor timed \<Rightarrow> pipe set" where
  "surv_members s \<equiv> dist_members (xsurv_outpipes (xsurv_of s))"

definition surv_running :: "nn_surveyor timed \<Rightarrow> bool" where
  "surv_running s \<longleftrightarrow> sv_of s \<notin> {NN_SURVEYOR_STATE_IDLE, NN_SURVEYOR_STATE_STOPPING}"

definition surv_ok :: "nn_surveyor timed \<Rightarrow> bool" where
  "surv_ok s \<longleftrightarrow> quiet NN_SURVEYOR_SRC_DEADLINE_TIMER s \<and> 0 \<le> surv_deadline (td_sock s)
     \<and> (if sv_of s = NN_SURVEYOR_STATE_ACTIVE then timer_running s
        else if sv_of s \<in> {NN_SURVEYOR_STATE_IDLE, NN_SURVEYOR_STATE_PASSIVE} then timer_idle s else timer_stopping s)
     \<and> (sock_fsm s, td_stopped s) = (if sv_of s = NN_SURVEYOR_STATE_IDLE then (NN_FSM_STATE_IDLE, True)
        else if sv_of s = NN_SURVEYOR_STATE_STOPPING then (NN_FSM_STATE_STOPPING, False) else (NN_FSM_STATE_ACTIVE, False))"

definition surv_inv :: "((pipe \<Rightarrow> nn_pipebase) \<Rightarrow> 't \<Rightarrow> bool) \<Rightarrow> 't surv_st \<Rightarrow> bool" where
  "surv_inv tinv st \<longleftrightarrow> xsurv_sys tinv (fst st, xsurv_of (snd st)) \<and> surv_ok (snd st)"

lemmas surv_consts = NN_FSM_ACTION_def NN_FSM_START_def NN_FSM_STOP_def NN_SURVEYOR_ACTION_START_def NN_SURVEYOR_ACTION_CANCEL_def
  NN_SURVEYOR_SRC_DEADLINE_TIMER_def NN_TIMER_TIMEOUT_def NN_TIMER_STOPPED_def

text \<open>The invariant does not depend on the raw socket, the messages and the numbers.\<close>

lemma surv_ok_sock:
  assumes "surv_state q = sv_of s" and "surv_deadline q = surv_deadline (td_sock s)"
  shows "surv_ok (s\<lparr>td_sock := q\<rparr>) = surv_ok s"
  using assms by (simp add: surv_ok_def)

lemma put_xsurv_same [simp]: "put_xsurv (xsurv_of s) s = s"
  by simp

lemma surv_action_running:
  assumes "surv_ok s" and "surv_running s" and "0 < type"
  shows "surv_action vf now type (w, s) = nn_surveyor_handler vf now NN_FSM_ACTION type None (w, s)"
  using assms by (auto simp: surv_action_def nn_fsm_action_def nn_fsm_feed_def timed_fn_def surv_ok_def surv_running_def)

section \<open>The system\<close>

fun surv_exec :: "'t nn_pipebase_vfptr \<Rightarrow> u64 \<Rightarrow> 't timedop \<Rightarrow> 't surv_st \<Rightarrow> 't surv_st option" where
  "surv_exec vf now (Timed_sys op) st = sys_exec (nn_surveyor_sockbase_vfptr vf now) op st"
| "surv_exec vf now (Timed_ivl v) st =
     Some (fst st, upd_surv (\<lambda>q. fst (nn_surveyor_setopt q NN_SURVEYOR NN_SURVEYOR_DEADLINE v 4)) (snd st))"
| "surv_exec vf now Timed_stop st = nn_surveyor_stop st"
| "surv_exec vf now Worker_task st = worker_task now (nn_surveyor_handler vf now) nn_surveyor_shutdown st"
| "surv_exec vf now Worker_timeout st = worker_timeout now (nn_surveyor_handler vf now) nn_surveyor_shutdown st"

text \<open>The user sends messages without a header of their own, and only before the socket is closed; the deadline is not negative.\<close>

fun surv_guard :: "'t timedop \<Rightarrow> 't surv_st \<Rightarrow> bool" where
  "surv_guard (Timed_sys op) st \<longleftrightarrow> sys_guard Tracks (\<lambda>_. True) op st \<and> (\<forall>m. op = Send m \<longrightarrow> sphdr m = [] \<and> surv_running (snd st))"
| "surv_guard (Timed_ivl v) st \<longleftrightarrow> 0 \<le> v"
| "surv_guard Timed_stop st \<longleftrightarrow> surv_running (snd st)"
| "surv_guard Worker_task st \<longleftrightarrow> True"
| "surv_guard Worker_timeout st \<longleftrightarrow> True"

inductive surv_step :: "'t nn_pipebase_vfptr \<Rightarrow> ((pipe \<Rightarrow> nn_pipebase) \<Rightarrow> 't \<Rightarrow> bool) \<Rightarrow> 't surv_st \<Rightarrow> 't surv_st \<Rightarrow> bool" for vf tinv where
  surv_stepI: "surv_guard op st \<Longrightarrow> surv_exec vf now op st = Some st' \<Longrightarrow> trans_ok tinv (fst st') \<Longrightarrow> surv_step vf tinv st st'"

text \<open>What pipes do to the socket is what they do to the raw socket.\<close>

lemma surv_sys_exec:
  assumes "\<forall>m. op \<noteq> Send m" and "op \<noteq> Recv"
  shows "sys_exec (nn_surveyor_sockbase_vfptr vf now) op (w, s)
     = map_option (\<lambda>(w, x). (w, put_xsurv x s)) (sys_exec (nn_xsurveyor_sockbase_vfptr vf) op (w, xsurv_of s))"
  using assms
  by (cases op) (auto simp: nn_surveyor_sockbase_vfptr_def nn_xsurveyor_sockbase_vfptr_def on_xsurveyor_def nn_pipebase_start_def
      nn_pipebase_stop_def nn_sock_add_def nn_sock_rm_def nn_sock_pipe_event_def Let_def split: bind_splits list.splits sum.splits pipe_event.splits)

context transport
begin

section \<open>The raw socket below\<close>

lemma xsurv_send_sys:
  assumes "xsurv_sys tinv (w, x)"
  shows "\<exists>w' x'. nn_xsurveyor_send vf w x m = Some (w', x', Inr 0) \<and> xsurv_sys tinv (w', x')"
  using xsurveyor.exec_send [OF assms, of m] by (auto simp: nn_xsurveyor_sockbase_vfptr_def nn_xsurveyor_send_def bind_Some_iff)

lemma xsurv_recv_sys:
  assumes "xsurv_sys tinv (w, x)"
  shows "\<exists>w' x' r. nn_xsurveyor_recv vf w x = Some (w', x', r) \<and> xsurv_sys tinv (w', x')
     \<and> (case r of Inl e \<Rightarrow> e = EAGAIN
        | Inr _ \<Rightarrow> sum (avail (w_trans w')) (pl_active (xsurv_inpipes x')) < sum (avail (w_trans w)) (pl_active (xsurv_inpipes x)))"
proof -
  note d = xsurveyor.SI_D [OF assms] and rd = xsurveyor.SI_ready [OF assms]
  from xsurveyor_recv_ready [OF d(1,2) rd(2)] obtain w' x' r where
    *: "nn_xsurveyor_recv vf w x = Some (w', x', r)" "pl_active (xsurv_inpipes x') = {p \<in> pl_active (xsurv_inpipes x). in_idle w' p}"
    and r: "case r of Inl e \<Rightarrow> e = EAGAIN | Inr _ \<Rightarrow> \<exists>p \<in> pl_active (xsurv_inpipes x). avail (w_trans w') p < avail (w_trans w) p
       \<and> (\<forall>q. avail (w_trans w') q \<le> avail (w_trans w) q)" by blast
  have "sys_exec (nn_xsurveyor_sockbase_vfptr vf) Recv (w, x) = Some (w', x')"
    using *(1) by (simp add: nn_xsurveyor_sockbase_vfptr_def)
  then have "xsurv_sys tinv (w', x')" using xsurveyor.exec_recv [OF assms] by auto
  moreover have "pl_active (xsurv_inpipes x') \<subseteq> pl_active (xsurv_inpipes x)" using *(2) by auto
  note sum_avail_less [OF rd(3) this, of _ "avail (w_trans w')" "avail (w_trans w)"]
  ultimately show ?thesis using * r by (cases r) fastforce+
qed

text \<open>Receiving returns: every message that is dropped makes the number of available messages smaller.\<close>

lemma surv_recv_loop_ok:
  assumes "xsurv_sys tinv (w, x)"
  shows "\<exists>w' x' r. surv_recv_loop vf i w x = Some (w', x', r) \<and> xsurv_sys tinv (w', x') \<and> (\<forall>e. r = Inl e \<longrightarrow> e = EAGAIN)"
  using assms
proof (induction "sum (avail (w_trans w)) (pl_active (xsurv_inpipes x))" arbitrary: w x rule: less_induct)
  case less
  from xsurv_recv_sys [OF less.prems] obtain w1 x1 r where
    1: "nn_xsurveyor_recv vf w x = Some (w1, x1, r)" "xsurv_sys tinv (w1, x1)"
      "case r of Inl e \<Rightarrow> e = EAGAIN
        | Inr _ \<Rightarrow> sum (avail (w_trans w1)) (pl_active (xsurv_inpipes x1)) < sum (avail (w_trans w)) (pl_active (xsurv_inpipes x))" by blast
  show ?case
  proof (cases r)
    case (Inl e) then show ?thesis using 1 by (subst surv_recv_loop.simps) simp
  next
    case (Inr m)
    note IH = less.hyps [OF _ 1(2)]
    obtain v where v: "length (sphdr m) = 4 \<Longrightarrow> nn_getl (sphdr m) = Some v" by (auto simp: nn_getl_def)
    show ?thesis
    proof (cases "length (sphdr m) = 4 \<and> v = i")
      case True
      then have "surv_recv_loop vf i w x = Some (w1, x1, Inr (m\<lparr>sphdr := []\<rparr>))"
        using 1(1) v Inr by (subst surv_recv_loop.simps) simp
      then show ?thesis using 1(2) by blast
    next
      case False
      then have "surv_recv_loop vf i w x = surv_recv_loop vf i w1 x1"
        using 1(1) v Inr by (subst surv_recv_loop.simps) auto
      then show ?thesis using IH 1(3) Inr by simp
    qed
  qed
qed

section \<open>Actions\<close>

lemma surv_start_survey_ok:
  assumes x: "xsurv_sys tinv (w, xsurv_of s)" and s: "timer_idle s" "quiet NN_SURVEYOR_SRC_DEADLINE_TIMER s" "0 \<le> surv_deadline (td_sock s)"
    "sock_fsm s = NN_FSM_STATE_ACTIVE" "\<not> td_stopped s"
  shows "\<exists>st'. surv_start_survey vf now (w, s) = Some st' \<and> surv_inv tinv st'"
proof -
  from xsurv_send_sys [OF x, of "surv_tosend (td_sock s)"] obtain w1 x1 where
    1: "nn_xsurveyor_send vf w (xsurv_of s) (surv_tosend (td_sock s)) = Some (w1, x1, Inr 0)" "xsurv_sys tinv (w1, x1)" by blast
  have "timer_idle (put_xsurv x1 s)" "quiet NN_SURVEYOR_SRC_DEADLINE_TIMER (put_xsurv x1 s)" using s by simp_all
  from timer_start_ok [OF this s(3), of now w1] obtain s' where
    "nn_timer_start now (surv_deadline (td_sock s)) (w1, put_xsurv x1 s) = Some (w1, s')" "timer_running s'"
    "quiet NN_SURVEYOR_SRC_DEADLINE_TIMER s'" "timer_frame (put_xsurv x1 s) s'" by blast
  then show ?thesis using 1 s
    by (simp add: surv_start_survey_def nn_surveyor_resend_def surv_set_state_def surv_inv_def surv_ok_def timer_frame_def)
qed

lemma surv_leave_active:
  assumes ok: "surv_ok s" and st: "sv_of s = NN_SURVEYOR_STATE_ACTIVE"
  shows "\<exists>s'. nn_timer_stop (w, s) = Some (w, s') \<and> td_sock s' = td_sock s \<and> (\<forall>q. surv_deadline q = surv_deadline (td_sock s)
     \<longrightarrow> surv_state q \<in> {NN_SURVEYOR_STATE_CANCELLING, NN_SURVEYOR_STATE_STOPPING_TIMER} \<longrightarrow> surv_ok (s'\<lparr>td_sock := q\<rparr>))"
proof -
  have t: "timer_running s" "quiet NN_SURVEYOR_SRC_DEADLINE_TIMER s" using assms by (simp_all add: surv_ok_def)
  from timer_stop_ok [OF this, of w] obtain s' where
    "nn_timer_stop (w, s) = Some (w, s')" "timer_stopping s'" "quiet NN_SURVEYOR_SRC_DEADLINE_TIMER s'" "timer_frame s s'" by blast
  then show ?thesis using assms by (auto simp: surv_ok_def timer_frame_def)
qed

lemma surv_send_ok:
  assumes inv: "surv_inv tinv (w, s)" and run: "surv_running s" and m: "sphdr m = []"
  shows "\<exists>w' s'. nn_surveyor_send vf now w s m = Some (w', s', Inr 0) \<and> surv_inv tinv (w', s')"
proof -
  obtain hdr where h: "nn_putl (replicate 4 0) ((surv_surveyid (td_sock s) + 1) OR 0x80000000) = Some hdr" by (simp add: nn_putl_def)
  define s1 where "s1 = s\<lparr>td_sock := (td_sock s)\<lparr>surv_surveyid := (surv_surveyid (td_sock s) + 1) OR 0x80000000, surv_tosend := m\<lparr>sphdr := hdr\<rparr>\<rparr>\<rparr>"
  have x: "xsurv_sys tinv (w, xsurv_of s1)" and ok: "surv_ok s1" and st: "sv_of s1 = sv_of s" and run1: "surv_running s1"
    using inv run surv_ok_sock [of _ s] by (simp_all add: surv_inv_def s1_def surv_running_def)
  have send: "nn_surveyor_send vf now w s m = do {
     (w, s) \<leftarrow> surv_action vf now (if nn_surveyor_inprogress (td_sock s1) then NN_SURVEYOR_ACTION_CANCEL else NN_SURVEYOR_ACTION_START) (w, s1);
     Some (w, s, Inr 0) }"
    using m h by (simp add: nn_surveyor_send_def Let_def s1_def nn_xsurveyor_events_def NN_SOCKBASE_EVENT_OUT_def NN_SOCKBASE_EVENT_IN_def)
  have act: "surv_action vf now type (w, s1) = nn_surveyor_handler vf now NN_FSM_ACTION type None (w, s1)"
    if "type \<in> {NN_SURVEYOR_ACTION_CANCEL, NN_SURVEYOR_ACTION_START}" for type
    using surv_action_running [OF ok run1, of type vf now w] that by (auto simp: surv_consts)
  have "\<exists>st'. surv_action vf now (if nn_surveyor_inprogress (td_sock s1) then NN_SURVEYOR_ACTION_CANCEL else NN_SURVEYOR_ACTION_START) (w, s1)
      = Some st' \<and> surv_inv tinv st'"
  proof (cases "sv_of s1")
    case NN_SURVEYOR_STATE_PASSIVE
    then have "\<exists>st'. surv_start_survey vf now (w, s1) = Some st' \<and> surv_inv tinv st'"
      using ok by (intro surv_start_survey_ok [OF x]) (simp_all add: surv_ok_def)
    then show ?thesis using NN_SURVEYOR_STATE_PASSIVE act by (simp add: nn_surveyor_inprogress_def nn_surveyor_handler_def)
  next
    case NN_SURVEYOR_STATE_ACTIVE
    from surv_leave_active [OF ok this, of w] show ?thesis using NN_SURVEYOR_STATE_ACTIVE act x
      by (auto simp: nn_surveyor_inprogress_def nn_surveyor_handler_def surv_set_state_def surv_inv_def)
  next
    case NN_SURVEYOR_STATE_CANCELLING
    then show ?thesis using act x ok by (auto simp: nn_surveyor_inprogress_def nn_surveyor_handler_def surv_inv_def)
  next
    case NN_SURVEYOR_STATE_STOPPING_TIMER
    then show ?thesis using act x ok by (auto simp: nn_surveyor_inprogress_def nn_surveyor_handler_def surv_set_state_def surv_inv_def surv_ok_def)
  qed (use run1 in \<open>auto simp: surv_running_def\<close>)
  then show ?thesis unfolding send by auto
qed

lemma surv_recv_ok:
  assumes "surv_inv tinv (w, s)"
  shows "\<exists>w' s' r. nn_surveyor_recv vf w s = Some (w', s', r) \<and> surv_inv tinv (w', s')"
  using assms surv_recv_loop_ok [of w "xsurv_of s" "surv_surveyid (td_sock s)"] surv_ok_sock [of _ s]
  by (auto simp: nn_surveyor_recv_def surv_inv_def)

lemma surv_stopped_ok:
  assumes x: "xsurv_sys tinv (w, xsurv_of s)" and s: "timer_idle s" "quiet NN_SURVEYOR_SRC_DEADLINE_TIMER s" "0 \<le> surv_deadline (td_sock s)"
    "sv_of s \<in> {NN_SURVEYOR_STATE_CANCELLING, NN_SURVEYOR_STATE_STOPPING_TIMER, NN_SURVEYOR_STATE_STOPPING}"
    "(sock_fsm s, td_stopped s) = (if sv_of s = NN_SURVEYOR_STATE_STOPPING then (NN_FSM_STATE_STOPPING, False) else (NN_FSM_STATE_ACTIVE, False))"
  shows "\<exists>st'. timer_reports (nn_surveyor_handler vf now) nn_surveyor_shutdown NN_SURVEYOR_SRC_DEADLINE_TIMER NN_TIMER_STOPPED ptr (w, s) = Some st' \<and> surv_inv tinv st'"
proof -
  consider "sv_of s = NN_SURVEYOR_STATE_CANCELLING" | "sv_of s = NN_SURVEYOR_STATE_STOPPING_TIMER" | "sv_of s = NN_SURVEYOR_STATE_STOPPING" using s(4) by blast
  then show ?thesis
  proof cases
    case 1
    then have "\<exists>st'. surv_start_survey vf now (w, s) = Some st' \<and> surv_inv tinv st'" using s by (intro surv_start_survey_ok [OF x]) simp_all
    then show ?thesis using 1 s(5) by (simp add: timer_reports_def nn_surveyor_handler_def surv_consts)
  next
    case 2
    then show ?thesis using s x
      by (simp add: timer_reports_def nn_surveyor_handler_def surv_consts surv_set_state_def surv_inv_def surv_ok_def)
  next
    case 3
    have "nn_timer_isidle s" using s(1,2) by (simp add: nn_timer_isidle_def nn_fsm_isidle_def timer_idle_def quiet_def nn_fsm_event_active_def)
    then show ?thesis using 3 s x
      by (auto simp: timer_reports_def nn_surveyor_shutdown_def surv_consts surv_set_state_def nn_fsm_stopped_noevent_def nn_timer_isidle_def
          surv_inv_def surv_ok_def timer_phase_defs)
  qed
qed

lemma surv_timeout_ok:
  assumes inv: "surv_inv tinv (w, s)" and run: "timer_running s"
  shows "\<exists>st'. timer_reports (nn_surveyor_handler vf now) nn_surveyor_shutdown NN_SURVEYOR_SRC_DEADLINE_TIMER NN_TIMER_TIMEOUT ptr (w, s) = Some st' \<and> surv_inv tinv st'"
proof -
  have x: "xsurv_sys tinv (w, xsurv_of s)" and ok: "surv_ok s" using inv by (auto simp: surv_inv_def)
  have st: "sv_of s = NN_SURVEYOR_STATE_ACTIVE"
    using ok run by (cases "sv_of s") (auto simp: surv_ok_def timer_running_def timer_idle_def timer_stopping_def)
  from surv_leave_active [OF ok st, of w] st ok x show ?thesis
    by (auto simp: timer_reports_def nn_surveyor_handler_def surv_consts surv_set_state_def surv_inv_def surv_ok_def [of s])
qed

end

sublocale transport \<subseteq> sv: timed_socket NN_SURVEYOR_SRC_DEADLINE_TIMER "nn_surveyor_handler vf" nn_surveyor_shutdown "surv_inv tinv"
proof (unfold_locales, goal_cases)
  case (1 w s) then show ?case by (simp add: surv_inv_def surv_ok_def)
next
  case (2 w s) then show ?case by (auto simp: surv_inv_def surv_ok_def split: if_splits)
next
  case (3 w s s')
  then show ?case by (auto simp: timer_frame_def surv_inv_def surv_ok_def timer_idle_def timer_running_def timer_stopping_def split: if_splits)
next
  case (4 w s now ptr) then show ?case by (rule surv_timeout_ok)
next
  case (5 w s s' now ptr)
  have ok: "surv_ok s" using 5(1) by (simp add: surv_inv_def)
  have "sv_of s \<in> {NN_SURVEYOR_STATE_CANCELLING, NN_SURVEYOR_STATE_STOPPING_TIMER, NN_SURVEYOR_STATE_STOPPING}"
    using ok 5(2) by (cases "sv_of s") (auto simp: surv_ok_def timer_running_def timer_idle_def timer_stopping_def)
  then show ?case using 5(1,3-5) ok by (intro surv_stopped_ok) (auto simp: surv_inv_def surv_ok_def timer_frame_def)
qed

context transport
begin

lemma surv_stop_ok:
  assumes inv: "surv_inv tinv (w, s)" and run: "surv_running s"
  shows "\<exists>st'. nn_surveyor_stop (w, s) = Some st' \<and> surv_inv tinv st'"
proof -
  have x: "xsurv_sys tinv (w, xsurv_of s)" and ok: "surv_ok s" using inv by (auto simp: surv_inv_def)
  define s1 where "s1 = s\<lparr>td_ctx := set_fsm SockFsm (\<lambda>m. m\<lparr>fsm_state := NN_FSM_STATE_STOPPING\<rparr>) (td_ctx s)\<rparr>"
  have s1: "quiet NN_SURVEYOR_SRC_DEADLINE_TIMER s1" "timer_idle s1 = timer_idle s" "timer_stopping s1 = timer_stopping s"
    "timer_running s1 = timer_running s" "td_sock s1 = td_sock s" "sock_fsm s1 = NN_FSM_STATE_STOPPING" "td_stopped s1 = td_stopped s"
    using ok by (simp_all add: s1_def surv_ok_def timer_phase_defs)
  have eq: "nn_surveyor_stop (w, s) = nn_surveyor_shutdown NN_FSM_ACTION NN_FSM_STOP None (w, s1)"
    using ok run by (auto simp: nn_surveyor_stop_def nn_fsm_stop_def timed_shutdown_fn_def surv_ok_def surv_running_def s1_def)
  let ?st = "upd_surv (\<lambda>q. q\<lparr>surv_state := NN_SURVEYOR_STATE_STOPPING\<rparr>)"
  have ns: "\<not> td_stopped s" "0 \<le> surv_deadline (td_sock s)" using ok run by (auto simp: surv_ok_def surv_running_def)
  show ?thesis
  proof (cases "timer_idle s")
    case True
    then have "timer_fsm s1 = NN_FSM_STATE_IDLE" using s1(2) by (simp add: timer_idle_def)
    then have "nn_timer_stop (w, s1) = Some (w, s1)" by (simp add: nn_timer_stop_def nn_fsm_stop_idle)
    then have "nn_surveyor_stop (w, s) = timer_reports (nn_surveyor_handler vf 0) nn_surveyor_shutdown NN_SURVEYOR_SRC_DEADLINE_TIMER NN_TIMER_STOPPED None (w, ?st s1)"
      using s1(6) unfolding eq by (simp add: nn_surveyor_shutdown_def timer_reports_def surv_consts surv_set_state_def)
    then show ?thesis using surv_stopped_ok [of w "?st s1" 0 None] x s1 True ns by simp
  next
    case False
    then have "timer_running s1 \<or> timer_stopping s1" using sv.inv_phase [OF inv] s1 by simp
    then have "\<exists>s2. nn_timer_stop (w, s1) = Some (w, s2) \<and> timer_stopping s2 \<and> quiet NN_SURVEYOR_SRC_DEADLINE_TIMER s2 \<and> timer_frame s1 s2"
    proof
      assume "timer_running s1" then show ?thesis by (rule timer_stop_ok [OF _ s1(1)])
    next
      assume "timer_stopping s1"
      moreover from this have "nn_timer_stop (w, s1) = Some (w, s1)" by (simp add: nn_timer_stop_def timer_stopping_def nn_fsm_stop_idle)
      ultimately show ?thesis using s1(1) by (auto simp: timer_frame_def)
    qed
    then obtain s2 where s2: "nn_timer_stop (w, s1) = Some (w, s2)" "timer_stopping s2" "quiet NN_SURVEYOR_SRC_DEADLINE_TIMER s2" "timer_frame s1 s2" by blast
    have "\<not> nn_timer_isidle (?st s2)" using s2(2) by (simp add: nn_timer_isidle_def nn_fsm_isidle_def timer_stopping_def)
    then have "nn_surveyor_stop (w, s) = Some (w, ?st s2)" using s2(1) unfolding eq by (simp add: nn_surveyor_shutdown_def surv_set_state_def)
    then show ?thesis using x s1 s2 ns by (simp add: surv_inv_def surv_ok_def timer_frame_def)
  qed
qed

text \<open>A socket that has stopped can be destroyed.\<close>

lemma surv_term_ok:
  assumes "surv_inv tinv (w, s)" and "sv_of s = NN_SURVEYOR_STATE_IDLE" and "surv_members s = {}"
  shows "nn_surveyor_term s = Some ()"
proof -
  have x: "xsurv_sys tinv (w, xsurv_of s)" and s: "timer_idle s" "sock_fsm s = NN_FSM_STATE_IDLE"
    using assms(1,2) by (auto simp: surv_inv_def surv_ok_def)
  have i: "xsurveyor_inv (xsurv_of s)" using xsurveyor.SI_D(1) [OF x] .
  have e: "pl_active (xsurv_inpipes (xsurv_of s)) = {}" "d_pipes (xsurv_outpipes (xsurv_of s)) = []"
    using xsurveyor.SI_ready(4,5) [OF x] assms(3) by auto
  then have "d_count (xsurv_outpipes (xsurv_of s)) = 0" using i by (simp add: xsurveyor_inv_def dist_inv_def)
  then have "nn_xsurveyor_term (xsurv_of s) = Some ()"
    using i e nn_priolist_term_ok [of "xsurv_inpipes (xsurv_of s)"]
    by (simp add: nn_xsurveyor_term_def nn_fq_term_def nn_dist_term_def xsurveyor_inv_def)
  then show ?thesis using sv.term_ok [OF assms(1) s] by (simp add: nn_surveyor_term_def)
qed

theorem surv_exec_ok:
  assumes inv: "surv_inv tinv st" and g: "surv_guard op st"
  shows "\<exists>st'. surv_exec vf now op st = Some st' \<and> (trans_ok tinv (fst st') \<longrightarrow> surv_inv tinv st')"
proof -
  obtain w s where st: "st = (w, s)" by force
  note i = inv [unfolded st]
  have x: "xsurv_sys tinv (w, xsurv_of s)" and ok: "surv_ok s" using i by (auto simp: surv_inv_def)
  show ?thesis
  proof (cases op)
    case (Timed_sys sop)
    consider m where "sop = Send m" | "sop = Recv" | "\<forall>m. sop \<noteq> Send m" "sop \<noteq> Recv" by blast
    then show ?thesis
    proof cases
      case 1
      then show ?thesis using surv_send_ok [OF i, of m now] g Timed_sys st by (auto simp: nn_surveyor_sockbase_vfptr_def)
    next
      case 2
      then show ?thesis using surv_recv_ok [OF i] Timed_sys st by (auto simp: nn_surveyor_sockbase_vfptr_def)
    next
      case 3
      have "sys_guard Tracks (\<lambda>_. True) sop (w, xsurv_of s)" using g Timed_sys st by (cases sop) auto
      from xsurveyor.sys_exec_safe(1) [OF x this] obtain w' x' where
        "sys_exec (nn_xsurveyor_sockbase_vfptr vf) sop (w, xsurv_of s) = Some (w', x')" "trans_ok tinv w' \<longrightarrow> xsurv_sys tinv (w', x')" by force
      then show ?thesis using surv_sys_exec [OF 3, of vf now w s] Timed_sys st ok surv_ok_sock [of _ s] by (auto simp: surv_inv_def)
    qed
  next
    case (Timed_ivl v) then show ?thesis using x ok g st by (auto simp: nn_surveyor_setopt_def surv_inv_def surv_ok_def)
  next
    case Timed_stop then show ?thesis using surv_stop_ok [OF i] g st by auto
  next
    case Worker_task then show ?thesis using sv.worker_task_ok [OF i, of now] st by auto
  next
    case Worker_timeout then show ?thesis using sv.worker_timeout_ok [OF i, of now] st by auto
  qed
qed

lemma surv_reach_inv:
  assumes "(surv_step vf tinv)\<^sup>*\<^sup>* st st'" and "surv_inv tinv st"
  shows "surv_inv tinv st'"
  using assms
proof (induction rule: rtranclp_induct)
  case (step y z)
  from step(2) obtain op now where "surv_guard op y" "surv_exec vf now op y = Some z" "trans_ok tinv (fst z)"
    by (auto elim: surv_step.cases)
  then show ?case using surv_exec_ok [of y op now] step by auto
qed

end

end
