(* ===== verification/Inproc_Sockets.thy ===== *)
theory Inproc_Sockets
  imports Inproc_Channel Rep Xsub Req_Safe Surveyor_Safe
begin

text \<open>
  The inproc transport under the scalability protocols: its virtual functions satisfy the contract
  \<open>transport\<close>, and with it every protocol that satisfies \<open>raw_socket\<close> over a transport does so over inproc.
\<close>

interpretation inproc: transport "nn_sinproc_pipebase_vfptr junk" inproc_inv inproc_avail for junk
proof (unfold_locales, goal_cases)
  case (1 w p m)
  then have "inproc_ok w (w_pipes w)" by (simp add: inproc_inv_world)
  from sinproc_send_law [OF this 1(2,3), of m] obtain w' where
    w': "nn_sinproc_send (upd_pipe p (\<lambda>b. b\<lparr>pb_outstate := NN_PIPEBASE_OUTSTATE_SENDING\<rparr>) w) p m = Some (w', Inr 0)"
      "w_pipes w' = w_pipes (upd_pipe p (\<lambda>b. b\<lparr>pb_outstate := NN_PIPEBASE_OUTSTATE_SENDING\<rparr>) w)"
      "w_events w' = w_events w" "w_stats w' = w_stats w"
      "inproc_ok w' (w_pipes (upd_pipe p (\<lambda>b. b\<lparr>pb_outstate := NN_PIPEBASE_OUTSTATE_ASYNC\<rparr>) w))" by blast
  show ?case
    by (rule exI [of _ w'], rule exI [of _ 0], rule exI [of _ NN_PIPEBASE_OUTSTATE_SENDING])
      (use w' in \<open>simp add: nn_sinproc_pipebase_vfptr_def inproc_inv_world\<close>)
next
  case (2 w p)
  then have "inproc_ok w (w_pipes w)" by (simp add: inproc_inv_world)
  from sinproc_recv_law [OF this 2(2,3), of junk] obtain w' m s where
    w': "nn_sinproc_recv junk (upd_pipe p (\<lambda>b. b\<lparr>pb_instate := NN_PIPEBASE_INSTATE_RECEIVING\<rparr>) w) p = Some (w', Inr (0, m))"
      "sphdr m = []" "inproc_avail (w_trans w') p < inproc_avail (w_trans w) p"
      "\<forall>q. inproc_avail (w_trans w') q \<le> inproc_avail (w_trans w) q"
      "s \<in> {NN_PIPEBASE_INSTATE_RECEIVING, NN_PIPEBASE_INSTATE_RECEIVED}"
      "w_pipes w' = w_pipes (upd_pipe p (\<lambda>b. b\<lparr>pb_instate := s\<rparr>) w)" "w_events w' = w_events w" "w_stats w' = w_stats w"
      "inproc_ok w' (w_pipes (upd_pipe p (\<lambda>b. b\<lparr>pb_instate := (if s = NN_PIPEBASE_INSTATE_RECEIVED
            then NN_PIPEBASE_INSTATE_IDLE else NN_PIPEBASE_INSTATE_ASYNC)\<rparr>) w))" by blast
  show ?case
    by (rule exI [of _ w'], rule exI [of _ 0], rule exI [of _ m], rule exI [of _ s])
      (use w' in \<open>simp add: nn_sinproc_pipebase_vfptr_def inproc_inv_world\<close>)
qed

section \<open>Receiving over inproc\<close>

text \<open>The messages that wait for a session: those in its queue, then the one its peer could not put there.\<close>

definition inbox :: "inproc world \<Rightarrow> pipe \<Rightarrow> nn_msg list \<Rightarrow> bool" where
  "inbox w p xs \<longleftrightarrow> (\<exists>ys q. mq_rep (si_msgqueue (ses w p)) ys \<and> si_peer (ses w p) = Some q
     \<and> xs = ys @ (if receiving w p then [si_msg (ses w q)] else []))"

lemma inbox_frame: "ses w' = ses w \<Longrightarrow> inbox w' p xs = inbox w p xs"
  by (simp add: inbox_def receiving_def)

lemma inbox_recv:
  assumes "recv_effect w p q ys w'" and "si_peer (ses w p) = Some q" "q \<noteq> p"
  shows "inbox w' p (ys @ (if receiving w p then [si_msg (ses w q)] else []))
     \<and> (nn_msgqueue_empty (si_msgqueue (ses w' p)) \<longleftrightarrow> ys = [] \<and> \<not> receiving w p)"
  using assms(1) unfolding recv_effect_def
proof (elim disjE exE conjE, goal_cases)
  case (1 mq)
  have "receiving w' p = receiving w p" using 1(3) by (simp add: receiving_def)
  moreover have "si_msgqueue (ses w' p) = mq" "si_peer (ses w' p) = Some q" "si_msg (ses w' q) = si_msg (ses w q)"
    using 1(3) assms(2,3) by simp_all
  ultimately show ?case using 1(1,2) mq_rep_empty [OF 1(1)] by (auto simp: inbox_def mq_full_def)
next
  case (2 mq)
  have "(si_flags (ses w p) AND NOT NN_SINPROC_FLAG_RECEIVING) AND NN_SINPROC_FLAG_RECEIVING = 0"
    by (rule bit_word_eqI) (simp add: bit_simps)
  then have "\<not> receiving w' p" using 2(3) by (simp add: receiving_def)
  moreover have "si_msgqueue (ses w' p) = mq" "si_peer (ses w' p) = Some q" using 2(3) assms(2,3) by simp_all
  ultimately show ?case using 2(1,2) mq_rep_empty [OF 2(1)] by (simp add: inbox_def)
qed

text \<open>Receiving takes the first message that waits, and the pipe stays ready as long as there are more.\<close>

lemma inproc_recv_head:
  assumes ok: "trans_ok inproc_inv w" and p: "pipe_active w p" "in_idle w p" and q: "inbox w p (x # xs)"
  shows "\<exists>w' rc. nn_pipe_recv (nn_sinproc_pipebase_vfptr junk) w p = Some (w', rc, x) \<and> rc AND NN_PIPE_PARSED = 0
    \<and> inbox w' p xs \<and> (in_idle w' p \<longleftrightarrow> xs \<noteq> [])"
proof -
  let ?w = "upd_pipe p (\<lambda>b. b\<lparr>pb_instate := NN_PIPEBASE_INSTATE_RECEIVING\<rparr>) w"
  have w: "sess_ok w p" "link_ok (w_pipes w p) w p"
    using ok p(1) by (simp_all add: trans_ok_def inproc_inv_world inproc_ok_def pipe_active_def)
  then obtain peer where s: "si_state (ses ?w p) = NN_SINPROC_STATE_ACTIVE" "si_peer (ses ?w p) = Some peer" "peer \<noteq> p"
    "receiving ?w p \<longrightarrow> \<not> on_way ?w (Ev_received peer)"
    unfolding sess_ok_def by (auto simp: receiving_def on_way_def)
  obtain ys where ys: "mq_rep (si_msgqueue (ses w p)) ys" "x # xs = ys @ (if receiving w p then [si_msg (ses w peer)] else [])"
    using q s(2) by (auto simp: inbox_def)
  have "ys \<noteq> []" using w(2) p(2) mq_rep_empty [OF ys(1)] by (simp add: link_ok_def in_idle_def)
  then obtain zs where zs: "ys = x # zs" "xs = zs @ (if receiving ?w p then [si_msg (ses ?w peer)] else [])"
    using ys(2) by (cases ys) (auto simp: receiving_def)
  have "pb_instate (w_pipes ?w p) = NN_PIPEBASE_INSTATE_RECEIVING" "mq_rep (si_msgqueue (ses ?w p)) (x # zs)" using ys(1) zs by simp_all
  from nn_sinproc_recv_ok [OF s this(2,1), of junk] obtain w' where w': "nn_sinproc_recv junk ?w p = Some (w', Inr (0, x))"
    "recv_effect ?w p peer zs w'" "w_pipes w' = (if nn_msgqueue_empty (si_msgqueue (ses w' p)) then w_pipes ?w
       else w_pipes (upd_pipe p (\<lambda>b. b\<lparr>pb_instate := NN_PIPEBASE_INSTATE_RECEIVED\<rparr>) ?w))" by blast
  note i = inbox_recv [OF w'(2) s(2,3)]
  have e: "nn_msgqueue_empty (si_msgqueue (ses w' p)) \<longleftrightarrow> xs = []" using i by (simp add: zs(2))
  have "inbox (upd_pipe p f w') p xs" for f using i zs(2) by (simp add: inbox_frame [of "upd_pipe p f w'" w'])
  moreover have "NN_PIPE_RELEASE AND NN_PIPE_PARSED = 0" by (simp add: NN_PIPE_RELEASE_def NN_PIPE_PARSED_def)
  ultimately show ?thesis using w'(1,3) p(2) unfolding e
    by (cases "xs = []") (simp_all add: nn_pipe_recv_def nn_sinproc_pipebase_vfptr_def in_idle_def Let_def)
qed

lemma inproc_fq_recv:
  assumes fq: "priolist_inv fq" "pl_active fq = {p}" and w: "trans_ok inproc_inv w" "in_ready w {p}"
    and q: "inbox w p (x # xs)"
  shows "\<exists>w' fq' rc. nn_fq_recv (nn_sinproc_pipebase_vfptr junk) w fq = Some (w', fq', Inr (rc, p, x)) \<and> rc AND NN_PIPE_PARSED = 0
    \<and> trans_ok inproc_inv w' \<and> in_step {p} w w' \<and> priolist_inv fq' \<and> pl_members fq' = pl_members fq \<and> inbox w' p xs
    \<and> pl_active fq' = (if xs = [] then {} else {p}) \<and> in_ready w' (pl_active fq')"
proof -
  let ?vf = "nn_sinproc_pipebase_vfptr junk"
  have act: "pipe_active w p" "in_idle w p" using w(2) by (simp_all add: in_ready_def)
  from inproc_recv_head [OF w(1) act q, of junk] obtain w1 rc1 where
    1: "nn_pipe_recv ?vf w p = Some (w1, rc1, x)" "rc1 AND NN_PIPE_PARSED = 0" "inbox w1 p xs" "in_idle w1 p \<longleftrightarrow> xs \<noteq> []" by blast
  have "\<exists>p w1 rc m fq1. p \<in> pl_active fq \<and> nn_priolist_getpipe fq = Some (Some p)
      \<and> nn_pipe_recv ?vf w p = Some (w1, rc, m) \<and> rc AND NN_PIPE_PARSED = 0
      \<and> sched_io nn_priolist_getpipe nn_priolist_advance (nn_pipe_recv ?vf) w fq = Some (w1, fq1, Inr (rc AND NOT NN_PIPE_RELEASE, p, m))
      \<and> priolist_inv fq1 \<and> pl_members fq1 = pl_members fq
      \<and> pl_active fq1 = (if rc AND NN_PIPE_RELEASE \<noteq> 0 then pl_active fq - {p} else pl_active fq)"
    using 1(1,2) fq by (intro prio.sched_io_ok) simp_all
  then obtain fq1 where s: "nn_fq_recv ?vf w fq = Some (w1, fq1, Inr (rc1 AND NOT NN_PIPE_RELEASE, p, x))"
    using 1(1) fq(2) by (auto simp: nn_fq_recv_sched)
  from inproc.nn_fq_recv_ok [OF fq(1) _ w(1), of junk] w(2) fq(2) s have
    2: "trans_ok inproc_inv w1" "in_step {p} w w1" "priolist_inv fq1" "pl_members fq1 = pl_members fq"
      "pl_active fq1 = {q \<in> {p}. in_idle w1 q}" by auto
  have "(rc1 AND NOT NN_PIPE_RELEASE) AND NN_PIPE_PARSED = (rc1 AND NN_PIPE_PARSED) AND NOT NN_PIPE_RELEASE" by (simp only: ac_simps)
  then have rc: "(rc1 AND NOT NN_PIPE_RELEASE) AND NN_PIPE_PARSED = 0" using 1(2) by (simp only: zero_and_eq)
  have "pipe_active w1 p" using act(1) in_step_facts(3) [OF 2(2)] by simp
  then show ?thesis using 1 2 s rc by (auto simp: in_ready_def)
qed

text \<open>Receiving until a message is accepted takes the first accepted message out of the queue, drops the messages before it, and keeps
  those after it; without an accepted message it drops all and reports EAGAIN.\<close>

lemma inproc_recv_until:
  assumes fq: "priolist_inv fq" "pl_active fq = {p}" and w: "trans_ok inproc_inv w" "in_ready w {p}"
    and q: "inbox w p xs"
  shows "\<exists>w' fq' rc. fq_recv_until (nn_sinproc_pipebase_vfptr junk) (\<lambda>m. Some (P m)) w fq
      = Some (w', fq', case dropWhile (\<lambda>m. \<not> P m) xs of [] \<Rightarrow> Inl EAGAIN | x # _ \<Rightarrow> Inr (rc, p, x))
    \<and> inbox w' p (tl (dropWhile (\<lambda>m. \<not> P m) xs))"
  using assms
proof (induction xs arbitrary: w fq)
  case Nil
  have "link_ok (w_pipes w p) w p" using Nil.prems(3,4)
    by (simp add: trans_ok_def inproc_inv_world inproc_ok_def in_ready_def pipe_active_def)
  moreover have "nn_msgqueue_empty (si_msgqueue (ses w p))" using Nil.prems(5) by (auto simp: inbox_def mq_rep_empty split: if_splits)
  ultimately show ?case using Nil.prems(4) by (simp add: link_ok_def in_ready_def in_idle_def)
next
  case (Cons x xs)
  let ?vf = "nn_sinproc_pipebase_vfptr junk"
  from inproc_fq_recv [OF Cons.prems, of junk] obtain w1 fq1 rc where
    1: "nn_fq_recv ?vf w fq = Some (w1, fq1, Inr (rc, p, x))" "trans_ok inproc_inv w1" "priolist_inv fq1"
      "inbox w1 p xs" "pl_active fq1 = (if xs = [] then {} else {p})" "in_ready w1 (pl_active fq1)" by blast
  consider "P x" | "\<not> P x" "xs = []" | "\<not> P x" "xs \<noteq> []" by blast
  then show ?case
  proof cases
    case 1
    then show ?thesis using \<open>nn_fq_recv ?vf w fq = _\<close> \<open>inbox w1 p xs\<close>
      by (subst fq_recv_until.simps) auto
  next
    case 2
    then have "nn_fq_recv ?vf w1 fq1 = Some (w1, fq1, Inl EAGAIN)" using 1(3,5) inproc.nn_fq_recv_empty by simp
    then have "fq_recv_until ?vf (\<lambda>m. Some (P m)) w1 fq1 = Some (w1, fq1, Inl EAGAIN)"
      by (subst fq_recv_until.simps) simp
    then have "fq_recv_until ?vf (\<lambda>m. Some (P m)) w fq = Some (w1, fq1, Inl EAGAIN)"
      using 1(1) 2(1) by (subst fq_recv_until.simps) simp
    then show ?thesis using 1(4) 2 by simp
  next
    case 3
    then have a: "pl_active fq1 = {p}" using 1(5) by simp
    from Cons.IH [OF 1(3) a 1(2) _ 1(4)] 1(6) a obtain w' fq' rc' where
      "fq_recv_until ?vf (\<lambda>m. Some (P m)) w1 fq1
        = Some (w', fq', case dropWhile (\<lambda>m. \<not> P m) xs of [] \<Rightarrow> Inl EAGAIN | x # _ \<Rightarrow> Inr (rc', p, x))"
      "inbox w' p (tl (dropWhile (\<lambda>m. \<not> P m) xs))" by auto
    moreover from this(1) have "fq_recv_until ?vf (\<lambda>m. Some (P m)) w fq
        = Some (w', fq', case dropWhile (\<lambda>m. \<not> P m) xs of [] \<Rightarrow> Inl EAGAIN | x # _ \<Rightarrow> Inr (rc', p, x))"
      using 1(1) 3(1) by (subst fq_recv_until.simps) simp
    ultimately show ?thesis using 3(1) by auto
  qed
qed

end
