(* ===== verification/Protocol_Properties.thy ===== *)
theory Protocol_Properties
  imports Inproc_Sockets
begin

text \<open>
  Properties of the scheduling utilities and of the scalability protocols, over the inproc transport where they
  depend on a transport.
\<close>

section \<open>Priority lists\<close>

text \<open>C10: priorities. The pipe the list offers is active and no active pipe has a higher priority (a lower number).\<close>

theorem priolist_priority:
  assumes "priolist_inv s" and "nn_priolist_getpipe s = Some (Some p)" and "pl_data s q = Some e" and "pd_inlist e"
  shows "\<exists>d. pl_data s p = Some d \<and> pd_inlist d \<and> pd_priority d \<le> pd_priority e"
  using nn_priolist_getpipe_priority [OF assms] .

text \<open>C9: round robin. Without releasing pipes, as many turns as the highest priority has active
  pipes serve each of those pipes exactly once and lead back to the same state.\<close>

theorem priolist_round_robin:
  assumes "priolist_inv s" and "pl_current s = 1 + int n"
  shows "\<exists>ps. serve (length (ps_pipes (pl_slots s ! n))) s = Some (s, ps) \<and> distinct ps
     \<and> set ps = set (ps_pipes (pl_slots s ! n))"
  using serve_round [OF assms] .

text \<open>Two active pipes of priority 3.\<close>

definition example_priolist :: nn_priolist where
  "example_priolist = the (do {
     s \<leftarrow> nn_priolist_activate (nn_priolist_add (nn_priolist_add nn_priolist_init 7 3) 8 3) 7;
     nn_priolist_activate s 8 })"

lemma priolist_init_sets: "pl_members nn_priolist_init = {}" "pl_active nn_priolist_init = {}"
  by (auto simp: pl_members_def pl_active_def nn_priolist_init_def)

lemma example_priolist_inv: "priolist_inv example_priolist"
proof -
  let ?s1 = "nn_priolist_add nn_priolist_init 7 3"
  let ?s2 = "nn_priolist_add ?s1 8 3"
  have 1: "priolist_inv ?s1" "pl_members ?s1 = {7}" "pl_active ?s1 = {}"
    using nn_priolist_add_ok [OF priolist_inv_init, of 7 3] priolist_init_sets by auto
  have 2: "priolist_inv ?s2" "pl_members ?s2 = {7, 8}" "pl_active ?s2 = {}"
    using nn_priolist_add_ok [OF 1(1), of 8 3] 1 by auto
  from nn_priolist_activate_ok [OF 2(1), of 7] 2 obtain s3 where
    3: "nn_priolist_activate ?s2 7 = Some s3" "priolist_inv s3" "pl_members s3 = {7, 8}" "pl_active s3 = {7}" by auto
  from nn_priolist_activate_ok [OF 3(2), of 8] 3 obtain s4 where
    "nn_priolist_activate s3 8 = Some s4" "priolist_inv s4" by auto
  then show ?thesis using 3(1) by (simp add: example_priolist_def)
qed

theorem priolist_round_robin_witness:
  "priolist_inv example_priolist \<and> pl_current example_priolist = 1 + int 2
   \<and> (\<exists>ps. serve 2 example_priolist = Some (example_priolist, ps) \<and> distinct ps \<and> set ps = {7, 8})"
proof -
  have "ps_pipes (pl_slots example_priolist ! 2) = [7, 8]" and "pl_current example_priolist = 1 + int 2"
    by code_simp+
  then show ?thesis using priolist_round_robin [OF example_priolist_inv, of 2] example_priolist_inv
    by (simp add: numeral_2_eq_2 del: serve.simps)
qed

theorem priolist_priority_witness:
  "\<exists>d. pl_data example_priolist 7 = Some d \<and> pd_inlist d \<and> pd_priority d \<le> 3"
proof -
  have "nn_priolist_getpipe example_priolist = Some (Some 7)" "pl_data example_priolist 8 = Some \<lparr>pd_priority = 3, pd_inlist = True\<rparr>"
    by code_simp+
  with priolist_priority [OF example_priolist_inv this] show ?thesis by simp
qed

text \<open>C11: the list's invariant. Adding, activating, removing and advancing never fail an assertion on a well-formed list
  when they are used as the sockets use them, and each keeps the list well formed and changes the sets of known
  and active pipes in the intended way.\<close>

theorem priolist_operations:
  assumes "priolist_inv s"
  shows "(p \<notin> pl_members s \<and> 1 \<le> prio \<and> prio \<le> 16 \<longrightarrow>
       priolist_inv (nn_priolist_add s p prio) \<and> pl_members (nn_priolist_add s p prio) = insert p (pl_members s)
       \<and> pl_active (nn_priolist_add s p prio) = pl_active s)
   \<and> (p \<in> pl_members s \<and> p \<notin> pl_active s \<longrightarrow> (\<exists>s'. nn_priolist_activate s p = Some s' \<and> priolist_inv s'
       \<and> pl_members s' = pl_members s \<and> pl_active s' = insert p (pl_active s)))
   \<and> (p \<in> pl_members s \<longrightarrow> (\<exists>s'. nn_priolist_rm s p = Some s' \<and> priolist_inv s'
       \<and> pl_members s' = pl_members s - {p} \<and> pl_active s' = pl_active s - {p}))
   \<and> (case nn_priolist_getpipe s of None \<Rightarrow> False
      | Some None \<Rightarrow> pl_active s = {}
      | Some (Some q) \<Rightarrow> q \<in> pl_active s \<and> (\<exists>s'. nn_priolist_advance s rel = Some s' \<and> priolist_inv s'
          \<and> pl_members s' = pl_members s \<and> pl_active s' = (if rel then pl_active s - {q} else pl_active s)))"
proof (intro conjI impI)
  show "case nn_priolist_getpipe s of None \<Rightarrow> False
      | Some None \<Rightarrow> pl_active s = {}
      | Some (Some q) \<Rightarrow> q \<in> pl_active s \<and> (\<exists>s'. nn_priolist_advance s rel = Some s' \<and> priolist_inv s'
          \<and> pl_members s' = pl_members s \<and> pl_active s' = (if rel then pl_active s - {q} else pl_active s))"
  proof (cases "pl_active s = {}")
    case True then show ?thesis using prio.getpipe_idle [OF assms] by simp
  next
    case False
    with prio.getpipe_act [OF assms] obtain q where q: "q \<in> pl_active s" "nn_priolist_getpipe s = Some (Some q)" by blast
    with prio.advance_ok [OF assms q(2), of rel] show ?thesis by simp
  qed
qed (use assms prio.add_ok [of s p prio] prio.activate_ok [of s p] prio.rm_ok [of s p] in blast)+

theorem priolist_operations_witness:
  "\<exists>s'. nn_priolist_rm example_priolist 7 = Some s' \<and> priolist_inv s'"
proof -
  have "pl_data example_priolist 7 = Some \<lparr>pd_priority = 3, pd_inlist = True\<rparr>" by code_simp
  then have "7 \<in> pl_members example_priolist" by (auto simp: pl_members_def)
  from priolist_operations [OF example_priolist_inv, THEN conjunct2, THEN conjunct2, THEN conjunct1, rule_format, OF this]
  show ?thesis by blast
qed

section \<open>A pair of connected inproc sessions\<close>

text \<open>Sessions 1 and 2 are connected to each other and idle; both pipes are known to the socket.\<close>

definition example_session :: "pipe \<Rightarrow> nn_sinproc" where
  "example_session p = \<lparr>si_state = (if p \<in> {1, 2} then NN_SINPROC_STATE_ACTIVE else NN_SINPROC_STATE_IDLE), si_flags = 0,
     si_peer = (if p = 1 then Some 2 else if p = 2 then Some 1 else None),
     si_msgqueue = nn_msgqueue_init empty_msg 1000, si_msg = empty_msg\<rparr>"

definition example_ctx :: "(inproc_fsm, inproc_ev) nn_ctx" where
  "example_ctx = \<lparr>ctx_fsms = (\<lambda>_. \<lparr>fsm_state = NN_FSM_STATE_ACTIVE, fsm_src = 0, fsm_srcptr = None, fsm_owner = None\<rparr>),
     ctx_evs = (\<lambda>_. nn_fsm_event_init), ctx_events = [], ctx_eventsto = []\<rparr>"

definition example_stats :: nn_sock_stats where
  "example_stats = \<lparr>established_connections = 0, accepted_connections = 0, dropped_connections = 0,
     broken_connections = 0, connect_errors = 0, bind_errors = 0, accept_errors = 0, messages_sent = 0,
     messages_received = 0, bytes_sent = 0, bytes_received = 0, current_connections = 0,
     inprogress_connections = 0, current_snd_priority = 0, current_ep_errors = 0\<rparr>"

definition example_options :: nn_ep_options where
  "example_options = \<lparr>sndprio = 8, rcvprio = 8, ipv4only = 1\<rparr>"

definition example_pipe :: nn_pipebase where
  "example_pipe = \<lparr>pb_state = NN_PIPEBASE_STATE_ACTIVE, pb_instate = NN_PIPEBASE_INSTATE_ASYNC,
     pb_outstate = NN_PIPEBASE_OUTSTATE_IDLE, pb_options = example_options\<rparr>"

definition example_world :: "inproc world" where
  "example_world = \<lparr>w_pipes = (\<lambda>p. if p \<in> {1, 2} then example_pipe else nn_pipebase_init example_options),
     w_events = [], w_stats = example_stats, w_trans = \<lparr>si_ses = example_session, si_ctx = example_ctx\<rparr>\<rparr>"

definition fresh_world :: "inproc world" where
  "fresh_world = \<lparr>w_pipes = (\<lambda>_. nn_pipebase_init example_options), w_events = [], w_stats = example_stats,
     w_trans = \<lparr>si_ses = example_session, si_ctx = example_ctx\<rparr>\<rparr>"

lemmas example_defs = example_world_def example_session_def example_ctx_def example_pipe_def nn_pipebase_init_def
  ses_def ctx_of_def sending_def receiving_def on_way_def nn_fsm_event_active_def

lemma example_facts:
  "ses example_world = example_session" "\<not> on_way example_world e" "\<not> sending example_world p" "\<not> receiving example_world p"
  by (auto simp: example_defs)

lemma example_active: "pb_state (w_pipes example_world p) = NN_PIPEBASE_STATE_ACTIVE \<longleftrightarrow> p = 1 \<or> p = 2"
  by (auto simp: example_defs)

lemma example_trans_ok: "trans_ok inproc_inv example_world"
proof -
  have "sess_ok example_world p" if "p = 1 \<or> p = 2" for p
    using that mq_rep_init [of empty_msg 1000] unfolding sess_ok_def
    by (auto simp: example_facts) (auto simp: example_session_def empty_msg_def)
  moreover have "link_ok (w_pipes example_world p) example_world p" if "p = 1 \<or> p = 2" for p
  proof -
    have "pb_instate (w_pipes example_world p) = NN_PIPEBASE_INSTATE_ASYNC"
      using that by (auto simp: example_world_def example_pipe_def)
    then show ?thesis by (simp add: link_ok_def example_facts)
  qed
  ultimately show ?thesis by (simp add: trans_ok_def inproc_inv_world inproc_ok_def example_active)
qed

lemma example_out_ready: "out_ready example_world {1, 2}"
  by (auto simp: out_ready_def pipe_active_def out_idle_def example_defs)

lemma example_channel: "new_channel example_world 1 2"
proof -
  have "fresh_direction example_world a b" if "(a, b) \<in> {(1, 2), (2, 1)}" for a b
    using that mq_rep_init [of empty_msg 1000]
    by (auto simp: fresh_direction_def example_facts) (auto simp: example_session_def example_world_def example_pipe_def)
  moreover have "duplex example_world 1 2"
    by (auto simp: duplex_def end_ok_def event_ok_def example_facts) (auto simp: example_defs)
  ultimately show ?thesis by (simp add: new_channel_def)
qed

section \<open>Distribution and load balancing\<close>

lemma dist_send_ok:
  assumes "dist_inv d" and "length (d_pipes d) < 2 ^ 32" and "trans_ok inproc_inv w" and "out_ready w (set (d_pipes d))"
  shows "\<exists>w' d'. nn_dist_send (nn_sinproc_pipebase_vfptr junk) w d m exclude = Some (w', d')
     \<and> send_all (nn_sinproc_pipebase_vfptr junk) m (filter (\<lambda>p. exclude \<noteq> Some p) (d_pipes d)) w = Some w'
     \<and> trans_ok inproc_inv w' \<and> dist_inv d' \<and> dist_members d' = dist_members d
     \<and> d_pipes d' = filter (out_idle w') (d_pipes d)"
proof -
  from inproc.nn_dist_send_ok [OF assms(1,3,4), of junk m exclude] obtain w' d' where
    1: "nn_dist_send (nn_sinproc_pipebase_vfptr junk) w d m exclude = Some (w', d')" "trans_ok inproc_inv w'" "dist_inv d'"
      "dist_members d' = dist_members d" "d_pipes d' = filter (out_idle w') (d_pipes d)" by blast
  have "unat (d_count d) = length (d_pipes d)"
    using assms(1,2) by (simp add: dist_inv_def unat_of_nat take_bit_nat_eq_self_iff)
  then have "d_count d = 0 \<longleftrightarrow> d_pipes d = []" by (metis length_0_conv unat_eq_zero)
  then have "send_all (nn_sinproc_pipebase_vfptr junk) m (filter (\<lambda>p. exclude \<noteq> Some p) (d_pipes d)) w = Some w'"
    using 1(1) dist_loop_send_all by (fastforce simp: nn_dist_send_def split: if_splits)
  with 1 show ?thesis by blast
qed

text \<open>C12: distribution. Sending to all gives one copy of the message to every ready pipe except the excluded one and to
  nobody else; afterwards exactly the pipes that can take another message stay in the list.\<close>

theorem dist_send_all:
  assumes "dist_inv d" and "length (d_pipes d) < 2 ^ 32" and "trans_ok inproc_inv w" and "out_ready w (set (d_pipes d))"
  shows "\<exists>w' d'. nn_dist_send (nn_sinproc_pipebase_vfptr junk) w d m exclude = Some (w', d')
     \<and> send_all (nn_sinproc_pipebase_vfptr junk) m (filter (\<lambda>p. exclude \<noteq> Some p) (d_pipes d)) w = Some w'
     \<and> trans_ok inproc_inv w' \<and> dist_inv d' \<and> dist_members d' = dist_members d
     \<and> d_pipes d' = filter (out_idle w') (d_pipes d)"
  using dist_send_ok [OF assms] .

definition example_dist :: nn_dist where
  "example_dist = \<lparr>d_count = 2, d_pipes = [1, 2], d_item = [1 \<mapsto> True, 2 \<mapsto> True]\<rparr>"

lemma example_dist_inv: "dist_inv example_dist" "out_ready example_world (set (d_pipes example_dist))"
  using example_out_ready by (auto simp: dist_inv_def example_dist_def)

theorem dist_send_all_witness:
  "\<exists>w'. send_all (nn_sinproc_pipebase_vfptr empty_msg) empty_msg [2] example_world = Some w' \<and> trans_ok inproc_inv w'"
  using dist_send_all [OF example_dist_inv(1) _ example_trans_ok example_dist_inv(2), of empty_msg empty_msg "Some 1"]
  by (auto simp: example_dist_def)

text \<open>Load balancing. With no pipe ready a send reports EAGAIN and changes nothing; otherwise the message goes to the pipe whose
  turn it is, and the pipe stays in the rotation exactly when it can take another message.\<close>

theorem lb_send:
  assumes "priolist_inv lb" and "trans_ok inproc_inv w" and "out_ready w (pl_active lb)"
  shows "if pl_active lb = {} then nn_lb_send (nn_sinproc_pipebase_vfptr junk) w lb m = Some (w, lb, Inl EAGAIN)
     else \<exists>w' lb' p rc. nn_lb_send (nn_sinproc_pipebase_vfptr junk) w lb m = Some (w', lb', Inr (0, p))
        \<and> nn_priolist_getpipe lb = Some (Some p) \<and> nn_pipe_send (nn_sinproc_pipebase_vfptr junk) w p m = Some (w', rc)
        \<and> trans_ok inproc_inv w' \<and> priolist_inv lb' \<and> pl_active lb' = {q \<in> pl_active lb. out_idle w' q}"
  using inproc.nn_lb_send_empty [OF assms(1)] inproc.nn_lb_send_ok [OF assms(1) _ assms(2,3), of junk m] by (auto; blast)

theorem lb_send_witness:
  "nn_lb_send (nn_sinproc_pipebase_vfptr empty_msg) example_world nn_lb_init empty_msg
     = Some (example_world, nn_lb_init, Inl EAGAIN)"
  using lb_send [OF priolist_inv_init example_trans_ok, of empty_msg empty_msg] priolist_init_sets
  by (simp add: nn_lb_init_def out_ready_def)

section \<open>Bus\<close>

text \<open>No echo on a bus. A raw bus socket that passes on a message with the header it received it with gives it to every ready
  pipe but the one it came from, without that header.\<close>

theorem xbus_no_echo:
  assumes "xbus_inv s" and "length (d_pipes (xbus_outpipes s)) < 2 ^ 32" and "trans_ok inproc_inv w"
    and "out_ready w (set (d_pipes (xbus_outpipes s)))" and "0 < p" and "p < 2 ^ 64" and "sphdr m = pipe_bytes p"
  shows "\<exists>w' s'. nn_xbus_send (nn_sinproc_pipebase_vfptr junk) w s m = Some (w', s', Inr 0) \<and> xbus_inv s'
     \<and> send_all (nn_sinproc_pipebase_vfptr junk) (m\<lparr>sphdr := []\<rparr>) (filter (\<lambda>q. q \<noteq> p) (d_pipes (xbus_outpipes s))) w = Some w'"
proof -
  have d: "dist_inv (xbus_outpipes s)" using assms(1) by (simp add: xbus_inv_def)
  have b: "bytes_pipe (sphdr m) = Some p" "length (sphdr m) = 8" using bytes_pipe_bytes [OF assms(5,6)] assms(7) by simp_all
  have eq: "filter (\<lambda>q. q \<noteq> p) xs = filter (\<lambda>q. Some p \<noteq> Some q) xs" for xs by (intro filter_cong) auto
  from dist_send_ok [OF d assms(2-4), of junk "m\<lparr>sphdr := []\<rparr>" "Some p"] b assms(1) show ?thesis
    unfolding eq by (auto simp: nn_xbus_send_def xbus_inv_def)
qed

definition example_xbus :: nn_xbus where
  "example_xbus = \<lparr>xbus_outpipes = example_dist, xbus_inpipes = nn_priolist_add (nn_priolist_add nn_priolist_init 1 8) 2 8\<rparr>"

theorem xbus_no_echo_witness:
  "\<exists>w' s'. nn_xbus_send (nn_sinproc_pipebase_vfptr empty_msg) example_world example_xbus (empty_msg\<lparr>sphdr := pipe_bytes 1\<rparr>)
       = Some (w', s', Inr 0)
     \<and> send_all (nn_sinproc_pipebase_vfptr empty_msg) empty_msg [2] example_world = Some w'"
proof -
  have "priolist_inv (nn_priolist_add (nn_priolist_add nn_priolist_init 1 8) 2 8)"
    "pl_members (nn_priolist_add (nn_priolist_add nn_priolist_init 1 8) 2 8) = {1, 2}"
    using nn_priolist_add_ok [OF priolist_inv_init, of 1 8]
      nn_priolist_add_ok [of "nn_priolist_add nn_priolist_init 1 8" 2 8] priolist_init_sets by auto
  then have "xbus_inv example_xbus" using example_dist_inv(1)
    by (auto simp: xbus_inv_def example_xbus_def example_dist_def dist_members_def)
  from xbus_no_echo [OF this _ example_trans_ok, of 1 "empty_msg\<lparr>sphdr := pipe_bytes 1\<rparr>" empty_msg] example_dist_inv(2)
  show ?thesis by (auto simp: example_xbus_def example_dist_def empty_msg_def)
qed

section \<open>A process without connections\<close>

lemma fresh_world_ok: "trans_ok inproc_inv fresh_world" "fresh_socket fresh_world"
proof -
  have "pb_state (w_pipes fresh_world p) = NN_PIPEBASE_STATE_IDLE" for p by (simp add: fresh_world_def nn_pipebase_init_def)
  then show "trans_ok inproc_inv fresh_world" by (simp add: trans_ok_def inproc_inv_world inproc_ok_def)
  show "fresh_socket fresh_world"
    by (simp add: fresh_socket_def fresh_world_def nn_pipebase_init_def pipe_active_def example_stats_def)
qed

lemma fresh_start_ok:
  "trans_ok inproc_inv (upd_pipe 1 (\<lambda>b. b\<lparr>pb_state := NN_PIPEBASE_STATE_ACTIVE, pb_instate := NN_PIPEBASE_INSTATE_ASYNC,
     pb_outstate := NN_PIPEBASE_OUTSTATE_IDLE\<rparr>) fresh_world)"
proof -
  let ?w = "upd_pipe 1 (\<lambda>b. b\<lparr>pb_state := NN_PIPEBASE_STATE_ACTIVE, pb_instate := NN_PIPEBASE_INSTATE_ASYNC,
     pb_outstate := NN_PIPEBASE_OUTSTATE_IDLE\<rparr>) fresh_world"
  have "w_trans ?w = w_trans example_world" by (simp add: fresh_world_def example_world_def)
  then have "inproc_inv (w_pipes example_world) (w_trans ?w)" using example_trans_ok by (simp add: trans_ok_def)
  moreover have "w_pipes ?w 1 = w_pipes example_world 1"
    by (simp add: fresh_world_def example_world_def example_pipe_def nn_pipebase_init_def)
  moreover have "pb_state (w_pipes ?w p) = NN_PIPEBASE_STATE_ACTIVE \<longleftrightarrow> p = 1" for p
    by (simp add: fresh_world_def nn_pipebase_init_def)
  ultimately show ?thesis
    by (simp add: trans_ok_def inproc_inv_def inproc_ok_def example_active del: One_nat_def)
qed

end
