(* ===== verification/Reqrep_Properties.thy ===== *)
theory Reqrep_Properties
  imports Utils_Properties Protocol_Properties
begin

text \<open>
  Properties of the request/reply and survey protocols: parsing of the backtrace of a request, routing of
  the reply to the requester, the protocol's state machine, and the equivalence of the two responder sides.
\<close>

section \<open>Backtraces\<close>

text \<open>Every message that a pipe may deliver is either refused or split without reading past its end: the
  header is a non-empty sequence of at most \<open>maxttl\<close> 32 bit words, and header and body together are the message.\<close>

theorem split_backtrace_bounds:
  assumes "sphdr m = []"
  shows "\<exists>r. split_backtrace ttl m = Some r \<and>
    (\<forall>m'. r = Inr m' \<longrightarrow> sphdr m' @ body m' = body m \<and> 4 dvd length (sphdr m') \<and> 4 \<le> length (sphdr m')
       \<and> int (length (sphdr m')) \<le> 4 * ttl)"
  using split_backtrace_total [OF assms] .

definition short_request :: nn_msg where
  "short_request = \<lparr>sphdr = [], hdrs = [], body = stack_bytes [5, 0x80000001] @ [0x68, 0x69]\<rparr>"

theorem split_backtrace_bounds_witness:
  "\<exists>m'. split_backtrace 8 short_request = Some (Inr m') \<and> sphdr m' @ body m' = body short_request \<and> length (sphdr m') \<le> 32"
proof -
  have "case split_backtrace 8 short_request of Some (Inr m') \<Rightarrow> True | _ \<Rightarrow> False" by code_simp
  then obtain m' where m': "split_backtrace 8 short_request = Some (Inr m')" by (auto split: option.splits sum.splits)
  have "sphdr short_request = []" by (simp add: short_request_def)
  from split_backtrace_bounds [OF this, of 8] m' show ?thesis by auto
qed

text \<open>C23: a well-formed request, that is a stack of hops whose last word and no other has its top bit set, followed by a
  payload, is split into exactly that stack and that payload when it has not passed more hops than allowed,
  and refused with EAGAIN when it has.\<close>

theorem split_backtrace_roundtrip:
  assumes "request_of vs b payload m"
  shows "split_backtrace ttl m = Some (if int (length vs + 1) \<le> ttl
     then Inr (m\<lparr>sphdr := stack_bytes (vs @ [b]), body := payload\<rparr>) else Inl EAGAIN)"
proof (cases "int (length vs + 1) \<le> ttl")
  case True then show ?thesis using split_backtrace_request [OF assms] by simp
next
  case False
  have "backtrace (body m) 0 = Some (Inr (length vs + 1))"
    using backtrace_stack [of vs b "[]" payload] assms by (simp add: request_of_def)
  then show ?thesis using False by (simp add: split_backtrace_def)
qed

theorem split_backtrace_roundtrip_witness:
  "split_backtrace 8 short_request = Some (Inr (short_request\<lparr>sphdr := stack_bytes [5, 0x80000001], body := [0x68, 0x69]\<rparr>))"
proof -
  have "request_of [5] 0x80000001 [0x68, 0x69] short_request" by (simp add: request_of_def short_request_def)
  from split_backtrace_roundtrip [OF this, of 8] show ?thesis by simp
qed

section \<open>Replies\<close>

text \<open>C14: routing of replies. After a request has been received on a pipe the user gets its payload; the reply is
  sent on that very pipe and carries the stack of hops of the request, whatever happened on other sockets in the meantime;
  then the socket is waiting for a request again and a second reply is refused with EFSM.\<close>

theorem rep_reply_routing:
  assumes inv: "xrep_inv (rep_xrep s)" and w: "trans_ok inproc_inv w" "in_ready w (pl_active (xrep_inpipes (rep_xrep s)))"
    and rcv: "nn_fq_recv (nn_sinproc_pipebase_vfptr junk) w (xrep_inpipes (rep_xrep s)) = Some (w1, fq, Inr (rc, p, m))"
    and rc: "rc AND NN_PIPE_PARSED = 0" and m: "request_of vs b payload m" "int (length vs + 1) \<le> ttl"
    and out: "p \<in> xrep_ready (rep_xrep s)"
    and r: "sphdr r = []" "nn_pipe_send (nn_sinproc_pipebase_vfptr junk) w2 p (r\<lparr>sphdr := stack_bytes (vs @ [b])\<rparr>) = Some (w3, rc')"
  shows "\<exists>s1 s2. nn_rep_recv ttl (nn_sinproc_pipebase_vfptr junk) w s = Some (w1, s1, Inr (m\<lparr>sphdr := [], body := payload\<rparr>))
     \<and> nn_rep_send (nn_sinproc_pipebase_vfptr junk) w2 s1 r = Some (w3, s2, Inr 0)
     \<and> nn_rep_send (nn_sinproc_pipebase_vfptr junk) w4 s2 r' = Some (w4, s2, Inl EFSM)"
proof -
  from nn_rep_recv_request [OF rcv rc m] obtain s1 where
    1: "nn_rep_recv ttl (nn_sinproc_pipebase_vfptr junk) w s = Some (w1, s1, Inr (m\<lparr>sphdr := [], body := payload\<rparr>))"
      "rep_backtrace s1 = word_bytes (hi_key (xrep_items (rep_xrep s) p)) @ stack_bytes (vs @ [b])"
      "rep_xrep s1 = (rep_xrep s)\<lparr>xrep_inpipes := fq\<rparr>" "rep_flags s1 AND NN_REP_INPROGRESS \<noteq> 0" .
  have "hash_inv (xrep_items (rep_xrep s1)) (xrep_outpipes (rep_xrep s1))"
    "rep_backtrace s1 = word_bytes (hi_key (xrep_items (rep_xrep s1) p)) @ stack_bytes (vs @ [b])"
    "hi_inlist (xrep_items (rep_xrep s1) p)" "xrep_flags (rep_xrep s1) p AND NN_XREP_OUT \<noteq> 0"
    using inv out 1(2,3) by (simp_all add: xrep_inv_def xrep_ready_def)
  from nn_rep_send_reply [OF this(1,2) 1(4) this(3,4) r] obtain s2 where
    2: "nn_rep_send (nn_sinproc_pipebase_vfptr junk) w2 s1 r = Some (w3, s2, Inr 0)" "rep_flags s2 AND NN_REP_INPROGRESS = 0"
    by blast
  from 1(1) 2 show ?thesis by (auto simp: nn_rep_send_def)
qed

text \<open>A REP socket with pipe 1, on which a request is waiting.\<close>

definition request_world :: "inproc world" where
  "request_world = example_world\<lparr>
     w_pipes := (w_pipes example_world)(1 := example_pipe\<lparr>pb_instate := NN_PIPEBASE_INSTATE_IDLE\<rparr>),
     w_trans := \<lparr>si_ses = example_session(1 := (example_session 1)\<lparr>si_msgqueue :=
       fst (the (nn_msgqueue_send empty_msg (nn_msgqueue_init empty_msg 1000) short_request))\<rparr>), si_ctx = example_ctx\<rparr>\<rparr>"

definition example_xrep :: nn_xrep where
  "example_xrep = the (do {
     (w, s, _) \<leftarrow> nn_xrep_add example_world (nn_xrep_init 5 free_store (\<lambda>_. 0)) 1;
     (w, s) \<leftarrow> nn_xrep_in w s 1;
     (w, s) \<leftarrow> nn_xrep_out w s 1;
     Some s })"

lemma request_trans_ok:
  "trans_ok inproc_inv request_world" "mq_rep (si_msgqueue (ses request_world 1)) [short_request]"
proof -
  let ?s = "nn_msgqueue_send empty_msg (nn_msgqueue_init empty_msg 1000) short_request"
  have "\<not> mq_full (nn_msgqueue_init empty_msg 1000) short_request"
    by (simp add: mq_full_def nn_msgqueue_empty_def nn_msgqueue_init_def)
  then have q: "mq_rep (fst (the ?s)) [short_request]"
    using nn_msgqueue_send_ok [OF mq_rep_init, of empty_msg 1000 short_request empty_msg] by auto
  have f: "\<not> on_way request_world e" "\<not> sending request_world p" "\<not> receiving request_world p" for e p
    by (auto simp: request_world_def example_defs)
  have ses: "ses request_world = example_session(1 := (example_session 1)\<lparr>si_msgqueue := fst (the ?s)\<rparr>)"
    by (rule ext) (simp add: request_world_def ses_def)
  have "sess_ok request_world p" if "p = 1 \<or> p = 2" for p
  proof -
    have "\<exists>xs. mq_rep (si_msgqueue (ses request_world p)) xs \<and> (\<forall>m \<in> set xs. sphdr m = [])"
      using that q mq_rep_init [of empty_msg 1000] by (auto simp: ses example_session_def short_request_def)
    then show ?thesis using that unfolding sess_ok_def by (auto simp: f) (auto simp: ses example_session_def empty_msg_def)
  qed
  moreover have "link_ok (w_pipes request_world p) request_world p" if "p = 1 \<or> p = 2" for p
  proof (cases "p = 1")
    case True
    then show ?thesis using mq_rep_empty [OF q] by (simp add: link_ok_def f ses)
  next
    case False
    with that have "pb_instate (w_pipes request_world p) = NN_PIPEBASE_INSTATE_ASYNC"
      by (simp add: request_world_def example_world_def example_pipe_def)
    then show ?thesis by (simp add: link_ok_def f)
  qed
  moreover have "pb_state (w_pipes request_world p) = NN_PIPEBASE_STATE_ACTIVE \<longleftrightarrow> p = 1 \<or> p = 2" for p
    by (auto simp: request_world_def example_defs)
  ultimately show "trans_ok inproc_inv request_world" by (simp add: trans_ok_def inproc_inv_world inproc_ok_def)
  show "mq_rep (si_msgqueue (ses request_world 1)) [short_request]" using q by (simp add: ses)
qed

lemma request_inbox: "inbox request_world 1 [short_request]"
  using request_trans_ok(2) by (auto simp: inbox_def request_world_def example_defs)

lemma example_xrep_inv:
  "xrep_inv example_xrep" "pl_active (xrep_inpipes example_xrep) = {1}" "1 \<in> xrep_ready example_xrep"
proof -
  let ?s0 = "nn_xrep_init 5 free_store (\<lambda>_. 0)"
  have 0: "xrep_inv ?s0" "xrep_room ?s0" "pl_members (xrep_inpipes ?s0) = {}" "pl_active (xrep_inpipes ?s0) = {}"
    using free_store_inv free_store_facts priolist_inv_init priolist_init_sets
    by (auto simp: xrep_inv_def xrep_room_def nn_xrep_init_def nn_fq_init_def)
  have "prio_ok (w_pipes example_world 1)" by (simp add: prio_ok_def example_defs example_options_def)
  from xrep_add_ok [OF 0(1) _ this 0(2)] 0 obtain s1 where 1: "nn_xrep_add example_world ?s0 1 = Some (example_world, s1, Inr ())"
    "xrep_inv s1" "pl_members (xrep_inpipes s1) = {1}" "pl_active (xrep_inpipes s1) = {}" by auto
  from fq_in_ok [of "xrep_inpipes s1" 1] 1 obtain fq where 2: "nn_fq_in (xrep_inpipes s1) 1 = Some fq" "priolist_inv fq"
    "pl_members fq = {1}" "pl_active fq = {1}" by (auto simp: xrep_inv_def)
  have e: "example_xrep = s1\<lparr>xrep_inpipes := fq, xrep_flags := (xrep_flags s1)(1 := xrep_flags s1 1 OR NN_XREP_OUT)\<rparr>"
    using 1(1) 2(1) by (simp add: example_xrep_def nn_xrep_in_def nn_xrep_out_def)
  show "xrep_inv example_xrep" "pl_active (xrep_inpipes example_xrep) = {1}" using 1 2 by (simp_all add: e xrep_inv_def)
  have "hi_inlist (xrep_items s1 1)" using 1(2,3) by (auto simp: xrep_inv_def)
  then show "1 \<in> xrep_ready example_xrep" by (simp add: xrep_ready_bit e)
qed

lemma request_in_ready: "in_ready request_world (pl_active (xrep_inpipes example_xrep))"
  by (simp add: example_xrep_inv(2) in_ready_def pipe_active_def in_idle_def request_world_def example_pipe_def)

theorem rep_reply_routing_witness:
  "\<exists>w1 s1 w3 s2. nn_rep_recv 8 (nn_sinproc_pipebase_vfptr empty_msg) request_world (nn_rep_init example_xrep [])
       = Some (w1, s1, Inr \<lparr>sphdr = [], hdrs = [], body = [0x68, 0x69]\<rparr>)
     \<and> nn_pipe_send (nn_sinproc_pipebase_vfptr empty_msg) example_world 1
         \<lparr>sphdr = stack_bytes [5, 0x80000001], hdrs = [], body = [0x79]\<rparr> = Some w3
     \<and> nn_rep_send (nn_sinproc_pipebase_vfptr empty_msg) example_world s1 \<lparr>sphdr = [], hdrs = [], body = [0x79]\<rparr>
         = Some (fst w3, s2, Inr 0)"
proof -
  let ?vf = "nn_sinproc_pipebase_vfptr empty_msg"
  let ?s = "nn_rep_init example_xrep []"
  let ?r = "\<lparr>sphdr = [], hdrs = [], body = [0x79]\<rparr> :: nn_msg"
  have x: "rep_xrep ?s = example_xrep" by (simp add: nn_rep_init_def)
  have act: "pipe_active request_world 1" "in_idle request_world 1"
    using request_in_ready by (simp_all add: in_ready_def example_xrep_inv(2))
  from inproc_fq_recv [OF _ example_xrep_inv(2) request_trans_ok(1) _ request_inbox, of empty_msg] example_xrep_inv(1) request_in_ready
  obtain w1 rc fq where 1: "nn_fq_recv ?vf request_world (xrep_inpipes (rep_xrep ?s)) = Some (w1, fq, Inr (rc, 1, short_request))"
    "rc AND NN_PIPE_PARSED = 0" unfolding x by (auto simp: xrep_inv_def example_xrep_inv(2))
  have m: "request_of [5] 0x80000001 [0x68, 0x69] short_request" by (simp add: request_of_def short_request_def)
  have "pipe_active example_world 1" "out_idle example_world 1" using example_out_ready by (simp_all add: out_ready_def)
  from inproc.nn_pipe_send_ok [OF example_trans_ok this, of empty_msg "?r\<lparr>sphdr := stack_bytes ([5] @ [0x80000001])\<rparr>"]
  obtain w3 rc3 where 3: "nn_pipe_send ?vf example_world 1 (?r\<lparr>sphdr := stack_bytes ([5] @ [0x80000001])\<rparr>) = Some (w3, rc3)" by blast
  have "\<exists>s1 s2. nn_rep_recv 8 ?vf request_world ?s = Some (w1, s1, Inr (short_request\<lparr>sphdr := [], body := [0x68, 0x69]\<rparr>))
      \<and> nn_rep_send ?vf example_world s1 ?r = Some (w3, s2, Inr 0)
      \<and> nn_rep_send ?vf example_world s2 ?r = Some (example_world, s2, Inl EFSM)"
    by (rule rep_reply_routing [OF _ request_trans_ok(1) _ 1 m _ _ _ 3])
      (use example_xrep_inv(1,3) request_in_ready in \<open>simp_all add: x\<close>)
  with 3 show ?thesis by (fastforce simp: short_request_def)
qed

section \<open>Equivalence of the responder sides\<close>

text \<open>C24: a RESPONDENT socket is a REP socket. Under the correspondence of their states every operation of the one, raw or cooked, from
  initialisation to termination, has the result, the effect on the pipes, the reported events and the failures of the other.\<close>

theorem respondent_equiv_rep:
  "as_xrep (nn_xrespondent_init key items flags) = nn_xrep_init key items flags
   \<and> nn_xrespondent_term x = nn_xrep_term (as_xrep x)
   \<and> nn_xrespondent_add w x p = map_option (\<lambda>(w, s, r). (w, of_xrep s, r)) (nn_xrep_add w (as_xrep x) p)
   \<and> nn_xrespondent_rm w x p = map_option (\<lambda>(w, s). (w, of_xrep s)) (nn_xrep_rm w (as_xrep x) p)
   \<and> nn_xrespondent_in w x p = map_option (\<lambda>(w, s). (w, of_xrep s)) (nn_xrep_in w (as_xrep x) p)
   \<and> nn_xrespondent_out w x p = map_option (\<lambda>(w, s). (w, of_xrep s)) (nn_xrep_out w (as_xrep x) p)
   \<and> nn_xrespondent_events x = nn_xrep_events (as_xrep x)
   \<and> nn_xrespondent_send vf w x m = map_option (\<lambda>(w, s, r). (w, of_xrep s, r)) (nn_xrep_send vf w (as_xrep x) m)
   \<and> nn_xrespondent_recv ttl vf w x = map_option (\<lambda>(w, s, r). (w, of_xrep s, r)) (nn_xrep_recv ttl vf w (as_xrep x))
   \<and> as_rep (nn_respondent_init x junk) = nn_rep_init (as_xrep x) junk
   \<and> nn_respondent_term s = nn_rep_term (as_rep s)
   \<and> nn_respondent_events s = nn_rep_events (as_rep s)
   \<and> nn_respondent_send vf w s m = map_option (\<lambda>(w, s, r). (w, of_rep s, r)) (nn_rep_send vf w (as_rep s) m)
   \<and> nn_respondent_recv ttl vf w s = map_option (\<lambda>(w, s, r). (w, of_rep s, r)) (nn_rep_recv ttl vf w (as_rep s))
   \<and> as_rep (of_rep r) = r \<and> of_rep (as_rep s) = s \<and> as_xrep (of_xrep y) = y \<and> of_xrep (as_xrep x) = x"
  by (intro conjI xrespondent_eqs xrespondent_life respondent_send_eq respondent_recv_eq respondent_life as_of_rep as_of_xrep)

end
