(* ===== verification/Pubsub_Properties.thy ===== *)
theory Pubsub_Properties
  imports Reqrep_Properties
begin

text \<open>
  Properties of the subscriptions of a SUB socket: what subscribing, unsubscribing and matching do to the number
  of subscriptions of each string, for every trie that these operations can build, and what the socket delivers.
\<close>

section \<open>Tries that can arise\<close>

definition trie_inv :: "nn_trie \<Rightarrow> bool" where
  "trie_inv t \<longleftrightarrow> (\<forall>n. root t = Some n \<longrightarrow> node_ok n)"

definition subs :: "nn_trie \<Rightarrow> bytes \<Rightarrow> nat" where
  "subs t = sub_count (root t)"

text \<open>Any strings may be subscribed and unsubscribed, whether they have subscriptions or not. Two things are excluded: a
  \<open>2 ^ 32\<close>th subscription of one string, which the counter does not hold, and an unsubscription that meets a hole of
  a dense node, after which the trie is damaged (\<open>trie_hole_breaks\<close>).\<close>

inductive trie_reach :: "nn_trie \<Rightarrow> bool" where
  init: "trie_reach nn_trie_init"
| subscribe: "trie_reach t \<Longrightarrow> subs t d + 1 < 2 ^ 32 \<Longrightarrow> nn_trie_subscribe t d = Some (t', rc) \<Longrightarrow> trie_reach t'"
| unsubscribe: "trie_reach t \<Longrightarrow> \<not> unsub_hole (root t) d \<Longrightarrow> nn_trie_unsubscribe t d = Some (t', rc') \<Longrightarrow> trie_reach t'"

lemma subs_init [simp]: "subs nn_trie_init d = 0"
  by (simp add: subs_def nn_trie_init_def)

lemma nn_trie_subscribe_ok:
  assumes "trie_inv t" and "subs t d + 1 < 2 ^ 32"
  shows "\<exists>t'. nn_trie_subscribe t d = Some (t', if subs t d = 0 then 1 else 0) \<and> trie_inv t'
     \<and> subs t' = subscribed (root t) d (lost_sub (root t) d)"
proof -
  from nn_node_subscribe_ok [of "root t" d] assms obtain n where
    "nn_node_subscribe (root t) d = Some (n, if subs t d = 0 then 1 else 0)" "node_ok n"
    "sub_count (Some n) = subscribed (root t) d (lost_sub (root t) d)"
    unfolding trie_inv_def subs_def by blast
  then show ?thesis by (simp add: nn_trie_subscribe_def trie_inv_def subs_def)
qed

lemma nn_trie_unsubscribe_ok:
  assumes "trie_inv t" and "0 < subs t d"
  shows "\<exists>t'. nn_trie_unsubscribe t d = Some (t', Inr (if subs t d = 1 then 1 else 0)) \<and> trie_inv t'
     \<and> subs t' = unsubscribed (root t) d (unsub_lost (root t) d)"
proof -
  obtain n where n: "root t = Some n" using assms(2) by (cases "root t") (auto simp: subs_def)
  from nn_node_unsubscribe_ok [of n d] assms n obtain m where
    "nn_node_unsubscribe (Some n) d = Some (m, Inr (if subs t d = 1 then 1 else 0))" "\<forall>k. m = Some k \<longrightarrow> node_ok k"
    "sub_count m = unsubscribed (Some n) d (unsub_lost (Some n) d)"
    unfolding trie_inv_def subs_def n by blast
  then show ?thesis using n by (simp add: nn_trie_unsubscribe_def trie_inv_def subs_def)
qed

lemma nn_trie_unsubscribe_missing:
  assumes "root t \<noteq> None" and "subs t d = 0" and "\<not> unsub_hole (root t) d"
  shows "(\<exists>rc. nn_trie_unsubscribe t d = Some (t, rc))
     \<or> (\<exists>e. e \<noteq> [] \<and> 0 < subs t (d @ e) \<and> nn_trie_unsubscribe t d = nn_trie_unsubscribe t (d @ e))"
proof -
  from assms(1) obtain n where n: "root t = Some n" by blast
  then have "t\<lparr>root := Some n\<rparr> = t" by (cases t) simp
  then show ?thesis using nn_node_unsubscribe_missing [of n d] assms(2,3) n by (auto simp: nn_trie_unsubscribe_def subs_def)
qed

lemma nn_trie_unsubscribe_empty: "root t = None \<Longrightarrow> nn_trie_unsubscribe t d = (if d = [] then Some (t, Inl EINVAL) else None)"
  by (cases t) (simp add: nn_trie_unsubscribe_def nn_node_unsubscribe.simps trie_found_def)

lemma trie_reach_inv: "trie_reach t \<Longrightarrow> trie_inv t"
proof (induction rule: trie_reach.induct)
  case init then show ?case by (simp add: trie_inv_def nn_trie_init_def)
next
  case (subscribe t d t' rc) then show ?case using nn_trie_subscribe_ok [of t d] by auto
next
  case (unsubscribe t d t' rc)
  have kept: "trie_inv t'" if "0 < subs t e" "nn_trie_unsubscribe t e = Some (t', rc)" for e :: bytes
    using nn_trie_unsubscribe_ok [OF unsubscribe.IH that(1)] that(2) by auto
  show ?case
  proof (cases "subs t d = 0")
    case True
    then show ?thesis using nn_trie_unsubscribe_missing [OF _ True unsubscribe.hyps(2)] nn_trie_unsubscribe_empty [of t d]
        unsubscribe.hyps(3) unsubscribe.IH kept by (cases "root t") (auto split: if_splits)
  next
    case False
    then show ?thesis using kept [of d] unsubscribe.hyps(3) by simp
  qed
qed

lemma subs_no_hole: "0 < subs t d \<Longrightarrow> \<not> unsub_hole (root t) d"
  using subscribed_no_hole by (cases "root t") (auto simp: subs_def)

section \<open>Subscribing, unsubscribing and matching\<close>

text \<open>C26: subscribing to a string succeeds on any trie that subscriptions and unsubscriptions have built, as long as none of the
  latter met a hole of a dense node. It adds one subscription of that string and reports whether it
  is the first. Every other string keeps its subscriptions, except for the string of a node that changes from the sparse
  to the dense representation, whose subscriptions are forgotten.\<close>

theorem trie_subscribe:
  assumes "trie_reach t" and "subs t d + 1 < 2 ^ 32"
  shows "\<exists>t'. nn_trie_subscribe t d = Some (t', if subs t d = 0 then 1 else 0) \<and> trie_reach t'
     \<and> subs t' d = subs t d + 1 \<and> (\<forall>s. s \<noteq> d \<longrightarrow> subs t' s = (if lost_sub (root t) d = Some s then 0 else subs t s))"
proof -
  from nn_trie_subscribe_ok [OF trie_reach_inv [OF assms(1)] assms(2)] obtain t' where
    t': "nn_trie_subscribe t d = Some (t', if subs t d = 0 then 1 else 0)" "subs t' = subscribed (root t) d (lost_sub (root t) d)"
    by blast
  from trie_reach.subscribe [OF assms t'(1)] t' show ?thesis by (auto simp: subscribed_def subs_def)
qed

theorem trie_subscribe_witness:
  "\<exists>t'. nn_trie_subscribe nn_trie_init [0x61] = Some (t', 1) \<and> subs t' [0x61] = 1 \<and> subs t' [0x62] = 0"
proof -
  have "lost_sub (root nn_trie_init) [0x61] = None" by (simp add: nn_trie_init_def)
  with trie_subscribe [OF trie_reach.init, of "[0x61]"] show ?thesis by auto
qed

text \<open>C27: unsubscribing, on any trie that subscriptions and unsubscriptions have built, as long as none of the latter met a hole of a
  dense node. A string that has a subscription loses one, and the result tells whether it was the last; every other string keeps its
  subscriptions, except for the string of a node that changes from the dense to the sparse representation, whose
  subscriptions are forgotten. For a string without a subscription that does not meet such a hole, either the trie stays as it is or, where the
  search ends at the node of a longer string, the call does what unsubscribing that longer string does; only on an
  empty trie does it crash, unless the string is empty.\<close>

theorem trie_unsubscribe:
  assumes "trie_reach t"
  shows "(0 < subs t d \<longrightarrow> (\<exists>t'. nn_trie_unsubscribe t d = Some (t', Inr (if subs t d = 1 then 1 else 0)) \<and> trie_reach t'
       \<and> subs t' d = subs t d - 1 \<and> (\<forall>s. s \<noteq> d \<longrightarrow> subs t' s = (if unsub_lost (root t) d = Some s then 0 else subs t s))))
     \<and> (subs t d = 0 \<and> \<not> unsub_hole (root t) d \<longrightarrow>
         (root t = None \<and> d \<noteq> [] \<and> nn_trie_unsubscribe t d = None)
       \<or> (\<exists>rc. nn_trie_unsubscribe t d = Some (t, rc))
       \<or> (\<exists>e. e \<noteq> [] \<and> 0 < subs t (d @ e) \<and> nn_trie_unsubscribe t d = nn_trie_unsubscribe t (d @ e)))"
proof (intro conjI impI)
  assume pos: "0 < subs t d"
  from nn_trie_unsubscribe_ok [OF trie_reach_inv [OF assms] pos] obtain t' where
    t': "nn_trie_unsubscribe t d = Some (t', Inr (if subs t d = 1 then 1 else 0))" "subs t' = unsubscribed (root t) d (unsub_lost (root t) d)"
    by blast
  from trie_reach.unsubscribe [OF assms subs_no_hole [OF pos] t'(1)] t'
  show "\<exists>t'. nn_trie_unsubscribe t d = Some (t', Inr (if subs t d = 1 then 1 else 0)) \<and> trie_reach t'
       \<and> subs t' d = subs t d - 1 \<and> (\<forall>s. s \<noteq> d \<longrightarrow> subs t' s = (if unsub_lost (root t) d = Some s then 0 else subs t s))"
    by (auto simp: unsubscribed_def subs_def)
next
  assume "subs t d = 0 \<and> \<not> unsub_hole (root t) d"
  then show "(root t = None \<and> d \<noteq> [] \<and> nn_trie_unsubscribe t d = None)
       \<or> (\<exists>rc. nn_trie_unsubscribe t d = Some (t, rc))
       \<or> (\<exists>e. e \<noteq> [] \<and> 0 < subs t (d @ e) \<and> nn_trie_unsubscribe t d = nn_trie_unsubscribe t (d @ e))"
    using nn_trie_unsubscribe_missing [of t d] nn_trie_unsubscribe_empty [of t d] by (cases "root t") auto
qed

definition abc_trie :: nn_trie where
  "abc_trie = \<lparr>root = Some (TNode 1 [0x61, 0x62, 0x63] (Sparse []))\<rparr>"

lemma abc_trie_facts: "trie_reach abc_trie" "subs abc_trie = (\<lambda>s. if s = [0x61, 0x62, 0x63] then 1 else 0)"
proof -
  have n: "new_nodes [0x61, 0x62, 0x63] = TNode 1 [0x61, 0x62, 0x63] (Sparse [])"
    by (subst new_nodes.simps) (simp add: NN_TRIE_PREFIX_MAX_def)
  then have "nn_trie_subscribe nn_trie_init [0x61, 0x62, 0x63] = Some (abc_trie, 1)"
    by (simp add: nn_trie_subscribe_def nn_trie_init_def abc_trie_def)
  from trie_reach.subscribe [OF trie_reach.init _ this] show "trie_reach abc_trie" by simp
  show "subs abc_trie = (\<lambda>s. if s = [0x61, 0x62, 0x63] then 1 else 0)"
    using sub_count_new_nodes [of "[0x61, 0x62, 0x63]"] by (simp add: n subs_def abc_trie_def fun_eq_iff)
qed

theorem trie_unsubscribe_witness:
  "\<exists>t'. nn_trie_unsubscribe abc_trie [0x61, 0x62, 0x63] = Some (t', Inr 1) \<and> subs t' [0x61, 0x62, 0x63] = 0"
  using trie_unsubscribe [OF abc_trie_facts(1), of "[0x61, 0x62, 0x63]"] by (auto simp: abc_trie_facts(2))

text \<open>C25: a message is accepted exactly when one of its prefixes is subscribed. The answer is definite for all messages exactly when the
  trie is empty or the string of its root is subscribed itself; otherwise some message is read beyond its end, and is not
  accepted when the byte found there leads nowhere.\<close>

theorem trie_match:
  "(nn_trie_match t data = Some True \<longleftrightarrow> (\<exists>s. prefix s data \<and> 0 < subs t s))
   \<and> ((\<forall>data. nn_trie_match t data \<noteq> None) \<longleftrightarrow> (case root t of None \<Rightarrow> True | Some n \<Rightarrow> nn_node_has_subscribers n))"
proof
  show "nn_trie_match t data = Some True \<longleftrightarrow> (\<exists>s. prefix s data \<and> 0 < subs t s)"
    using nn_node_match_ok [of "root t" data] by (auto simp: nn_trie_match_def subs_def wants_def split: option.splits)
  show "(\<forall>data. nn_trie_match t data \<noteq> None) \<longleftrightarrow> (case root t of None \<Rightarrow> True | Some n \<Rightarrow> nn_node_has_subscribers n)"
    using decides_iff [of t] by (auto simp: decides_def split: option.splits)
qed

section \<open>What a SUB socket delivers\<close>

text \<open>C28: a SUB socket with one ready publisher over inproc, and with subscriptions that decide every message (by C25, those where the string of the
  trie's root is subscribed itself, or none), delivers the first waiting message that has a subscribed prefix, drops the messages
  before it, and leaves those after it waiting; when no waiting message has one it drops them all and reports EAGAIN.\<close>

theorem sub_recv_first_wanted:
  assumes fq: "priolist_inv (xsub_fq s)" "pl_active (xsub_fq s) = {p}" and t: "\<forall>data. nn_trie_match (xsub_trie s) data \<noteq> None"
    and w: "trans_ok inproc_inv w" "in_ready w {p}" "inbox w p xs"
  shows "\<exists>w' fq rest. nn_xsub_recv (nn_sinproc_pipebase_vfptr junk) w s = Some (w', s\<lparr>xsub_fq := fq\<rparr>, case rest of [] \<Rightarrow> Inl EAGAIN | m # _ \<Rightarrow> Inr m)
     \<and> rest = dropWhile (\<lambda>m. \<not> (\<exists>d. prefix d (body m) \<and> 0 < subs (xsub_trie s) d)) xs \<and> inbox w' p (tl rest)"
proof -
  let ?P = "\<lambda>m. wants (root (xsub_trie s)) (body m)"
  have acc: "(\<lambda>m. nn_trie_match (xsub_trie s) (body m)) = (\<lambda>m. Some (?P m))" using t decides_match by (simp add: decides_iff)
  from inproc_recv_until [OF fq w, of junk ?P] obtain w' fq' rc where
    *: "fq_recv_until (nn_sinproc_pipebase_vfptr junk) (\<lambda>m. Some (?P m)) w (xsub_fq s)
        = Some (w', fq', case dropWhile (\<lambda>m. \<not> ?P m) xs of [] \<Rightarrow> Inl EAGAIN | x # _ \<Rightarrow> Inr (rc, p, x))"
      "inbox w' p (tl (dropWhile (\<lambda>m. \<not> ?P m) xs))" by blast
  have "nn_xsub_recv (nn_sinproc_pipebase_vfptr junk) w s
      = Some (w', s\<lparr>xsub_fq := fq'\<rparr>, case dropWhile (\<lambda>m. \<not> ?P m) xs of [] \<Rightarrow> Inl EAGAIN | m # _ \<Rightarrow> Inr m)"
    using *(1) by (cases "dropWhile (\<lambda>m. \<not> ?P m) xs") (simp_all add: nn_xsub_recv_def acc del: dropWhile_eq_Nil_conv)
  with *(2) show ?thesis by (fastforce simp: wants_def subs_def)
qed

text \<open>A socket that is subscribed to the messages that start with a zero byte.\<close>

definition zero_sub :: nn_xsub where
  "zero_sub = \<lparr>xsub_fq = xrep_inpipes example_xrep, xsub_trie = \<lparr>root = Some (new_nodes [0])\<rparr>\<rparr>"

theorem sub_recv_first_wanted_witness:
  "\<exists>w' s'. nn_xsub_recv (nn_sinproc_pipebase_vfptr empty_msg) request_world zero_sub = Some (w', s', Inr short_request) \<and> inbox w' 1 []"
proof -
  have n: "new_nodes [0] = TNode 1 [0] (Sparse [])" by (subst new_nodes.simps) (simp add: NN_TRIE_PREFIX_MAX_def)
  have "decides (xsub_trie zero_sub)" by (simp add: zero_sub_def decides_def n nn_node_has_subscribers_def)
  then have t: "\<forall>data. nn_trie_match (xsub_trie zero_sub) data \<noteq> None" unfolding decides_iff .
  have "hd (body short_request) = 0 \<and> body short_request \<noteq> []" by code_simp
  then have "prefix [0] (body short_request)" by (cases "body short_request") simp_all
  then have wanted: "\<exists>d. prefix d (body short_request) \<and> 0 < subs (xsub_trie zero_sub) d"
    by (intro exI [of _ "[0]"]) (simp add: subs_def zero_sub_def sub_count_new_nodes)
  have "\<exists>w' fq rest. nn_xsub_recv (nn_sinproc_pipebase_vfptr empty_msg) request_world zero_sub
      = Some (w', zero_sub\<lparr>xsub_fq := fq\<rparr>, case rest of [] \<Rightarrow> Inl EAGAIN | m # _ \<Rightarrow> Inr m)
     \<and> rest = dropWhile (\<lambda>m. \<not> (\<exists>d. prefix d (body m) \<and> 0 < subs (xsub_trie zero_sub) d)) [short_request] \<and> inbox w' 1 (tl rest)"
    by (rule sub_recv_first_wanted [OF _ _ t request_trans_ok(1) _ request_inbox])
      (use example_xrep_inv(1,2) request_in_ready in \<open>simp_all add: zero_sub_def xrep_inv_def\<close>)
  moreover have "dropWhile (\<lambda>m. \<not> (\<exists>d. prefix d (body m) \<and> 0 < subs (xsub_trie zero_sub) d)) [short_request] = [short_request]"
    using wanted by (simp only: dropWhile.simps simp_thms if_False)
  ultimately show ?thesis by fastforce
qed

section \<open>Where the trie falls short\<close>

fun subscribe_all :: "nn_trie \<Rightarrow> bytes list \<Rightarrow> nn_trie option" where
  "subscribe_all t [] = Some t"
| "subscribe_all t (d # ds) = (case nn_trie_subscribe t d of None \<Rightarrow> None | Some (t, rc) \<Rightarrow> subscribe_all t ds)"

text \<open>Subscriptions are forgotten. A socket that subscribes to a string and then to nine strings that continue it with different bytes no
  longer accepts the messages that only the first subscription covers: the ninth changes the node of that string to the dense
  representation, which starts without subscribers.\<close>

theorem trie_dense_forgets:
  "\<exists>t t'. subscribe_all nn_trie_init ([0x61] # map (\<lambda>c. [0x61, c]) [0x61, 0x62, 0x63, 0x64, 0x65, 0x66, 0x67, 0x68]) = Some t
     \<and> nn_trie_match t [0x61, 0x7a] = Some True
     \<and> nn_trie_subscribe t [0x61, 0x69] = Some (t', 1) \<and> nn_trie_match t' [0x61, 0x7a] = Some False"
proof -
  have "(case subscribe_all nn_trie_init ([0x61] # map (\<lambda>c. [0x61, c]) [0x61, 0x62, 0x63, 0x64, 0x65, 0x66, 0x67, 0x68]) of
     None \<Rightarrow> False | Some t \<Rightarrow> nn_trie_match t [0x61, 0x7a] = Some True \<and> (case nn_trie_subscribe t [0x61, 0x69] of
       None \<Rightarrow> False | Some (t', rc) \<Rightarrow> rc = 1 \<and> nn_trie_match t' [0x61, 0x7a] = Some False))"
    by code_simp
  then show ?thesis by (auto split: option.splits)
qed

text \<open>The hole of a dense node. After subscribing to the nine one letter strings a to i and to k, unsubscribing j, which is not
  subscribed and lies between them, is reported as the removal of a last subscription and lowers the number of children of the root. When then
  a is unsubscribed, the node is converted one step too early and the assertion on the number of its children fails.\<close>

theorem trie_hole_breaks:
  "\<exists>t t'. subscribe_all nn_trie_init (map (\<lambda>c. [c]) [0x61, 0x62, 0x63, 0x64, 0x65, 0x66, 0x67, 0x68, 0x69, 0x6b]) = Some t
     \<and> unsub_hole (root t) [0x6a] \<and> subs t [0x6a] = 0 \<and> nn_trie_unsubscribe t [0x6a] = Some (t', Inr 1)
     \<and> subs t' [0x61] = 1 \<and> nn_trie_unsubscribe t' [0x61] = None"
proof -
  have "(case subscribe_all nn_trie_init (map (\<lambda>c. [c]) [0x61, 0x62, 0x63, 0x64, 0x65, 0x66, 0x67, 0x68, 0x69, 0x6b]) of
     None \<Rightarrow> False | Some t \<Rightarrow> unsub_hole (root t) [0x6a] \<and> subs t [0x6a] = 0 \<and> (case nn_trie_unsubscribe t [0x6a] of
       None \<Rightarrow> False | Some (t', rc) \<Rightarrow> rc = Inr 1 \<and> subs t' [0x61] = 1 \<and> nn_trie_unsubscribe t' [0x61] = None))"
    by code_simp
  then show ?thesis by (auto split: option.splits)
qed

text \<open>Unsubscribing from a string that is not subscribed is not refused. On an empty trie it dereferences a null
  pointer unless the string is empty, and the empty string, which is never compared with the root, removes the subscription of
  the root, whatever its string is.\<close>

theorem trie_unsubscribe_missing:
  "nn_trie_unsubscribe nn_trie_init (c # d) = None
   \<and> nn_trie_unsubscribe abc_trie [] = Some (nn_trie_init, Inr 1)
   \<and> nn_trie_match abc_trie [0x61, 0x62, 0x63] = Some True \<and> nn_trie_match nn_trie_init [0x61, 0x62, 0x63] = Some False"
proof (intro conjI)
  show "nn_trie_unsubscribe nn_trie_init (c # d) = None"
    by (simp add: nn_trie_unsubscribe_def nn_trie_init_def nn_node_unsubscribe.simps)
qed (code_simp+)

end
