(* ===== verification/Req_Properties.thy ===== *)
theory Req_Properties
  imports Reqrep_Properties
begin

text \<open>
  Properties of the REQ socket: no sequence of operations of pipes, user and worker aborts; a reply is accepted exactly when it carries
  the number of the request in progress; a request that got no reply is sent again unchanged.
\<close>

section \<open>Receiving replies over inproc\<close>

definition answers :: "u32 \<Rightarrow> nn_msg \<Rightarrow> bool" where
  "answers i m \<longleftrightarrow> take 4 (body m) = word_bytes (i OR 0x80000000)"

text \<open>The loop stops at a message that answers the request, but also at one that is too short to carry a number.\<close>

definition stops_reading :: "u32 \<Rightarrow> nn_msg \<Rightarrow> bool" where
  "stops_reading i m \<longleftrightarrow> length (body m) < 4 \<or> answers i m"

lemma answers_length: "answers i m \<Longrightarrow> 4 \<le> length (body m)"
  using length_word_bytes [of "i OR 0x80000000"] unfolding answers_def by (metis length_take min.absorb_iff2 nle_le min.commute)

definition reply_part :: "nn_msg \<Rightarrow> nn_msg" where
  "reply_part m = m\<lparr>body := drop 4 (body m), sphdr := []\<rparr>"

lemma getl_inject:
  assumes "length bs = 4"
  shows "nn_getl bs = Some v \<longleftrightarrow> bs = word_bytes v"
  using wire32.get_injective [of bs "word_bytes v"] getl_word_bytes [of v "[]"] assms by auto

lemma reply_ignored_iff:
  assumes "nn_req_inprogress q" and "4 \<le> length (body m)"
  shows "reply_ignored q (m\<lparr>sphdr := take 4 (body m), body := drop 4 (body m)\<rparr>) = Some (\<not> answers (task_id (req_task q)) m)"
proof -
  have len: "length (take 4 (body m)) = 4" using assms(2) by simp
  obtain v where v: "nn_getl (take 4 (body m)) = Some v" using wire32.get_total [of "take 4 (body m)"] assms(2) by auto
  have "bit ((task_id (req_task q) OR 0x80000000) AND 0x80000000) 31" by (simp add: bit_simps bit_numeral_rec)
  then have ne: "(task_id (req_task q) OR 0x80000000) AND 0x80000000 \<noteq> 0" by auto
  have "v = task_id (req_task q) OR 0x80000000 \<longleftrightarrow> answers (task_id (req_task q)) m"
    using getl_inject [OF len] v by (auto simp: answers_def)
  then show ?thesis using assms v ne len by (auto simp: reply_ignored_def)
qed

lemma inproc_xreq_recv:
  assumes x: "xreq_inv x" "pl_active (xreq_fq x) = {p}" and w: "trans_ok inproc_inv w" "in_ready w {p}" "inbox w p (m # ms)"
    and m: "sphdr m = []" "4 \<le> length (body m)"
  shows "\<exists>w' fq. nn_xreq_recv (nn_sinproc_pipebase_vfptr junk) w x
      = Some (w', x\<lparr>xreq_fq := fq\<rparr>, Inr (m\<lparr>sphdr := take 4 (body m), body := drop 4 (body m)\<rparr>))
    \<and> inbox w' p ms \<and> pl_active fq = (if ms = [] then {} else {p})"
proof -
  from x(1) have "priolist_inv (xreq_fq x)" by (simp add: xreq_inv_def)
  from inproc_fq_recv [OF this x(2) w, of junk] show ?thesis using m by (auto simp: nn_xreq_recv_def split_word_def)
qed

lemma inproc_xreq_short:
  assumes x: "xreq_inv x" "pl_active (xreq_fq x) = {p}" and w: "trans_ok inproc_inv w" "in_ready w {p}" "inbox w p (m # ms)"
    and m: "length (body m) < 4"
  shows "\<exists>w' fq. nn_xreq_recv (nn_sinproc_pipebase_vfptr junk) w x = Some (w', x\<lparr>xreq_fq := fq\<rparr>, Inl EAGAIN)
    \<and> xreq_recv_terminates (nn_sinproc_pipebase_vfptr junk) w x \<and> inbox w' p ms"
proof -
  from x(1) have "priolist_inv (xreq_fq x)" by (simp add: xreq_inv_def)
  from inproc_fq_recv [OF this x(2) w, of junk] show ?thesis
    using m by (auto simp: nn_xreq_recv_def split_word_def xreq_recv_terminates_def)
qed

lemma inproc_req_in_short:
  assumes inv: "req_inv inproc_inv (w, s)" and fq: "pl_active (xreq_fq (xreq_of s)) = {p}" and w: "inbox w p (m # ms)" "length (body m) < 4"
  shows "\<exists>w' s'. req_in_loop (nn_sinproc_pipebase_vfptr junk) now (w, s) = Some (w', s') \<and> req_inv inproc_inv (w', s')
    \<and> task_id (task_of s') = task_id (task_of s) \<and> task_request (task_of s') = task_request (task_of s) \<and> inbox w' p ms
    \<and> st_of s' = st_of s \<and> task_reply (task_of s') = None"
proof -
  let ?vf = "nn_sinproc_pipebase_vfptr junk"
  have x: "xreq_sys inproc_inv (w, xreq_of s)" "xreq_inv (xreq_of s)" "trans_ok inproc_inv w" and ok: "req_ok s"
    using inv by (auto simp: req_inv_def sys_inv_def)
  have "in_ready w {p}" using fq inproc.xreq.SI_ready(2) [OF x(1)] by auto
  from inproc_xreq_short [OF x(2) fq x(3) this w, of junk] obtain w1 f where
    1: "nn_xreq_recv ?vf w (xreq_of s) = Some (w1, (xreq_of s)\<lparr>xreq_fq := f\<rparr>, Inl EAGAIN)" "xreq_recv_terminates ?vf w (xreq_of s)"
      "inbox w1 p ms" by blast
  let ?x = "(xreq_of s)\<lparr>xreq_fq := f\<rparr>"
  let ?s = "upd_task (\<lambda>t. t\<lparr>task_reply := None\<rparr>) (upd_req (\<lambda>q. q\<lparr>req_xreq := ?x\<rparr>) s)"
  have "xreq_sys inproc_inv (w1, ?x)" using inproc.xreq_recv_sys [OF x(1), of junk] 1(1) by auto
  moreover have "req_ok (upd_req (\<lambda>q. q\<lparr>req_xreq := ?x\<rparr>) s)" by (rule req_ok_xreq [OF ok]) simp
  ultimately have "req_inv inproc_inv (w1, ?s)"
    using req_ok_task [of "\<lambda>t. t\<lparr>task_reply := None\<rparr>" "upd_req (\<lambda>q. q\<lparr>req_xreq := ?x\<rparr>) s"] by (simp add: req_inv_def)
  moreover have "req_in_loop ?vf now (w, s) = Some (w1, ?s)"
    using 1(1,2) by (subst req_in_loop.simps) (simp add: Let_def)
  ultimately show ?thesis using 1(3) by (intro exI [of _ w1] exI [of _ ?s]) simp
qed

lemma inproc_req_in:
  assumes "req_inv inproc_inv (w, s)" and "nn_req_inprogress (td_sock s)"
    and "pl_active (xreq_fq (xreq_of s)) = (if xs = [] then {} else {p})" and "inbox w p xs"
    and "\<forall>m \<in> set xs. sphdr m = []"
  shows "\<exists>w' s'. req_in_loop (nn_sinproc_pipebase_vfptr junk) now (w, s) = Some (w', s') \<and> req_inv inproc_inv (w', s')
    \<and> task_id (task_of s') = task_id (task_of s) \<and> task_request (task_of s') = task_request (task_of s)
    \<and> inbox w' p (tl (dropWhile (\<lambda>m. \<not> stops_reading (task_id (task_of s)) m) xs))
    \<and> (case dropWhile (\<lambda>m. \<not> stops_reading (task_id (task_of s)) m) xs of
        [] \<Rightarrow> st_of s' = st_of s \<and> task_reply (task_of s') = (if xs = [] then task_reply (task_of s) else None)
      | m # _ \<Rightarrow> if answers (task_id (task_of s)) m
          then st_of s' = (if st_of s = NN_REQ_STATE_ACTIVE then NN_REQ_STATE_STOPPING_TIMER else st_of s)
            \<and> task_reply (task_of s') = Some (reply_part m)
          else st_of s' = st_of s \<and> task_reply (task_of s') = None)"
  using assms
proof (induction xs arbitrary: w s)
  case Nil
  let ?vf = "nn_sinproc_pipebase_vfptr junk"
  have x: "xreq_sys inproc_inv (w, xreq_of s)" "xreq_inv (xreq_of s)"
    using Nil.prems(1) by (auto simp: req_inv_def sys_inv_def)
  then have "nn_fq_recv ?vf w (xreq_fq (xreq_of s)) = Some (w, xreq_fq (xreq_of s), Inl EAGAIN)"
    using inproc.nn_fq_recv_empty [of "xreq_fq (xreq_of s)"] Nil.prems(3) by (simp add: xreq_inv_def)
  then have "req_in_loop ?vf now (w, s) = Some (w, s)"
    by (subst req_in_loop.simps) (simp add: nn_xreq_recv_def xreq_recv_terminates_def Let_def)
  then show ?case using Nil.prems by simp
next
  case (Cons m ms)
  let ?vf = "nn_sinproc_pipebase_vfptr junk" and ?i = "task_id (task_of s)"
  have x: "xreq_sys inproc_inv (w, xreq_of s)" "xreq_inv (xreq_of s)" "trans_ok inproc_inv w" and ok: "req_ok s"
    using Cons.prems(1) by (auto simp: req_inv_def sys_inv_def)
  have fq: "pl_active (xreq_fq (xreq_of s)) = {p}" "in_ready w {p}"
    using Cons.prems(3) inproc.xreq.SI_ready(2) [OF x(1)] by auto
  show ?case
  proof (cases "length (body m) < 4")
    case short: True
    then have "stops_reading ?i m" "\<not> answers ?i m" using answers_length [of ?i m] by (auto simp: stops_reading_def)
    then show ?thesis using inproc_req_in_short [OF Cons.prems(1) fq(1) Cons.prems(4) short, of junk now] by simp
  next
    case long: False
    then have m: "sphdr m = []" "4 \<le> length (body m)" and stop: "stops_reading ?i m = answers ?i m"
      using Cons.prems(5) by (auto simp: stops_reading_def)
    let ?m = "m\<lparr>sphdr := take 4 (body m), body := drop 4 (body m)\<rparr>"
    from inproc_xreq_recv [OF x(2) fq(1) x(3) fq(2) Cons.prems(4) m, of junk] obtain w1 f where
      1: "nn_xreq_recv ?vf w (xreq_of s) = Some (w1, (xreq_of s)\<lparr>xreq_fq := f\<rparr>, Inr ?m)" "inbox w1 p ms"
        "pl_active f = (if ms = [] then {} else {p})" by blast
    let ?x = "(xreq_of s)\<lparr>xreq_fq := f\<rparr>"
    let ?s = "upd_req (\<lambda>q. q\<lparr>req_xreq := ?x\<rparr>) s"
    have x1: "xreq_sys inproc_inv (w1, ?x)" using inproc.xreq_recv_sys [OF x(1), of junk] 1(1) by auto
    have ok1: "req_ok ?s" by (rule req_ok_xreq [OF ok]) simp
    have prog: "nn_req_inprogress (td_sock ?s)" using Cons.prems(2) by (simp add: nn_req_inprogress_def)
    have ign: "reply_ignored (td_sock ?s) ?m = Some (\<not> answers ?i m)"
      using reply_ignored_iff [OF prog m(2)] by simp
    let ?t = "\<lambda>v. upd_task (\<lambda>t. t\<lparr>task_reply := v\<rparr>) ?s"
    have task: "req_ok (?t v)" "req_inv inproc_inv (w1, ?t v)" for v
      using ok1 x1 req_ok_task [of "\<lambda>t. t\<lparr>task_reply := v\<rparr>" ?s] by (simp_all add: req_inv_def)
    show ?thesis
    proof (cases "answers ?i m")
      case False
      have st: "st_of (?t None) = st_of s" "task_id (task_of (?t None)) = ?i" "task_request (task_of (?t None)) = task_request (task_of s)"
        "task_reply (task_of (?t None)) = None" "pl_active (xreq_fq (xreq_of (?t None))) = (if ms = [] then {} else {p})"
        "nn_req_inprogress (td_sock (?t None))"
        using 1(3) Cons.prems(2) by (simp_all add: nn_req_inprogress_def)
      define s2 where "s2 = ?t None"
      have loop: "req_in_loop ?vf now (w, s) = req_in_loop ?vf now (w1, s2)"
        using 1(1) ign False by (subst req_in_loop.simps) (simp add: s2_def Let_def)
      have "\<exists>w' s'. req_in_loop ?vf now (w1, s2) = Some (w', s') \<and> req_inv inproc_inv (w', s')
        \<and> task_id (task_of s') = task_id (task_of s2) \<and> task_request (task_of s') = task_request (task_of s2)
        \<and> inbox w' p (tl (dropWhile (\<lambda>m. \<not> stops_reading (task_id (task_of s2)) m) ms))
        \<and> (case dropWhile (\<lambda>m. \<not> stops_reading (task_id (task_of s2)) m) ms of
            [] \<Rightarrow> st_of s' = st_of s2 \<and> task_reply (task_of s') = (if ms = [] then task_reply (task_of s2) else None)
          | m # _ \<Rightarrow> if answers (task_id (task_of s2)) m
              then st_of s' = (if st_of s2 = NN_REQ_STATE_ACTIVE then NN_REQ_STATE_STOPPING_TIMER else st_of s2)
                \<and> task_reply (task_of s') = Some (reply_part m)
              else st_of s' = st_of s2 \<and> task_reply (task_of s') = None)"
        using st(5,6) task(2) [of None] 1(2) Cons.prems(5) unfolding s2_def by (intro Cons.IH) auto
      then show ?thesis using False unfolding loop st(1-4) [folded s2_def]
        by (simp only: dropWhile.simps if_cancel list.distinct if_False if_True simp_thms stop)
    next
      case True
      define s2 where "s2 = ?t (Some (reply_part m))"
      have st: "st_of s2 = st_of s" "task_id (task_of s2) = ?i" "task_request (task_of s2) = task_request (task_of s)"
        "task_reply (task_of s2) = Some (reply_part m)" "xreq_of s2 = ?x" by (simp_all add: s2_def)
      have inv2: "req_inv inproc_inv (w1, s2)" using task unfolding s2_def by blast
      have loop: "req_in_loop ?vf now (w, s) = (if st_of s = NN_REQ_STATE_ACTIVE then req_action ?vf now NN_REQ_ACTION_IN (w1, s2) else Some (w1, s2))"
        using 1(1) ign True by (subst req_in_loop.simps) (simp add: s2_def reply_part_def Let_def)
      show ?thesis
      proof (cases "st_of s = NN_REQ_STATE_ACTIVE")
        case act: True
        have core: "req_core s2" "timer_running s2"
          using inv2 act st(1) by (auto simp: req_inv_def req_ok_def req_core_def req_timer_def)
        have "req_action ?vf now NN_REQ_ACTION_IN (w1, s2) = req_leave_active NN_REQ_STATE_STOPPING_TIMER (w1, s2)"
          using req_action_running [OF core(1), of NN_REQ_ACTION_IN] act st(1) by (simp add: req_consts nn_req_handler_def)
        with req_leave_active_ok [OF core, of NN_REQ_STATE_STOPPING_TIMER w1] obtain s3 where
          s3: "req_action ?vf now NN_REQ_ACTION_IN (w1, s2) = Some (w1, s3)" "req_ok s3"
            "td_sock s3 = (td_sock s2)\<lparr>req_state := NN_REQ_STATE_STOPPING_TIMER, req_task := (task_of s2)\<lparr>task_sent_to := None\<rparr>\<rparr>" by auto
        have "req_inv inproc_inv (w1, s3)" using s3(2,3) inv2 by (simp add: req_inv_def)
        then show ?thesis using loop s3 act st 1(2) True stop by simp
      next
        case False then show ?thesis using loop st 1(2) True inv2 stop by simp
      qed
    qed
  qed
qed

lemma req_deliver_in:
  assumes inv: "req_inv inproc_inv (w, s)" and prog: "nn_req_inprogress (td_sock s)" and ev: "w_events w = (p, NN_PIPE_IN) # evs"
    and fq: "pl_active (xreq_fq (xreq_of s)) = {}" and xs: "inbox w p xs" "\<forall>m \<in> set xs. sphdr m = []"
  shows "\<exists>w' s'. sys_exec (nn_req_sockbase_vfptr (nn_sinproc_pipebase_vfptr junk) now) Deliver (w, s) = Some (w', s')
    \<and> xs \<noteq> [] \<and> req_inv inproc_inv (w', s') \<and> task_id (task_of s') = task_id (task_of s)
    \<and> inbox w' p (tl (dropWhile (\<lambda>m. \<not> stops_reading (task_id (task_of s)) m) xs))
    \<and> (case dropWhile (\<lambda>m. \<not> stops_reading (task_id (task_of s)) m) xs of
        [] \<Rightarrow> st_of s' = st_of s \<and> task_reply (task_of s') = None
      | m # _ \<Rightarrow> if answers (task_id (task_of s)) m
          then st_of s' = (if st_of s = NN_REQ_STATE_ACTIVE then NN_REQ_STATE_STOPPING_TIMER else st_of s)
            \<and> task_reply (task_of s') = Some (reply_part m)
          else st_of s' = st_of s \<and> task_reply (task_of s') = None)"
proof -
  let ?vf = "nn_sinproc_pipebase_vfptr junk" and ?w = "w\<lparr>w_events := evs\<rparr>"
  have x: "xreq_sys inproc_inv (w, xreq_of s)" and ok: "req_ok s" using inv by (auto simp: req_inv_def)
  note d = inproc.xreq.SI_D [OF x]
  have p: "p \<in> req_members s" "in_idle w p" "pipe_active w p" using d(3,6) ev by (auto simp: dir_ok_def)
  from inproc.xreq.exec_deliver [OF x, of junk] ev obtain w1 x1 where
    1: "nn_xreq_in ?w (xreq_of s) p = Some (w1, x1)" "xreq_sys inproc_inv (w1, x1)"
    by (auto simp: nn_sock_pipe_event_def nn_xreq_sockbase_vfptr_def)
  then have w1: "w1 = ?w" "xreq_lb x1 = xreq_lb (xreq_of s)" by (auto simp: nn_xreq_in_def bind_Some_iff)
  from inproc.xreq.in_law [OF d(1) p(1), where w = ?w and junk = junk] fq 1(1) have act: "pl_active (xreq_fq x1) = {p}"
    by (auto simp: nn_xreq_sockbase_vfptr_def tracked_def)
  have "link_ok (w_pipes w p) w p" using d(2) p(3) by (simp add: trans_ok_def inproc_inv_world inproc_ok_def pipe_active_def)
  then have ne: "xs \<noteq> []" using p(2) xs(1) by (auto simp: link_ok_def in_idle_def inbox_def mq_rep_empty)
  let ?s = "upd_req (\<lambda>q. q\<lparr>req_xreq := x1\<rparr>) s"
  have "req_ok ?s" by (rule req_ok_xreq [OF ok]) (simp add: w1(2))
  then have "req_inv inproc_inv (?w, ?s)" using 1(2) w1(1) by (simp add: req_inv_def)
  moreover have "nn_req_inprogress (td_sock ?s)" using prog by (simp add: nn_req_inprogress_def)
  moreover have "pl_active (xreq_fq (xreq_of ?s)) = (if xs = [] then {} else {p})" using act ne by simp
  moreover have "inbox ?w p xs" using xs(1) inbox_frame [of ?w w] by (simp add: ses_def [abs_def])
  ultimately have "\<exists>w' s'. req_in_loop ?vf now (?w, ?s) = Some (w', s') \<and> req_inv inproc_inv (w', s')
    \<and> task_id (task_of s') = task_id (task_of ?s) \<and> task_request (task_of s') = task_request (task_of ?s)
    \<and> inbox w' p (tl (dropWhile (\<lambda>m. \<not> stops_reading (task_id (task_of ?s)) m) xs))
    \<and> (case dropWhile (\<lambda>m. \<not> stops_reading (task_id (task_of ?s)) m) xs of
        [] \<Rightarrow> st_of s' = st_of ?s \<and> task_reply (task_of s') = (if xs = [] then task_reply (task_of ?s) else None)
      | m # _ \<Rightarrow> if answers (task_id (task_of ?s)) m
          then st_of s' = (if st_of ?s = NN_REQ_STATE_ACTIVE then NN_REQ_STATE_STOPPING_TIMER else st_of ?s)
            \<and> task_reply (task_of s') = Some (reply_part m)
          else st_of s' = st_of ?s \<and> task_reply (task_of s') = None)"
    by (rule inproc_req_in) (rule xs(2))
  moreover have "sys_exec (nn_req_sockbase_vfptr ?vf now) Deliver (w, s) = req_in_loop ?vf now (?w, ?s)"
    using ev 1(1) w1(1) by (simp add: nn_sock_pipe_event_def nn_req_sockbase_vfptr_def nn_req_in_def)
  moreover have "st_of ?s = st_of s" "task_of ?s = task_of s" by simp_all
  ultimately show ?thesis using ne by (simp only: if_False) blast
qed

section \<open>Safety\<close>



lemma req_create_facts:
  "timer_idle (nn_req_create i)" "quiet NN_REQ_SRC_RESEND_TIMER (nn_req_create i)" "sock_fsm (nn_req_create i) = NN_FSM_STATE_IDLE"
  "\<not> td_stopped (nn_req_create i)" "td_sock (nn_req_create i) = nn_req_init i nn_xreq_init"
  by (simp_all add: nn_req_create_def nn_timer_init_def nn_fsm_init_def nn_fsm_init_root_def nn_ctx_init_def timer_idle_def quiet_def
      nn_timerset_init_def timerset_inv_def)



section \<open>Replies\<close>

text \<open>C16: replies are matched with requests. When a pipe announces that it can be read, a socket
  that waits for a reply, with no other pipe to read from, reads the messages that wait there up to the first one that starts with the number of its request or
  is shorter than the 4 bytes of a number. A message that starts with the number is accepted: the rest of it becomes the reply and the timer
  is stopped. Otherwise the socket goes on waiting. So a reply behind messages of at least 4 bytes is found, while one
  behind a shorter message stays unread, with the messages after it.\<close>

theorem req_reply_matching:
  assumes inv: "req_inv inproc_inv (w, s)" and st: "st_of s = NN_REQ_STATE_ACTIVE" and ev: "w_events w = (p, NN_PIPE_IN) # evs"
    and fq: "pl_active (xreq_fq (xreq_of s)) = {}" and xs: "inbox w p xs" "\<forall>m \<in> set xs. sphdr m = []"
  shows "\<exists>w' s'. sys_exec (nn_req_sockbase_vfptr (nn_sinproc_pipebase_vfptr junk) now) Deliver (w, s) = Some (w', s')
    \<and> inbox w' p (tl (dropWhile (\<lambda>m. 4 \<le> length (body m) \<and> \<not> answers (task_id (task_of s)) m) xs))
    \<and> (case dropWhile (\<lambda>m. 4 \<le> length (body m) \<and> \<not> answers (task_id (task_of s)) m) xs of
        [] \<Rightarrow> st_of s' = NN_REQ_STATE_ACTIVE \<and> task_reply (task_of s') = None
      | m # _ \<Rightarrow> if answers (task_id (task_of s)) m
          then st_of s' = NN_REQ_STATE_STOPPING_TIMER \<and> task_reply (task_of s') = Some (reply_part m)
          else st_of s' = NN_REQ_STATE_ACTIVE \<and> task_reply (task_of s') = None)"
proof -
  have stop: "(\<lambda>m. \<not> stops_reading (task_id (task_of s)) m) = (\<lambda>m. 4 \<le> length (body m) \<and> \<not> answers (task_id (task_of s)) m)"
    by (auto simp: stops_reading_def fun_eq_iff)
  have "nn_req_inprogress (td_sock s)" using st by (simp add: nn_req_inprogress_def)
  from req_deliver_in [OF inv this ev fq xs, of junk now, unfolded stop st] show ?thesis
    by (simp only: if_True simp_thms) blast
qed

text \<open>A world with one pipe, on which one message waits and whose announcement is queued.\<close>

definition waiting_world :: "nn_msg \<Rightarrow> inproc world" where
  "waiting_world m = \<lparr>w_pipes = (\<lambda>p. if p = 1 then example_pipe\<lparr>pb_instate := NN_PIPEBASE_INSTATE_IDLE\<rparr> else nn_pipebase_init example_options),
     w_events = [(1, NN_PIPE_IN)], w_stats = example_stats\<lparr>current_connections := 1\<rparr>,
     w_trans = \<lparr>si_ses = example_session(1 := (example_session 1)\<lparr>si_msgqueue :=
       fst (the (nn_msgqueue_send empty_msg (nn_msgqueue_init empty_msg 1000) m))\<rparr>), si_ctx = example_ctx\<rparr>\<rparr>"

lemma waiting_trans_ok:
  assumes "sphdr m = []"
  shows "trans_ok inproc_inv (waiting_world m)" and "inbox (waiting_world m) 1 [m]"
proof -
  let ?s = "nn_msgqueue_send empty_msg (nn_msgqueue_init empty_msg 1000) m" and ?w = "waiting_world m"
  have "\<not> mq_full (nn_msgqueue_init empty_msg 1000) m"
    by (simp add: mq_full_def nn_msgqueue_empty_def nn_msgqueue_init_def)
  then have q: "mq_rep (fst (the ?s)) [m]"
    using nn_msgqueue_send_ok [OF mq_rep_init, of empty_msg 1000 m empty_msg] by auto
  have f: "\<not> on_way ?w e" "\<not> sending ?w p" "\<not> receiving ?w p" for e p
    by (auto simp: waiting_world_def example_defs)
  have ses: "ses ?w = example_session(1 := (example_session 1)\<lparr>si_msgqueue := fst (the ?s)\<rparr>)"
    by (rule ext) (simp add: waiting_world_def ses_def)
  have act: "pb_state (w_pipes ?w p) = NN_PIPEBASE_STATE_ACTIVE \<longleftrightarrow> p = 1" for p
    by (simp add: waiting_world_def example_pipe_def nn_pipebase_init_def)
  have "\<exists>xs. mq_rep (si_msgqueue (ses ?w 1)) xs \<and> (\<forall>m \<in> set xs. sphdr m = [])"
    using q assms by (intro exI [of _ "[m]"]) (simp add: ses)
  then have "sess_ok ?w 1" unfolding sess_ok_def by (auto simp: f) (auto simp: ses example_session_def empty_msg_def)
  moreover have "link_ok (w_pipes ?w 1) ?w 1" using mq_rep_empty [OF q] by (simp add: link_ok_def f ses)
  ultimately show "trans_ok inproc_inv ?w" by (simp add: trans_ok_def inproc_inv_world inproc_ok_def act)
  show "inbox ?w 1 [m]" using q by (auto simp: inbox_def f ses example_session_def)
qed

definition example_xreq :: nn_xreq where
  "example_xreq = the (do {
     (w, x, _) \<leftarrow> nn_xreq_add (waiting_world empty_msg) nn_xreq_init 1;
     (w, x) \<leftarrow> nn_xreq_out w x 1;
     Some x })"

lemma example_xreq_facts:
  "xreq_inv example_xreq" "pl_members (xreq_lb example_xreq) = {1}" "pl_active (xreq_lb example_xreq) = {1}" "pl_active (xreq_fq example_xreq) = {}"
proof -
  have 0: "xreq_inv nn_xreq_init" "pl_members (xreq_lb nn_xreq_init) = {}" "pl_active (xreq_lb nn_xreq_init) = {}" "pl_active (xreq_fq nn_xreq_init) = {}"
    using priolist_inv_init priolist_init_sets by (simp_all add: nn_xreq_init_def nn_lb_init_def nn_fq_init_def xreq_inv_def)
  have "prio_ok (w_pipes (waiting_world empty_msg) 1)" by (simp add: prio_ok_def waiting_world_def example_pipe_def example_options_def)
  from inproc.xreq.add_law [OF 0(1) _ this] 0 obtain w1 x1 rc where
    1: "nn_xreq_add (waiting_world empty_msg) nn_xreq_init 1 = Some (w1, x1, rc)" "xreq_inv x1"
      "pl_members (xreq_lb x1) = (if isl rc then pl_members (xreq_lb nn_xreq_init) else insert 1 (pl_members (xreq_lb nn_xreq_init)))"
      "pl_active (xreq_lb x1) = {}" "pl_active (xreq_fq x1) = {}"
    by (auto simp: nn_xreq_sockbase_vfptr_def split del: if_split)
  have rc: "\<not> isl rc" using 1(1) by (auto simp: nn_xreq_add_def bind_Some_iff Let_def)
  from inproc.xreq.out_law [OF 1(2), where p = 1 and w = w1] 1(3,4) rc 0(2) obtain w2 x2 where
    2: "nn_xreq_out w1 x1 1 = Some (w2, x2)" "xreq_inv x2" "pl_members (xreq_lb x2) = {1}" "pl_active (xreq_lb x2) = {1}" "pl_active (xreq_fq x2) = {}"
    using 1(5) by (auto simp: nn_xreq_sockbase_vfptr_def tracked_def)
  have "example_xreq = x2" using 1(1) 2(1) by (simp add: example_xreq_def)
  then show "xreq_inv example_xreq" "pl_members (xreq_lb example_xreq) = {1}" "pl_active (xreq_lb example_xreq) = {1}"
    "pl_active (xreq_fq example_xreq) = {}" using 2 by simp_all
qed

lemma waiting_sys:
  assumes "sphdr m = []"
  shows "xreq_sys inproc_inv (waiting_world m, example_xreq)"
proof -
  let ?w = "waiting_world m"
  have pipes: "w_pipes ?w p = (if p = 1 then example_pipe\<lparr>pb_instate := NN_PIPEBASE_INSTATE_IDLE\<rparr> else nn_pipebase_init example_options)" for p
    by (simp add: waiting_world_def)
  have act: "pipe_active ?w p \<longleftrightarrow> p = 1" "in_idle ?w 1" "out_idle ?w 1" for p
    unfolding pipe_active_def in_idle_def out_idle_def pipes by (simp_all add: example_pipe_def nn_pipebase_init_def)
  have ev: "w_events ?w = [(1, NN_PIPE_IN)]" "current_connections (w_stats ?w) = 1" by (simp_all add: waiting_world_def)
  have "dir_ok Tracks ?w {} in_idle NN_PIPE_IN" "dir_ok Tracks ?w {1} out_idle NN_PIPE_OUT"
    unfolding dir_ok_def ev by (auto simp: act simp del: One_nat_def)
  moreover have "{p. pipe_active ?w p} = {1}" using act(1) by auto
  ultimately show ?thesis using example_xreq_facts waiting_trans_ok(1) [OF assms] ev by (simp add: sys_inv_def)
qed

text \<open>A socket with that pipe, whose request has the number 5.\<close>

definition example_req :: "req_state \<Rightarrow> pipe option \<Rightarrow> fsm_state \<Rightarrow> timer_state \<Rightarrow> timer_task list \<Rightarrow> nn_req timed" where
  "example_req state to tfsm tstate tasks = (nn_req_create 4)\<lparr>
     td_ctx := set_fsm TimerFsm (\<lambda>m. m\<lparr>fsm_state := tfsm\<rparr>) (set_fsm SockFsm (\<lambda>m. m\<lparr>fsm_state := NN_FSM_STATE_ACTIVE\<rparr>) (td_ctx (nn_req_create 4))),
     td_timer := \<lparr>tm_state = tstate, tm_timeout = 60000\<rparr>, td_worker := \<lparr>wk_tasks = tasks, wk_timerset = nn_timerset_init\<rparr>,
     td_sock := \<lparr>req_xreq = example_xreq, req_state = state, req_lastid = 4, req_resend_ivl = 60000,
       req_task = \<lparr>task_id = 5, task_request = \<lparr>sphdr = word_bytes 0x80000005, hdrs = [], body = [0x71]\<rparr>,
         task_reply = Some \<lparr>sphdr = [], hdrs = [], body = [0x72]\<rparr>, task_sent_to = to\<rparr>\<rparr>\<rparr>"

abbreviation "active_req \<equiv> example_req NN_REQ_STATE_ACTIVE (Some 1) NN_FSM_STATE_ACTIVE NN_TIMER_STATE_ACTIVE [Start_task]"
abbreviation "done_req \<equiv> example_req NN_REQ_STATE_DONE None NN_FSM_STATE_IDLE NN_TIMER_STATE_IDLE []"
abbreviation "stopping_req state \<equiv> example_req state None NN_FSM_STATE_STOPPING NN_TIMER_STATE_STOPPING [Start_task, Stop_task]"

lemma example_req_inv:
  assumes "sphdr m = []"
  shows "req_inv inproc_inv (waiting_world m, active_req)" "req_inv inproc_inv (waiting_world m, done_req)"
    "req_inv inproc_inv (waiting_world m, stopping_req NN_REQ_STATE_TIMED_OUT)" "req_inv inproc_inv (waiting_world m, stopping_req NN_REQ_STATE_STOPPING_TIMER)"
proof -
  have x: "xreq_sys inproc_inv (waiting_world m, xreq_of (example_req st to tf ts tasks))" for st to tf ts tasks
    using waiting_sys [OF assms] by (simp add: example_req_def)
  have q: "quiet NN_REQ_SRC_RESEND_TIMER (example_req st to tf ts tasks)" "\<not> td_stopped (example_req st to tf ts tasks)"
    "sock_fsm (example_req st to tf ts tasks) = NN_FSM_STATE_ACTIVE" "timer_fsm (example_req st to tf ts tasks) = tf" for st to tf ts tasks
    using req_create_facts [of 4] by (simp_all add: example_req_def quiet_def nn_timerset_init_def timerset_inv_def)
  have t: "tm_state (td_timer (example_req st to tf ts tasks)) = ts" "tm_timeout (td_timer (example_req st to tf ts tasks)) = 60000"
    "wk_tasks (td_worker (example_req st to tf ts tasks)) = tasks" "\<not> armed (example_req st to tf ts tasks)"
    "st_of (example_req st to tf ts tasks) = st" "task_sent_to (task_of (example_req st to tf ts tasks)) = to"
    "req_members (example_req st to tf ts tasks) = {1}" "req_resend_ivl (td_sock (example_req st to tf ts tasks)) = 60000" for st to tf ts tasks
    using example_xreq_facts(2) by (simp_all add: example_req_def nn_timerset_init_def)
  show "req_inv inproc_inv (waiting_world m, active_req)" "req_inv inproc_inv (waiting_world m, done_req)"
    "req_inv inproc_inv (waiting_world m, stopping_req NN_REQ_STATE_TIMED_OUT)" "req_inv inproc_inv (waiting_world m, stopping_req NN_REQ_STATE_STOPPING_TIMER)"
    using x q by (simp_all add: req_inv_def req_ok_def req_timer_def timer_running_def timer_idle_def timer_stopping_def t)
qed

lemma example_req_facts [simp]:
  "st_of (example_req st to tf ts tasks) = st" "task_id (task_of (example_req st to tf ts tasks)) = 5"
  "pl_active (xreq_fq (xreq_of (example_req st to tf ts tasks))) = {}" "w_events (waiting_world m) = [(1, NN_PIPE_IN)]"
  "task_reply (task_of (example_req st to tf ts tasks)) = Some \<lparr>sphdr = [], hdrs = [], body = [0x72]\<rparr>"
  "wk_tasks (td_worker (example_req st to tf ts tasks)) = tasks"
  using example_xreq_facts(4) by (simp_all add: example_req_def waiting_world_def)

definition answer5 :: nn_msg where
  "answer5 = \<lparr>sphdr = [], hdrs = [], body = word_bytes 0x80000005 @ [0x79]\<rparr>"

definition answer4 :: nn_msg where
  "answer4 = \<lparr>sphdr = [], hdrs = [], body = word_bytes 0x80000004 @ [0x79]\<rparr>"

lemma answer_facts:
  "answers 5 answer5" "\<not> answers 5 answer4" "reply_part answer5 = \<lparr>sphdr = [], hdrs = [], body = [0x79]\<rparr>"
  "sphdr answer5 = []" "sphdr answer4 = []" "4 \<le> length (body answer5)" "4 \<le> length (body answer4)"
  by (simp_all add: answers_def answer5_def answer4_def reply_part_def) (simp_all add: word_bytes_def)

theorem req_reply_matching_witness:
  "\<exists>w' s'. sys_exec (nn_req_sockbase_vfptr (nn_sinproc_pipebase_vfptr empty_msg) 0) Deliver (waiting_world answer5, active_req) = Some (w', s')
     \<and> st_of s' = NN_REQ_STATE_STOPPING_TIMER \<and> task_reply (task_of s') = Some \<lparr>sphdr = [], hdrs = [], body = [0x79]\<rparr>"
proof -
  have "\<forall>m \<in> set [answer5]. sphdr m = []" by (simp add: answer_facts)
  from req_reply_matching [OF example_req_inv(1) [OF answer_facts(4)] _ _ _ waiting_trans_ok(2) [OF answer_facts(4)] this, of "[]" empty_msg 0]
  show ?thesis by (auto simp: answer_facts)
qed

text \<open>C17: once the worker has taken the tasks of the timer, the user can fetch the reply; after that the socket has no request in progress and
  another attempt to receive reports EFSM.\<close>

theorem req_reply_delivered:
  assumes inv: "req_inv inproc_inv (w, s)" and st: "st_of s = NN_REQ_STATE_STOPPING_TIMER" and m: "task_reply (task_of s) = Some m"
  shows "\<exists>s1 s2. worker_run (length (wk_tasks (td_worker s))) now (nn_req_handler (nn_sinproc_pipebase_vfptr junk) now) nn_req_shutdown (w, s) = Some (w, s1)
     \<and> nn_req_crecv (nn_sinproc_pipebase_vfptr junk) now w s1 = Some (w, s2, Inr m)
     \<and> nn_req_crecv (nn_sinproc_pipebase_vfptr junk) now w s2 = Some (w, s2, Inl EFSM)"
proof -
  let ?vf = "nn_sinproc_pipebase_vfptr junk"
  have ok: "req_ok s" using inv by (simp add: req_inv_def)
  then have t: "timer_stopping s" "quiet NN_REQ_SRC_RESEND_TIMER s" "sock_fsm s = NN_FSM_STATE_ACTIVE"
    using st by (simp_all add: req_ok_def req_timer_def)
  from worker_run_stops [OF t(1,2), of now "nn_req_handler ?vf now" nn_req_shutdown w] t(3) obtain s' ptr where
    s': "timer_idle s'" "quiet NN_REQ_SRC_RESEND_TIMER s'" "timer_frame s s'"
      "worker_run (length (wk_tasks (td_worker s))) now (nn_req_handler ?vf now) nn_req_shutdown (w, s) = do {
         st \<leftarrow> nn_req_handler ?vf now NN_REQ_SRC_RESEND_TIMER NN_TIMER_STOPPED ptr (w, s'); timed_leave now (nn_req_handler ?vf now) nn_req_shutdown st }"
    by auto
  have f: "td_sock s' = td_sock s" "sock_fsm s' = NN_FSM_STATE_ACTIVE" using s'(3) t(3) by (simp_all add: timer_frame_def)
  let ?s1 = "upd_req (\<lambda>q. q\<lparr>req_state := NN_REQ_STATE_DONE\<rparr>) s'"
  have "nn_req_handler ?vf now NN_REQ_SRC_RESEND_TIMER NN_TIMER_STOPPED ptr (w, s') = Some (w, ?s1)"
    using st f by (simp add: nn_req_handler_def req_set_state_def)
  moreover have "timed_leave now (nn_req_handler ?vf now) nn_req_shutdown (w, ?s1) = Some (w, ?s1)"
    using timed_leave_quiet [of NN_REQ_SRC_RESEND_TIMER ?s1] s'(2) by simp
  ultimately have 1: "worker_run (length (wk_tasks (td_worker s))) now (nn_req_handler ?vf now) nn_req_shutdown (w, s) = Some (w, ?s1)"
    using s'(4) by simp
  let ?s2 = "upd_task (\<lambda>t. t\<lparr>task_reply := Some empty_msg\<rparr>) ?s1"
  let ?s3 = "upd_req (\<lambda>q. q\<lparr>req_state := NN_REQ_STATE_PASSIVE\<rparr>) ?s2"
  have "req_action ?vf now NN_REQ_ACTION_RECEIVED (w, ?s2) = Some (w, ?s3)"
    using f by (simp add: req_action_def nn_fsm_action_def nn_fsm_feed_def timed_fn_def nn_req_handler_def req_consts req_set_state_def)
  then have "nn_req_crecv ?vf now w ?s1 = Some (w, ?s3, Inr m)"
    using m f by (simp add: nn_req_crecv_def nn_req_inprogress_def Let_def)
  moreover have "nn_req_crecv ?vf now w ?s3 = Some (w, ?s3, Inl EFSM)" by (simp add: nn_req_crecv_def nn_req_inprogress_def)
  ultimately show ?thesis using 1 by blast
qed

theorem req_reply_delivered_witness:
  "\<exists>s1 s2. worker_run 2 0 (nn_req_handler (nn_sinproc_pipebase_vfptr empty_msg) 0) nn_req_shutdown
       (waiting_world answer5, stopping_req NN_REQ_STATE_STOPPING_TIMER) = Some (waiting_world answer5, s1)
     \<and> nn_req_crecv (nn_sinproc_pipebase_vfptr empty_msg) 0 (waiting_world answer5) s1
         = Some (waiting_world answer5, s2, Inr \<lparr>sphdr = [], hdrs = [], body = [0x72]\<rparr>)"
  using req_reply_delivered [OF example_req_inv(4) [OF answer_facts(4)], of "\<lparr>sphdr = [], hdrs = [], body = [0x72]\<rparr>" 0 empty_msg]
  by (auto simp: numeral_2_eq_2)

section \<open>Sending again\<close>

text \<open>C18: a request that got no reply in time, or whose pipe went away, is sent again: once the worker has stopped the timer, the same message with the
  same number is passed to the load balancer, and the timer is started for the pipe that took it; without a pipe the request
  is delayed.\<close>

theorem req_resend:
  assumes inv: "req_inv inproc_inv (w, s)" and st: "st_of s = NN_REQ_STATE_TIMED_OUT"
  shows "\<exists>w' s' r. worker_run (length (wk_tasks (td_worker s))) now (nn_req_handler (nn_sinproc_pipebase_vfptr junk) now) nn_req_shutdown (w, s) = Some (w', s')
     \<and> nn_xreq_send_to (nn_sinproc_pipebase_vfptr junk) w (xreq_of s) (task_request (task_of s)) = Some (w', xreq_of s', r)
     \<and> task_request (task_of s') = task_request (task_of s) \<and> task_id (task_of s') = task_id (task_of s)
     \<and> (case r of Inl _ \<Rightarrow> st_of s' = NN_REQ_STATE_DELAYED
        | Inr (_, q) \<Rightarrow> st_of s' = NN_REQ_STATE_ACTIVE \<and> task_sent_to (task_of s') = Some q \<and> timer_running s')"
proof -
  let ?vf = "nn_sinproc_pipebase_vfptr junk"
  have x: "xreq_sys inproc_inv (w, xreq_of s)" and ok: "req_ok s" using inv by (simp_all add: req_inv_def)
  then have t: "timer_stopping s" "quiet NN_REQ_SRC_RESEND_TIMER s" "sock_fsm s = NN_FSM_STATE_ACTIVE" "0 \<le> req_resend_ivl (td_sock s)"
    using st by (simp_all add: req_ok_def req_timer_def)
  from worker_run_stops [OF t(1,2), of now "nn_req_handler ?vf now" nn_req_shutdown w] t(3) obtain s' ptr where
    s': "timer_idle s'" "quiet NN_REQ_SRC_RESEND_TIMER s'" "timer_frame s s'"
      "worker_run (length (wk_tasks (td_worker s))) now (nn_req_handler ?vf now) nn_req_shutdown (w, s) = do {
         st \<leftarrow> nn_req_handler ?vf now NN_REQ_SRC_RESEND_TIMER NN_TIMER_STOPPED ptr (w, s'); timed_leave now (nn_req_handler ?vf now) nn_req_shutdown st }"
    by auto
  have f: "td_sock s' = td_sock s" using s'(3) by (simp add: timer_frame_def)
  have hdl: "nn_req_handler ?vf now NN_REQ_SRC_RESEND_TIMER NN_TIMER_STOPPED ptr (w, s') = nn_req_action_send ?vf now True (w, s')"
    using st f by (simp add: nn_req_handler_def)
  from inproc.xreq_send_sys [OF x, of junk "task_request (task_of s)"] obtain w1 x1 r where
    1: "nn_xreq_send_to ?vf w (xreq_of s) (task_request (task_of s)) = Some (w1, x1, r)"
      "case r of Inl e \<Rightarrow> e = EAGAIN \<and> pl_active (xreq_lb (xreq_of s)) = {} | Inr (v, p) \<Rightarrow> v = 0 \<and> p \<in> pl_members (xreq_lb x1)" by blast
  let ?s1 = "upd_req (\<lambda>q. q\<lparr>req_xreq := x1\<rparr>) s'"
  have q1: "quiet NN_REQ_SRC_RESEND_TIMER ?s1" "timer_idle ?s1" using s'(1,2) by simp_all
  show ?thesis
  proof (cases r)
    case (Inl e)
    let ?s2 = "upd_req (\<lambda>q. q\<lparr>req_state := NN_REQ_STATE_DELAYED\<rparr>) ?s1"
    have "nn_req_action_send ?vf now True (w, s') = Some (w1, ?s2)" using 1 Inl f by (simp add: nn_req_action_send_def Let_def)
    then show ?thesis using 1(1) Inl s'(4) hdl timed_leave_quiet [of NN_REQ_SRC_RESEND_TIMER ?s2 now "nn_req_handler ?vf now" nn_req_shutdown w1] q1 f
      by (intro exI [of _ w1] exI [of _ ?s2] exI [of _ r]) simp
  next
    case (Inr v)
    then obtain p where p: "r = Inr (0, p)" using 1(2) by (cases v) auto
    from timer_start_ok [OF q1(2,1) t(4), of now w1] obtain s2 where
      s2: "nn_timer_start now (req_resend_ivl (td_sock s)) (w1, ?s1) = Some (w1, s2)" "timer_running s2" "quiet NN_REQ_SRC_RESEND_TIMER s2" "timer_frame ?s1 s2" by blast
    let ?s3 = "upd_req (\<lambda>q. q\<lparr>req_state := NN_REQ_STATE_ACTIVE\<rparr>) (upd_task (\<lambda>t. t\<lparr>task_sent_to := Some p\<rparr>) s2)"
    have "nn_req_action_send ?vf now True (w, s') = Some (w1, ?s3)" using 1(1) p f s2(1) by (simp add: nn_req_action_send_def Let_def)
    then show ?thesis
      using 1(1) p s'(4) hdl timed_leave_quiet [of NN_REQ_SRC_RESEND_TIMER ?s3 now "nn_req_handler ?vf now" nn_req_shutdown w1] s2(2-4) f
      by (intro exI [of _ w1] exI [of _ ?s3] exI [of _ r]) (simp add: timer_frame_def)
  qed
qed

theorem req_resend_witness:
  "\<exists>w' s' r. worker_run 2 0 (nn_req_handler (nn_sinproc_pipebase_vfptr empty_msg) 0) nn_req_shutdown
       (waiting_world answer4, stopping_req NN_REQ_STATE_TIMED_OUT) = Some (w', s')
     \<and> nn_xreq_send_to (nn_sinproc_pipebase_vfptr empty_msg) (waiting_world answer4) example_xreq
         \<lparr>sphdr = word_bytes 0x80000005, hdrs = [], body = [0x71]\<rparr> = Some (w', xreq_of s', r)"
proof -
  have "xreq_of (stopping_req NN_REQ_STATE_TIMED_OUT) = example_xreq"
    "task_request (task_of (stopping_req NN_REQ_STATE_TIMED_OUT)) = \<lparr>sphdr = word_bytes 0x80000005, hdrs = [], body = [0x71]\<rparr>"
    by (simp_all add: example_req_def)
  with req_resend [OF example_req_inv(3) [OF answer_facts(5)], of 0 empty_msg] show ?thesis by (auto simp: numeral_2_eq_2)
qed

section \<open>A late reply\<close>

text \<open>C19: a reply that the user has not fetched yet is destroyed by any message that arrives afterwards and answers another request: the message is
  read into the place of the reply and freed. The socket still announces that a reply can be received, and receiving it
  uses freed memory.\<close>

theorem req_late_reply_destroys:
  assumes inv: "req_inv inproc_inv (w, s)" and st: "st_of s = NN_REQ_STATE_DONE" and ev: "w_events w = (p, NN_PIPE_IN) # evs"
    and fq: "pl_active (xreq_fq (xreq_of s)) = {}" and xs: "inbox w p xs"
      "\<forall>m \<in> set xs. sphdr m = [] \<and> 4 \<le> length (body m)" "\<forall>m \<in> set xs. \<not> answers (task_id (task_of s)) m"
  shows "\<exists>w' s'. sys_exec (nn_req_sockbase_vfptr (nn_sinproc_pipebase_vfptr junk) now) Deliver (w, s) = Some (w', s')
     \<and> nn_req_events (td_sock s') AND NN_SOCKBASE_EVENT_IN \<noteq> 0 \<and> nn_req_crecv (nn_sinproc_pipebase_vfptr junk) now w' s' = None"
proof -
  have "nn_req_inprogress (td_sock s)" using st by (simp add: nn_req_inprogress_def)
  moreover have "dropWhile (\<lambda>m. \<not> stops_reading (task_id (task_of s)) m) xs = []" "\<forall>m \<in> set xs. sphdr m = []"
    using xs(2,3) by (auto simp: stops_reading_def)
  ultimately obtain w' s' where
    s': "sys_exec (nn_req_sockbase_vfptr (nn_sinproc_pipebase_vfptr junk) now) Deliver (w, s) = Some (w', s')"
      "st_of s' = NN_REQ_STATE_DONE" "task_reply (task_of s') = None"
    using req_deliver_in [OF inv _ ev fq xs(1), of junk now] st by (simp del: dropWhile_eq_Nil_conv sys_exec.simps) blast
  have "nn_req_crecv (nn_sinproc_pipebase_vfptr junk) now w' s' = None"
    using s'(2,3) by (simp add: nn_req_crecv_def nn_req_inprogress_def)
  moreover have "nn_req_events (td_sock s') AND NN_SOCKBASE_EVENT_IN \<noteq> 0"
    using s'(2) by (simp add: nn_req_events_def NN_SOCKBASE_EVENT_OUT_def NN_SOCKBASE_EVENT_IN_def)
  ultimately show ?thesis using s'(1) by blast
qed

theorem req_late_reply_destroys_witness:
  "\<exists>w' s'. sys_exec (nn_req_sockbase_vfptr (nn_sinproc_pipebase_vfptr empty_msg) 0) Deliver (waiting_world answer4, done_req) = Some (w', s')
     \<and> nn_req_crecv (nn_sinproc_pipebase_vfptr empty_msg) 0 w' s' = None"
proof -
  have "\<forall>m \<in> set [answer4]. sphdr m = [] \<and> 4 \<le> length (body m)" by (simp add: answer_facts)
  from req_late_reply_destroys [OF example_req_inv(2) [OF answer_facts(5)] _ _ _ waiting_trans_ok(2) [OF answer_facts(5)] this, of "[]" empty_msg 0]
  show ?thesis by (auto simp: answer_facts)
qed

end
