(* ===== verification/Survey_Properties.thy ===== *)
theory Survey_Properties
  imports Req_Properties
begin

text \<open>
  Properties of the timers and of the SURVEYOR socket: timers fire in the order of their due times; no sequence of operations of
  pipes, user and worker aborts a SURVEYOR; responses are matched with the survey in progress; the user learns once that a survey has ended.
\<close>

section \<open>Timers\<close>

text \<open>C34: the set of timeouts of a worker. Adding a timer files it under its due time; removing forgets that timer only; asking for an event
  yields the timer that is due first, never one that is not due yet, and reports EAGAIN only when no timer is due.\<close>

theorem timerset_operations:
  assumes "timerset_inv self"
  shows "(h \<notin> set (ts_timeouts self) \<longrightarrow> (\<exists>self' first. nn_timerset_add now self timeout h = Some (self', first) \<and> timerset_inv self'
        \<and> set (ts_timeouts self') = insert h (set (ts_timeouts self)) \<and> ts_hndl self' = (ts_hndl self)(h := now + of_int timeout)
        \<and> (first \<longleftrightarrow> hd (ts_timeouts self') = h)))
    \<and> timerset_inv (fst (nn_timerset_rm self h)) \<and> set (ts_timeouts (fst (nn_timerset_rm self h))) = set (ts_timeouts self) - {h}
    \<and> (case nn_timerset_event now self of
        (self', Inl e) \<Rightarrow> e = EAGAIN \<and> self' = self \<and> (\<forall>h \<in> set (ts_timeouts self). now < ts_hndl self h)
      | (self', Inr h) \<Rightarrow> h \<in> set (ts_timeouts self) \<and> ts_hndl self h \<le> now \<and> (\<forall>i \<in> set (ts_timeouts self). ts_hndl self h \<le> ts_hndl self i)
          \<and> timerset_inv self' \<and> ts_hndl self' = ts_hndl self \<and> set (ts_timeouts self') = set (ts_timeouts self) - {h})"
proof (intro conjI impI)
  assume "h \<notin> set (ts_timeouts self)"
  then show "\<exists>self' first. nn_timerset_add now self timeout h = Some (self', first) \<and> timerset_inv self'
        \<and> set (ts_timeouts self') = insert h (set (ts_timeouts self)) \<and> ts_hndl self' = (ts_hndl self)(h := now + of_int timeout)
        \<and> (first \<longleftrightarrow> hd (ts_timeouts self') = h)"
    by (rule nn_timerset_add_ok [OF assms, of h now timeout]) blast
qed (rule nn_timerset_rm_ok [OF assms] nn_timerset_event_ok [OF assms])+

theorem timerset_operations_witness:
  "\<exists>self' first. nn_timerset_add 100 \<lparr>ts_timeouts = [7, 8], ts_hndl = (\<lambda>h. if h = 7 then 110 else 200)\<rparr> 50 9 = Some (self', first)
     \<and> timerset_inv self' \<and> set (ts_timeouts self') = {7, 8, 9} \<and> ts_hndl self' 9 = 150 \<and> hd (ts_timeouts self') \<noteq> 9"
proof -
  let ?t = "\<lparr>ts_timeouts = [7, 8], ts_hndl = (\<lambda>h. if h = 7 then 110 else 200)\<rparr>"
  have "timerset_inv ?t" by (simp add: timerset_inv_def)
  note add = timerset_operations [OF this, of 9 100 50, THEN conjunct1]
  from add have "\<exists>self' first. nn_timerset_add 100 ?t 50 9 = Some (self', first) \<and> timerset_inv self'
      \<and> set (ts_timeouts self') = {7, 8, 9} \<and> ts_hndl self' 9 = 150" by auto
  then obtain self' first where
    "nn_timerset_add 100 ?t 50 9 = Some (self', first)" "timerset_inv self'" "set (ts_timeouts self') = {7, 8, 9}" "ts_hndl self' 9 = 150" by blast
  moreover from this(1) have "hd (ts_timeouts self') \<noteq> 9" by (auto simp: nn_timerset_add_def nn_timerset_hndl_isactive_def)
  ultimately show ?thesis by blast
qed

section \<open>Safety\<close>

definition surv_socket_safe :: "'t nn_pipebase_vfptr \<Rightarrow> ((pipe \<Rightarrow> nn_pipebase) \<Rightarrow> 't \<Rightarrow> bool) \<Rightarrow> 't surv_st \<Rightarrow> bool" where
  "surv_socket_safe vf tinv st0 \<longleftrightarrow> (\<forall>st. (surv_step vf tinv)\<^sup>*\<^sup>* st0 st \<longrightarrow>
     surv_members (snd st) = {p. pipe_active (fst st) p} \<and> (\<forall>op now. surv_guard op st \<longrightarrow> surv_exec vf now op st \<noteq> None)
     \<and> (td_stopped (snd st) \<longrightarrow> surv_members (snd st) = {} \<longrightarrow> nn_surveyor_term (snd st) \<noteq> None))"

lemma surv_safe_from:
  assumes "surv_inv inproc_inv st0"
  shows "surv_socket_safe (nn_sinproc_pipebase_vfptr junk) inproc_inv st0"
  unfolding surv_socket_safe_def
proof (intro allI impI conjI)
  fix st op now assume r: "(surv_step (nn_sinproc_pipebase_vfptr junk) inproc_inv)\<^sup>*\<^sup>* st0 st"
  have inv: "surv_inv inproc_inv st" by (rule inproc.surv_reach_inv [OF r assms])
  then show "surv_members (snd st) = {p. pipe_active (fst st) p}" by (auto simp: surv_inv_def sys_inv_def)
  show "surv_exec (nn_sinproc_pipebase_vfptr junk) now op st \<noteq> None" if "surv_guard op st"
    using inproc.surv_exec_ok [OF inv that, of junk now] by auto
  show "nn_surveyor_term (snd st) \<noteq> None" if "td_stopped (snd st)" "surv_members (snd st) = {}"
    using inproc.surv_term_ok [of "fst st" "snd st"] inv that by (auto simp: surv_inv_def surv_ok_def split: if_splits)
qed

lemma surv_create_facts:
  "timer_idle (nn_surveyor_create i)" "quiet NN_SURVEYOR_SRC_DEADLINE_TIMER (nn_surveyor_create i)" "sock_fsm (nn_surveyor_create i) = NN_FSM_STATE_IDLE"
  "\<not> td_stopped (nn_surveyor_create i)" "td_sock (nn_surveyor_create i) = nn_surveyor_init i nn_xsurveyor_init"
  by (simp_all add: nn_surveyor_create_def nn_timer_init_def nn_fsm_init_def nn_fsm_init_root_def nn_ctx_init_def timer_idle_def quiet_def
      nn_timerset_init_def timerset_inv_def)

lemma surv_start_inv:
  assumes "trans_ok inproc_inv w" and "fresh_socket w"
  shows "\<exists>s. nn_surveyor_start vf now (w, nn_surveyor_create i) = Some (w, s) \<and> surv_inv inproc_inv (w, s)"
proof -
  let ?s = "nn_surveyor_create i"
  let ?s1 = "upd_surv (\<lambda>q. q\<lparr>surv_state := NN_SURVEYOR_STATE_PASSIVE\<rparr>) ?s"
  let ?s2 = "?s1\<lparr>td_ctx := set_fsm SockFsm (\<lambda>m. m\<lparr>fsm_state := NN_FSM_STATE_ACTIVE\<rparr>) (td_ctx ?s1)\<rparr>"
  have "nn_fsm_isidle (td_ctx ?s) SockFsm" using surv_create_facts(2,3) [of i]
    by (simp add: nn_fsm_isidle_def nn_fsm_event_active_def quiet_def)
  then have "nn_surveyor_start vf now (w, ?s) = Some (w, ?s2)"
    by (simp add: nn_surveyor_start_def nn_fsm_start_def timed_fn_def nn_surveyor_handler_def surv_create_facts(5) nn_surveyor_init_def surv_set_state_def)
  moreover have "xsurv_sys inproc_inv (w, nn_xsurveyor_init)"
    using dist_inv_init priolist_inv_init priolist_init_sets assms
    by (intro inproc.xsurveyor.SI_fresh) (simp_all add: nn_xsurveyor_init_def nn_dist_init_def nn_fq_init_def dist_members_def xsurveyor_inv_def)
  moreover have "surv_ok ?s2"
    using surv_create_facts [of i] by (simp add: surv_ok_def timer_phase_defs nn_surveyor_init_def NN_SURVEYOR_DEFAULT_DEADLINE_def)
  ultimately show ?thesis by (auto simp: surv_inv_def surv_create_facts(5) nn_surveyor_init_def)
qed

text \<open>C20: the SURVEYOR socket over inproc does not abort as long as its user sets no negative deadline (the timer refuses one, which aborts)
  and sends only messages without a header, and only until the socket is stopped. From a new socket that has been started, whatever its pipes, such a user and the worker of its timer
  do in any order, no operation fails an assertion or gets an event that its state machine does not expect, and the raw
  socket below knows exactly the connected pipes; once it has reported that it is stopped and has no pipes, it can be destroyed.\<close>

theorem surveyor_safe:
  "\<exists>st. nn_surveyor_start (nn_sinproc_pipebase_vfptr junk) now (fresh_world, nn_surveyor_create i) = Some st
     \<and> surv_socket_safe (nn_sinproc_pipebase_vfptr junk) inproc_inv st"
  using surv_start_inv [OF fresh_world_ok] surv_safe_from by blast

section \<open>Responses\<close>





text \<open>A socket with one pipe, on which a response waits, and a survey with the number 0x80000005 that ends at time 1000.\<close>

definition open_world :: "nn_msg \<Rightarrow> inproc world" where
  "open_world m = (waiting_world m)\<lparr>w_events := []\<rparr>"

definition example_xsurveyor :: nn_xsurveyor where
  "example_xsurveyor = the (do {
     (w, x, _) \<leftarrow> nn_xsurveyor_add (open_world empty_msg) nn_xsurveyor_init 1;
     (w, x) \<leftarrow> nn_xsurveyor_out w x 1;
     (w, x) \<leftarrow> nn_xsurveyor_in w x 1;
     Some x })"

lemma example_xsurveyor_facts:
  "xsurveyor_inv example_xsurveyor" "dist_members (xsurv_outpipes example_xsurveyor) = {1}"
  "pl_active (xsurv_inpipes example_xsurveyor) = {1}" "set (d_pipes (xsurv_outpipes example_xsurveyor)) = {1}"
proof -
  have 0: "xsurveyor_inv nn_xsurveyor_init" "dist_members (xsurv_outpipes nn_xsurveyor_init) = {}" "pl_active (xsurv_inpipes nn_xsurveyor_init) = {}"
      "set (d_pipes (xsurv_outpipes nn_xsurveyor_init)) = {}"
    using dist_inv_init priolist_inv_init priolist_init_sets
    by (simp_all add: nn_xsurveyor_init_def nn_dist_init_def nn_fq_init_def dist_members_def xsurveyor_inv_def)
  have "prio_ok (w_pipes (open_world empty_msg) 1)" by (simp add: prio_ok_def open_world_def waiting_world_def example_pipe_def example_options_def)
  from inproc.xsurveyor.add_law [OF 0(1) _ this] 0 obtain w1 x1 rc where
    1: "nn_xsurveyor_add (open_world empty_msg) nn_xsurveyor_init 1 = Some (w1, x1, rc)" "xsurveyor_inv x1"
      "dist_members (xsurv_outpipes x1) = (if isl rc then dist_members (xsurv_outpipes nn_xsurveyor_init)
         else insert 1 (dist_members (xsurv_outpipes nn_xsurveyor_init)))" "pl_active (xsurv_inpipes x1) = {}" "set (d_pipes (xsurv_outpipes x1)) = {}"
    by (auto simp: nn_xsurveyor_sockbase_vfptr_def split del: if_split)
  have rc: "\<not> isl rc" using 1(1) by (auto simp: nn_xsurveyor_add_def bind_Some_iff Let_def)
  from inproc.xsurveyor.out_law [OF 1(2), where p = 1 and w = w1] 1(3-5) rc 0(2) obtain w2 x2 where
    2: "nn_xsurveyor_out w1 x1 1 = Some (w2, x2)" "xsurveyor_inv x2" "dist_members (xsurv_outpipes x2) = {1}" "pl_active (xsurv_inpipes x2) = {}"
      "set (d_pipes (xsurv_outpipes x2)) = {1}"
    by (auto simp: nn_xsurveyor_sockbase_vfptr_def tracked_def)
  from inproc.xsurveyor.in_law [OF 2(2), where p = 1 and w = w2] 2(3-5) obtain w3 x3 where
    3: "nn_xsurveyor_in w2 x2 1 = Some (w3, x3)" "xsurveyor_inv x3" "dist_members (xsurv_outpipes x3) = {1}" "pl_active (xsurv_inpipes x3) = {1}"
      "set (d_pipes (xsurv_outpipes x3)) = {1}"
    by (auto simp: nn_xsurveyor_sockbase_vfptr_def tracked_def)
  have "example_xsurveyor = x3" using 1(1) 2(1) 3(1) by (simp add: example_xsurveyor_def)
  then show "xsurveyor_inv example_xsurveyor" "dist_members (xsurv_outpipes example_xsurveyor) = {1}"
    "pl_active (xsurv_inpipes example_xsurveyor) = {1}" "set (d_pipes (xsurv_outpipes example_xsurveyor)) = {1}" using 3 by simp_all
qed

definition example_surveyor :: "nn_surveyor timed" where
  "example_surveyor = (nn_surveyor_create 4)\<lparr>
     td_ctx := set_fsm TimerFsm (\<lambda>m. m\<lparr>fsm_state := NN_FSM_STATE_ACTIVE\<rparr>)
       (set_fsm SockFsm (\<lambda>m. m\<lparr>fsm_state := NN_FSM_STATE_ACTIVE\<rparr>) (td_ctx (nn_surveyor_create 4))),
     td_timer := \<lparr>tm_state = NN_TIMER_STATE_ACTIVE, tm_timeout = -1\<rparr>,
     td_worker := \<lparr>wk_tasks = [], wk_timerset = \<lparr>ts_timeouts = [wtimer], ts_hndl = (\<lambda>_. 1000)\<rparr>\<rparr>,
     td_sock := \<lparr>surv_xsurveyor = example_xsurveyor, surv_state = NN_SURVEYOR_STATE_ACTIVE, surv_surveyid = 0x80000005,
       surv_tosend = empty_msg, surv_deadline = 1000, surv_timedout = False\<rparr>\<rparr>"

lemma example_surveyor_inv:
  assumes "sphdr m = []"
  shows "surv_inv inproc_inv (open_world m, example_surveyor)"
proof -
  let ?w = "open_world m"
  have pipes: "w_pipes ?w p = (if p = 1 then example_pipe\<lparr>pb_instate := NN_PIPEBASE_INSTATE_IDLE\<rparr> else nn_pipebase_init example_options)" for p
    by (simp add: open_world_def waiting_world_def)
  have act: "pipe_active ?w p \<longleftrightarrow> p = 1" "in_idle ?w 1" "out_idle ?w 1" for p
    unfolding pipe_active_def in_idle_def out_idle_def pipes by (simp_all add: example_pipe_def nn_pipebase_init_def)
  have ev: "w_events ?w = []" "current_connections (w_stats ?w) = 1" by (simp_all add: open_world_def waiting_world_def)
  have "dir_ok Tracks ?w {1} in_idle NN_PIPE_IN" "dir_ok Tracks ?w {1} out_idle NN_PIPE_OUT"
    unfolding dir_ok_def ev by (auto simp: act simp del: One_nat_def)
  moreover have "{p. pipe_active ?w p} = {1}" using act(1) by auto
  moreover have "trans_ok inproc_inv ?w" using waiting_trans_ok(1) [OF assms] by (simp add: trans_ok_def open_world_def)
  ultimately have "xsurv_sys inproc_inv (?w, example_xsurveyor)" using example_xsurveyor_facts ev by (simp add: sys_inv_def)
  moreover have "surv_ok example_surveyor"
    using surv_create_facts [of 4] by (simp add: surv_ok_def example_surveyor_def timer_running_def quiet_def timerset_inv_def)
  ultimately show ?thesis by (simp add: surv_inv_def example_surveyor_def)
qed


section \<open>The end of a survey\<close>

text \<open>C22: a survey ends at its deadline. When the timer of the survey in progress is due, the worker reports it and then stops the timer; after that the
  user is told once that the survey has timed out, and from then on that there is no survey.\<close>

theorem surveyor_deadline:
  assumes inv: "surv_inv inproc_inv (w, s)" and st: "sv_of s = NN_SURVEYOR_STATE_ACTIVE"
    and due: "armed s" "ts_hndl (wk_timerset (td_worker s)) wtimer \<le> now"
  shows "\<exists>s1 s2 s3. worker_timeout now (nn_surveyor_handler (nn_sinproc_pipebase_vfptr junk) now) nn_surveyor_shutdown (w, s) = Some (w, s1)
     \<and> worker_run (length (wk_tasks (td_worker s1))) now (nn_surveyor_handler (nn_sinproc_pipebase_vfptr junk) now) nn_surveyor_shutdown (w, s1) = Some (w, s2)
     \<and> nn_surveyor_recv (nn_sinproc_pipebase_vfptr junk) w s2 = Some (w, s3, Inl ETIMEDOUT)
     \<and> nn_surveyor_recv (nn_sinproc_pipebase_vfptr junk) w s3 = Some (w, s3, Inl EFSM)"
proof -
  let ?vf = "nn_sinproc_pipebase_vfptr junk" and ?src = NN_SURVEYOR_SRC_DEADLINE_TIMER
  let ?hdl = "nn_surveyor_handler ?vf now"
  have ok: "surv_ok s" using inv by (simp add: surv_inv_def)
  then have t: "timer_running s" "quiet ?src s" "sock_fsm s = NN_FSM_STATE_ACTIVE" using st by (simp_all add: surv_ok_def)
  from timer_due_event [OF t(2) due] obtain ts h where "nn_timerset_event now (wk_timerset (td_worker s)) = (ts, Inr h)" by blast
  from worker_timeout_fires [OF t(1,2) this, of ?hdl nn_surveyor_shutdown w] t(3) obtain s' ptr where
    s': "timer_running s'" "quiet ?src s'" "timer_frame s s'" "worker_timeout now ?hdl nn_surveyor_shutdown (w, s) = do {
        st \<leftarrow> ?hdl ?src NN_TIMER_TIMEOUT ptr (w, s'); timed_leave now ?hdl nn_surveyor_shutdown st }" by auto
  have f: "td_sock s' = td_sock s" "surv_ok s'" using s' ok st by (auto simp: timer_frame_def surv_ok_def)
  then have "sv_of s' = NN_SURVEYOR_STATE_ACTIVE" using st by simp
  from inproc.surv_leave_active [OF f(2) this, of w] obtain s0 where
    s0: "nn_timer_stop (w, s') = Some (w, s0)" "td_sock s0 = td_sock s" and s0_ok: "\<And>q. surv_deadline q = surv_deadline (td_sock s) \<Longrightarrow>
      surv_state q = NN_SURVEYOR_STATE_STOPPING_TIMER \<Longrightarrow> surv_ok (s0\<lparr>td_sock := q\<rparr>)" using f(1) by auto
  define s1 where "s1 = s0\<lparr>td_sock := (td_sock s)\<lparr>surv_state := NN_SURVEYOR_STATE_STOPPING_TIMER, surv_timedout := True\<rparr>\<rparr>"
  have s1: "surv_ok s1" "sv_of s1 = NN_SURVEYOR_STATE_STOPPING_TIMER" "surv_timedout (td_sock s1)"
    using s0_ok [of "(td_sock s)\<lparr>surv_state := NN_SURVEYOR_STATE_STOPPING_TIMER, surv_timedout := True\<rparr>"] by (simp_all add: s1_def)
  then have t1: "timer_stopping s1" "quiet ?src s1" "sock_fsm s1 = NN_FSM_STATE_ACTIVE" by (simp_all add: surv_ok_def)
  have "?hdl ?src NN_TIMER_TIMEOUT ptr (w, s') = Some (w, s1)"
    using s0 f(1) st by (simp add: nn_surveyor_handler_def surv_consts surv_set_state_def s1_def)
  then have 1: "worker_timeout now ?hdl nn_surveyor_shutdown (w, s) = Some (w, s1)"
    using s'(4) timed_leave_quiet [OF t1(2), of now ?hdl nn_surveyor_shutdown w] by simp
  from worker_run_stops [OF t1(1,2), of now ?hdl nn_surveyor_shutdown w] t1(3) obtain s'' ptr' where
    s'': "quiet ?src s''" "timer_frame s1 s''" "worker_run (length (wk_tasks (td_worker s1))) now ?hdl nn_surveyor_shutdown (w, s1) = do {
        st \<leftarrow> ?hdl ?src NN_TIMER_STOPPED ptr' (w, s''); timed_leave now ?hdl nn_surveyor_shutdown st }" by auto
  let ?s2 = "upd_surv (\<lambda>q. q\<lparr>surv_state := NN_SURVEYOR_STATE_PASSIVE\<rparr>) s''"
  have f2: "td_sock s'' = td_sock s1" using s''(2) by (simp add: timer_frame_def)
  then have "?hdl ?src NN_TIMER_STOPPED ptr' (w, s'') = Some (w, ?s2)"
    using s1(2) by (simp add: nn_surveyor_handler_def surv_consts surv_set_state_def)
  then have 2: "worker_run (length (wk_tasks (td_worker s1))) now ?hdl nn_surveyor_shutdown (w, s1) = Some (w, ?s2)"
    using s''(3) timed_leave_quiet [of ?src ?s2 now ?hdl nn_surveyor_shutdown w] s''(1) by simp
  let ?s3 = "upd_surv (\<lambda>q. q\<lparr>surv_timedout := False\<rparr>) ?s2"
  have "nn_surveyor_recv ?vf w ?s2 = Some (w, ?s3, Inl ETIMEDOUT)" "nn_surveyor_recv ?vf w ?s3 = Some (w, ?s3, Inl EFSM)"
    using f2 s1(3) by (simp_all add: nn_surveyor_recv_def nn_surveyor_inprogress_def)
  with 1 2 show ?thesis by blast
qed

theorem surveyor_deadline_witness:
  "\<exists>s1 s2 s3. worker_timeout 1234 (nn_surveyor_handler (nn_sinproc_pipebase_vfptr empty_msg) 1234) nn_surveyor_shutdown
       (open_world answer5, example_surveyor) = Some (open_world answer5, s1)
     \<and> worker_run (length (wk_tasks (td_worker s1))) 1234 (nn_surveyor_handler (nn_sinproc_pipebase_vfptr empty_msg) 1234) nn_surveyor_shutdown
       (open_world answer5, s1) = Some (open_world answer5, s2)
     \<and> nn_surveyor_recv (nn_sinproc_pipebase_vfptr empty_msg) (open_world answer5) s2 = Some (open_world answer5, s3, Inl ETIMEDOUT)"
proof -
  have "sv_of example_surveyor = NN_SURVEYOR_STATE_ACTIVE" "armed example_surveyor"
    "ts_hndl (wk_timerset (td_worker example_surveyor)) wtimer \<le> 1234" by (simp_all add: example_surveyor_def)
  from surveyor_deadline [OF example_surveyor_inv [OF answer_facts(4)] this, of empty_msg] show ?thesis by blast
qed

end
