(* ===== verification/Sock.thy ===== *)
theory Sock
  imports Fsm Sockbase
begin

text \<open>
  The core of a socket: its life cycle and its endpoints (\<open>src/core/sock.c\<close>, \<open>src/core/ep.c\<close>), the event file descriptors that tell
  the user when it can be read or written (\<open>src/utils/efd_eventfd.inc\<close>), its options, and the blocking send and receive.
  The protocol and the transports appear as the functions that the core calls, the record \<open>sock_env\<close>, over their
  private state \<open>'x\<close>; \<open>'o\<close> are the option sets of the transports.
\<close>

section \<open>Event file descriptors\<close>

text \<open>The counter of an eventfd is readable when it is positive; reading it at zero fails with EAGAIN. The descriptor is negative once it is closed.\<close>

record nn_efd =
  efd_fd :: int
  efd_count :: nat

text \<open>\<open>fd\<close> is the result of \<open>eventfd\<close>, \<open>None\<close> if the process or the system has no descriptors left.\<close>

definition nn_efd_init :: "int option \<Rightarrow> errno + nn_efd" where
  "nn_efd_init fd = (case fd of None \<Rightarrow> Inl EMFILE | Some d \<Rightarrow> Inr \<lparr>efd_fd = d, efd_count = 0\<rparr>)"

definition nn_efd_term :: "nn_efd \<Rightarrow> nn_efd" where "nn_efd_term self = self\<lparr>efd_fd := -1\<rparr>"
definition nn_efd_getfd :: "nn_efd \<Rightarrow> int" where "nn_efd_getfd self = efd_fd self"

definition nn_efd_signal :: "nn_efd \<Rightarrow> nn_efd" where
  "nn_efd_signal self = (if efd_fd self < 0 then self else self\<lparr>efd_count := efd_count self + 1\<rparr>)"

definition nn_efd_stop :: "nn_efd \<Rightarrow> nn_efd" where "nn_efd_stop self = nn_efd_signal self"

definition nn_efd_unsignal :: "nn_efd \<Rightarrow> nn_efd option" where
  "nn_efd_unsignal self = (if efd_fd self < 0 then Some self
     else do { nn_assert (efd_count self > 0); Some (self\<lparr>efd_count := 0\<rparr>) })"

section \<open>Data\<close>

datatype sock_state = NN_SOCK_STATE_INIT | NN_SOCK_STATE_ACTIVE | NN_SOCK_STATE_STOPPING_EPS | NN_SOCK_STATE_STOPPING | NN_SOCK_STATE_FINI
datatype ep_state = NN_EP_STATE_IDLE | NN_EP_STATE_ACTIVE | NN_EP_STATE_STOPPING
datatype core_fsm = SockF | EpF nat

definition NN_SOCK_FLAG_IN :: u32 where "NN_SOCK_FLAG_IN = 1"
definition NN_SOCK_FLAG_OUT :: u32 where "NN_SOCK_FLAG_OUT = 2"
definition NN_SOCK_ACTION_STOPPED :: int where "NN_SOCK_ACTION_STOPPED = 1"
definition NN_SOCK_SRC_EP :: int where "NN_SOCK_SRC_EP = 1"
definition NN_EP_ACTION_STOPPED :: int where "NN_EP_ACTION_STOPPED = 1"
definition NN_EP_STOPPED :: int where "NN_EP_STOPPED = 1"
definition NN_SOCKTYPE_FLAG_NORECV :: u32 where "NN_SOCKTYPE_FLAG_NORECV = 1"
definition NN_SOCKTYPE_FLAG_NOSEND :: u32 where "NN_SOCKTYPE_FLAG_NOSEND = 2"
definition NN_MAX_TRANSPORT :: int where "NN_MAX_TRANSPORT = 4"
definition NN_SOCKADDR_MAX :: nat where "NN_SOCKADDR_MAX = 128"
definition NN_DONTWAIT :: u32 where "NN_DONTWAIT = 1"

record nn_ep =
  ep_state :: ep_state
  ep_eid :: int
  ep_options :: nn_ep_options
  ep_addr :: string
  ep_last_errno :: int

record nn_sock_options =
  so_sndbuf :: int
  so_rcvbuf :: int
  so_rcvmaxsize :: int
  so_sndtimeo :: int
  so_rcvtimeo :: int
  so_reconnect_ivl :: int
  so_reconnect_ivl_max :: int
  so_maxttl :: int
  so_ep_template :: nn_ep_options

text \<open>The endpoints are objects in memory, \<open>sk_ep\<close>; a pointer to one is its address. The two lists of endpoints are abstract lists.\<close>

record ('x, 'o) nn_sock =
  sk_ctx :: "(core_fsm, unit) nn_ctx"
  sk_state :: sock_state
  sk_flags :: u32
  sk_sndfd :: nn_efd
  sk_rcvfd :: nn_efd
  sk_termsem :: nat
  sk_relesem :: nat
  sk_eps :: "nat list"
  sk_sdeps :: "nat list"
  sk_eid :: int
  sk_holds :: int
  sk_options :: nn_sock_options
  sk_name :: "u8 list"
  sk_optsets :: "nat \<Rightarrow> 'o option"
  sk_stats :: nn_sock_stats
  sk_ep :: "nat \<Rightarrow> nn_ep option"
  sk_ext :: 'x

text \<open>What the core calls. \<open>se_stop\<close> and \<open>se_ep_stop\<close> may finish at once, which the flag tells, or later. \<open>se_optset\<close> is the new option set of the transport
  with that number, if there is such a transport and it has options.\<close>

record ('x, 'o) sock_env =
  se_flags :: u32
  se_domain :: int
  se_protocol :: int
  se_ispeer :: "int \<Rightarrow> bool"
  se_stop :: "('x \<Rightarrow> 'x \<times> bool) option"
  se_destroy :: "'x \<Rightarrow> 'x"
  se_in :: "nat option \<Rightarrow> 'x \<Rightarrow> 'x option"
  se_out :: "nat option \<Rightarrow> 'x \<Rightarrow> 'x option"
  se_events :: "'x \<Rightarrow> u32"
  se_send :: "nn_msg \<Rightarrow> 'x \<Rightarrow> 'x \<times> (errno + unit)"
  se_recv :: "'x \<Rightarrow> 'x \<times> (errno + nn_msg)"
  se_setopt :: "(int \<Rightarrow> int \<Rightarrow> u8 list \<Rightarrow> 'x \<Rightarrow> 'x \<times> (errno + unit)) option"
  se_getopt :: "(int \<Rightarrow> int \<Rightarrow> nat \<Rightarrow> 'x \<Rightarrow> errno + u8 list \<times> nat) option"
  se_ep_create :: "bool \<Rightarrow> nat \<Rightarrow> string \<Rightarrow> 'x \<Rightarrow> 'x \<times> (errno + unit)"
  se_ep_stop :: "nat \<Rightarrow> 'x \<Rightarrow> 'x \<times> bool"
  se_ep_destroy :: "nat \<Rightarrow> 'x \<Rightarrow> 'x"
  se_optset :: "int \<Rightarrow> 'o option"
  se_optset_set :: "int \<Rightarrow> u8 list \<Rightarrow> 'o \<Rightarrow> 'o \<times> (errno + unit)"
  se_optset_get :: "int \<Rightarrow> nat \<Rightarrow> 'o \<Rightarrow> errno + u8 list \<times> nat"

abbreviation norecv :: "('x, 'o) sock_env \<Rightarrow> bool" where "norecv env \<equiv> se_flags env AND NN_SOCKTYPE_FLAG_NORECV \<noteq> 0"
abbreviation nosend :: "('x, 'o) sock_env \<Rightarrow> bool" where "nosend env \<equiv> se_flags env AND NN_SOCKTYPE_FLAG_NOSEND \<noteq> 0"

abbreviation core_get :: "('x, 'o) nn_sock \<Rightarrow> (core_fsm, unit) nn_ctx" where "core_get \<equiv> sk_ctx"
abbreviation core_upd :: "((core_fsm, unit) nn_ctx \<Rightarrow> (core_fsm, unit) nn_ctx) \<Rightarrow> ('x, 'o) nn_sock \<Rightarrow> ('x, 'o) nn_sock" where
  "core_upd f s \<equiv> s\<lparr>sk_ctx := f (sk_ctx s)\<rparr>"
abbreviation upd_ep :: "nat \<Rightarrow> (nn_ep \<Rightarrow> nn_ep) \<Rightarrow> ('x, 'o) nn_sock \<Rightarrow> ('x, 'o) nn_sock" where
  "upd_ep p f s \<equiv> s\<lparr>sk_ep := (sk_ep s)(p := map_option f (sk_ep s p))\<rparr>"

section \<open>Endpoints\<close>

text \<open>Transports report with \<open>nn_ep_stopped\<close> that an endpoint has stopped.\<close>

definition nn_ep_stopped :: "nat \<Rightarrow> ('x, 'o) nn_sock \<Rightarrow> ('x, 'o) nn_sock option" where
  "nn_ep_stopped p s = do {
     c \<leftarrow> nn_ctx_raise (Stopped (EpF p)) (set_ev (Stopped (EpF p))
       \<lparr>ev_fsm = Some (EpF p), ev_src = NN_FSM_ACTION, ev_srcptr = None, ev_type = NN_EP_ACTION_STOPPED\<rparr> (sk_ctx s));
     Some (s\<lparr>sk_ctx := c\<rparr>) }"

definition nn_ep_shutdown :: "('x, 'o) sock_env \<Rightarrow> nat \<Rightarrow> int \<Rightarrow> int \<Rightarrow> nat option \<Rightarrow> ('x, 'o) nn_sock \<Rightarrow> ('x, 'o) nn_sock option" where
  "nn_ep_shutdown env p src type srcptr s = do {
     ep \<leftarrow> sk_ep s p;
     if src = NN_FSM_ACTION \<and> type = NN_FSM_STOP then do {
       let (x, now) = se_ep_stop env p (sk_ext s);
       s \<leftarrow> (if now then nn_ep_stopped p (s\<lparr>sk_ext := x\<rparr>) else Some (s\<lparr>sk_ext := x\<rparr>));
       Some (upd_ep p (\<lambda>e. e\<lparr>ep_state := NN_EP_STATE_STOPPING\<rparr>) s) }
     else if ep_state ep = NN_EP_STATE_STOPPING then
       (if src \<noteq> NN_FSM_ACTION \<or> type \<noteq> NN_EP_ACTION_STOPPED then Some s
        else do {
          let s = upd_ep p (\<lambda>e. e\<lparr>ep_state := NN_EP_STATE_IDLE\<rparr>) s;
          c \<leftarrow> nn_fsm_stopped (EpF p) NN_EP_STOPPED (sk_ctx s);
          Some (s\<lparr>sk_ctx := c\<rparr>) })
     else None }"

definition nn_ep_handler :: "nat \<Rightarrow> int \<Rightarrow> int \<Rightarrow> nat option \<Rightarrow> ('x, 'o) nn_sock \<Rightarrow> ('x, 'o) nn_sock option" where
  "nn_ep_handler p src type srcptr s = do {
     ep \<leftarrow> sk_ep s p;
     (case ep_state ep of
        NN_EP_STATE_IDLE \<Rightarrow>
          if src = NN_FSM_ACTION \<and> type = NN_FSM_START then Some (upd_ep p (\<lambda>e. e\<lparr>ep_state := NN_EP_STATE_ACTIVE\<rparr>) s) else None
      | _ \<Rightarrow> None) }"

text \<open>The endpoint at \<open>p\<close> has just been allocated. Besides the result of the transport, a failure leaves no endpoint behind.\<close>

definition nn_ep_init :: "('x, 'o) sock_env \<Rightarrow> nat \<Rightarrow> int \<Rightarrow> bool \<Rightarrow> string \<Rightarrow> ('x, 'o) nn_sock \<Rightarrow>
  (('x, 'o) nn_sock \<times> (errno + unit)) option" where
  "nn_ep_init env p eid bnd addr s = do {
     nn_assert (length addr \<le> NN_SOCKADDR_MAX);
     let s = s\<lparr>sk_ctx := nn_fsm_init (EpF p) NN_SOCK_SRC_EP (Some p) SockF (sk_ctx s),
       sk_ep := (sk_ep s)(p \<mapsto> \<lparr>ep_state = NN_EP_STATE_IDLE, ep_eid = eid, ep_options = so_ep_template (sk_options s),
         ep_addr = addr, ep_last_errno = 0\<rparr>)\<rparr>;
     let (x, r) = se_ep_create env bnd p addr (sk_ext s);
     let s = s\<lparr>sk_ext := x\<rparr>;
     (case r of
        Inl e \<Rightarrow> do { nn_fsm_term (sk_ctx s) (EpF p); Some (s, Inl e) }
      | Inr _ \<Rightarrow> Some (s, Inr ())) }"

definition nn_ep_term :: "('x, 'o) sock_env \<Rightarrow> nat \<Rightarrow> ('x, 'o) nn_sock \<Rightarrow> ('x, 'o) nn_sock option" where
  "nn_ep_term env p s = do {
     ep \<leftarrow> sk_ep s p;
     nn_assert (ep_state ep = NN_EP_STATE_IDLE);
     let s = s\<lparr>sk_ext := se_ep_destroy env p (sk_ext s)\<rparr>;
     nn_assert (p \<notin> set (sk_eps s) \<and> p \<notin> set (sk_sdeps s));
     nn_fsm_term (sk_ctx s) (EpF p);
     Some s }"

text \<open>The error state of an endpoint is counted in the statistics of the socket.\<close>

definition nn_ep_set_error :: "nat \<Rightarrow> int \<Rightarrow> ('x, 'o) nn_sock \<Rightarrow> ('x, 'o) nn_sock option" where
  "nn_ep_set_error p errnum s = do {
     ep \<leftarrow> sk_ep s p;
     if ep_last_errno ep = errnum then Some s
     else do {
       st \<leftarrow> (if ep_last_errno ep = 0 then nn_sock_stat_increment (sk_stats s) NN_STAT_CURRENT_EP_ERRORS 1 else Some (sk_stats s));
       Some (upd_ep p (\<lambda>e. e\<lparr>ep_last_errno := errnum\<rparr>) (s\<lparr>sk_stats := st\<rparr>)) } }"

definition nn_ep_clear_error :: "nat \<Rightarrow> ('x, 'o) nn_sock \<Rightarrow> ('x, 'o) nn_sock option" where
  "nn_ep_clear_error p s = do {
     ep \<leftarrow> sk_ep s p;
     if ep_last_errno ep = 0 then Some s
     else do {
       st \<leftarrow> nn_sock_stat_increment (sk_stats s) NN_STAT_CURRENT_EP_ERRORS (-1);
       Some (upd_ep p (\<lambda>e. e\<lparr>ep_last_errno := 0\<rparr>) (s\<lparr>sk_stats := st\<rparr>)) } }"

section \<open>The state machine of the socket\<close>

definition nn_sock_stopped :: "('x, 'o) nn_sock \<Rightarrow> ('x, 'o) nn_sock option" where
  "nn_sock_stopped s = do {
     c \<leftarrow> nn_ctx_raise (Stopped SockF) (set_ev (Stopped SockF)
       \<lparr>ev_fsm = Some SockF, ev_src = NN_FSM_ACTION, ev_srcptr = None, ev_type = NN_SOCK_ACTION_STOPPED\<rparr> (sk_ctx s));
     Some (s\<lparr>sk_ctx := c\<rparr>) }"

definition nn_ep_stop :: "('x, 'o) sock_env \<Rightarrow> nat \<Rightarrow> ('x, 'o) nn_sock \<Rightarrow> ('x, 'o) nn_sock option" where
  "nn_ep_stop env p = nn_fsm_stop core_get core_upd (\<lambda>_. nn_ep_shutdown env p) (EpF p)"

definition nn_ep_start :: "nat \<Rightarrow> ('x, 'o) nn_sock \<Rightarrow> ('x, 'o) nn_sock option" where
  "nn_ep_start p = nn_fsm_start core_get core_upd (\<lambda>_. nn_ep_handler p) (EpF p)"

text \<open>The label \<open>finish1\<close>: the protocol has stopped.\<close>

definition sock_finish1 :: "('x, 'o) sock_env \<Rightarrow> ('x, 'o) nn_sock \<Rightarrow> ('x, 'o) nn_sock" where
  "sock_finish1 env s = (let s = s\<lparr>sk_ext := se_destroy env (sk_ext s), sk_state := NN_SOCK_STATE_FINI\<rparr>;
     s = (if \<not> norecv env then s\<lparr>sk_rcvfd := nn_efd_term (sk_rcvfd s)\<rparr> else s);
     s = (if \<not> nosend env then s\<lparr>sk_sndfd := nn_efd_term (sk_sndfd s)\<rparr> else s)
     in s\<lparr>sk_termsem := sk_termsem s + 1\<rparr>)"

text \<open>The label \<open>finish2\<close>: once all endpoints are gone the protocol is asked to stop.\<close>

definition sock_finish2 :: "('x, 'o) sock_env \<Rightarrow> ('x, 'o) nn_sock \<Rightarrow> ('x, 'o) nn_sock option" where
  "sock_finish2 env s = (if sk_sdeps s \<noteq> [] then Some s
     else do {
       nn_assert (sk_eps s = []);
       let s = s\<lparr>sk_state := NN_SOCK_STATE_STOPPING\<rparr>;
       (case se_stop env of
          None \<Rightarrow> Some (sock_finish1 env s)
        | Some stop \<Rightarrow> (let (x, now) = stop (sk_ext s); s = s\<lparr>sk_ext := x\<rparr> in if now then nn_sock_stopped s else Some s)) })"

fun sock_stop_eps :: "('x, 'o) sock_env \<Rightarrow> nat list \<Rightarrow> ('x, 'o) nn_sock \<Rightarrow> ('x, 'o) nn_sock option" where
  "sock_stop_eps env [] s = Some s"
| "sock_stop_eps env (p # ps) s = do {
     s \<leftarrow> nn_ep_stop env p (s\<lparr>sk_eps := remove1 p (sk_eps s), sk_sdeps := sk_sdeps s @ [p]\<rparr>);
     sock_stop_eps env ps s }"

text \<open>An endpoint has stopped: it is taken off the list, terminated and freed.\<close>

definition sock_ep_gone :: "('x, 'o) sock_env \<Rightarrow> nat option \<Rightarrow> ('x, 'o) nn_sock \<Rightarrow> ('x, 'o) nn_sock option" where
  "sock_ep_gone env srcptr s = do {
     p \<leftarrow> srcptr;
     nn_assert (p \<in> set (sk_sdeps s));
     s \<leftarrow> nn_ep_term env p (s\<lparr>sk_sdeps := remove1 p (sk_sdeps s)\<rparr>);
     Some (s\<lparr>sk_ep := (sk_ep s)(p := None)\<rparr>) }"

definition nn_sock_shutdown :: "('x, 'o) sock_env \<Rightarrow> int \<Rightarrow> int \<Rightarrow> nat option \<Rightarrow> ('x, 'o) nn_sock \<Rightarrow> ('x, 'o) nn_sock option" where
  "nn_sock_shutdown env src type srcptr s =
    (if src = NN_FSM_ACTION \<and> type = NN_FSM_STOP then do {
       nn_assert (sk_state s = NN_SOCK_STATE_ACTIVE);
       let s = (if \<not> norecv env then s\<lparr>sk_rcvfd := nn_efd_stop (sk_rcvfd s)\<rparr> else s);
       let s = (if \<not> nosend env then s\<lparr>sk_sndfd := nn_efd_stop (sk_sndfd s)\<rparr> else s);
       s \<leftarrow> sock_stop_eps env (sk_eps s) s;
       sock_finish2 env (s\<lparr>sk_state := NN_SOCK_STATE_STOPPING_EPS\<rparr>) }
     else if sk_state s = NN_SOCK_STATE_STOPPING_EPS then
       (if \<not> (src = NN_SOCK_SRC_EP \<and> type = NN_EP_STOPPED) then Some s
        else do { s \<leftarrow> sock_ep_gone env srcptr s; sock_finish2 env s })
     else if sk_state s = NN_SOCK_STATE_STOPPING then do {
       nn_assert (src = NN_FSM_ACTION \<and> type = NN_SOCK_ACTION_STOPPED);
       Some (sock_finish1 env s) }
     else None)"

text \<open>\<open>NN_PIPE_IN\<close> and \<open>NN_PIPE_OUT\<close> are 33987 and 33988.\<close>

definition nn_sock_handler :: "('x, 'o) sock_env \<Rightarrow> int \<Rightarrow> int \<Rightarrow> nat option \<Rightarrow> ('x, 'o) nn_sock \<Rightarrow> ('x, 'o) nn_sock option" where
  "nn_sock_handler env src type srcptr s = (case sk_state s of
     NN_SOCK_STATE_INIT \<Rightarrow>
       if src = NN_FSM_ACTION \<and> type = NN_FSM_START then Some (s\<lparr>sk_state := NN_SOCK_STATE_ACTIVE\<rparr>) else None
   | NN_SOCK_STATE_ACTIVE \<Rightarrow>
       if src = NN_FSM_ACTION then None
       else if src = NN_SOCK_SRC_EP then (if type = NN_EP_STOPPED then sock_ep_gone env srcptr s else None)
       else if type = 33987 then do { x \<leftarrow> se_in env srcptr (sk_ext s); Some (s\<lparr>sk_ext := x\<rparr>) }
       else if type = 33988 then do { x \<leftarrow> se_out env srcptr (sk_ext s); Some (s\<lparr>sk_ext := x\<rparr>) }
       else None
   | _ \<Rightarrow> None)"

definition core_fn :: "('x, 'o) sock_env \<Rightarrow> (core_fsm, ('x, 'o) nn_sock) fsm_fn" where
  "core_fn env f = (case f of SockF \<Rightarrow> nn_sock_handler env | EpF p \<Rightarrow> nn_ep_handler p)"

definition core_shutdown_fn :: "('x, 'o) sock_env \<Rightarrow> (core_fsm, ('x, 'o) nn_sock) fsm_fn" where
  "core_shutdown_fn env f = (case f of SockF \<Rightarrow> nn_sock_shutdown env | EpF p \<Rightarrow> nn_ep_shutdown env p)"

section \<open>Leaving the context\<close>

text \<open>One direction of \<open>nn_sock_onleave\<close>: the descriptor is signalled when the event has appeared and drained when it has gone.\<close>

definition efd_follow :: "bool \<Rightarrow> u32 \<Rightarrow> u32 \<Rightarrow> nn_efd \<Rightarrow> (u32 \<times> nn_efd) option" where
  "efd_follow ready flag flags efd =
    (if ready then (if flags AND flag = 0 then Some (flags OR flag, nn_efd_signal efd) else Some (flags, efd))
     else if flags AND flag \<noteq> 0 then do { efd \<leftarrow> nn_efd_unsignal efd; Some (flags AND NOT flag, efd) } else Some (flags, efd))"

definition nn_sock_onleave :: "('x, 'o) sock_env \<Rightarrow> ('x, 'o) nn_sock \<Rightarrow> ('x, 'o) nn_sock option" where
  "nn_sock_onleave env s =
    (if sk_state s \<noteq> NN_SOCK_STATE_ACTIVE then Some s
     else do {
       let events = se_events env (sk_ext s);
       s \<leftarrow> (if \<not> norecv env then do {
           (fl, efd) \<leftarrow> efd_follow (events AND NN_SOCKBASE_EVENT_IN \<noteq> 0) NN_SOCK_FLAG_IN (sk_flags s) (sk_rcvfd s);
           Some (s\<lparr>sk_flags := fl, sk_rcvfd := efd\<rparr>) }
         else Some s);
       if \<not> nosend env then do {
         (fl, efd) \<leftarrow> efd_follow (events AND NN_SOCKBASE_EVENT_OUT \<noteq> 0) NN_SOCK_FLAG_OUT (sk_flags s) (sk_sndfd s);
         Some (s\<lparr>sk_flags := fl, sk_sndfd := efd\<rparr>) }
       else Some s })"

text \<open>Events for other contexts do not occur on this level.\<close>

definition sock_leave :: "('x, 'o) sock_env \<Rightarrow> ('x, 'o) nn_sock \<Rightarrow> ('x, 'o) nn_sock option" where
  "sock_leave env = nn_ctx_leave core_get core_upd (nn_fsm_event_process core_get core_upd (core_fn env) (core_shutdown_fn env))
     (Some (nn_sock_onleave env)) (\<lambda>_ _. None)"

section \<open>Operations\<close>

definition default_options :: nn_sock_options where
  "default_options = \<lparr>so_sndbuf = 128 * 1024, so_rcvbuf = 128 * 1024, so_rcvmaxsize = 1024 * 1024, so_sndtimeo = -1, so_rcvtimeo = -1,
     so_reconnect_ivl = 100, so_reconnect_ivl_max = 0, so_maxttl = 8, so_ep_template = \<lparr>sndprio = 8, rcvprio = 8, ipv4only = 1\<rparr>\<rparr>"

text \<open>The two descriptors; that of a direction which the socket type does not have is filled with the byte \<open>0xcd\<close>. If the second cannot be opened the
  first is closed again.\<close>

definition sock_open_efds :: "('x, 'o) sock_env \<Rightarrow> int option \<Rightarrow> int option \<Rightarrow> errno + (nn_efd \<times> nn_efd)" where
  "sock_open_efds env sndfd rcvfd =
    (case (if nosend env then Inr \<lparr>efd_fd = sint (0xcdcdcdcd :: u32), efd_count = 0\<rparr> else nn_efd_init sndfd) of
       Inl e \<Rightarrow> Inl e
     | Inr sfd \<Rightarrow> (case (if norecv env then Inr \<lparr>efd_fd = sint (0xcdcdcdcd :: u32), efd_count = 0\<rparr> else nn_efd_init rcvfd) of
         Inl e \<Rightarrow> Inl e
       | Inr rcv \<Rightarrow> Inr (sfd, rcv)))"

text \<open>\<open>sndfd\<close> and \<open>rcvfd\<close> are the results of opening two descriptors; \<open>name\<close> is the number of the socket as text, \<open>x\<close> the state of
  the new protocol object, \<open>mem\<close> and \<open>evs\<close> the contents of memory, and \<open>zero\<close> the cleared statistics.\<close>

definition nn_sock_init :: "('x, 'o) sock_env \<Rightarrow> int option \<Rightarrow> int option \<Rightarrow> u8 list \<Rightarrow> 'x \<Rightarrow> (core_fsm \<Rightarrow> core_fsm nn_fsm) \<Rightarrow>
  ((core_fsm, unit) event_id \<Rightarrow> core_fsm nn_fsm_event) \<Rightarrow> nn_sock_stats \<Rightarrow> (errno + ('x, 'o) nn_sock) option" where
  "nn_sock_init env sndfd rcvfd name x mem evs zero = do {
     nn_assert (\<not> nosend env \<or> \<not> norecv env);
     (case sock_open_efds env sndfd rcvfd of
        Inl e \<Rightarrow> Some (Inl e)
      | Inr (sfd, rcv) \<Rightarrow> do {
          s \<leftarrow> nn_fsm_start core_get core_upd (core_fn env) SockF
            \<lparr>sk_ctx = nn_fsm_init_root SockF (nn_ctx_init mem evs), sk_state = NN_SOCK_STATE_INIT, sk_flags = 0, sk_sndfd = sfd,
             sk_rcvfd = rcv, sk_termsem = 0, sk_relesem = 0, sk_eps = [], sk_sdeps = [], sk_eid = 1, sk_holds = 1,
             sk_options = default_options, sk_name = name @ [0], sk_optsets = (\<lambda>_. None), sk_stats = zero, sk_ep = (\<lambda>_. None), sk_ext = x\<rparr>;
          s \<leftarrow> sock_leave env s;
          Some (Inr s) }) }"

definition nn_sock_stop :: "('x, 'o) sock_env \<Rightarrow> ('x, 'o) nn_sock \<Rightarrow> ('x, 'o) nn_sock option" where
  "nn_sock_stop env s = do {
     s \<leftarrow> nn_fsm_stop core_get core_upd (core_shutdown_fn env) SockF s;
     sock_leave env s }"

text \<open>\<open>p\<close> is the address of the new endpoint.\<close>

definition nn_sock_add_ep :: "('x, 'o) sock_env \<Rightarrow> nat \<Rightarrow> bool \<Rightarrow> string \<Rightarrow> ('x, 'o) nn_sock \<Rightarrow> (('x, 'o) nn_sock \<times> (errno + int)) option" where
  "nn_sock_add_ep env p bnd addr s = do {
     (s, r) \<leftarrow> nn_ep_init env p (sk_eid s) bnd addr s;
     (case r of
        Inl e \<Rightarrow> do { s \<leftarrow> sock_leave env (s\<lparr>sk_ep := (sk_ep s)(p := None)\<rparr>); Some (s, Inl e) }
      | Inr _ \<Rightarrow> do {
          s \<leftarrow> nn_ep_start p s;
          let eid = sk_eid s;
          s \<leftarrow> sock_leave env (s\<lparr>sk_eid := eid + 1, sk_eps := sk_eps s @ [p]\<rparr>);
          Some (s, Inr eid) }) }"

definition nn_sock_rm_ep :: "('x, 'o) sock_env \<Rightarrow> int \<Rightarrow> ('x, 'o) nn_sock \<Rightarrow> (('x, 'o) nn_sock \<times> (errno + unit)) option" where
  "nn_sock_rm_ep env eid s = (case find (\<lambda>p. map_option ep_eid (sk_ep s p) = Some eid) (sk_eps s) of
     None \<Rightarrow> do { s \<leftarrow> sock_leave env s; Some (s, Inl EINVAL) }
   | Some p \<Rightarrow> do {
       s \<leftarrow> nn_ep_stop env p (s\<lparr>sk_eps := remove1 p (sk_eps s), sk_sdeps := sk_sdeps s @ [p]\<rparr>);
       s \<leftarrow> sock_leave env s;
       Some (s, Inr ()) })"

definition nn_sock_hold :: "('x, 'o) nn_sock \<Rightarrow> ('x, 'o) nn_sock \<times> (errno + unit)" where
  "nn_sock_hold s = (if sk_state s \<in> {NN_SOCK_STATE_ACTIVE, NN_SOCK_STATE_INIT} then (s\<lparr>sk_holds := sk_holds s + 1\<rparr>, Inr ())
     else (s, Inl EBADF))"

definition nn_sock_rele :: "('x, 'o) nn_sock \<Rightarrow> ('x, 'o) nn_sock" where
  "nn_sock_rele s = (let s = s\<lparr>sk_holds := sk_holds s - 1\<rparr> in
     if sk_holds s = 0 then s\<lparr>sk_relesem := sk_relesem s + 1\<rparr> else s)"

text \<open>The part of \<open>nn_sock_term\<close> that follows the two waits; \<open>None\<close> also stands for a wait that does not return.\<close>

definition nn_sock_term :: "('x, 'o) sock_env \<Rightarrow> ('x, 'o) nn_sock \<Rightarrow> unit option" where
  "nn_sock_term env s = do {
     nn_assert (sk_termsem s > 0 \<and> sk_relesem s > 0);
     s \<leftarrow> sock_leave env (s\<lparr>sk_termsem := sk_termsem s - 1, sk_relesem := sk_relesem s - 1\<rparr>);
     c \<leftarrow> nn_fsm_stopped_noevent SockF (sk_ctx s);
     nn_fsm_term c SockF;
     nn_assert (sk_sdeps s = []);
     nn_assert (sk_eps s = []) }"

definition nn_sock_ispeer :: "('x, 'o) sock_env \<Rightarrow> int \<Rightarrow> bool" where
  "nn_sock_ispeer env socktype = (if (word_of_int (se_protocol env) :: u32) AND 0xfff0 \<noteq> word_of_int socktype AND 0xfff0 then False
     else se_ispeer env socktype)"

end
