(* ===== verification/Sock_Io.thy ===== *)
theory Sock_Io
  imports Sock
begin

text \<open>
  The options of a socket, and the blocking send and receive (\<open>src/core/sock.c\<close>) with the wait on an event file descriptor (\<open>src/utils/efd.c\<close>).
  The bytes of an \<open>int\<close> are little-endian, as on the machines that have \<open>eventfd\<close> in practice.
\<close>

section \<open>Options\<close>

definition NN_LINGER :: int where "NN_LINGER = 1"
definition NN_SNDBUF :: int where "NN_SNDBUF = 2"
definition NN_RCVBUF :: int where "NN_RCVBUF = 3"
definition NN_SNDTIMEO :: int where "NN_SNDTIMEO = 4"
definition NN_RCVTIMEO :: int where "NN_RCVTIMEO = 5"
definition NN_RECONNECT_IVL :: int where "NN_RECONNECT_IVL = 6"
definition NN_RECONNECT_IVL_MAX :: int where "NN_RECONNECT_IVL_MAX = 7"
definition NN_SNDFD :: int where "NN_SNDFD = 10"
definition NN_RCVFD :: int where "NN_RCVFD = 11"
definition NN_DOMAIN :: int where "NN_DOMAIN = 12"
definition NN_PROTOCOL :: int where "NN_PROTOCOL = 13"
definition NN_SOCKET_NAME :: int where "NN_SOCKET_NAME = 15"
definition NN_MAXTTL :: int where "NN_MAXTTL = 17"

definition store_int :: "int \<Rightarrow> u8 list" where
  "store_int i = (let w = word_of_int i :: u32 in [ucast w, ucast (drop_bit 8 w), ucast (drop_bit 16 w), ucast (drop_bit 24 w)])"

definition load_int :: "u8 list \<Rightarrow> int" where
  "load_int bs = sint (foldr (\<lambda>b w. push_bit 8 w OR ucast b) bs 0 :: u32)"

definition nn_sock_optset :: "('x, 'o) sock_env \<Rightarrow> int \<Rightarrow> ('x, 'o) nn_sock \<Rightarrow> ('x, 'o) nn_sock \<times> nat option" where
  "nn_sock_optset env ident s = (let index = - ident - 1 in
     if index < 0 \<or> index \<ge> NN_MAX_TRANSPORT then (s, None)
     else if sk_optsets s (nat index) \<noteq> None then (s, Some (nat index))
     else (case se_optset env ident of
         None \<Rightarrow> (s, None)
       | Some os \<Rightarrow> (s\<lparr>sk_optsets := (sk_optsets s)(nat index \<mapsto> os)\<rparr>, Some (nat index))))"

text \<open>The generic options that are integers.\<close>

definition sock_set_int :: "int \<Rightarrow> int \<Rightarrow> nn_sock_options \<Rightarrow> errno + nn_sock_options" where
  "sock_set_int opt val opts =
    (if opt = NN_SNDBUF then (if val \<le> 0 then Inl EINVAL else Inr (opts\<lparr>so_sndbuf := val\<rparr>))
     else if opt = NN_RCVBUF then (if val \<le> 0 then Inl EINVAL else Inr (opts\<lparr>so_rcvbuf := val\<rparr>))
     else if opt = NN_RCVMAXSIZE then (if val < -1 then Inl EINVAL else Inr (opts\<lparr>so_rcvmaxsize := val\<rparr>))
     else if opt = NN_SNDTIMEO then Inr (opts\<lparr>so_sndtimeo := val\<rparr>)
     else if opt = NN_RCVTIMEO then Inr (opts\<lparr>so_rcvtimeo := val\<rparr>)
     else if opt = NN_RECONNECT_IVL then (if val < 0 then Inl EINVAL else Inr (opts\<lparr>so_reconnect_ivl := val\<rparr>))
     else if opt = NN_RECONNECT_IVL_MAX then (if val < 0 then Inl EINVAL else Inr (opts\<lparr>so_reconnect_ivl_max := val\<rparr>))
     else if opt = NN_SNDPRIO then (if val < 1 \<or> val > 16 then Inl EINVAL
       else Inr (opts\<lparr>so_ep_template := (so_ep_template opts)\<lparr>sndprio := val\<rparr>\<rparr>))
     else if opt = NN_RCVPRIO then (if val < 1 \<or> val > 16 then Inl EINVAL
       else Inr (opts\<lparr>so_ep_template := (so_ep_template opts)\<lparr>rcvprio := val\<rparr>\<rparr>))
     else if opt = NN_IPV4ONLY then (if val \<noteq> 0 \<and> val \<noteq> 1 then Inl EINVAL
       else Inr (opts\<lparr>so_ep_template := (so_ep_template opts)\<lparr>ipv4only := val\<rparr>\<rparr>))
     else if opt = NN_MAXTTL then (if val < 1 \<or> val > 255 then Inl EINVAL else Inr (opts\<lparr>so_maxttl := val\<rparr>))
     else if opt = NN_LINGER then Inr opts
     else Inl ENOPROTOOPT)"

text \<open>\<open>optval\<close> are the bytes the user passes; the name is kept with its terminating zero.\<close>

definition nn_sock_setopt_inner :: "('x, 'o) sock_env \<Rightarrow> int \<Rightarrow> int \<Rightarrow> u8 list \<Rightarrow> ('x, 'o) nn_sock \<Rightarrow> ('x, 'o) nn_sock \<times> (errno + unit)" where
  "nn_sock_setopt_inner env level opt optval s =
    (if level > NN_SOL_SOCKET then
       (case se_setopt env of
          None \<Rightarrow> (s, Inl ENOPROTOOPT)
        | Some f \<Rightarrow> (let (x, r) = f level opt optval (sk_ext s) in (s\<lparr>sk_ext := x\<rparr>, r)))
     else if level < NN_SOL_SOCKET then
       (case nn_sock_optset env level s of
          (s, None) \<Rightarrow> (s, Inl ENOPROTOOPT)
        | (s, Some i) \<Rightarrow> (case sk_optsets s i of
            None \<Rightarrow> (s, Inl ENOPROTOOPT)
          | Some os \<Rightarrow> (let (os, r) = se_optset_set env opt optval os in (s\<lparr>sk_optsets := (sk_optsets s)(i \<mapsto> os)\<rparr>, r))))
     else if opt = NN_SOCKET_NAME then
       (if length optval > 63 then (s, Inl EINVAL)
        else (s\<lparr>sk_name := optval @ 0 # drop (length optval + 1) (sk_name s)\<rparr>, Inr ()))
     else if length optval \<noteq> 4 then (s, Inl EINVAL)
     else (case sock_set_int opt (load_int optval) (sk_options s) of
         Inl e \<Rightarrow> (s, Inl e)
       | Inr opts \<Rightarrow> (s\<lparr>sk_options := opts\<rparr>, Inr ())))"

text \<open>The options of the protocol are reached through the protocol's object, which is freed when the socket is finished. A thread that still holds the
  socket then reads freed memory.\<close>

definition proto_gone :: "int \<Rightarrow> ('x, 'o) nn_sock \<Rightarrow> bool" where
  "proto_gone level s \<longleftrightarrow> level > NN_SOL_SOCKET \<and> sk_state s = NN_SOCK_STATE_FINI"

definition nn_sock_setopt :: "('x, 'o) sock_env \<Rightarrow> int \<Rightarrow> int \<Rightarrow> u8 list \<Rightarrow> ('x, 'o) nn_sock \<Rightarrow> (('x, 'o) nn_sock \<times> (errno + unit)) option" where
  "nn_sock_setopt env level opt optval s = (if proto_gone level s then None else
     (let (s, r) = nn_sock_setopt_inner env level opt optval s in do { s \<leftarrow> sock_leave env s; Some (s, r) }))"

definition sock_get_int :: "('x, 'o) sock_env \<Rightarrow> int \<Rightarrow> nn_sock_options \<Rightarrow> int option" where
  "sock_get_int env opt opts =
    (if opt = NN_DOMAIN then Some (se_domain env)
     else if opt = NN_PROTOCOL then Some (se_protocol env)
     else if opt = NN_LINGER then Some 0
     else if opt = NN_SNDBUF then Some (so_sndbuf opts)
     else if opt = NN_RCVBUF then Some (so_rcvbuf opts)
     else if opt = NN_RCVMAXSIZE then Some (so_rcvmaxsize opts)
     else if opt = NN_SNDTIMEO then Some (so_sndtimeo opts)
     else if opt = NN_RCVTIMEO then Some (so_rcvtimeo opts)
     else if opt = NN_RECONNECT_IVL then Some (so_reconnect_ivl opts)
     else if opt = NN_RECONNECT_IVL_MAX then Some (so_reconnect_ivl_max opts)
     else if opt = NN_SNDPRIO then Some (sndprio (so_ep_template opts))
     else if opt = NN_RCVPRIO then Some (rcvprio (so_ep_template opts))
     else if opt = NN_IPV4ONLY then Some (ipv4only (so_ep_template opts))
     else if opt = NN_MAXTTL then Some (so_maxttl opts)
     else None)"

text \<open>The bytes written to the user's buffer of \<open>len\<close> bytes, and the size that is reported.\<close>

definition nn_sock_getopt_inner :: "('x, 'o) sock_env \<Rightarrow> int \<Rightarrow> int \<Rightarrow> nat \<Rightarrow> ('x, 'o) nn_sock \<Rightarrow> ('x, 'o) nn_sock \<times> (errno + u8 list \<times> nat)" where
  "nn_sock_getopt_inner env level opt len s =
    (if level > NN_SOL_SOCKET then
       (case se_getopt env of None \<Rightarrow> (s, Inl ENOPROTOOPT) | Some f \<Rightarrow> (s, f level opt len (sk_ext s)))
     else if level < NN_SOL_SOCKET then
       (case nn_sock_optset env level s of
          (s, None) \<Rightarrow> (s, Inl ENOPROTOOPT)
        | (s, Some i) \<Rightarrow> (case sk_optsets s i of
            None \<Rightarrow> (s, Inl ENOPROTOOPT)
          | Some os \<Rightarrow> (s, se_optset_get env opt len os)))
     else if opt = NN_SNDFD then
       (if nosend env then (s, Inl ENOPROTOOPT) else (s, Inr (take len (store_int (nn_efd_getfd (sk_sndfd s))), 4)))
     else if opt = NN_RCVFD then
       (if norecv env then (s, Inl ENOPROTOOPT) else (s, Inr (take len (store_int (nn_efd_getfd (sk_rcvfd s))), 4)))
     else if opt = NN_SOCKET_NAME then
       (let str = takeWhile (\<lambda>b. b \<noteq> 0) (sk_name s) in (s, Inr (take len (str @ replicate len 0), length str)))
     else (case sock_get_int env opt (sk_options s) of
         None \<Rightarrow> (s, Inl ENOPROTOOPT)
       | Some v \<Rightarrow> (s, Inr (take len (store_int v), 4))))"

definition nn_sock_getopt :: "('x, 'o) sock_env \<Rightarrow> int \<Rightarrow> int \<Rightarrow> nat \<Rightarrow> ('x, 'o) nn_sock \<Rightarrow> (('x, 'o) nn_sock \<times> (errno + u8 list \<times> nat)) option" where
  "nn_sock_getopt env level opt len s = (if proto_gone level s then None else
     (let (s, r) = nn_sock_getopt_inner env level opt len s in do { s \<leftarrow> sock_leave env s; Some (s, r) }))"

section \<open>Waiting for a descriptor\<close>

text \<open>What one round of the wait sees: the descriptor, the clock, the result of \<open>poll\<close>, and the clock again. A wait for which the observations
  do not suffice has not returned.\<close>

datatype poll_result = Poll_intr | Poll_none | Poll_ready

record efd_obs =
  ob_fd :: int
  ob_now :: u64
  ob_poll :: poll_result
  ob_after :: u64

definition efd_expire :: "u64 \<Rightarrow> int \<Rightarrow> u64" where
  "efd_expire now timeout = (if timeout > 0 then now + word_of_int timeout else word_of_int timeout)"

fun efd_wait_loop :: "u64 \<Rightarrow> efd_obs list \<Rightarrow> (errno + unit) option" where
  "efd_wait_loop expire [] = None"
| "efd_wait_loop expire (ob # obs) =
    (if ob_fd ob < 0 then Some (Inl EBADF)
     else if expire \<noteq> 0 \<and> expire \<noteq> -1 \<and> sint (ucast (expire - ob_now ob) :: u32) < 0 then Some (Inl ETIMEDOUT)
     else (case ob_poll ob of
         Poll_intr \<Rightarrow> Some (Inl EINTR)
       | Poll_ready \<Rightarrow> Some (Inr ())
       | Poll_none \<Rightarrow>
           if expire = 0 then Some (Inl ETIMEDOUT)
           else if expire \<noteq> -1 \<and> expire < ob_after ob then Some (Inl ETIMEDOUT)
           else efd_wait_loop expire obs))"

definition nn_efd_wait :: "u64 \<Rightarrow> int \<Rightarrow> efd_obs list \<Rightarrow> (errno + unit) option" where
  "nn_efd_wait now timeout obs = efd_wait_loop (efd_expire now timeout) obs"

section \<open>Send and receive\<close>

text \<open>A call either has returned or has left the context and waits, with its deadline and the time it may still wait. \<open>attempt\<close> is the send or receive
  operation of the protocol.\<close>

datatype 'a call = Waiting u64 int | Returned "errno + 'a"

definition sock_attempt :: "('x, 'o) sock_env \<Rightarrow> ('x \<Rightarrow> 'x \<times> (errno + 'a)) \<Rightarrow> u32 \<Rightarrow> u64 \<Rightarrow> int \<Rightarrow> ('x, 'o) nn_sock \<Rightarrow>
  (('x, 'o) nn_sock \<times> 'a call) option" where
  "sock_attempt env attempt flags deadline timeout s =
    (if sk_state s \<in> {NN_SOCK_STATE_ACTIVE, NN_SOCK_STATE_INIT} then
       (let (x, r) = attempt (sk_ext s) in do {
          s \<leftarrow> sock_leave env (s\<lparr>sk_ext := x\<rparr>);
          Some (s, case r of
              Inr a \<Rightarrow> Returned (Inr a)
            | Inl e \<Rightarrow> if e \<noteq> EAGAIN then Returned (Inl e)
                else if flags AND NN_DONTWAIT \<noteq> 0 then Returned (Inl EAGAIN)
                else Waiting deadline timeout) })
     else do { s \<leftarrow> sock_leave env s; Some (s, Returned (Inl EBADF)) })"

definition call_deadline :: "u64 \<Rightarrow> int \<Rightarrow> u64" where
  "call_deadline now timeo = (if timeo < 0 then -1 else now + word_of_int timeo)"

definition call_timeout :: "int \<Rightarrow> int" where "call_timeout timeo = (if timeo < 0 then -1 else timeo)"

definition call_left :: "u64 \<Rightarrow> int \<Rightarrow> u64 \<Rightarrow> int \<Rightarrow> int" where
  "call_left now timeo deadline timeout =
    (if timeo \<ge> 0 then sint (ucast (if now > deadline then 0 else deadline - now) :: u32) else timeout)"

text \<open>The wait of a call has come to an end with \<open>rc\<close>. After a wait that was successful the descriptor is checked once more, and the call tries again.\<close>

definition efd_ready :: "nn_efd \<Rightarrow> bool" where "efd_ready efd \<longleftrightarrow> efd_fd efd \<ge> 0 \<and> efd_count efd > 0"

definition nn_sock_send :: "('x, 'o) sock_env \<Rightarrow> u64 \<Rightarrow> nn_msg \<Rightarrow> u32 \<Rightarrow> ('x, 'o) nn_sock \<Rightarrow> (('x, 'o) nn_sock \<times> unit call) option" where
  "nn_sock_send env now msg flags s = (if nosend env then Some (s, Returned (Inl ENOTSUP))
     else sock_attempt env (se_send env msg) flags (call_deadline now (so_sndtimeo (sk_options s))) (call_timeout (so_sndtimeo (sk_options s))) s)"

definition sock_send_woken :: "('x, 'o) sock_env \<Rightarrow> u64 \<Rightarrow> nn_msg \<Rightarrow> u32 \<Rightarrow> u64 \<Rightarrow> int \<Rightarrow> errno + unit \<Rightarrow> ('x, 'o) nn_sock \<Rightarrow>
  (('x, 'o) nn_sock \<times> unit call) option" where
  "sock_send_woken env now msg flags deadline timeout rc s = (case rc of
     Inl e \<Rightarrow> do { nn_assert (e \<in> {ETIMEDOUT, EINTR, EBADF}); Some (s, Returned (Inl e)) }
   | Inr _ \<Rightarrow> (let s = (if efd_ready (sk_sndfd s) then s\<lparr>sk_flags := sk_flags s OR NN_SOCK_FLAG_OUT\<rparr> else s) in
       sock_attempt env (se_send env msg) flags deadline (call_left now (so_sndtimeo (sk_options s)) deadline timeout) s))"

definition nn_sock_recv :: "('x, 'o) sock_env \<Rightarrow> u64 \<Rightarrow> u32 \<Rightarrow> ('x, 'o) nn_sock \<Rightarrow> (('x, 'o) nn_sock \<times> nn_msg call) option" where
  "nn_sock_recv env now flags s = (if norecv env then Some (s, Returned (Inl ENOTSUP))
     else sock_attempt env (se_recv env) flags (call_deadline now (so_rcvtimeo (sk_options s))) (call_timeout (so_rcvtimeo (sk_options s))) s)"

definition sock_recv_woken :: "('x, 'o) sock_env \<Rightarrow> u64 \<Rightarrow> u32 \<Rightarrow> u64 \<Rightarrow> int \<Rightarrow> errno + unit \<Rightarrow> ('x, 'o) nn_sock \<Rightarrow>
  (('x, 'o) nn_sock \<times> nn_msg call) option" where
  "sock_recv_woken env now flags deadline timeout rc s = (case rc of
     Inl e \<Rightarrow> do { nn_assert (e \<in> {ETIMEDOUT, EINTR, EBADF}); Some (s, Returned (Inl e)) }
   | Inr _ \<Rightarrow> (let s = (if efd_ready (sk_rcvfd s) then s\<lparr>sk_flags := sk_flags s OR NN_SOCK_FLAG_IN\<rparr> else s) in
       sock_attempt env (se_recv env) flags deadline (call_left now (so_rcvtimeo (sk_options s)) deadline timeout) s))"

end
