(* ===== verification/Sock_Safe.thy ===== *)
theory Sock_Safe
  imports Sock_Io
begin

text \<open>
  The life of a socket: whatever its user, its transports and its protocol do, no assertion of the core fails. The invariant says which
  endpoints exist, what state each is in, and which of the events by which endpoints report their end are queued.
\<close>

section \<open>Invariant\<close>

abbreviation core_events :: "('x, 'o) nn_sock \<Rightarrow> (core_fsm, unit) event_id list" where "core_events s \<equiv> ctx_events (sk_ctx s)"
abbreviation core_ev :: "('x, 'o) nn_sock \<Rightarrow> core_fsm \<Rightarrow> core_fsm nn_fsm_event" where "core_ev s f \<equiv> ctx_evs (sk_ctx s) (Stopped f)"
abbreviation core_state :: "('x, 'o) nn_sock \<Rightarrow> core_fsm \<Rightarrow> fsm_state" where "core_state s f \<equiv> fsm_state (ctx_fsms (sk_ctx s) f)"

definition ep_linked :: "('x, 'o) nn_sock \<Rightarrow> nat \<Rightarrow> bool" where
  "ep_linked s p \<longleftrightarrow> (let m = ctx_fsms (sk_ctx s) (EpF p) in fsm_owner m = Some SockF \<and> fsm_src m = NN_SOCK_SRC_EP \<and> fsm_srcptr m = Some p)"

definition ep_in :: "('x, 'o) nn_sock \<Rightarrow> nat \<Rightarrow> ep_state \<Rightarrow> fsm_state \<Rightarrow> bool" where
  "ep_in s p st f \<longleftrightarrow> ep_linked s p \<and> map_option ep_state (sk_ep s p) = Some st \<and> core_state s (EpF p) = f"

text \<open>The two events of a closing endpoint: its transport has reported, and the endpoint has passed the report on to the socket.\<close>

definition ep_report :: "nat \<Rightarrow> core_fsm nn_fsm_event" where
  "ep_report p = \<lparr>ev_fsm = Some (EpF p), ev_src = NN_FSM_ACTION, ev_srcptr = None, ev_type = NN_EP_ACTION_STOPPED\<rparr>"

definition ep_goodbye :: "nat \<Rightarrow> core_fsm nn_fsm_event" where
  "ep_goodbye p = \<lparr>ev_fsm = Some SockF, ev_src = NN_SOCK_SRC_EP, ev_srcptr = Some p, ev_type = NN_EP_STOPPED\<rparr>"

definition sock_report :: "core_fsm nn_fsm_event" where
  "sock_report = \<lparr>ev_fsm = Some SockF, ev_src = NN_FSM_ACTION, ev_srcptr = None, ev_type = NN_SOCK_ACTION_STOPPED\<rparr>"

definition ep_closing :: "('x, 'o) nn_sock \<Rightarrow> nat \<Rightarrow> bool" where
  "ep_closing s p \<longleftrightarrow> (if Stopped (EpF p) \<in> set (core_events s)
     then core_ev s (EpF p) = ep_report p \<and> ep_in s p NN_EP_STATE_STOPPING NN_FSM_STATE_STOPPING
       \<or> core_ev s (EpF p) = ep_goodbye p \<and> ep_in s p NN_EP_STATE_IDLE NN_FSM_STATE_IDLE
     else ep_in s p NN_EP_STATE_STOPPING NN_FSM_STATE_STOPPING)"

text \<open>The endpoints, apart from those in \<open>X\<close>, which are just being handled.\<close>

definition core_eps :: "nat set \<Rightarrow> ('x, 'o) nn_sock \<Rightarrow> bool" where
  "core_eps X s \<longleftrightarrow> ctx_eventsto (sk_ctx s) = [] \<and> distinct (core_events s)
     \<and> set (core_events s) \<subseteq> insert (Stopped SockF) ((\<lambda>p. Stopped (EpF p)) ` (set (sk_sdeps s) - X))
     \<and> distinct (sk_eps s @ sk_sdeps s) \<and> dom (sk_ep s) = set (sk_eps s) \<union> set (sk_sdeps s)
     \<and> (\<forall>p \<in> set (sk_eps s). ep_in s p NN_EP_STATE_ACTIVE NN_FSM_STATE_ACTIVE) \<and> (\<forall>p \<in> set (sk_sdeps s) - X. ep_closing s p)"

definition efd_ok :: "bool \<Rightarrow> u32 \<Rightarrow> u32 \<Rightarrow> nn_efd \<Rightarrow> bool" where
  "efd_ok unused flag flags efd \<longleftrightarrow> unused \<or> 0 \<le> efd_fd efd \<and> efd_count efd = (if flags AND flag = 0 then 0 else 1)"

text \<open>A socket that is being closed has woken everybody who waits for its descriptors: they are readable, or closed.\<close>

definition efd_woken :: "bool \<Rightarrow> nn_efd \<Rightarrow> bool" where
  "efd_woken unused efd \<longleftrightarrow> unused \<or> efd_fd efd < 0 \<or> 0 < efd_count efd"

definition efds_woken :: "('x, 'o) sock_env \<Rightarrow> ('x, 'o) nn_sock \<Rightarrow> bool" where
  "efds_woken env s \<longleftrightarrow> efd_woken (norecv env) (sk_rcvfd s) \<and> efd_woken (nosend env) (sk_sndfd s)"

definition sock_phase :: "('x, 'o) sock_env \<Rightarrow> ('x, 'o) nn_sock \<Rightarrow> bool" where
  "sock_phase env s \<longleftrightarrow> (case sk_state s of
     NN_SOCK_STATE_INIT \<Rightarrow> False
   | NN_SOCK_STATE_ACTIVE \<Rightarrow> core_state s SockF = NN_FSM_STATE_ACTIVE \<and> sk_termsem s = 0 \<and> Stopped SockF \<notin> set (core_events s)
       \<and> efd_ok (norecv env) NN_SOCK_FLAG_IN (sk_flags s) (sk_rcvfd s) \<and> efd_ok (nosend env) NN_SOCK_FLAG_OUT (sk_flags s) (sk_sndfd s)
   | NN_SOCK_STATE_STOPPING_EPS \<Rightarrow> core_state s SockF = NN_FSM_STATE_STOPPING \<and> sk_termsem s = 0 \<and> Stopped SockF \<notin> set (core_events s)
       \<and> sk_eps s = [] \<and> sk_sdeps s \<noteq> [] \<and> efds_woken env s
   | NN_SOCK_STATE_STOPPING \<Rightarrow> core_state s SockF = NN_FSM_STATE_STOPPING \<and> sk_termsem s = 0 \<and> sk_eps s = [] \<and> sk_sdeps s = []
       \<and> (Stopped SockF \<in> set (core_events s) \<longrightarrow> core_ev s SockF = sock_report) \<and> efds_woken env s
   | NN_SOCK_STATE_FINI \<Rightarrow> core_state s SockF = NN_FSM_STATE_STOPPING \<and> sk_termsem s = 1 \<and> Stopped SockF \<notin> set (core_events s)
       \<and> sk_eps s = [] \<and> sk_sdeps s = [] \<and> efds_woken env s)"

definition core_ok :: "('x, 'o) sock_env \<Rightarrow> ('x, 'o) nn_sock \<Rightarrow> bool" where
  "core_ok env s \<longleftrightarrow> core_eps {} s \<and> sock_phase env s"

text \<open>Between two operations no event is queued, and the descriptors of a running socket tell what the protocol can do.\<close>

definition efds_follow :: "('x, 'o) sock_env \<Rightarrow> ('x, 'o) nn_sock \<Rightarrow> bool" where
  "efds_follow env s \<longleftrightarrow> sk_state s = NN_SOCK_STATE_ACTIVE \<longrightarrow>
     (norecv env \<or> (efd_count (sk_rcvfd s) > 0 \<longleftrightarrow> se_events env (sk_ext s) AND NN_SOCKBASE_EVENT_IN \<noteq> 0))
     \<and> (nosend env \<or> (efd_count (sk_sndfd s) > 0 \<longleftrightarrow> se_events env (sk_ext s) AND NN_SOCKBASE_EVENT_OUT \<noteq> 0))"

definition core_inv :: "('x, 'o) sock_env \<Rightarrow> ('x, 'o) nn_sock \<Rightarrow> bool" where
  "core_inv env s \<longleftrightarrow> core_ok env s \<and> core_events s = [] \<and> efds_follow env s"

text \<open>What only the user changes, and what the operations on endpoints leave alone.\<close>

abbreviation same_user :: "('x, 'o) nn_sock \<Rightarrow> ('x, 'o) nn_sock \<Rightarrow> bool" where
  "same_user s s' \<equiv> sk_holds s' = sk_holds s \<and> sk_relesem s' = sk_relesem s \<and> sk_options s' = sk_options s \<and> sk_name s' = sk_name s"

definition core_frame :: "('x, 'o) nn_sock \<Rightarrow> ('x, 'o) nn_sock \<Rightarrow> bool" where
  "core_frame s s' \<longleftrightarrow> sk_state s' = sk_state s \<and> sk_flags s' = sk_flags s \<and> sk_sndfd s' = sk_sndfd s \<and> sk_rcvfd s' = sk_rcvfd s
     \<and> sk_termsem s' = sk_termsem s \<and> same_user s s'
     \<and> core_state s' SockF = core_state s SockF \<and> core_ev s' SockF = core_ev s SockF
     \<and> (Stopped SockF \<in> set (core_events s') \<longleftrightarrow> Stopped SockF \<in> set (core_events s))"

lemmas sock_phase_defs = sock_phase_def efds_woken_def

lemma core_frame_refl [simp]: "core_frame s s"
  by (simp add: core_frame_def)

lemma core_frame_trans: "core_frame s s' \<Longrightarrow> core_frame s' s'' \<Longrightarrow> core_frame s s''"
  by (simp add: core_frame_def)

lemmas core_consts = NN_FSM_ACTION_def NN_FSM_START_def NN_FSM_STOP_def NN_SOCK_ACTION_STOPPED_def NN_SOCK_SRC_EP_def
  NN_EP_ACTION_STOPPED_def NN_EP_STOPPED_def

lemmas ep_defs = ep_in_def ep_linked_def ep_closing_def Let_def

text \<open>An endpoint's condition depends on its object, its machine and its event only.\<close>

lemma ep_in_cong:
  assumes "sk_ep s' p = sk_ep s p" and "ctx_fsms (sk_ctx s') (EpF p) = ctx_fsms (sk_ctx s) (EpF p)"
  shows "ep_in s' p st f = ep_in s p st f"
  using assms by (simp add: ep_defs)

lemma ep_closing_cong:
  assumes "sk_ep s' p = sk_ep s p" and "ctx_fsms (sk_ctx s') (EpF p) = ctx_fsms (sk_ctx s) (EpF p)"
    and "core_ev s' (EpF p) = core_ev s (EpF p)" and "Stopped (EpF p) \<in> set (core_events s') \<longleftrightarrow> Stopped (EpF p) \<in> set (core_events s)"
  shows "ep_closing s' p = ep_closing s p"
  using assms ep_in_cong [of s' p s] by (simp add: ep_closing_def)

lemma core_eps_keep:
  assumes eps: "core_eps X s" and keep: "\<And>q. q \<noteq> p \<Longrightarrow> sk_ep s' q = sk_ep s q \<and> ctx_fsms (sk_ctx s') (EpF q) = ctx_fsms (sk_ctx s) (EpF q)
      \<and> core_ev s' (EpF q) = core_ev s (EpF q) \<and> (Stopped (EpF q) \<in> set (core_events s') \<longleftrightarrow> Stopped (EpF q) \<in> set (core_events s))"
  shows "q \<in> set (sk_eps s) \<Longrightarrow> q \<noteq> p \<Longrightarrow> ep_in s' q NN_EP_STATE_ACTIVE NN_FSM_STATE_ACTIVE"
    and "q \<in> set (sk_sdeps s) \<Longrightarrow> q \<notin> X \<Longrightarrow> q \<noteq> p \<Longrightarrow> ep_closing s' q"
  using eps keep [of q] ep_in_cong [of s' q s] ep_closing_cong [of s' q s] by (auto simp: core_eps_def)

section \<open>Stopping endpoints\<close>

lemma nn_ep_stop_ok:
  assumes eps: "core_eps {} s" and p: "p \<in> set (sk_eps s)"
  shows "\<exists>s'. nn_ep_stop env p (s\<lparr>sk_eps := remove1 p (sk_eps s), sk_sdeps := sk_sdeps s @ [p]\<rparr>) = Some s'
    \<and> core_eps {} s' \<and> sk_eps s' = remove1 p (sk_eps s) \<and> sk_sdeps s' = sk_sdeps s @ [p] \<and> core_frame s s'"
proof -
  let ?s = "s\<lparr>sk_eps := remove1 p (sk_eps s), sk_sdeps := sk_sdeps s @ [p]\<rparr>"
  obtain x now where x: "se_ep_stop env p (sk_ext s) = (x, now)" by force
  have e: "ep_in s p NN_EP_STATE_ACTIVE NN_FSM_STATE_ACTIVE" and d: "distinct (sk_eps s @ sk_sdeps s)" using eps p by (auto simp: core_eps_def)
  then have np: "p \<notin> set (sk_sdeps s)" using p by auto
  have ne: "\<not> nn_fsm_event_active (sk_ctx s) (Stopped (EpF p))" using eps np by (auto simp: core_eps_def nn_fsm_event_active_def)
  define c where "c = set_fsm (EpF p) (\<lambda>m. m\<lparr>fsm_state := NN_FSM_STATE_STOPPING\<rparr>) (sk_ctx s)"
  define c' where "c' = (if now then (set_ev (Stopped (EpF p)) (ep_report p) c)\<lparr>ctx_events := core_events s @ [Stopped (EpF p)]\<rparr> else c)"
  define s' where "s' = ?s\<lparr>sk_ext := x, sk_ctx := c', sk_ep := (sk_ep s)(p := map_option (\<lambda>e. e\<lparr>ep_state := NN_EP_STATE_STOPPING\<rparr>) (sk_ep s p))\<rparr>"
  have "nn_ep_stop env p ?s = Some s'"
    using e ne x by (auto simp: nn_ep_stop_def nn_fsm_stop_def nn_ep_shutdown_def nn_ep_stopped_def nn_ctx_raise_def ep_in_def s'_def c'_def
        c_def ep_report_def)
  moreover note keep = core_eps_keep [OF eps, of p s']
  have "ep_in s' q NN_EP_STATE_ACTIVE NN_FSM_STATE_ACTIVE" if "q \<in> set (remove1 p (sk_eps s))" for q
    using that d by (intro keep(1)) (auto simp: s'_def c'_def c_def)
  moreover have "ep_closing s' q" if "q \<in> set (sk_sdeps s)" for q
    using that np by (intro keep(2)) (auto simp: s'_def c'_def c_def)
  moreover have "ep_closing s' p"
    using e ne by (auto simp: ep_defs s'_def c'_def c_def nn_fsm_event_active_def)
  moreover have "dom (sk_ep s') = dom (sk_ep s)" using e by (auto simp: s'_def ep_in_def split: if_splits)
  moreover have "set (ctx_events c') \<subseteq> insert (Stopped (EpF p)) (set (core_events s))" "distinct (ctx_events c')" "ctx_eventsto c' = []"
    using eps ne by (auto simp: c'_def c_def core_eps_def nn_fsm_event_active_def)
  moreover have "sk_eps s' = remove1 p (sk_eps s)" "sk_sdeps s' = sk_sdeps s @ [p]" "sk_ctx s' = c'" by (simp_all add: s'_def)
  ultimately have "core_eps {} s'" using eps d np p by (auto simp: core_eps_def)
  moreover have "core_frame s s'" by (auto simp: core_frame_def s'_def c'_def c_def)
  ultimately show ?thesis using \<open>nn_ep_stop env p ?s = Some s'\<close> by (auto simp: s'_def)
qed

lemma sock_stop_eps_ok:
  assumes "core_eps {} s" and "sk_eps s = ps"
  shows "\<exists>s'. sock_stop_eps env ps s = Some s' \<and> core_eps {} s' \<and> sk_eps s' = [] \<and> sk_sdeps s' = sk_sdeps s @ ps \<and> core_frame s s'"
  using assms
proof (induction ps arbitrary: s)
  case Nil then show ?case by simp
next
  case (Cons p ps)
  from nn_ep_stop_ok [OF Cons.prems(1), of p env] Cons.prems(2) obtain s1 where
    1: "nn_ep_stop env p (s\<lparr>sk_eps := remove1 p (sk_eps s), sk_sdeps := sk_sdeps s @ [p]\<rparr>) = Some s1" "core_eps {} s1"
      "sk_eps s1 = ps" "sk_sdeps s1 = sk_sdeps s @ [p]" "core_frame s s1" by auto
  from Cons.IH [OF 1(2,3)] 1 show ?case by (auto intro: core_frame_trans)
qed

section \<open>Events\<close>

text \<open>An endpoint that has reached its end disappears.\<close>

lemma sock_ep_gone_ok:
  assumes eps: "core_eps {p} s" and p: "p \<in> set (sk_sdeps s)" "ep_in s p NN_EP_STATE_IDLE NN_FSM_STATE_IDLE"
  shows "\<exists>s'. sock_ep_gone env (Some p) s = Some s' \<and> core_eps {} s' \<and> sk_eps s' = sk_eps s \<and> sk_sdeps s' = remove1 p (sk_sdeps s)
    \<and> sk_ctx s' = sk_ctx s \<and> core_frame s s' \<and> sk_ep s' = (sk_ep s)(p := None)"
proof -
  define s' where "s' = s\<lparr>sk_sdeps := remove1 p (sk_sdeps s), sk_ext := se_ep_destroy env p (sk_ext s), sk_ep := (sk_ep s)(p := None)\<rparr>"
  have f: "sk_eps s' = sk_eps s" "sk_sdeps s' = remove1 p (sk_sdeps s)" "sk_ctx s' = sk_ctx s" "sk_ep s' = (sk_ep s)(p := None)" "core_frame s s'"
    by (simp_all add: s'_def core_frame_def)
  have "distinct (sk_sdeps s)" "p \<notin> set (sk_eps s)" using eps p by (auto simp: core_eps_def)
  then have np: "p \<notin> set (remove1 p (sk_sdeps s))" "p \<notin> set (sk_eps s)" by simp_all
  have "\<not> nn_fsm_event_active (sk_ctx s) (Stopped (EpF p))" using eps by (auto simp: core_eps_def nn_fsm_event_active_def)
  then have "sock_ep_gone env (Some p) s = Some s'"
    using p np by (auto simp: sock_ep_gone_def nn_ep_term_def nn_fsm_term_def nn_fsm_isidle_def ep_in_def s'_def)
  moreover note keep = core_eps_keep [OF eps, of p s']
  have "ep_in s' q NN_EP_STATE_ACTIVE NN_FSM_STATE_ACTIVE" if "q \<in> set (sk_eps s)" for q
    using that np by (intro keep(1)) (auto simp: f)
  moreover have "ep_closing s' q" if "q \<in> set (remove1 p (sk_sdeps s))" for q
    using that np set_remove1_subset [of p "sk_sdeps s"] by (intro keep(2)) (auto simp: f)
  ultimately have "core_eps {} s'" using eps np p(1) f(1-4) by (auto simp: core_eps_def)
  then show ?thesis using f \<open>sock_ep_gone env (Some p) s = Some s'\<close> by blast
qed

text \<open>The report of a transport becomes the endpoint's message to the socket.\<close>

lemma ep_report_ok:
  assumes eps: "core_eps {p} s" and p: "p \<in> set (sk_sdeps s)" "ep_in s p NN_EP_STATE_STOPPING NN_FSM_STATE_STOPPING"
  shows "\<exists>s'. nn_ep_shutdown env p NN_FSM_ACTION NN_EP_ACTION_STOPPED srcptr s = Some s' \<and> core_eps {} s' \<and> sk_eps s' = sk_eps s \<and> sk_sdeps s' = sk_sdeps s
    \<and> core_events s' = core_events s @ [Stopped (EpF p)] \<and> core_frame s s'
    \<and> sk_ep s' = (sk_ep s)(p := map_option (\<lambda>e. e\<lparr>ep_state := NN_EP_STATE_IDLE\<rparr>) (sk_ep s p))"
proof -
  have ne: "Stopped (EpF p) \<notin> set (core_events s)" "ctx_eventsto (sk_ctx s) = []" using eps by (auto simp: core_eps_def)
  define c where "c = set_fsm (EpF p) (\<lambda>m. m\<lparr>fsm_state := NN_FSM_STATE_IDLE\<rparr>)
    ((set_ev (Stopped (EpF p)) (ep_goodbye p) (sk_ctx s))\<lparr>ctx_events := core_events s @ [Stopped (EpF p)]\<rparr>)"
  define s' where "s' = s\<lparr>sk_ctx := c, sk_ep := (sk_ep s)(p := map_option (\<lambda>e. e\<lparr>ep_state := NN_EP_STATE_IDLE\<rparr>) (sk_ep s p))\<rparr>"
  have f: "sk_eps s' = sk_eps s" "sk_sdeps s' = sk_sdeps s" "core_events s' = core_events s @ [Stopped (EpF p)]" "core_frame s s'"
    "ctx_eventsto (sk_ctx s') = []" by (simp_all add: s'_def c_def core_frame_def ne)
  have "nn_ep_shutdown env p NN_FSM_ACTION NN_EP_ACTION_STOPPED srcptr s = Some s'"
    using p(2) ne by (auto simp: nn_ep_shutdown_def core_consts nn_fsm_stopped_def nn_fsm_raise_def nn_ctx_raise_def nn_fsm_event_active_def
        ep_defs s'_def c_def ep_goodbye_def)
  moreover note keep = core_eps_keep [OF eps, of p s']
  have "p \<notin> set (sk_eps s)" using eps p(1) by (auto simp: core_eps_def)
  then have "ep_in s' q NN_EP_STATE_ACTIVE NN_FSM_STATE_ACTIVE" if "q \<in> set (sk_eps s)" for q
    using that by (intro keep(1)) (auto simp: s'_def c_def)
  moreover have "ep_closing s' p" using p(2) by (auto simp: ep_defs s'_def c_def)
  then have "ep_closing s' q" if "q \<in> set (sk_sdeps s)" for q
    using that keep(2) [of q] by (cases "q = p") (auto simp: s'_def c_def)
  moreover have "dom (sk_ep s') = dom (sk_ep s)" using p(2) by (auto simp: s'_def ep_in_def split: if_splits)
  ultimately have "core_eps {} s'" using eps p(1) ne(1) f(1-3,5) by (auto simp: core_eps_def)
  then show ?thesis using \<open>nn_ep_shutdown env p _ _ _ s = Some s'\<close> f by (auto simp: s'_def)
qed

lemma efd_woken_simps [simp]: "efd_woken u (nn_efd_term efd)" "efd_woken u (nn_efd_stop efd)" "efd_woken True efd"
  by (auto simp: efd_woken_def nn_efd_term_def nn_efd_stop_def nn_efd_signal_def)

lemma sock_finish2_ok:
  assumes eps: "core_eps {} s" and s: "sk_state s = NN_SOCK_STATE_STOPPING_EPS" "core_state s SockF = NN_FSM_STATE_STOPPING" "sk_termsem s = 0"
    "Stopped SockF \<notin> set (core_events s)" "sk_eps s = []" "efds_woken env s"
  shows "\<exists>s'. sock_finish2 env s = Some s' \<and> core_ok env s' \<and> sk_ep s' = sk_ep s \<and> sk_eps s' = [] \<and> sk_sdeps s' = sk_sdeps s \<and> sk_state s' \<noteq> NN_SOCK_STATE_ACTIVE
    \<and> same_user s s' \<and> (core_events s' = core_events s \<or> core_events s = [] \<and> core_events s' = [Stopped SockF])"
proof (cases "sk_sdeps s = []")
  case False
  then show ?thesis using eps s by (simp add: sock_finish2_def core_ok_def sock_phase_defs)
next
  case True
  then have e: "core_events s = []" "sk_ep s = (\<lambda>_. None)" "ctx_eventsto (sk_ctx s) = []"
    using eps s(4,5) by (auto simp: core_eps_def subset_insert_iff split: if_splits)
  show ?thesis
  proof (cases "se_stop env")
    case None
    then show ?thesis using True e s
      by (simp add: sock_finish2_def sock_finish1_def core_ok_def sock_phase_defs core_eps_def Let_def)
  next
    case (Some stop)
    obtain x now where "stop (sk_ext s) = (x, now)" by force
    then show ?thesis using True e s Some
      by (cases now) (simp_all add: sock_finish2_def nn_sock_stopped_def nn_ctx_raise_def nn_fsm_event_active_def core_ok_def sock_phase_defs
          core_eps_def sock_report_def)
  qed
qed

text \<open>How a socket goes on while it processes its events: the endpoints that have reported disappear, the others stay; a socket that closes
  stays closing, and one whose protocol has reported comes to its end.\<close>

definition closing_eps :: "('x, 'o) nn_sock \<Rightarrow> nat list" where
  "closing_eps s = filter (\<lambda>q. Stopped (EpF q) \<notin> set (core_events s)) (sk_sdeps s)"

definition ending :: "('x, 'o) nn_sock \<Rightarrow> bool" where
  "ending s \<longleftrightarrow> Stopped SockF \<in> set (core_events s) \<or> sk_state s = NN_SOCK_STATE_FINI"

definition core_goes :: "('x, 'o) nn_sock \<Rightarrow> ('x, 'o) nn_sock \<Rightarrow> bool" where
  "core_goes s s' \<longleftrightarrow> sk_eps s' = sk_eps s \<and> same_user s s' \<and> closing_eps s' = closing_eps s
     \<and> (sk_state s' = NN_SOCK_STATE_ACTIVE \<longleftrightarrow> sk_state s = NN_SOCK_STATE_ACTIVE) \<and> (ending s \<longrightarrow> ending s')"

lemma closing_eps_gone:
  assumes "distinct xs"
  shows "filter (\<lambda>q. Stopped (EpF q) \<notin> set es) (remove1 p xs) = filter (\<lambda>q. Stopped (EpF q) \<notin> set (Stopped (EpF p) # es)) xs"
  using assms by (simp add: distinct_remove1_removeAll removeAll_filter_not_eq) (rule filter_cong; auto)

definition event_weight :: "('x, 'o) nn_sock \<Rightarrow> (core_fsm, unit) event_id \<Rightarrow> nat" where
  "event_weight s e = (case e of Stopped (EpF p) \<Rightarrow> if map_option ep_state (sk_ep s p) = Some NN_EP_STATE_STOPPING then 3 else 2 | _ \<Rightarrow> 1)"

definition events_weight :: "('x, 'o) nn_sock \<Rightarrow> nat" where
  "events_weight s = sum_list (map (event_weight s) (core_events s))"

text \<open>The state in which the handler of an event runs: the event is off the queue and cleared.\<close>

abbreviation popped :: "(core_fsm, unit) event_id \<Rightarrow> (core_fsm, unit) event_id list \<Rightarrow> ('x, 'o) nn_sock \<Rightarrow> ('x, 'o) nn_sock" where
  "popped e es s \<equiv> s\<lparr>sk_ctx := set_ev e ((ctx_evs (sk_ctx s) e)\<lparr>ev_src := -1, ev_type := -1, ev_srcptr := None\<rparr>) ((sk_ctx s)\<lparr>ctx_events := es\<rparr>)\<rparr>"

lemma popped_eps:
  assumes "core_eps {} s" and "core_events s = Stopped (EpF p) # es"
  shows "core_eps {p} (popped (Stopped (EpF p)) es s)" "p \<in> set (sk_sdeps s)"
    "ep_in (popped (Stopped (EpF p)) es s) p st f = ep_in s p st f"
proof -
  let ?s = "popped (Stopped (EpF p)) es s"
  show p: "p \<in> set (sk_sdeps s)" using assms by (auto simp: core_eps_def)
  show "ep_in ?s p st f = ep_in s p st f" by (rule ep_in_cong) simp_all
  have "ep_in ?s q st f = ep_in s q st f" for q st f by (rule ep_in_cong) simp_all
  moreover have "ep_closing ?s q = ep_closing s q" if "q \<noteq> p" for q by (rule ep_closing_cong) (use that assms(2) in simp_all)
  moreover have "Stopped (EpF p) \<notin> set es" "distinct es" using assms by (auto simp: core_eps_def)
  ultimately show "core_eps {p} ?s" using assms by (auto simp: core_eps_def)
qed

lemma event_weight_cong:
  assumes "core_eps X s" and "e \<in> set (core_events s)" and "\<And>q. q \<notin> X \<Longrightarrow> sk_ep s' q = sk_ep s q"
  shows "event_weight s' e = event_weight s e"
  using assms by (auto simp: event_weight_def core_eps_def split: event_id.splits core_fsm.splits)

lemma events_weight_cong:
  assumes "core_eps X s" and "\<And>q. q \<notin> X \<Longrightarrow> sk_ep s' q = sk_ep s q"
  shows "sum_list (map (event_weight s') (core_events s)) = events_weight s"
  unfolding events_weight_def using event_weight_cong [OF assms(1) _ assms(2)] by (metis (no_types, lifting) map_eq_conv)

text \<open>Processing an event keeps the invariant, and there are fewer steps left to do.\<close>

lemma core_event_ok:
  assumes ok: "core_ok env s" and ev: "core_events s = e # es"
  shows "\<exists>s'. nn_fsm_event_process core_get core_upd (core_fn env) (core_shutdown_fn env) e (core_upd (\<lambda>c. c\<lparr>ctx_events := es\<rparr>) s) = Some s'
    \<and> core_ok env s' \<and> core_goes s s' \<and> events_weight s' < events_weight s"
proof -
  have eps: "core_eps {} s" and ph: "sock_phase env s" using ok by (simp_all add: core_ok_def)
  consider p where "e = Stopped (EpF p)" | "e = Stopped SockF" using eps ev by (auto simp: core_eps_def)
  then show ?thesis
  proof cases
    case (1 p)
    let ?s = "popped e es s"
    note pe = popped_eps [OF eps ev [unfolded 1]]
    have es: "core_events ?s = es" "sk_ep ?s = sk_ep s" by simp_all
    have w: "sum_list (map (event_weight s') es) + event_weight s e = events_weight s" if "\<And>q. q \<noteq> p \<Longrightarrow> sk_ep s' q = sk_ep s q" for s' :: "('a, 'b) nn_sock"
    proof -
      have "sum_list (map (event_weight s') es) = events_weight ?s" using events_weight_cong [OF pe(1), of s'] that 1 by simp
      moreover have "event_weight ?s = event_weight s" by (rule ext) (simp add: event_weight_def split: event_id.split core_fsm.split)
      ultimately show ?thesis using ev by (simp add: events_weight_def)
    qed
    have feed: "nn_fsm_event_process core_get core_upd (core_fn env) (core_shutdown_fn env) e (core_upd (\<lambda>c. c\<lparr>ctx_events := es\<rparr>) s)
      = (case ev_fsm (core_ev s (EpF p)) of None \<Rightarrow> None | Some f \<Rightarrow> nn_fsm_feed core_get (core_fn env) (core_shutdown_fn env) f (ev_src (core_ev s (EpF p)))
          (ev_type (core_ev s (EpF p))) (ev_srcptr (core_ev s (EpF p))) ?s)"
      unfolding 1 by (simp add: nn_fsm_event_process_def Let_def)
    have "ep_closing s p" using eps pe(2) by (simp add: core_eps_def)
    then consider "core_ev s (EpF p) = ep_report p" "ep_in s p NN_EP_STATE_STOPPING NN_FSM_STATE_STOPPING"
      | "core_ev s (EpF p) = ep_goodbye p" "ep_in s p NN_EP_STATE_IDLE NN_FSM_STATE_IDLE"
      using ev 1 by (auto simp: ep_closing_def)
    then show ?thesis
    proof cases
      case report: 1
      have in1: "ep_in ?s p NN_EP_STATE_STOPPING NN_FSM_STATE_STOPPING" using report(2) pe(3) 1 by simp
      from ep_report_ok [OF pe(1) _ in1 [unfolded 1], of env None] pe(2) 1 obtain s' where
        s': "nn_ep_shutdown env p NN_FSM_ACTION NN_EP_ACTION_STOPPED None ?s = Some s'" "core_eps {} s'" "sk_eps s' = sk_eps s" "sk_sdeps s' = sk_sdeps s"
          "core_events s' = es @ [e]" "core_frame ?s s'" "sk_ep s' = (sk_ep s)(p := map_option (\<lambda>e. e\<lparr>ep_state := NN_EP_STATE_IDLE\<rparr>) (sk_ep s p))" by auto
      have "nn_fsm_feed core_get (core_fn env) (core_shutdown_fn env) (EpF p) NN_FSM_ACTION NN_EP_ACTION_STOPPED None ?s = Some s'"
        using s'(1) report(2) by (simp add: nn_fsm_feed_def core_shutdown_fn_def ep_in_def)
      moreover have "sock_phase env s'" using ph s'(3-6) ev 1 by (auto simp: sock_phase_defs core_frame_def split: sock_state.splits)
      moreover have "event_weight s' e = 2" "event_weight s e = 3" using s'(7) report(2) 1 by (auto simp: event_weight_def ep_in_def)
      then have "events_weight s' < events_weight s" using w [of s'] s'(5,7) by (simp add: events_weight_def)
      moreover have "closing_eps s' = closing_eps s" using s'(4,5) ev by (auto simp: closing_eps_def intro: filter_cong)
      then have "core_goes s s'" using s'(3,5,6) ev 1 by (auto simp: core_goes_def core_frame_def ending_def)
      ultimately show ?thesis using feed report(1) s'(2) by (simp add: ep_report_def core_ok_def)
    next
      case bye: 2
      have in1: "ep_in ?s p NN_EP_STATE_IDLE NN_FSM_STATE_IDLE" using bye(2) pe(3) 1 by simp
      from sock_ep_gone_ok [OF pe(1) _ in1 [unfolded 1], of env] pe(2) 1 obtain s' where
        s': "sock_ep_gone env (Some p) ?s = Some s'" "core_eps {} s'" "sk_eps s' = sk_eps s" "sk_sdeps s' = remove1 p (sk_sdeps s)"
          "core_events s' = es" "core_frame ?s s'" "sk_ep s' = (sk_ep s)(p := None)" by auto
      have "distinct (sk_sdeps s)" using eps by (simp add: core_eps_def)
      then have cl: "closing_eps s' = closing_eps s" using s'(4,5) ev 1 closing_eps_gone [of "sk_sdeps s" es p] by (simp add: closing_eps_def)
      have w2: "event_weight s e = 2" using bye(2) 1 by (auto simp: event_weight_def ep_in_def)
      have st: "sk_state s \<in> {NN_SOCK_STATE_ACTIVE, NN_SOCK_STATE_STOPPING_EPS}" using ph pe(2) by (auto simp: sock_phase_defs split: sock_state.splits)
      show ?thesis
      proof (cases "sk_state s = NN_SOCK_STATE_ACTIVE")
        case True
        then have "nn_fsm_feed core_get (core_fn env) (core_shutdown_fn env) SockF NN_SOCK_SRC_EP NN_EP_STOPPED (Some p) ?s = Some s'"
          using s'(1) ph by (simp add: nn_fsm_feed_def core_fn_def nn_sock_handler_def core_consts sock_phase_defs)
        moreover have "sock_phase env s'" using ph s'(3-6) True ev by (auto simp: sock_phase_defs core_frame_def)
        moreover have "events_weight s' < events_weight s" using w [of s'] s'(5,7) w2 by (simp add: events_weight_def)
        moreover have "core_goes s s'" using cl s'(3,6) True ph by (auto simp: core_goes_def core_frame_def ending_def sock_phase_defs)
        ultimately show ?thesis using feed bye(1) s'(2) by (simp add: ep_goodbye_def core_ok_def)
      next
        case False
        then have stp: "sk_state s = NN_SOCK_STATE_STOPPING_EPS" using st by simp
        have "\<exists>s2. sock_finish2 env s' = Some s2 \<and> core_ok env s2 \<and> sk_ep s2 = sk_ep s' \<and> sk_eps s2 = [] \<and> sk_sdeps s2 = sk_sdeps s' \<and> sk_state s2 \<noteq> NN_SOCK_STATE_ACTIVE
            \<and> same_user s' s2 \<and> (core_events s2 = core_events s' \<or> core_events s' = [] \<and> core_events s2 = [Stopped SockF])"
          using ph stp s'(3,6) ev by (intro sock_finish2_ok [OF s'(2)]) (auto simp: sock_phase_defs core_frame_def)
        then obtain s2 where s2: "sock_finish2 env s' = Some s2" "core_ok env s2" "sk_ep s2 = sk_ep s'"
            "sk_eps s2 = []" "sk_sdeps s2 = sk_sdeps s'" "sk_state s2 \<noteq> NN_SOCK_STATE_ACTIVE" "same_user s' s2" "core_events s2 = core_events s' \<or> core_events s' = [] \<and> core_events s2 = [Stopped SockF]" by blast
        have "nn_fsm_feed core_get (core_fn env) (core_shutdown_fn env) SockF NN_SOCK_SRC_EP NN_EP_STOPPED (Some p) ?s = Some s2"
          using s'(1) s2(1) ph stp by (simp add: nn_fsm_feed_def core_shutdown_fn_def nn_sock_shutdown_def core_consts sock_phase_defs)
        moreover have "events_weight s2 < events_weight s" using w [of s2] s'(5,7) s2(3,8) w2 by (auto simp: events_weight_def event_weight_def)
        moreover have "closing_eps s2 = closing_eps s'" using s2(5,8) by (auto simp: closing_eps_def)
        then have "core_goes s s2" using cl s2(4,6,7) s'(6) stp ph by (auto simp: core_goes_def core_frame_def ending_def sock_phase_defs)
        ultimately show ?thesis using feed bye(1) s2(2) by (simp add: ep_goodbye_def)
      qed
    qed
  next
    case 2
    let ?s = "popped e es s"
    have st: "sk_state s = NN_SOCK_STATE_STOPPING" using ph ev 2 by (auto simp: sock_phase_defs split: sock_state.splits)
    then have s: "core_ev s SockF = sock_report" "core_state s SockF = NN_FSM_STATE_STOPPING" "sk_eps s = []" "sk_sdeps s = []" "sk_termsem s = 0"
      using ph ev 2 by (simp_all add: sock_phase_defs)
    then have es: "es = []" using eps ev 2 by (cases es) (auto simp: core_eps_def)
    have "nn_fsm_event_process core_get core_upd (core_fn env) (core_shutdown_fn env) e (core_upd (\<lambda>c. c\<lparr>ctx_events := es\<rparr>) s) = Some (sock_finish1 env ?s)"
      using 2 s st by (simp add: nn_fsm_event_process_def nn_fsm_feed_def core_shutdown_fn_def nn_sock_shutdown_def sock_report_def core_consts Let_def)
    moreover have "core_ok env (sock_finish1 env ?s)"
      using eps s es by (simp add: core_ok_def sock_phase_defs core_eps_def sock_finish1_def Let_def)
    moreover have "core_goes s (sock_finish1 env ?s)"
      using s st by (simp add: core_goes_def closing_eps_def ending_def sock_finish1_def Let_def)
    moreover have "events_weight (sock_finish1 env ?s) < events_weight s"
      using ev es 2 by (simp add: events_weight_def event_weight_def sock_finish1_def Let_def)
    ultimately show ?thesis by blast
  qed
qed

section \<open>Leaving the context\<close>

lemma word_flag:
  fixes x y :: "'a :: len word"
  shows "(x OR y) AND y = y" "(x AND NOT y) AND y = 0" "(x OR y) AND g = (x AND g) OR (y AND g)"
  by (rule bit_word_eqI; auto simp: bit_simps)+

lemma word_and_not: "y AND g = 0 \<Longrightarrow> (x AND NOT y) AND g = x AND (g :: 'a :: len word)"
proof (rule bit_word_eqI)
  fix n assume "y AND g = 0"
  then have "\<not> (bit y n \<and> bit g n)" by (metis bit_0_eq bit_and_iff bot_apply bot_bool_def)
  then show "bit ((x AND NOT y) AND g) n = bit (x AND g) n" by (auto simp: bit_simps dest: bit_imp_le_length)
qed

lemma efd_follow_ok:
  assumes "efd_ok False flag flags efd" and "flag \<noteq> 0"
  shows "\<exists>fl' efd'. efd_follow ready flag flags efd = Some (fl', efd') \<and> efd_ok False flag fl' efd' \<and> (efd_count efd' > 0 \<longleftrightarrow> ready)
     \<and> (\<forall>g. flag AND g = 0 \<longrightarrow> fl' AND g = flags AND g)"
  using assms by (auto simp: efd_follow_def efd_ok_def nn_efd_signal_def nn_efd_unsignal_def word_flag word_and_not)

definition leave_frame :: "('x, 'o) nn_sock \<Rightarrow> ('x, 'o) nn_sock \<Rightarrow> bool" where
  "leave_frame s s' \<longleftrightarrow> (\<exists>fl snd rcv. s' = s\<lparr>sk_flags := fl, sk_sndfd := snd, sk_rcvfd := rcv\<rparr>)"

lemma leave_frame_facts:
  assumes "leave_frame s s'"
  shows "sk_ctx s' = sk_ctx s" "sk_state s' = sk_state s" "sk_eps s' = sk_eps s" "sk_sdeps s' = sk_sdeps s" "sk_ep s' = sk_ep s"
    "sk_ext s' = sk_ext s" "sk_termsem s' = sk_termsem s" "same_user s s'"
  using assms by (auto simp: leave_frame_def)

lemma core_eps_same:
  assumes "core_events s' = core_events s" "ctx_eventsto (sk_ctx s') = ctx_eventsto (sk_ctx s)" "\<And>q. ctx_fsms (sk_ctx s') (EpF q) = ctx_fsms (sk_ctx s) (EpF q)"
    "\<And>q. core_ev s' (EpF q) = core_ev s (EpF q)" "sk_eps s' = sk_eps s" "sk_sdeps s' = sk_sdeps s" "sk_ep s' = sk_ep s"
  shows "core_eps X s' = core_eps X s"
proof -
  have "ep_in s' q st f = ep_in s q st f" for q st f by (rule ep_in_cong) (simp_all add: assms)
  moreover have "ep_closing s' q = ep_closing s q" for q by (rule ep_closing_cong) (simp_all add: assms)
  ultimately show ?thesis by (simp add: core_eps_def assms)
qed

lemma nn_sock_onleave_ok:
  assumes ok: "core_ok env s"
  shows "\<exists>s'. nn_sock_onleave env s = Some s' \<and> core_ok env s' \<and> efds_follow env s' \<and> leave_frame s s'"
proof (cases "sk_state s = NN_SOCK_STATE_ACTIVE")
  case False
  have "leave_frame s s" unfolding leave_frame_def by (intro exI [of _ "sk_flags s"] exI [of _ "sk_sndfd s"] exI [of _ "sk_rcvfd s"]) simp
  then show ?thesis using False ok by (simp add: nn_sock_onleave_def efds_follow_def)
next
  case True
  let ?ev = "se_events env (sk_ext s)"
  have ph: "efd_ok (norecv env) NN_SOCK_FLAG_IN (sk_flags s) (sk_rcvfd s)" "efd_ok (nosend env) NN_SOCK_FLAG_OUT (sk_flags s) (sk_sndfd s)"
    using ok True by (simp_all add: core_ok_def sock_phase_defs)
  have fl: "NN_SOCK_FLAG_IN \<noteq> 0" "NN_SOCK_FLAG_OUT \<noteq> 0" "NN_SOCK_FLAG_IN AND NN_SOCK_FLAG_OUT = 0" "NN_SOCK_FLAG_OUT AND NN_SOCK_FLAG_IN = 0"
    by (simp_all add: NN_SOCK_FLAG_IN_def NN_SOCK_FLAG_OUT_def)
  obtain fl1 rcv where 1: "(if \<not> norecv env then efd_follow (?ev AND NN_SOCKBASE_EVENT_IN \<noteq> 0) NN_SOCK_FLAG_IN (sk_flags s) (sk_rcvfd s)
      else Some (sk_flags s, sk_rcvfd s)) = Some (fl1, rcv)" "efd_ok (norecv env) NN_SOCK_FLAG_IN fl1 rcv"
      "norecv env \<or> (efd_count rcv > 0 \<longleftrightarrow> ?ev AND NN_SOCKBASE_EVENT_IN \<noteq> 0)" "fl1 AND NN_SOCK_FLAG_OUT = sk_flags s AND NN_SOCK_FLAG_OUT"
  proof (cases "norecv env")
    case True then show ?thesis using that [of "sk_flags s" "sk_rcvfd s"] by (simp add: efd_ok_def)
  next
    case False
    from efd_follow_ok [OF _ fl(1), of "sk_flags s" "sk_rcvfd s" "?ev AND NN_SOCKBASE_EVENT_IN \<noteq> 0"] ph(1) False fl(3) show ?thesis
      by (auto intro: that)
  qed
  have ph2: "efd_ok (nosend env) NN_SOCK_FLAG_OUT fl1 (sk_sndfd s)" using ph(2) 1(4) by (simp add: efd_ok_def)
  obtain fl2 snd where 2: "(if \<not> nosend env then efd_follow (?ev AND NN_SOCKBASE_EVENT_OUT \<noteq> 0) NN_SOCK_FLAG_OUT fl1 (sk_sndfd s)
      else Some (fl1, sk_sndfd s)) = Some (fl2, snd)" "efd_ok (nosend env) NN_SOCK_FLAG_OUT fl2 snd"
      "nosend env \<or> (efd_count snd > 0 \<longleftrightarrow> ?ev AND NN_SOCKBASE_EVENT_OUT \<noteq> 0)" "fl2 AND NN_SOCK_FLAG_IN = fl1 AND NN_SOCK_FLAG_IN"
  proof (cases "nosend env")
    case True then show ?thesis using that [of fl1 "sk_sndfd s"] by (simp add: efd_ok_def)
  next
    case False
    from efd_follow_ok [OF _ fl(2), of fl1 "sk_sndfd s" "?ev AND NN_SOCKBASE_EVENT_OUT \<noteq> 0"] ph2 False fl(4) show ?thesis
      by (auto intro: that)
  qed
  let ?s = "s\<lparr>sk_flags := fl2, sk_sndfd := snd, sk_rcvfd := rcv\<rparr>"
  have "nn_sock_onleave env s = Some ?s"
    using 1(1) 2(1) True by (cases "norecv env"; cases "nosend env") (simp_all add: nn_sock_onleave_def)
  moreover have "leave_frame s ?s" by (auto simp: leave_frame_def)
  moreover have "efd_ok (norecv env) NN_SOCK_FLAG_IN fl2 rcv" using 1(2) 2(4) by (simp add: efd_ok_def)
  then have "core_ok env ?s" using ok True 2(2) core_eps_same [of ?s s] by (simp add: core_ok_def sock_phase_defs)
  moreover have "efds_follow env ?s" using 1(3) 2(3) by (simp add: efds_follow_def)
  ultimately show ?thesis by blast
qed

text \<open>Leaving the context returns: every event that is processed leaves fewer steps to do. It re-establishes the invariant.\<close>

lemma sock_leave_ok:
  assumes "core_ok env s"
  shows "\<exists>s'. sock_leave env s = Some s' \<and> core_inv env s' \<and> core_goes s s'"
proof -
  let ?p = "nn_fsm_event_process core_get core_upd (core_fn env) (core_shutdown_fn env)"
  have "\<exists>s1. ctx_process_events core_get core_upd ?p s = Some s1 \<and> core_ok env s1 \<and> core_goes s s1"
  proof (rule ctx_process_events_returns [where \<mu> = events_weight])
    show "core_ok env s \<and> core_goes s s" using assms by (simp add: core_goes_def)
  next
    fix t e es assume t: "core_ok env t \<and> core_goes s t" and ev: "core_events t = e # es"
    from core_event_ok [OF conjunct1 [OF t] ev] obtain t' where
      "?p e (core_upd (\<lambda>c. c\<lparr>ctx_events := es\<rparr>) t) = Some t'" "core_ok env t'" "core_goes t t'" "events_weight t' < events_weight t" by blast
    moreover from this(3) t have "core_goes s t'" by (auto simp: core_goes_def)
    ultimately show "\<exists>t'. ?p e (core_upd (\<lambda>c. c\<lparr>ctx_events := es\<rparr>) t) = Some t' \<and> (core_ok env t' \<and> core_goes s t') \<and> events_weight t' < events_weight t" by blast
  qed
  then obtain s1 where 1: "ctx_process_events core_get core_upd ?p s = Some s1" "core_ok env s1" "core_goes s s1" by blast
  have ev: "core_events s1 = []" by (rule ctx_process_events_empty [OF 1(1)])
  from nn_sock_onleave_ok [OF 1(2)] obtain s2 where 2: "nn_sock_onleave env s1 = Some s2" "core_ok env s2" "efds_follow env s2" "leave_frame s1 s2" by blast
  have "ctx_eventsto (sk_ctx s2) = []" using 2(2) by (simp add: core_ok_def core_eps_def)
  then have "sock_leave env s = Some s2" using 1(1) 2(1) by (simp add: sock_leave_def nn_ctx_leave_def)
  moreover have "core_goes s s2" using 1(3) leave_frame_facts [OF 2(4)] by (simp add: core_goes_def closing_eps_def ending_def)
  ultimately show ?thesis using 2 ev leave_frame_facts(1) [OF 2(4)] by (simp add: core_inv_def)
qed

section \<open>Operations\<close>

lemma core_inv_D:
  assumes "core_inv env s"
  shows "core_eps {} s" "sock_phase env s" "core_events s = []" "ctx_eventsto (sk_ctx s) = []" "\<not> nn_fsm_event_active (sk_ctx s) e"
  using assms by (auto simp: core_inv_def core_ok_def core_eps_def nn_fsm_event_active_def)

lemma sock_phase_cong:
  assumes "core_frame s s'" and "sk_state s = NN_SOCK_STATE_ACTIVE"
  shows "sock_phase env s' = sock_phase env s"
  using assms by (simp add: core_frame_def sock_phase_defs)

lemma nn_ep_init_ok:
  assumes inv: "core_inv env s" and st: "sk_state s = NN_SOCK_STATE_ACTIVE" and p: "sk_ep s p = None" and a: "length addr \<le> NN_SOCKADDR_MAX"
  shows "\<exists>s' r. nn_ep_init env p eid bnd addr s = Some (s', r) \<and> core_ok env (s'\<lparr>sk_ep := (sk_ep s')(p := None)\<rparr>)
     \<and> sk_ep s' = (sk_ep s)(p \<mapsto> \<lparr>ep_state = NN_EP_STATE_IDLE, ep_eid = eid, ep_options = so_ep_template (sk_options s), ep_addr = addr, ep_last_errno = 0\<rparr>)
     \<and> ep_in s' p NN_EP_STATE_IDLE NN_FSM_STATE_IDLE \<and> sk_eps s' = sk_eps s \<and> sk_sdeps s' = sk_sdeps s \<and> core_frame s s' \<and> core_events s' = [] \<and> sk_eid s' = sk_eid s"
proof -
  note d = core_inv_D [OF inv]
  obtain x r where x: "se_ep_create env bnd p addr (sk_ext s) = (x, r)" by force
  define c where "c = nn_fsm_init (EpF p) NN_SOCK_SRC_EP (Some p) SockF (sk_ctx s)"
  define s' where "s' = s\<lparr>sk_ctx := c, sk_ep := (sk_ep s)(p \<mapsto> \<lparr>ep_state = NN_EP_STATE_IDLE, ep_eid = eid, ep_options = so_ep_template (sk_options s),
    ep_addr = addr, ep_last_errno = 0\<rparr>), sk_ext := x\<rparr>"
  have c: "ctx_events c = []" "ctx_eventsto c = []" "ctx_fsms c SockF = ctx_fsms (sk_ctx s) SockF" "ctx_evs c (Stopped SockF) = core_ev s SockF"
    "ctx_fsms c (EpF q) = (if q = p then \<lparr>fsm_state = NN_FSM_STATE_IDLE, fsm_src = NN_SOCK_SRC_EP, fsm_srcptr = Some p, fsm_owner = Some SockF\<rparr>
       else ctx_fsms (sk_ctx s) (EpF q))" "q \<noteq> p \<Longrightarrow> ctx_evs c (Stopped (EpF q)) = core_ev s (EpF q)" for q
    using d(3,4) by (simp_all add: c_def nn_fsm_init_def)
  have np: "p \<notin> set (sk_eps s)" "p \<notin> set (sk_sdeps s)" using d(1) p by (auto simp: core_eps_def)
  have fr: "core_frame s s'" "core_events s' = []" using c d(3) by (simp_all add: core_frame_def s'_def)
  have "nn_ep_init env p eid bnd addr s = Some (s', case r of Inl e \<Rightarrow> Inl e | Inr _ \<Rightarrow> Inr ())"
    using a x c by (auto simp: nn_ep_init_def s'_def c_def [symmetric] nn_fsm_term_def nn_fsm_isidle_def nn_fsm_event_active_def split: sum.split)
  moreover have "core_eps {} (s'\<lparr>sk_ep := (sk_ep s')(p := None)\<rparr>)"
  proof -
    let ?t = "s'\<lparr>sk_ep := (sk_ep s')(p := None)\<rparr>"
    note keep = core_eps_keep [OF d(1), of p ?t]
    have "ep_in ?t q NN_EP_STATE_ACTIVE NN_FSM_STATE_ACTIVE" if "q \<in> set (sk_eps s)" for q
      using that np d(3) c by (intro keep(1)) (auto simp: s'_def)
    moreover have "ep_closing ?t q" if "q \<in> set (sk_sdeps s)" for q
      using that np d(3) c by (intro keep(2)) (auto simp: s'_def)
    moreover have "sk_ep ?t = sk_ep s" using p by (auto simp: s'_def)
    moreover have "sk_eps ?t = sk_eps s" "sk_sdeps ?t = sk_sdeps s" "sk_ctx ?t = c" by (simp_all add: s'_def)
    ultimately show ?thesis using d(1) c(1,2) by (auto simp: core_eps_def)
  qed
  moreover have "sock_phase env (s'\<lparr>sk_ep := (sk_ep s')(p := None)\<rparr>)"
    using d(2) st sock_phase_cong [OF _ st, of "s'\<lparr>sk_ep := (sk_ep s')(p := None)\<rparr>" env] fr(1) by (simp add: core_frame_def)
  moreover have "ep_in s' p NN_EP_STATE_IDLE NN_FSM_STATE_IDLE" using c(5) [of p] by (simp add: s'_def ep_defs)
  ultimately show ?thesis using fr by (intro exI [of _ s'] exI conjI) (auto simp: s'_def core_ok_def)
qed

lemma nn_sock_add_ep_ok:
  assumes inv: "core_inv env s" and st: "sk_state s = NN_SOCK_STATE_ACTIVE" and p: "sk_ep s p = None" and a: "length addr \<le> NN_SOCKADDR_MAX"
  shows "\<exists>s' r. nn_sock_add_ep env p bnd addr s = Some (s', r) \<and> core_inv env s' \<and> same_user s s'"
proof -
  from nn_ep_init_ok [OF assms, of "sk_eid s" bnd] obtain s1 r where
    1: "nn_ep_init env p (sk_eid s) bnd addr s = Some (s1, r)" "core_ok env (s1\<lparr>sk_ep := (sk_ep s1)(p := None)\<rparr>)"
      "sk_ep s1 = (sk_ep s)(p \<mapsto> \<lparr>ep_state = NN_EP_STATE_IDLE, ep_eid = sk_eid s, ep_options = so_ep_template (sk_options s), ep_addr = addr, ep_last_errno = 0\<rparr>)"
      "ep_in s1 p NN_EP_STATE_IDLE NN_FSM_STATE_IDLE" "sk_eps s1 = sk_eps s" "sk_sdeps s1 = sk_sdeps s" "core_frame s s1" "core_events s1 = []" by blast
  show ?thesis
  proof (cases r)
    case (Inl e)
    from sock_leave_ok [OF 1(2)] show ?thesis using 1(1,7) Inl by (auto simp: nn_sock_add_ep_def core_goes_def core_frame_def)
  next
    case (Inr u)
    let ?t = "s1\<lparr>sk_ep := (sk_ep s1)(p := None)\<rparr>"
    have d: "core_eps {} ?t" "sock_phase env ?t" using 1(2) by (simp_all add: core_ok_def)
    have to: "ctx_eventsto (sk_ctx s1) = []" using d(1) by (simp add: core_eps_def)
    define c where "c = set_fsm (EpF p) (\<lambda>m. m\<lparr>fsm_state := NN_FSM_STATE_ACTIVE\<rparr>) (sk_ctx s1)"
    define s2 where "s2 = s1\<lparr>sk_ctx := c, sk_ep := (sk_ep s1)(p := map_option (\<lambda>e. e\<lparr>ep_state := NN_EP_STATE_ACTIVE\<rparr>) (sk_ep s1 p))\<rparr>"
    have start: "nn_ep_start p s1 = Some s2"
      using 1(4,8) to by (auto simp: nn_ep_start_def nn_fsm_start_def nn_fsm_isidle_def nn_fsm_event_active_def nn_ep_handler_def ep_in_def s2_def c_def)
    let ?u = "s2\<lparr>sk_eid := sk_eid s2 + 1, sk_eps := sk_eps s2 @ [p]\<rparr>"
    have np: "p \<notin> set (sk_eps s)" "p \<notin> set (sk_sdeps s)" using core_inv_D(1) [OF inv] p by (auto simp: core_eps_def)
    note keep = core_eps_keep [OF d(1), of p ?u]
    have "ep_in ?u q NN_EP_STATE_ACTIVE NN_FSM_STATE_ACTIVE" if "q \<in> set (sk_eps s)" for q
      using that np 1(5) by (intro keep(1)) (auto simp: s2_def c_def)
    moreover have "ep_closing ?u q" if "q \<in> set (sk_sdeps s)" for q
      using that np 1(6) by (intro keep(2)) (auto simp: s2_def c_def)
    moreover have "ep_in ?u p NN_EP_STATE_ACTIVE NN_FSM_STATE_ACTIVE" using 1(4) by (auto simp: s2_def c_def ep_defs)
    moreover have "dom (sk_ep ?u) = insert p (dom (sk_ep s))" using 1(3) by (auto simp: s2_def)
    moreover have "core_events ?u = []" "ctx_eventsto (sk_ctx ?u) = []" "sk_eps ?u = sk_eps s @ [p]" "sk_sdeps ?u = sk_sdeps s"
      using 1(5,6,8) to by (simp_all add: s2_def c_def)
    ultimately have "core_eps {} ?u" using core_inv_D(1) [OF inv] np unfolding core_eps_def by auto
    moreover have "sock_phase env ?u"
      using sock_phase_cong [OF _ st, of ?u env] core_inv_D(2) [OF inv] 1(7,8) by (simp add: core_frame_def s2_def c_def)
    ultimately have "core_ok env ?u" by (simp add: core_ok_def)
    from sock_leave_ok [OF this] show ?thesis using 1(1,7) Inr start by (auto simp: nn_sock_add_ep_def Let_def core_goes_def core_frame_def s2_def)
  qed
qed

lemma nn_sock_rm_ep_ok:
  assumes inv: "core_inv env s"
  shows "\<exists>s' r. nn_sock_rm_ep env eid s = Some (s', r) \<and> core_inv env s' \<and> same_user s s'
    \<and> (sk_state s' = NN_SOCK_STATE_ACTIVE \<longleftrightarrow> sk_state s = NN_SOCK_STATE_ACTIVE)"
proof (cases "find (\<lambda>p. map_option ep_eid (sk_ep s p) = Some eid) (sk_eps s)")
  case None
  from sock_leave_ok [of env s] inv show ?thesis using None by (auto simp: nn_sock_rm_ep_def core_inv_def core_goes_def)
next
  case (Some p)
  note d = core_inv_D [OF inv]
  have p: "p \<in> set (sk_eps s)" using Some by (auto simp: find_Some_iff)
  then have st: "sk_state s = NN_SOCK_STATE_ACTIVE" using d(2) by (auto simp: sock_phase_defs split: sock_state.splits)
  from nn_ep_stop_ok [OF d(1) p, of env] obtain s1 where
    1: "nn_ep_stop env p (s\<lparr>sk_eps := remove1 p (sk_eps s), sk_sdeps := sk_sdeps s @ [p]\<rparr>) = Some s1" "core_eps {} s1" "core_frame s s1" by blast
  have "core_ok env s1" using 1(2) sock_phase_cong [OF 1(3) st, of env] d(2) by (simp add: core_ok_def)
  from sock_leave_ok [OF this] show ?thesis using 1(1,3) Some by (auto simp: nn_sock_rm_ep_def core_goes_def core_frame_def)
qed

lemma nn_sock_stop_ok:
  assumes inv: "core_inv env s"
  shows "\<exists>s'. nn_sock_stop env s = Some s' \<and> core_inv env s' \<and> sk_state s' \<noteq> NN_SOCK_STATE_ACTIVE \<and> same_user s s'"
proof (cases "sk_state s = NN_SOCK_STATE_ACTIVE")
  case False
  then have "core_state s SockF \<noteq> NN_FSM_STATE_ACTIVE" using core_inv_D(2) [OF inv] by (auto simp: sock_phase_defs split: sock_state.splits)
  then have "nn_sock_stop env s = sock_leave env s" by (simp add: nn_sock_stop_def nn_fsm_stop_idle)
  then show ?thesis using sock_leave_ok [of env s] inv False by (auto simp: core_inv_def core_goes_def)
next
  case True
  note d = core_inv_D [OF inv]
  define s1 where "s1 = s\<lparr>sk_ctx := set_fsm SockF (\<lambda>m. m\<lparr>fsm_state := NN_FSM_STATE_STOPPING\<rparr>) (sk_ctx s),
    sk_rcvfd := (if \<not> norecv env then nn_efd_stop (sk_rcvfd s) else sk_rcvfd s), sk_sndfd := (if \<not> nosend env then nn_efd_stop (sk_sndfd s) else sk_sndfd s)\<rparr>"
  have eps1: "core_eps {} s1" using d(1) core_eps_same [of s1 s] by (simp add: s1_def)
  from sock_stop_eps_ok [OF eps1 refl, of env] obtain s2 where
    2: "sock_stop_eps env (sk_eps s1) s1 = Some s2" "core_eps {} s2" "sk_eps s2 = []" "core_frame s1 s2" by blast
  let ?s = "s2\<lparr>sk_state := NN_SOCK_STATE_STOPPING_EPS\<rparr>"
  have "core_eps {} ?s" using 2(2) core_eps_same [of ?s s2] by simp
  moreover have "core_state s SockF = NN_FSM_STATE_ACTIVE" "sk_termsem s = 0" using d(2) True by (simp_all add: sock_phase_defs)
  ultimately have "\<exists>s3. sock_finish2 env ?s = Some s3 \<and> core_ok env s3 \<and> sk_ep s3 = sk_ep ?s \<and> sk_eps s3 = [] \<and> sk_sdeps s3 = sk_sdeps ?s
      \<and> sk_state s3 \<noteq> NN_SOCK_STATE_ACTIVE \<and> same_user ?s s3 \<and> (core_events s3 = core_events ?s \<or> core_events ?s = [] \<and> core_events s3 = [Stopped SockF])"
    using 2(3,4) d(3) by (intro sock_finish2_ok) (simp_all add: core_frame_def s1_def efds_woken_def)
  then obtain s3 where 3: "sock_finish2 env ?s = Some s3" "core_ok env s3" "sk_state s3 \<noteq> NN_SOCK_STATE_ACTIVE" "same_user s s3"
    using 2(4) by (auto simp: core_frame_def s1_def)
  have "nn_sock_stop env s = sock_leave env s3"
    using 2(1) 3(1) True \<open>core_state s SockF = NN_FSM_STATE_ACTIVE\<close>
    by (cases "norecv env"; cases "nosend env") (simp_all add: nn_sock_stop_def nn_fsm_stop_def core_shutdown_fn_def nn_sock_shutdown_def s1_def)
  then show ?thesis using sock_leave_ok [OF 3(2)] 3(3,4) by (auto simp: core_goes_def)
qed

text \<open>A transport or the protocol reports later that it has stopped.\<close>

lemma ep_reports_ok:
  assumes inv: "core_inv env s" and p: "p \<in> set (sk_sdeps s)"
  shows "\<exists>s1 s'. nn_ep_stopped p s = Some s1 \<and> sock_leave env s1 = Some s' \<and> core_inv env s' \<and> same_user s s'
    \<and> sk_sdeps s' = remove1 p (sk_sdeps s) \<and> sk_eps s' = sk_eps s \<and> (sk_state s' = NN_SOCK_STATE_ACTIVE \<longleftrightarrow> sk_state s = NN_SOCK_STATE_ACTIVE)"
proof -
  note d = core_inv_D [OF inv]
  define c where "c = (set_ev (Stopped (EpF p)) (ep_report p) (sk_ctx s))\<lparr>ctx_events := [Stopped (EpF p)]\<rparr>"
  let ?s = "s\<lparr>sk_ctx := c\<rparr>"
  have raise: "nn_ep_stopped p s = Some ?s" using d(3,5) by (simp add: nn_ep_stopped_def nn_ctx_raise_def c_def ep_report_def)
  have cl: "ep_closing s p" using d(1) p by (simp add: core_eps_def)
  note keep = core_eps_keep [OF d(1), of p ?s]
  have np: "p \<notin> set (sk_eps s)" using d(1) p by (auto simp: core_eps_def)
  have "ep_in ?s q NN_EP_STATE_ACTIVE NN_FSM_STATE_ACTIVE" if "q \<in> set (sk_eps s)" for q
    using that np d(3) by (intro keep(1)) (auto simp: c_def)
  moreover have "ep_closing ?s p" using cl d(3) by (simp add: ep_closing_def ep_in_def ep_linked_def c_def)
  then have "ep_closing ?s q" if "q \<in> set (sk_sdeps s)" for q
    using that keep(2) [of q] d(3) by (cases "q = p") (auto simp: c_def)
  ultimately have "core_eps {} ?s" using d(1,4) p by (auto simp: core_eps_def c_def)
  moreover have "sock_phase env ?s" using d(2,3) by (auto simp: sock_phase_defs c_def split: sock_state.splits)
  ultimately have "core_ok env ?s" by (simp add: core_ok_def)
  from sock_leave_ok [OF this] obtain s' where s': "sock_leave env ?s = Some s'" "core_inv env s'" "core_goes ?s s'" by blast
  have "distinct (sk_sdeps s)" using d(1) by (simp add: core_eps_def)
  then have "closing_eps ?s = remove1 p (sk_sdeps s)" using closing_eps_gone [of "sk_sdeps s" "[]" p] by (simp add: closing_eps_def c_def)
  moreover have "closing_eps s' = sk_sdeps s'" using core_inv_D(3) [OF s'(2)] by (simp add: closing_eps_def)
  ultimately show ?thesis using raise s' by (auto simp: core_goes_def)
qed

lemma proto_reports_ok:
  assumes inv: "core_inv env s" and st: "sk_state s = NN_SOCK_STATE_STOPPING"
  shows "\<exists>s1 s'. nn_sock_stopped s = Some s1 \<and> sock_leave env s1 = Some s' \<and> core_inv env s' \<and> same_user s s' \<and> sk_state s' = NN_SOCK_STATE_FINI"
proof -
  note d = core_inv_D [OF inv]
  define c where "c = (set_ev (Stopped SockF) sock_report (sk_ctx s))\<lparr>ctx_events := [Stopped SockF]\<rparr>"
  let ?s = "s\<lparr>sk_ctx := c\<rparr>"
  have raise: "nn_sock_stopped s = Some ?s" using d(3,5) by (simp add: nn_sock_stopped_def nn_ctx_raise_def c_def sock_report_def)
  have "sk_eps s = []" "sk_sdeps s = []" using d(2) st by (simp_all add: sock_phase_defs)
  then have "core_ok env ?s" using d st by (auto simp: core_ok_def core_eps_def sock_phase_defs c_def)
  from sock_leave_ok [OF this] obtain s' where s': "sock_leave env ?s = Some s'" "core_inv env s'" "core_goes ?s s'" by blast
  moreover have "sk_state s' = NN_SOCK_STATE_FINI" using s'(3) core_inv_D(3) [OF s'(2)] by (simp add: core_goes_def ending_def c_def)
  ultimately show ?thesis using raise by (auto simp: core_goes_def)
qed

section \<open>Options, send and receive\<close>

definition int32 :: "int \<Rightarrow> bool" where "int32 v \<longleftrightarrow> - (2 ^ 31) \<le> v \<and> v < 2 ^ 31"

definition options_ok :: "nn_sock_options \<Rightarrow> bool" where
  "options_ok opts \<longleftrightarrow> 0 < so_sndbuf opts \<and> 0 < so_rcvbuf opts \<and> -1 \<le> so_rcvmaxsize opts \<and> 0 \<le> so_reconnect_ivl opts
     \<and> 0 \<le> so_reconnect_ivl_max opts \<and> so_maxttl opts \<in> {1..255} \<and> sndprio (so_ep_template opts) \<in> {1..16}
     \<and> rcvprio (so_ep_template opts) \<in> {1..16} \<and> ipv4only (so_ep_template opts) \<in> {0, 1}
     \<and> list_all int32 [so_sndbuf opts, so_rcvbuf opts, so_rcvmaxsize opts, so_sndtimeo opts, so_rcvtimeo opts, so_reconnect_ivl opts, so_reconnect_ivl_max opts]"

definition user_ok :: "('x, 'o) nn_sock \<Rightarrow> bool" where
  "user_ok s \<longleftrightarrow> options_ok (sk_options s) \<and> 0 \<in> set (take 64 (sk_name s))"

lemmas option_consts = NN_LINGER_def NN_SNDBUF_def NN_RCVBUF_def NN_SNDTIMEO_def NN_RCVTIMEO_def NN_RECONNECT_IVL_def NN_RECONNECT_IVL_MAX_def
  NN_SNDFD_def NN_RCVFD_def NN_DOMAIN_def NN_PROTOCOL_def NN_SOCKET_NAME_def NN_RCVMAXSIZE_def NN_MAXTTL_def NN_SNDPRIO_def NN_RCVPRIO_def
  NN_IPV4ONLY_def NN_SOL_SOCKET_def

lemma int32_load [simp]: "int32 (load_int bs)"
  unfolding load_int_def int32_def using sint_ge [of "_ :: u32"] sint_lt [of "_ :: u32"] by simp

lemma options_ok_default [simp]: "options_ok default_options"
  by (simp add: options_ok_def default_options_def int32_def)

lemma sock_set_int_ok:
  assumes "options_ok opts" and "int32 val" and "sock_set_int opt val opts = Inr opts'"
  shows "options_ok opts'"
  using assms(3) assms(1,2) unfolding sock_set_int_def by (simp split: if_split_asm) (clarsimp simp: options_ok_def)+

lemma core_ok_cong:
  assumes "sk_ctx s' = sk_ctx s" "sk_state s' = sk_state s" "sk_flags s' = sk_flags s" "sk_rcvfd s' = sk_rcvfd s" "sk_sndfd s' = sk_sndfd s"
    "sk_termsem s' = sk_termsem s" "sk_eps s' = sk_eps s" "sk_sdeps s' = sk_sdeps s" "sk_ep s' = sk_ep s"
  shows "core_ok env s' = core_ok env s"
proof -
  have "core_eps {} s' = core_eps {} s" by (rule core_eps_same) (simp_all add: assms)
  moreover have "sock_phase env s' = sock_phase env s" by (cases "sk_state s") (simp_all add: sock_phase_defs assms)
  ultimately show ?thesis by (simp add: core_ok_def)
qed

lemma nn_sock_optset_frame:
  "nn_sock_optset env ident s = (s', r) \<Longrightarrow> \<exists>f. s' = s\<lparr>sk_optsets := f\<rparr>"
  by (auto simp: nn_sock_optset_def Let_def split: if_splits option.splits intro: exI [of _ "sk_optsets s"])

lemma zero_in_take: "n \<le> 63 \<Longrightarrow> 0 \<in> set (take (64 - n) (0 # xs))"
  by (cases "64 - n") auto

lemma nn_sock_setopt_inner_frame:
  "\<exists>x f opts nm. fst (nn_sock_setopt_inner env level opt optval s) = s\<lparr>sk_ext := x, sk_optsets := f, sk_options := opts, sk_name := nm\<rparr>
    \<and> (user_ok s \<longrightarrow> options_ok opts \<and> 0 \<in> set (take 64 nm))"
proof -
  consider "level > 0" | "level < 0" | "level = 0" by linarith
  then show ?thesis
  proof cases
    case 1
    then show ?thesis by (intro exI [of _ "sk_ext (fst (nn_sock_setopt_inner env level opt optval s))"] exI [of _ "sk_optsets s"] exI [of _ "sk_options s"] exI [of _ "sk_name s"])
      (simp add: nn_sock_setopt_inner_def NN_SOL_SOCKET_def user_ok_def split: option.split prod.split)
  next
    case 2
    obtain s' r where o: "nn_sock_optset env level s = (s', r)" by force
    from nn_sock_optset_frame [OF o] obtain f where "s' = s\<lparr>sk_optsets := f\<rparr>" by blast
    then show ?thesis using 2 o by (intro exI [of _ "sk_ext s"] exI [of _ "sk_optsets (fst (nn_sock_setopt_inner env level opt optval s))"] exI [of _ "sk_options s"] exI [of _ "sk_name s"])
      (simp add: nn_sock_setopt_inner_def NN_SOL_SOCKET_def user_ok_def split: option.split prod.split)
  next
    case 3
    then show ?thesis
      by (intro exI [of _ "sk_ext s"] exI [of _ "sk_optsets s"] exI [of _ "sk_options (fst (nn_sock_setopt_inner env level opt optval s))"]
            exI [of _ "sk_name (fst (nn_sock_setopt_inner env level opt optval s))"])
        (auto simp: nn_sock_setopt_inner_def NN_SOL_SOCKET_def user_ok_def split: sum.split dest: sock_set_int_ok [OF _ int32_load] intro: zero_in_take)
  qed
qed

lemma nn_sock_getopt_inner_frame:
  "\<exists>f. fst (nn_sock_getopt_inner env level opt len s) = s\<lparr>sk_optsets := f\<rparr>"
proof -
  have same: "\<exists>f. s = s\<lparr>sk_optsets := f\<rparr>" by (rule exI [of _ "sk_optsets s"]) simp
  show ?thesis
  proof (cases "level < 0")
    case True
    obtain s' r where "nn_sock_optset env level s = (s', r)" by force
    then show ?thesis using True nn_sock_optset_frame [of env level s s' r]
      by (auto simp: nn_sock_getopt_inner_def NN_SOL_SOCKET_def split: option.split)
  qed (use same in \<open>auto simp: nn_sock_getopt_inner_def NN_SOL_SOCKET_def Let_def split: option.split\<close>)
qed

text \<open>One attempt of a call, in a state in which the events are still to be processed.\<close>

lemma sock_attempt_ok:
  assumes ok: "core_ok env s"
  shows "\<exists>s' r. sock_attempt env attempt flags deadline timeout s = Some (s', r) \<and> core_inv env s' \<and> core_goes s s'
    \<and> (if sk_state s = NN_SOCK_STATE_ACTIVE
       then r = (case snd (attempt (sk_ext s)) of Inr a \<Rightarrow> Returned (Inr a)
         | Inl e \<Rightarrow> if e = EAGAIN \<and> flags AND NN_DONTWAIT = 0 then Waiting deadline timeout else Returned (Inl e))
       else r = Returned (Inl EBADF))"
proof (cases "sk_state s = NN_SOCK_STATE_ACTIVE")
  case True
  obtain x r where x: "attempt (sk_ext s) = (x, r)" by force
  have "core_ok env (s\<lparr>sk_ext := x\<rparr>)" using ok core_ok_cong [of "s\<lparr>sk_ext := x\<rparr>" s env] by simp
  from sock_leave_ok [OF this] show ?thesis using True x
    by (auto simp: sock_attempt_def core_goes_def closing_eps_def ending_def split: sum.split)
next
  case False
  have "sk_state s \<noteq> NN_SOCK_STATE_INIT" using ok by (auto simp: core_ok_def sock_phase_def)
  then show ?thesis using False sock_leave_ok [OF ok] by (auto simp: sock_attempt_def)
qed

text \<open>The second look at the descriptor after a wait changes nothing while the socket runs.\<close>

lemma recheck_ok:
  assumes "core_ok env s"
  shows "\<not> nosend env \<Longrightarrow> efd_ready (sk_sndfd s) \<Longrightarrow> core_ok env (s\<lparr>sk_flags := sk_flags s OR NN_SOCK_FLAG_OUT\<rparr>)"
    and "\<not> norecv env \<Longrightarrow> efd_ready (sk_rcvfd s) \<Longrightarrow> core_ok env (s\<lparr>sk_flags := sk_flags s OR NN_SOCK_FLAG_IN\<rparr>)"
proof -
  have eps: "core_eps {} (s\<lparr>sk_flags := fl\<rparr>) = core_eps {} s" for fl by (rule core_eps_same) simp_all
  have "NN_SOCK_FLAG_OUT AND NN_SOCK_FLAG_IN = 0" "NN_SOCK_FLAG_IN AND NN_SOCK_FLAG_OUT = 0" "NN_SOCK_FLAG_IN \<noteq> 0" "NN_SOCK_FLAG_OUT \<noteq> 0"
    by (simp_all add: NN_SOCK_FLAG_IN_def NN_SOCK_FLAG_OUT_def)
  note fl = this word_flag
  show "core_ok env (s\<lparr>sk_flags := sk_flags s OR NN_SOCK_FLAG_OUT\<rparr>)" if "\<not> nosend env" "efd_ready (sk_sndfd s)"
    using assms that by (cases "sk_state s") (auto simp: core_ok_def eps sock_phase_defs efd_ok_def efd_ready_def fl split: if_splits)
  show "core_ok env (s\<lparr>sk_flags := sk_flags s OR NN_SOCK_FLAG_IN\<rparr>)" if "\<not> norecv env" "efd_ready (sk_rcvfd s)"
    using assms that by (cases "sk_state s") (auto simp: core_ok_def eps sock_phase_defs efd_ok_def efd_ready_def fl split: if_splits)
qed

section \<open>The system\<close>

text \<open>The user adds and removes endpoints, sets options, sends and receives, and closes the socket; threads take and release holds; transports and
  protocol report that they have stopped, and any of them may change their private state in between.\<close>

datatype 'x core_op = Add_ep nat bool string | Rm_ep int | Close | Ep_reports nat | Proto_reports | Ext_step 'x | Hold | Rele
  | Setopt int int "u8 list" | Getopt int int nat | Snd_call u64 nn_msg u32 | Snd_woken u64 nn_msg u32 u64 int "errno + unit"
  | Rcv_call u64 u32 | Rcv_woken u64 u32 u64 int "errno + unit"

fun core_exec :: "('x, 'o) sock_env \<Rightarrow> 'x core_op \<Rightarrow> ('x, 'o) nn_sock \<Rightarrow> ('x, 'o) nn_sock option" where
  "core_exec env (Add_ep p bnd addr) s = map_option fst (nn_sock_add_ep env p bnd addr s)"
| "core_exec env (Rm_ep eid) s = map_option fst (nn_sock_rm_ep env eid s)"
| "core_exec env Close s = nn_sock_stop env s"
| "core_exec env (Ep_reports p) s = do { s \<leftarrow> nn_ep_stopped p s; sock_leave env s }"
| "core_exec env Proto_reports s = do { s \<leftarrow> nn_sock_stopped s; sock_leave env s }"
| "core_exec env (Ext_step x) s = sock_leave env (s\<lparr>sk_ext := x\<rparr>)"
| "core_exec env Hold s = Some (fst (nn_sock_hold s))"
| "core_exec env Rele s = Some (nn_sock_rele s)"
| "core_exec env (Setopt level opt optval) s = map_option fst (nn_sock_setopt env level opt optval s)"
| "core_exec env (Getopt level opt len) s = map_option fst (nn_sock_getopt env level opt len s)"
| "core_exec env (Snd_call now msg flags) s = map_option fst (nn_sock_send env now msg flags s)"
| "core_exec env (Snd_woken now msg flags deadline timeout rc) s = map_option fst (sock_send_woken env now msg flags deadline timeout rc s)"
| "core_exec env (Rcv_call now flags) s = map_option fst (nn_sock_recv env now flags s)"
| "core_exec env (Rcv_woken now flags deadline timeout rc) s = map_option fst (sock_recv_woken env now flags deadline timeout rc s)"

text \<open>An endpoint is added to an open socket, at a fresh address. The protocol's options are not used once the protocol has been destroyed. Whoever reports has been asked to stop and has not reported yet. The hold
  that the creation of the socket took is released after it has been closed. A call that waits is one the socket type has, and the wait ends
  in one of the ways that \<open>nn_efd_wait\<close> has.\<close>

definition wait_ends :: "errno + unit \<Rightarrow> bool" where "wait_ends rc \<longleftrightarrow> rc \<in> {Inr (), Inl ETIMEDOUT, Inl EINTR, Inl EBADF}"

lemma nn_efd_wait_ends: "nn_efd_wait now timeout obs = Some rc \<Longrightarrow> wait_ends rc"
  unfolding nn_efd_wait_def
  by (induction "efd_expire now timeout" obs rule: efd_wait_loop.induct) (auto simp: wait_ends_def split: if_splits poll_result.splits)

fun core_guard :: "('x, 'o) sock_env \<Rightarrow> 'x core_op \<Rightarrow> ('x, 'o) nn_sock \<Rightarrow> bool" where
  "core_guard env (Add_ep p bnd addr) s \<longleftrightarrow> sk_state s = NN_SOCK_STATE_ACTIVE \<and> sk_ep s p = None \<and> length addr \<le> NN_SOCKADDR_MAX"
| "core_guard env (Ep_reports p) s \<longleftrightarrow> p \<in> set (sk_sdeps s)"
| "core_guard env Proto_reports s \<longleftrightarrow> sk_state s = NN_SOCK_STATE_STOPPING"
| "core_guard env Rele s \<longleftrightarrow> (if sk_state s = NN_SOCK_STATE_ACTIVE then 1 < sk_holds s else 0 < sk_holds s)"
| "core_guard env (Snd_woken now msg flags deadline timeout rc) s \<longleftrightarrow> \<not> nosend env \<and> wait_ends rc"
| "core_guard env (Rcv_woken now flags deadline timeout rc) s \<longleftrightarrow> \<not> norecv env \<and> wait_ends rc"
| "core_guard env (Setopt level opt optval) s \<longleftrightarrow> \<not> proto_gone level s"
| "core_guard env (Getopt level opt len) s \<longleftrightarrow> \<not> proto_gone level s"
| "core_guard env _ s \<longleftrightarrow> True"

definition holds_ok :: "('x, 'o) nn_sock \<Rightarrow> bool" where
  "holds_ok s \<longleftrightarrow> 0 \<le> sk_holds s \<and> sk_relesem s = (if sk_holds s = 0 then 1 else 0) \<and> (sk_state s = NN_SOCK_STATE_ACTIVE \<longrightarrow> 0 < sk_holds s)"

definition sock_inv :: "('x, 'o) sock_env \<Rightarrow> ('x, 'o) nn_sock \<Rightarrow> bool" where
  "sock_inv env s \<longleftrightarrow> core_inv env s \<and> holds_ok s \<and> user_ok s"

lemma core_inv_holds: "core_inv env (s\<lparr>sk_holds := h, sk_relesem := r\<rparr>) = core_inv env s"
  using core_ok_cong [of "s\<lparr>sk_holds := h, sk_relesem := r\<rparr>" s env] by (simp add: core_inv_def efds_follow_def)

text \<open>Everything that goes through \<open>nn_ctx_leave\<close> from a state in which the events are still to be processed.\<close>

lemma sock_inv_goes:
  assumes "sock_inv env s" and "core_inv env s'" and "same_user s s'" and "sk_state s' = NN_SOCK_STATE_ACTIVE \<longrightarrow> sk_state s = NN_SOCK_STATE_ACTIVE"
  shows "sock_inv env s'"
  using assms by (auto simp: sock_inv_def holds_ok_def user_ok_def)

lemma sock_inv_leave:
  assumes inv: "sock_inv env s" and ok: "core_ok env s1" and "sk_holds s1 = sk_holds s" "sk_relesem s1 = sk_relesem s" "sk_state s1 = sk_state s" "user_ok s1"
  shows "\<exists>s'. sock_leave env s1 = Some s' \<and> sock_inv env s' \<and> core_goes s1 s'"
proof -
  from sock_leave_ok [OF ok] obtain s' where s': "sock_leave env s1 = Some s'" "core_inv env s'" "core_goes s1 s'" by blast
  then have "sock_inv env s'" using assms by (auto simp: sock_inv_def holds_ok_def user_ok_def core_goes_def)
  with s' show ?thesis by blast
qed

lemma sock_attempt_inv:
  assumes inv: "sock_inv env s"
  shows "\<exists>s' r. sock_attempt env attempt flags deadline timeout s = Some (s', r) \<and> sock_inv env s'"
  using sock_attempt_ok [of env s attempt flags deadline timeout] sock_inv_goes [OF inv] inv
  by (fastforce simp: sock_inv_def core_inv_def core_goes_def)

lemma sock_setopt_inv:
  assumes inv: "sock_inv env s" and pg: "\<not> proto_gone level s"
  shows "\<exists>s'. nn_sock_setopt env level opt optval s = Some (s', snd (nn_sock_setopt_inner env level opt optval s)) \<and> sock_inv env s'
    \<and> core_goes (fst (nn_sock_setopt_inner env level opt optval s)) s'"
proof -
  from nn_sock_setopt_inner_frame [of env level opt optval s] obtain x f opts nm where
    s1: "fst (nn_sock_setopt_inner env level opt optval s) = s\<lparr>sk_ext := x, sk_optsets := f, sk_options := opts, sk_name := nm\<rparr>"
      "user_ok s \<longrightarrow> options_ok opts \<and> 0 \<in> set (take 64 nm)" by blast
  let ?s = "s\<lparr>sk_ext := x, sk_optsets := f, sk_options := opts, sk_name := nm\<rparr>"
  have "core_ok env ?s" using inv core_ok_cong [of ?s s env] by (simp add: sock_inv_def core_inv_def)
  from sock_inv_leave [OF inv this] s1 inv pg show ?thesis
    by (auto simp: nn_sock_setopt_def user_ok_def sock_inv_def split: prod.split)
qed

lemma sock_getopt_inv:
  assumes inv: "sock_inv env s" and pg: "\<not> proto_gone level s"
  shows "\<exists>s'. nn_sock_getopt env level opt len s = Some (s', snd (nn_sock_getopt_inner env level opt len s)) \<and> sock_inv env s'"
proof -
  from nn_sock_getopt_inner_frame [of env level opt len s] obtain f where s1: "fst (nn_sock_getopt_inner env level opt len s) = s\<lparr>sk_optsets := f\<rparr>" by blast
  have "core_ok env (s\<lparr>sk_optsets := f\<rparr>)" using inv core_ok_cong [of "s\<lparr>sk_optsets := f\<rparr>" s env] by (simp add: sock_inv_def core_inv_def)
  from sock_inv_leave [OF inv this] s1 inv pg show ?thesis
    by (auto simp: nn_sock_getopt_def user_ok_def sock_inv_def split: prod.split)
qed

text \<open>A wait that has ended: the call fails, or it tries once more.\<close>

lemma sock_woken_inv:
  assumes inv: "sock_inv env s" and ok: "ready \<longrightarrow> core_ok env (s\<lparr>sk_flags := fl\<rparr>)"
  defines "s1 \<equiv> (if ready then s\<lparr>sk_flags := fl\<rparr> else s)"
  shows "\<exists>s' r. sock_attempt env attempt flags deadline timeout s1 = Some (s', r) \<and> sock_inv env s'
    \<and> (sk_state s \<noteq> NN_SOCK_STATE_ACTIVE \<longrightarrow> r = Returned (Inl EBADF))"
proof -
  have "core_ok env s1" using inv ok by (simp add: s1_def sock_inv_def core_inv_def)
  from sock_attempt_ok [OF this, of attempt flags deadline timeout] obtain s' r where
    s': "sock_attempt env attempt flags deadline timeout s1 = Some (s', r)" "core_inv env s'" "core_goes s1 s'"
      "sk_state s1 \<noteq> NN_SOCK_STATE_ACTIVE \<longrightarrow> r = Returned (Inl EBADF)" by (auto split: if_splits)
  have "same_user s s1" "sk_state s1 = sk_state s" by (simp_all add: s1_def)
  then have "sock_inv env s'" using s'(2,3) by (intro sock_inv_goes [OF inv]) (simp_all add: core_goes_def)
  then show ?thesis using s' \<open>sk_state s1 = sk_state s\<close> by simp
qed

lemma sock_send_woken_inv:
  assumes inv: "sock_inv env s" and g: "\<not> nosend env" "wait_ends rc"
  shows "\<exists>s' r. sock_send_woken env now msg flags deadline timeout rc s = Some (s', r) \<and> sock_inv env s'
    \<and> (rc = Inr () \<longrightarrow> sk_state s \<noteq> NN_SOCK_STATE_ACTIVE \<longrightarrow> r = Returned (Inl EBADF))"
proof (cases rc)
  case (Inl e) then show ?thesis using g inv by (auto simp: sock_send_woken_def wait_ends_def)
next
  case (Inr u)
  have "efd_ready (sk_sndfd s) \<longrightarrow> core_ok env (s\<lparr>sk_flags := sk_flags s OR NN_SOCK_FLAG_OUT\<rparr>)"
    using recheck_ok(1) g(1) inv by (auto simp: sock_inv_def core_inv_def)
  from sock_woken_inv [OF inv this, of "se_send env msg" flags deadline "call_left now (so_sndtimeo (sk_options s)) deadline timeout"]
  show ?thesis using Inr by (cases "efd_ready (sk_sndfd s)") (simp_all add: sock_send_woken_def)
qed

lemma sock_recv_woken_inv:
  assumes inv: "sock_inv env s" and g: "\<not> norecv env" "wait_ends rc"
  shows "\<exists>s' r. sock_recv_woken env now flags deadline timeout rc s = Some (s', r) \<and> sock_inv env s'
    \<and> (rc = Inr () \<longrightarrow> sk_state s \<noteq> NN_SOCK_STATE_ACTIVE \<longrightarrow> r = Returned (Inl EBADF))"
proof (cases rc)
  case (Inl e) then show ?thesis using g inv by (auto simp: sock_recv_woken_def wait_ends_def)
next
  case (Inr u)
  have "efd_ready (sk_rcvfd s) \<longrightarrow> core_ok env (s\<lparr>sk_flags := sk_flags s OR NN_SOCK_FLAG_IN\<rparr>)"
    using recheck_ok(2) g(1) inv by (auto simp: sock_inv_def core_inv_def)
  from sock_woken_inv [OF inv this, of "se_recv env" flags deadline "call_left now (so_rcvtimeo (sk_options s)) deadline timeout"]
  show ?thesis using Inr by (cases "efd_ready (sk_rcvfd s)") (simp_all add: sock_recv_woken_def)
qed

lemma core_exec_ok:
  assumes inv: "sock_inv env s" and g: "core_guard env op s"
  shows "\<exists>s'. core_exec env op s = Some s' \<and> sock_inv env s'"
proof -
  have ci: "core_inv env s" and h: "holds_ok s" and u: "user_ok s" using inv by (simp_all add: sock_inv_def)
  note goes = sock_inv_goes [OF inv]
  show ?thesis
  proof (cases op)
    case (Add_ep p bnd addr)
    with g nn_sock_add_ep_ok [OF ci, of p addr bnd] show ?thesis using goes by auto
  next
    case (Rm_ep eid)
    with nn_sock_rm_ep_ok [OF ci, of eid] show ?thesis using goes by auto
  next
    case Close
    with nn_sock_stop_ok [OF ci] show ?thesis using goes by auto
  next
    case (Ep_reports p)
    with g ep_reports_ok [OF ci, of p] show ?thesis using goes by auto
  next
    case Proto_reports
    with g proto_reports_ok [OF ci] show ?thesis using goes by auto
  next
    case (Ext_step x)
    have "core_ok env (s\<lparr>sk_ext := x\<rparr>)" using ci core_ok_cong [of "s\<lparr>sk_ext := x\<rparr>" s env] by (simp add: core_inv_def)
    from sock_inv_leave [OF inv this] show ?thesis using Ext_step u by (auto simp: user_ok_def)
  next
    case Hold
    have "core_inv env (s\<lparr>sk_holds := sk_holds s + 1\<rparr>)" using core_inv_holds [of env "sk_relesem s" "sk_holds s + 1" s] ci by simp
    moreover have "sk_state s \<noteq> NN_SOCK_STATE_INIT" using core_inv_D(2) [OF ci] by (auto simp: sock_phase_def)
    ultimately show ?thesis using Hold inv h u by (auto simp: nn_sock_hold_def sock_inv_def holds_ok_def user_ok_def)
  next
    case Rele
    have "core_inv env (s\<lparr>sk_holds := sk_holds s - 1, sk_relesem := r\<rparr>)" for r using core_inv_holds ci by blast
    from this this [of "sk_relesem s"] show ?thesis using Rele ci h u g
      by (auto simp: nn_sock_rele_def sock_inv_def holds_ok_def user_ok_def Let_def split: if_splits)
  next
    case (Setopt level opt optval) then show ?thesis using g sock_setopt_inv [OF inv, of level opt optval] by auto
  next
    case (Getopt level opt len) then show ?thesis using g sock_getopt_inv [OF inv, of level opt len] by auto
  next
    case (Snd_call now msg flags) then show ?thesis using sock_attempt_inv [OF inv] inv by (fastforce simp: nn_sock_send_def)
  next
    case (Snd_woken now msg flags deadline timeout rc)
    then show ?thesis using g sock_send_woken_inv [OF inv, of rc now msg flags deadline timeout] by auto
  next
    case (Rcv_call now flags) then show ?thesis using sock_attempt_inv [OF inv] inv by (fastforce simp: nn_sock_recv_def)
  next
    case (Rcv_woken now flags deadline timeout rc)
    then show ?thesis using g sock_recv_woken_inv [OF inv, of rc now flags deadline timeout] by auto
  qed
qed

section \<open>Reachable states\<close>

lemma nn_sock_init_ok:
  fixes env :: "('x, 'o) sock_env"
  assumes dir: "\<not> nosend env \<or> \<not> norecv env" and fds: "\<And>d. sndfd = Some d \<Longrightarrow> 0 \<le> d" "\<And>d. rcvfd = Some d \<Longrightarrow> 0 \<le> d" and nm: "length name \<le> 63"
  shows "if (\<not> nosend env \<and> sndfd = None) \<or> (\<not> norecv env \<and> rcvfd = None) then nn_sock_init env sndfd rcvfd name x mem evs zero = Some (Inl EMFILE)
    else \<exists>s. nn_sock_init env sndfd rcvfd name x mem evs zero = Some (Inr s) \<and> sock_inv env s"
proof (cases "(\<not> nosend env \<and> sndfd = None) \<or> (\<not> norecv env \<and> rcvfd = None)")
  case True
  then show ?thesis using dir by (auto simp: nn_sock_init_def sock_open_efds_def nn_efd_init_def split: option.split)
next
  case False
  then have "\<exists>sfd rfd. sock_open_efds env sndfd rcvfd = Inr (sfd, rfd)"
    by (cases "nosend env"; cases "norecv env"; cases sndfd; cases rcvfd) (simp_all add: sock_open_efds_def nn_efd_init_def)
  then obtain sfd rfd where o: "sock_open_efds env sndfd rcvfd = Inr (sfd, rfd)" by blast
  with False fds have efd: "\<not> nosend env \<Longrightarrow> 0 \<le> efd_fd sfd \<and> efd_count sfd = 0" "\<not> norecv env \<Longrightarrow> 0 \<le> efd_fd rfd \<and> efd_count rfd = 0"
    by (auto simp: sock_open_efds_def nn_efd_init_def split: option.splits if_splits)
  define c where "c = set_fsm SockF (\<lambda>m. m\<lparr>fsm_state := NN_FSM_STATE_ACTIVE\<rparr>) (nn_fsm_init_root SockF (nn_ctx_init mem evs))"
  have c: "ctx_events c = []" "ctx_eventsto c = []" "fsm_state (ctx_fsms c SockF) = NN_FSM_STATE_ACTIVE" by (simp_all add: c_def nn_fsm_init_root_def nn_ctx_init_def)
  define s :: "('x, 'o) nn_sock" where "s = \<lparr>sk_ctx = c, sk_state = NN_SOCK_STATE_ACTIVE, sk_flags = 0, sk_sndfd = sfd, sk_rcvfd = rfd, sk_termsem = 0, sk_relesem = 0,
    sk_eps = [], sk_sdeps = [], sk_eid = 1, sk_holds = 1, sk_options = default_options, sk_name = name @ [0],
    sk_optsets = (\<lambda>_. None), sk_stats = zero, sk_ep = (\<lambda>_. None), sk_ext = x\<rparr>"
  have "nn_sock_init env sndfd rcvfd name x mem evs zero = map_option Inr (sock_leave env s)"
    using dir o by (auto simp: nn_sock_init_def nn_fsm_start_def nn_fsm_isidle_def nn_fsm_event_active_def core_fn_def nn_sock_handler_def s_def c_def
        nn_fsm_init_root_def nn_ctx_init_def map_conv_bind_option comp_def)
  moreover have "core_ok env s" using c efd by (simp add: core_ok_def core_eps_def sock_phase_def efd_ok_def s_def)
  note lv = sock_leave_ok [OF this]
  have "holds_ok s" "user_ok s" using nm by (simp_all add: s_def holds_ok_def user_ok_def)
  ultimately show ?thesis using lv False by (auto simp: sock_inv_def holds_ok_def user_ok_def core_goes_def s_def)
qed

text \<open>The states of a socket: it is opened with descriptors that the system has given, and then lives through permitted operations.\<close>

inductive sock_reach :: "('x, 'o) sock_env \<Rightarrow> ('x, 'o) nn_sock \<Rightarrow> bool" for env where
  reach_open: "\<lbrakk>nn_sock_init env (Some d) (Some e) name x mem evs zero = Some (Inr s); 0 \<le> d; 0 \<le> e; length name \<le> 63\<rbrakk> \<Longrightarrow> sock_reach env s"
| reach_op: "\<lbrakk>sock_reach env s; core_guard env op s; core_exec env op s = Some s'\<rbrakk> \<Longrightarrow> sock_reach env s'"

lemma sock_reach_inv: "sock_reach env s \<Longrightarrow> sock_inv env s"
proof (induction rule: sock_reach.induct)
  case (reach_open d e name x mem evs zero s)
  then have "\<not> nosend env \<or> \<not> norecv env" by (auto simp: nn_sock_init_def)
  from nn_sock_init_ok [OF this, of "Some d" "Some e" name x mem evs zero] reach_open show ?case by auto
next
  case (reach_op s op s')
  then show ?case using core_exec_ok [of env s op] by auto
qed

section \<open>Closing\<close>

fun core_run :: "('x, 'o) sock_env \<Rightarrow> 'x core_op list \<Rightarrow> ('x, 'o) nn_sock \<Rightarrow> ('x, 'o) nn_sock option" where
  "core_run env [] s = Some s"
| "core_run env (op # ops) s = do { s \<leftarrow> core_exec env op s; core_run env ops s }"

text \<open>Once everybody who was asked to stop has reported, in whatever order, the socket has come to its end.\<close>

lemma ep_reports_run:
  assumes "core_inv env s" and "sk_state s \<noteq> NN_SOCK_STATE_ACTIVE" and "distinct ps" and "set ps = set (sk_sdeps s)"
  shows "\<exists>s'. core_run env (map Ep_reports ps) s = Some s' \<and> core_inv env s' \<and> sk_state s' \<noteq> NN_SOCK_STATE_ACTIVE \<and> sk_sdeps s' = [] \<and> same_user s s'"
  using assms
proof (induction ps arbitrary: s)
  case (Cons p ps)
  from ep_reports_ok [OF Cons.prems(1), of p] Cons.prems(2,4) obtain s1 s2 where
    2: "nn_ep_stopped p s = Some s1" "sock_leave env s1 = Some s2" "core_inv env s2" "same_user s s2" "sk_sdeps s2 = remove1 p (sk_sdeps s)" "sk_state s2 \<noteq> NN_SOCK_STATE_ACTIVE"
    by auto
  have "distinct (sk_sdeps s)" using core_inv_D(1) [OF Cons.prems(1)] by (simp add: core_eps_def)
  then have "set ps = set (sk_sdeps s2)" using Cons.prems(3,4) 2(5) by auto
  from Cons.IH [OF 2(3,6) _ this] Cons.prems(3) 2 show ?case by auto
qed simp

lemma sock_leave_idle:
  assumes "core_events s = []" and "ctx_eventsto (sk_ctx s) = []" and "sk_state s \<noteq> NN_SOCK_STATE_ACTIVE"
  shows "sock_leave env s = Some s"
  using assms by (simp add: sock_leave_def nn_ctx_leave_def ctx_process_events.simps nn_sock_onleave_def)

lemma nn_sock_term_ok:
  assumes inv: "sock_inv env s" and st: "sk_state s = NN_SOCK_STATE_FINI" and h: "sk_holds s = 0"
  shows "nn_sock_term env s = Some ()"
proof -
  have ci: "core_inv env s" and rs: "sk_relesem s = 1" using inv h by (simp_all add: sock_inv_def holds_ok_def)
  note d = core_inv_D [OF ci]
  have ph: "core_state s SockF = NN_FSM_STATE_STOPPING" "sk_termsem s = 1" "sk_eps s = []" "sk_sdeps s = []" using d(2) st by (simp_all add: sock_phase_def)
  have "sock_leave env (s\<lparr>sk_termsem := 0, sk_relesem := 0\<rparr>) = Some (s\<lparr>sk_termsem := 0, sk_relesem := 0\<rparr>)"
    using d(3,4) st by (intro sock_leave_idle) simp_all
  then show ?thesis using ph rs d(3,4) by (simp add: nn_sock_term_def nn_fsm_stopped_noevent_def nn_fsm_term_def nn_fsm_isidle_def nn_fsm_event_active_def)
qed

text \<open>Whoever still holds a closed socket lets it go.\<close>

lemma nn_sock_rele_simps [simp]: "sk_holds (nn_sock_rele s) = sk_holds s - 1" "sk_state (nn_sock_rele s) = sk_state s"
  by (simp_all add: nn_sock_rele_def Let_def)

lemma nn_sock_rele_all:
  assumes "sock_inv env s" and "sk_state s \<noteq> NN_SOCK_STATE_ACTIVE" and "n \<le> nat (sk_holds s)"
  shows "sock_inv env ((nn_sock_rele ^^ n) s) \<and> sk_holds ((nn_sock_rele ^^ n) s) = sk_holds s - int n \<and> sk_state ((nn_sock_rele ^^ n) s) = sk_state s"
  using assms(3)
proof (induction n)
  case 0 then show ?case using assms by simp
next
  case (Suc n)
  let ?t = "(nn_sock_rele ^^ n) s"
  have t: "sock_inv env ?t" "sk_holds ?t = sk_holds s - int n" "sk_state ?t = sk_state s" using Suc by simp_all
  moreover have "core_guard env Rele ?t" using t(2,3) assms(2) Suc.prems by auto
  ultimately show ?case using core_exec_ok [OF t(1), of Rele] by auto
qed

lemma sock_finishes:
  assumes inv: "sock_inv env s" and st: "sk_state s \<noteq> NN_SOCK_STATE_ACTIVE" and nil: "sk_sdeps s = []"
  shows "\<exists>s'. (if sk_state s = NN_SOCK_STATE_FINI then s' = s else core_exec env Proto_reports s = Some s') \<and> sock_inv env s' \<and> sk_state s' = NN_SOCK_STATE_FINI"
proof (cases "sk_state s = NN_SOCK_STATE_FINI")
  case False
  have ci: "core_inv env s" using inv by (simp add: sock_inv_def)
  have stp: "sk_state s = NN_SOCK_STATE_STOPPING" using core_inv_D(2) [OF ci] st nil False by (cases "sk_state s") (simp_all add: sock_phase_def)
  from proto_reports_ok [OF ci stp] show ?thesis using False sock_inv_goes [OF inv] by auto
qed (use inv in auto)

end
