(* ===== verification/Sock_Properties.thy ===== *)
theory Sock_Properties
  imports Sock_Safe
begin

text \<open>
  Properties of the core of a socket: it never aborts, its descriptors tell what it can do, closing it comes to an end and wakes those who
  wait, its options keep their ranges and are read back as they were set; an endpoint that is added to a closing socket aborts the process.
\<close>

section \<open>A concrete environment\<close>

text \<open>A protocol whose state is the events it reports, and transports whose endpoints stop later.\<close>

definition demo_env :: "(u32, unit) sock_env" where
  "demo_env = \<lparr>se_flags = 0, se_domain = 1, se_protocol = 16, se_ispeer = (\<lambda>t. t = 16), se_stop = Some (\<lambda>x. (x, False)), se_destroy = (\<lambda>x. x),
     se_in = (\<lambda>_. Some), se_out = (\<lambda>_. Some), se_events = (\<lambda>x. x), se_send = (\<lambda>m x. (x, if x AND 2 = 0 then Inl EAGAIN else Inr ())),
     se_recv = (\<lambda>x. (x, Inl EAGAIN)), se_setopt = None, se_getopt = None, se_ep_create = (\<lambda>b p addr x. (x, Inr ())),
     se_ep_stop = (\<lambda>p x. (x, False)), se_ep_destroy = (\<lambda>p x. x), se_optset = (\<lambda>_. None), se_optset_set = (\<lambda>opt v os. (os, Inl ENOPROTOOPT)),
     se_optset_get = (\<lambda>opt len os. Inl ENOPROTOOPT)\<rparr>"

definition zero_stats :: nn_sock_stats where
  "zero_stats = \<lparr>established_connections = 0, accepted_connections = 0, dropped_connections = 0, broken_connections = 0, connect_errors = 0,
     bind_errors = 0, accept_errors = 0, messages_sent = 0, messages_received = 0, bytes_sent = 0, bytes_received = 0, current_connections = 0,
     inprogress_connections = 0, current_snd_priority = 0, current_ep_errors = 0\<rparr>"

definition demo_fsm :: "core_fsm nn_fsm" where
  "demo_fsm = \<lparr>fsm_state = NN_FSM_STATE_IDLE, fsm_src = -1, fsm_srcptr = None, fsm_owner = None\<rparr>"

definition demo_sock :: "(u32, unit) nn_sock" where
  "demo_sock = \<lparr>sk_ctx = set_fsm SockF (\<lambda>m. m\<lparr>fsm_state := NN_FSM_STATE_ACTIVE\<rparr>) (nn_fsm_init_root SockF (nn_ctx_init (\<lambda>_. demo_fsm) (\<lambda>_. nn_fsm_event_init))),
     sk_state = NN_SOCK_STATE_ACTIVE, sk_flags = 0, sk_sndfd = \<lparr>efd_fd = 3, efd_count = 0\<rparr>, sk_rcvfd = \<lparr>efd_fd = 4, efd_count = 0\<rparr>, sk_termsem = 0, sk_relesem = 0,
     sk_eps = [], sk_sdeps = [], sk_eid = 1, sk_holds = 1, sk_options = default_options, sk_name = [48, 0], sk_optsets = (\<lambda>_. None),
     sk_stats = zero_stats, sk_ep = (\<lambda>_. None), sk_ext = 0\<rparr>"

lemmas leave_simps = sock_leave_def nn_ctx_leave_def ctx_process_events.simps nn_sock_onleave_def efd_follow_def

lemma demo_reach: "sock_reach demo_env demo_sock"
proof -
  have "nn_sock_init demo_env (Some 3) (Some 4) [48] 0 (\<lambda>_. demo_fsm) (\<lambda>_. nn_fsm_event_init) zero_stats = Some (Inr demo_sock)"
    by (simp add: nn_sock_init_def sock_open_efds_def nn_efd_init_def demo_env_def nn_fsm_start_def nn_fsm_isidle_def nn_fsm_event_active_def core_fn_def
        nn_sock_handler_def nn_fsm_init_root_def nn_ctx_init_def leave_simps demo_sock_def)
  from sock_reach.reach_open [OF this] show ?thesis by simp
qed

lemma demo_open: "\<exists>s. sock_reach demo_env s \<and> sk_state s = NN_SOCK_STATE_ACTIVE \<and> sk_ep s = (\<lambda>_. None)"
  using demo_reach by (auto simp: demo_sock_def)

text \<open>The demo socket with an endpoint, and after it has been closed: the endpoint has been asked to stop and has not reported yet.\<close>

lemma demo_closing: "\<exists>s. sock_reach demo_env s \<and> sk_state s = NN_SOCK_STATE_STOPPING_EPS \<and> sk_sdeps s = [7] \<and> sk_ep s 8 = None \<and> sk_ext s = 0"
proof -
  have "core_guard demo_env (Add_ep 7 True ''a'') demo_sock" by (simp add: demo_sock_def NN_SOCKADDR_MAX_def)
  moreover have "\<exists>s. core_exec demo_env (Add_ep 7 True ''a'') demo_sock = Some s \<and> (\<exists>s'. core_exec demo_env Close s = Some s'
      \<and> sk_state s' = NN_SOCK_STATE_STOPPING_EPS \<and> sk_sdeps s' = [7] \<and> sk_ep s' 8 = None \<and> sk_ext s' = 0)"
    by (simp add: nn_sock_add_ep_def nn_ep_init_def nn_ep_start_def nn_fsm_start_def nn_fsm_isidle_def nn_fsm_event_active_def nn_ep_handler_def nn_fsm_init_def
        nn_fsm_init_root_def nn_ctx_init_def NN_SOCKADDR_MAX_def core_consts demo_sock_def demo_env_def leave_simps Let_def nn_sock_stop_def nn_fsm_stop_def
        nn_ep_stop_def nn_ep_shutdown_def core_shutdown_fn_def nn_sock_shutdown_def sock_finish2_def nn_efd_stop_def nn_efd_signal_def)
  ultimately obtain s s' where *: "core_guard demo_env (Add_ep 7 True ''a'') demo_sock" "core_exec demo_env (Add_ep 7 True ''a'') demo_sock = Some s"
    "core_exec demo_env Close s = Some s'" "sk_state s' = NN_SOCK_STATE_STOPPING_EPS" "sk_sdeps s' = [7]" "sk_ep s' 8 = None" "sk_ext s' = 0" by blast
  have "sock_reach demo_env s" by (rule sock_reach.reach_op [OF demo_reach *(1,2)])
  then have "sock_reach demo_env s'" by (rule sock_reach.reach_op [OF _ _ *(3)]) simp
  then show ?thesis using * by blast
qed

section \<open>Safety\<close>



text \<open>C3: between two operations the descriptor for receiving is readable exactly when the protocol reports that a message can be received, and that for
  sending exactly when one can be sent. When the socket is being closed they are readable or closed, and a call that wakes up returns EBADF.\<close>

theorem sock_descriptors:
  assumes "sock_reach env s"
  shows "(sk_state s = NN_SOCK_STATE_ACTIVE \<longrightarrow> \<not> norecv env \<longrightarrow> (efd_ready (sk_rcvfd s) \<longleftrightarrow> se_events env (sk_ext s) AND NN_SOCKBASE_EVENT_IN \<noteq> 0))
    \<and> (sk_state s = NN_SOCK_STATE_ACTIVE \<longrightarrow> \<not> nosend env \<longrightarrow> (efd_ready (sk_sndfd s) \<longleftrightarrow> se_events env (sk_ext s) AND NN_SOCKBASE_EVENT_OUT \<noteq> 0))
    \<and> (sk_state s \<noteq> NN_SOCK_STATE_ACTIVE \<longrightarrow> \<not> norecv env \<longrightarrow> (efd_fd (sk_rcvfd s) < 0 \<or> efd_ready (sk_rcvfd s))
       \<and> (\<exists>s'. sock_recv_woken env now flags deadline timeout (Inr ()) s = Some (s', Returned (Inl EBADF))))
    \<and> (sk_state s \<noteq> NN_SOCK_STATE_ACTIVE \<longrightarrow> \<not> nosend env \<longrightarrow> (efd_fd (sk_sndfd s) < 0 \<or> efd_ready (sk_sndfd s))
       \<and> (\<exists>s'. sock_send_woken env now msg flags deadline timeout (Inr ()) s = Some (s', Returned (Inl EBADF))))"
proof -
  note inv = sock_reach_inv [OF assms]
  have ph: "sock_phase env s" and f: "efds_follow env s" using inv by (simp_all add: sock_inv_def core_inv_def core_ok_def)
  have act: "sk_state s = NN_SOCK_STATE_ACTIVE \<Longrightarrow> efd_ok (norecv env) NN_SOCK_FLAG_IN (sk_flags s) (sk_rcvfd s) \<and> efd_ok (nosend env) NN_SOCK_FLAG_OUT (sk_flags s) (sk_sndfd s)"
    and stop: "sk_state s \<noteq> NN_SOCK_STATE_ACTIVE \<Longrightarrow> efds_woken env s" using ph by (cases "sk_state s"; simp add: sock_phase_def)+
  have we: "wait_ends (Inr ())" by (simp add: wait_ends_def)
  note rw = sock_recv_woken_inv [OF inv _ we, of now flags deadline timeout] and sw = sock_send_woken_inv [OF inv _ we, of now msg flags deadline timeout]
  show ?thesis using act stop f rw sw by (auto simp: efds_follow_def efd_ready_def efd_ok_def efds_woken_def efd_woken_def)
qed

theorem sock_descriptors_witness:
  "\<exists>s. sock_reach demo_env s \<and> sk_state s = NN_SOCK_STATE_ACTIVE \<and> (efd_ready (sk_rcvfd s) \<longleftrightarrow> se_events demo_env (sk_ext s) AND NN_SOCKBASE_EVENT_IN \<noteq> 0)"
proof -
  from demo_open obtain s where s: "sock_reach demo_env s" "sk_state s = NN_SOCK_STATE_ACTIVE" by blast
  moreover have "\<not> norecv demo_env" by (simp add: demo_env_def)
  ultimately show ?thesis using sock_descriptors [OF s(1), THEN conjunct1] by blast
qed

text \<open>C4: closing a socket comes to an end. The endpoints that have been asked to stop report, in whatever order, and then the protocol, if it has been
  asked to stop; then the socket is finished, no endpoint is left, and once everybody who holds it has let it go it can be destroyed.\<close>

theorem sock_close_completes:
  assumes "sock_reach env s"
  shows "\<exists>s1. nn_sock_stop env s = Some s1 \<and> (\<forall>ps. distinct ps \<longrightarrow> set ps = set (sk_sdeps s1) \<longrightarrow>
    (\<exists>s2 s3. core_run env (map Ep_reports ps) s1 = Some s2 \<and> (if sk_state s2 = NN_SOCK_STATE_FINI then s3 = s2 else core_exec env Proto_reports s2 = Some s3)
       \<and> sk_state s3 = NN_SOCK_STATE_FINI \<and> sk_termsem s3 = 1 \<and> dom (sk_ep s3) = {} \<and> nn_sock_term env ((nn_sock_rele ^^ nat (sk_holds s3)) s3) = Some ()))"
proof -
  note inv = sock_reach_inv [OF assms]
  from nn_sock_stop_ok [of env s] inv obtain s1 where s1: "nn_sock_stop env s = Some s1" "core_inv env s1" "sk_state s1 \<noteq> NN_SOCK_STATE_ACTIVE" "same_user s s1"
    by (auto simp: sock_inv_def)
  have "\<exists>s2 s3. core_run env (map Ep_reports ps) s1 = Some s2 \<and> (if sk_state s2 = NN_SOCK_STATE_FINI then s3 = s2 else core_exec env Proto_reports s2 = Some s3)
      \<and> sk_state s3 = NN_SOCK_STATE_FINI \<and> sk_termsem s3 = 1 \<and> dom (sk_ep s3) = {} \<and> nn_sock_term env ((nn_sock_rele ^^ nat (sk_holds s3)) s3) = Some ()"
    if ps: "distinct ps" "set ps = set (sk_sdeps s1)" for ps
  proof -
    from ep_reports_run [OF s1(2,3) ps] obtain s2 where
      s2: "core_run env (map Ep_reports ps) s1 = Some s2" "core_inv env s2" "sk_state s2 \<noteq> NN_SOCK_STATE_ACTIVE" "sk_sdeps s2 = []" "same_user s1 s2" by blast
    have "sock_inv env s2" using s2 s1(4) by (intro sock_inv_goes [OF inv]) simp_all
    from sock_finishes [OF this s2(3,4)] obtain s3 where
      s3: "if sk_state s2 = NN_SOCK_STATE_FINI then s3 = s2 else core_exec env Proto_reports s2 = Some s3" "sock_inv env s3" "sk_state s3 = NN_SOCK_STATE_FINI" by blast
    have end3: "sk_termsem s3 = 1" "sk_ep s3 = (\<lambda>_. None)" using s3(2,3) by (auto simp: sock_inv_def core_inv_def core_ok_def sock_phase_def core_eps_def)
    have "0 \<le> sk_holds s3" using s3(2) by (simp add: sock_inv_def holds_ok_def)
    with nn_sock_rele_all [OF s3(2), of "nat (sk_holds s3)"] s3(3)
    have "nn_sock_term env ((nn_sock_rele ^^ nat (sk_holds s3)) s3) = Some ()" by (intro nn_sock_term_ok) simp_all
    then show ?thesis using s2(1) s3(1,3) end3 by (intro exI [of _ s2] exI [of _ s3]) simp
  qed
  then show ?thesis using s1(1) by blast
qed

theorem sock_close_completes_witness:
  "\<exists>s s1 s2 s3. sock_reach demo_env s \<and> nn_sock_stop demo_env s = Some s1 \<and> core_run demo_env (map Ep_reports (sk_sdeps s1)) s1 = Some s2
     \<and> (if sk_state s2 = NN_SOCK_STATE_FINI then s3 = s2 else core_exec demo_env Proto_reports s2 = Some s3)
     \<and> sk_state s3 = NN_SOCK_STATE_FINI \<and> nn_sock_term demo_env ((nn_sock_rele ^^ nat (sk_holds s3)) s3) = Some ()"
proof -
  from demo_open obtain s where s: "sock_reach demo_env s" by blast
  from sock_close_completes [OF s] obtain s1 where s1: "nn_sock_stop demo_env s = Some s1"
    and all: "\<And>ps. distinct ps \<Longrightarrow> set ps = set (sk_sdeps s1) \<Longrightarrow>
      (\<exists>s2 s3. core_run demo_env (map Ep_reports ps) s1 = Some s2 \<and> (if sk_state s2 = NN_SOCK_STATE_FINI then s3 = s2 else core_exec demo_env Proto_reports s2 = Some s3)
       \<and> sk_state s3 = NN_SOCK_STATE_FINI \<and> sk_termsem s3 = 1 \<and> dom (sk_ep s3) = {} \<and> nn_sock_term demo_env ((nn_sock_rele ^^ nat (sk_holds s3)) s3) = Some ())"
    by blast
  have "sock_reach demo_env s1" using s1 by (intro sock_reach.reach_op [OF s, of Close]) simp_all
  then have "distinct (sk_sdeps s1)" using sock_reach_inv by (fastforce simp: sock_inv_def core_inv_def core_ok_def core_eps_def)
  from all [OF this refl] s s1 show ?thesis by blast
qed

section \<open>Options\<close>

lemma sock_level [simp]: "\<not> proto_gone NN_SOL_SOCKET s"
  by (simp add: proto_gone_def)

text \<open>C5: whatever is done to a socket, its options stay in their ranges, those of new endpoints included, and its name is terminated within the 64 bytes
  it has; setting an option reports an error or success and never aborts, and one that reports an error leaves the options as they were.\<close>

theorem sock_options_typed:
  assumes "sock_reach env s"
  shows "options_ok (sk_options s) \<and> length (takeWhile (\<lambda>b. b \<noteq> 0) (sk_name s)) < 64
    \<and> (\<exists>s' r. nn_sock_setopt env NN_SOL_SOCKET opt optval s = Some (s', r) \<and> options_ok (sk_options s')
        \<and> (r \<noteq> Inr () \<longrightarrow> sk_options s' = sk_options s \<and> sk_name s' = sk_name s))"
proof -
  note inv = sock_reach_inv [OF assms]
  then have u: "options_ok (sk_options s)" "0 \<in> set (take 64 (sk_name s))" by (simp_all add: sock_inv_def user_ok_def)
  have "length (takeWhile (\<lambda>b. b \<noteq> 0) xs) < n" if "0 \<in> set (take n xs)" for n :: nat and xs :: "u8 list"
    using that by (induction xs arbitrary: n) (auto simp: take_Cons split: nat.splits)
  moreover from sock_setopt_inv [OF inv sock_level, of opt optval] obtain s' where
    s': "nn_sock_setopt env NN_SOL_SOCKET opt optval s = Some (s', snd (nn_sock_setopt_inner env NN_SOL_SOCKET opt optval s))"
      "sock_inv env s'" "core_goes (fst (nn_sock_setopt_inner env NN_SOL_SOCKET opt optval s)) s'" by blast
  have "sk_options s' = sk_options s \<and> sk_name s' = sk_name s" if "snd (nn_sock_setopt_inner env NN_SOL_SOCKET opt optval s) \<noteq> Inr ()"
    using that s'(3) by (auto simp: nn_sock_setopt_inner_def core_goes_def split: sum.splits if_splits)
  ultimately show ?thesis using u s'(1,2) by (auto simp: sock_inv_def user_ok_def)
qed

theorem sock_options_typed_witness: "\<exists>s. sock_reach demo_env s \<and> options_ok (sk_options s)"
proof -
  from demo_open obtain s where s: "sock_reach demo_env s" by blast
  then show ?thesis using sock_options_typed [OF s, THEN conjunct1] by blast
qed

definition settable :: "int set" where
  "settable = {NN_SNDBUF, NN_RCVBUF, NN_RCVMAXSIZE, NN_SNDTIMEO, NN_RCVTIMEO, NN_RECONNECT_IVL, NN_RECONNECT_IVL_MAX, NN_SNDPRIO, NN_RCVPRIO, NN_IPV4ONLY, NN_MAXTTL}"

lemma word_of_bytes:
  "((push_bit 24 (ucast (ucast (drop_bit 24 w) :: u8)) OR push_bit 16 (ucast (ucast (drop_bit 16 w) :: u8))) OR
    push_bit 8 (ucast (ucast (drop_bit 8 w) :: u8))) OR ucast (ucast w :: u8) = (w :: u32)" (is "?b = w")
proof (rule bit_word_eqI)
  fix n assume "n < LENGTH(32)"
  then consider "n < 8" | "8 \<le> n" "n < 16" | "16 \<le> n" "n < 24" | "24 \<le> n" "n < 32" by fastforce
  then show "bit ?b n = bit w n" by cases (auto simp: bit_simps)
qed

lemma load_store_int: "int32 v \<Longrightarrow> load_int (store_int v) = v"
  by (simp add: load_int_def store_int_def Let_def word_of_bytes int32_def sint_sbintrunc' signed_take_bit_int_eq_self)

lemma length_store_int [simp]: "length (store_int v) = 4"
  by (simp add: store_int_def Let_def)

lemma sock_set_get_int:
  assumes "opt \<in> settable" and "sock_set_int opt v opts = Inr opts'"
  shows "sock_get_int env opt opts' = Some v \<and> (\<forall>opt'. opt' \<noteq> opt \<longrightarrow> sock_get_int env opt' opts' = sock_get_int env opt' opts)"
  using assms unfolding settable_def
  by (elim insertE emptyE) (auto simp: sock_set_int_def sock_get_int_def option_consts split: if_split_asm)

text \<open>C6: an option that was set is read back with the value it was set to, in a buffer of the size of an \<open>int\<close> or larger, and the others keep their
  values.\<close>

theorem sock_option_roundtrip:
  assumes "sock_reach env s" and "opt \<in> settable" and "int32 v" and "4 \<le> len"
    and "nn_sock_setopt env NN_SOL_SOCKET opt (store_int v) s = Some (s', Inr ())"
  shows "(\<exists>s''. nn_sock_getopt env NN_SOL_SOCKET opt len s' = Some (s'', Inr (store_int v, 4)))
    \<and> (\<forall>opt'. opt' \<noteq> opt \<longrightarrow> sock_get_int env opt' (sk_options s') = sock_get_int env opt' (sk_options s))"
proof -
  note inv = sock_reach_inv [OF assms(1)]
  have ne: "opt \<noteq> NN_SOCKET_NAME" "opt \<noteq> NN_SNDFD" "opt \<noteq> NN_RCVFD" using assms(2) by (auto simp: settable_def option_consts)
  from sock_setopt_inv [OF inv sock_level, of opt "store_int v"] assms(5) have
    r: "snd (nn_sock_setopt_inner env NN_SOL_SOCKET opt (store_int v) s) = Inr ()" and i': "sock_inv env s'"
      and g: "core_goes (fst (nn_sock_setopt_inner env NN_SOL_SOCKET opt (store_int v) s)) s'" by auto
  from r obtain opts where o: "sock_set_int opt v (sk_options s) = Inr opts"
    using ne load_store_int [OF assms(3)] by (auto simp: nn_sock_setopt_inner_def split: sum.splits)
  with g ne load_store_int [OF assms(3)] have "sk_options s' = opts" by (simp add: nn_sock_setopt_inner_def core_goes_def)
  with sock_set_get_int [OF assms(2) o, of env] have get: "sock_get_int env opt (sk_options s') = Some v"
    and frame: "\<And>opt'. opt' \<noteq> opt \<Longrightarrow> sock_get_int env opt' (sk_options s') = sock_get_int env opt' (sk_options s)" by simp_all
  have "snd (nn_sock_getopt_inner env NN_SOL_SOCKET opt len s') = Inr (store_int v, 4)" using ne get assms(4) by (simp add: nn_sock_getopt_inner_def)
  with sock_getopt_inv [OF i' sock_level, of opt len] frame show ?thesis by auto
qed

theorem sock_option_roundtrip_witness:
  "\<exists>s s' s''. sock_reach demo_env s \<and> nn_sock_setopt demo_env NN_SOL_SOCKET NN_SNDPRIO (store_int 3) s = Some (s', Inr ())
     \<and> nn_sock_getopt demo_env NN_SOL_SOCKET NN_SNDPRIO 4 s' = Some (s'', Inr (store_int 3, 4))"
proof -
  from demo_open obtain s where s: "sock_reach demo_env s" by blast
  have r: "snd (nn_sock_setopt_inner demo_env NN_SOL_SOCKET NN_SNDPRIO (store_int 3) s) = Inr ()"
    using load_store_int [of 3] by (simp add: nn_sock_setopt_inner_def sock_set_int_def option_consts int32_def)
  with sock_setopt_inv [OF sock_reach_inv [OF s] sock_level, of NN_SNDPRIO "store_int 3"] obtain s' where
    s': "nn_sock_setopt demo_env NN_SOL_SOCKET NN_SNDPRIO (store_int 3) s = Some (s', Inr ())" by auto
  have "NN_SNDPRIO \<in> settable" "int32 3" by (simp_all add: settable_def int32_def)
  from sock_option_roundtrip [OF s this order.refl s'] s s' show ?thesis by blast
qed

section \<open>Waiting\<close>

lemma sint_small: "unat (d :: u64) < 2 ^ 31 \<Longrightarrow> 0 \<le> sint (ucast d :: u32)"
proof -
  assume "unat d < 2 ^ 31"
  then have "int (unat d) < int (2 ^ 31)" by (simp only: of_nat_less_iff)
  then have u: "uint d < 2 ^ 31" by (simp only: uint_nat of_nat_power of_nat_numeral)
  have t: "take_bit 32 (uint d) = uint d" using u by (intro take_bit_int_eq_self) simp_all
  have "signed_take_bit 31 (uint d) = uint d" using u by (intro signed_take_bit_int_eq_self) (simp_all add: order.trans [OF _ uint_ge_0])
  then show ?thesis by (simp add: sint_uint unsigned_ucast_eq t)
qed

lemma unat_m1: "unat (-1 :: u64) = 2 ^ 64 - 1"
  by (simp add: unsigned_minus_1_eq_mask mask_eq_exp_minus_1)

lemma efd_wait_deadline_aux:
  assumes "\<forall>ob \<in> set obs. unat e < unat (ob_now ob) + 2 ^ 31" and "e \<noteq> 0" and "e \<noteq> -1"
  shows "(efd_wait_loop e obs = Some (Inl ETIMEDOUT) \<longrightarrow> (\<exists>ob \<in> set obs. e < ob_now ob \<or> e < ob_after ob))
    \<and> ((\<exists>ob \<in> set obs. e < ob_after ob) \<longrightarrow> efd_wait_loop e obs \<noteq> None)"
  using assms(1)
proof (induction obs)
  case (Cons ob obs)
  have "0 \<le> sint (ucast (e - ob_now ob) :: u32)" if "\<not> e < ob_now ob"
    using Cons.prems that by (intro sint_small) (auto simp: unat_sub word_le_nat_alt not_less)
  then show ?case using Cons assms(2,3) by (auto simp: not_less split: poll_result.split)
qed simp

text \<open>C7: a wait of a bounded time reports that the time is over only after the clock has passed the deadline, and it does not go on once a round has seen
  that; an unbounded wait never reports it, and a wait of no time looks once. All of them end at once when the descriptor is readable or closed.\<close>

theorem nn_efd_wait_deadline:
  assumes "0 < timeout" and "timeout < 2 ^ 31" and "unat now + nat timeout < 2 ^ 64 - 1" and "\<forall>ob \<in> set obs. now \<le> ob_now ob"
  shows "(nn_efd_wait now timeout obs = Some (Inl ETIMEDOUT) \<longrightarrow>
       (\<exists>ob \<in> set obs. unat now + nat timeout < unat (ob_now ob) \<or> unat now + nat timeout < unat (ob_after ob)))
    \<and> ((\<exists>ob \<in> set obs. unat now + nat timeout < unat (ob_after ob)) \<longrightarrow> nn_efd_wait now timeout obs \<noteq> None)
    \<and> nn_efd_wait now (-1) obs \<noteq> Some (Inl ETIMEDOUT) \<and> (obs \<noteq> [] \<longrightarrow> nn_efd_wait now 0 obs \<noteq> None)
    \<and> (obs \<noteq> [] \<longrightarrow> ob_fd (hd obs) < 0 \<longrightarrow> nn_efd_wait now timeout obs = Some (Inl EBADF))"
proof -
  define e where "e = now + word_of_int timeout"
  have "unat (word_of_int timeout :: u64) = nat timeout" using assms(1,2) by (simp add: unat_eq_nat_uint uint_word_of_int_eq take_bit_int_eq_self)
  then have e: "unat e = unat now + nat timeout" using assms(3) by (simp add: e_def unat_word_ariths)
  then have "e \<noteq> 0" "e \<noteq> -1" using assms(1,3) by (auto simp: unat_m1)
  moreover have "unat e < unat (ob_now ob) + 2 ^ 31" if "ob \<in> set obs" for ob
    using assms(1,2,4) that e by (auto simp: word_le_nat_alt nat_less_iff) 
  ultimately have "(efd_wait_loop e obs = Some (Inl ETIMEDOUT) \<longrightarrow> (\<exists>ob \<in> set obs. e < ob_now ob \<or> e < ob_after ob))
    \<and> ((\<exists>ob \<in> set obs. e < ob_after ob) \<longrightarrow> efd_wait_loop e obs \<noteq> None)" by (intro efd_wait_deadline_aux) simp_all
  moreover have "efd_wait_loop (-1) obs \<noteq> Some (Inl ETIMEDOUT)" by (induction obs) (auto split: poll_result.split)
  moreover have "efd_expire now timeout = e" "efd_expire now (-1) = -1" "efd_expire now 0 = 0" using assms(1) by (simp_all add: efd_expire_def e_def)
  ultimately show ?thesis using e by (cases obs) (auto simp: nn_efd_wait_def word_less_nat_alt split: poll_result.split)
qed

theorem nn_efd_wait_deadline_witness:
  "nn_efd_wait 1000 50 [\<lparr>ob_fd = 3, ob_now = 1000, ob_poll = Poll_none, ob_after = 1051\<rparr>] \<noteq> None"
  by (rule nn_efd_wait_deadline [of 50 1000 "[\<lparr>ob_fd = 3, ob_now = 1000, ob_poll = Poll_none, ob_after = 1051\<rparr>]", THEN conjunct2, THEN conjunct1, THEN mp])
    simp_all

section \<open>An endpoint that comes too late\<close>

text \<open>The last endpoint of a closing socket reports while another one has been added in the meantime.\<close>

lemma late_report_aborts:
  assumes eps: "core_eps {} s" and st: "sk_state s = NN_SOCK_STATE_STOPPING_EPS" "core_state s SockF = NN_FSM_STATE_STOPPING"
    and sd: "sk_sdeps s = [q]" "sk_eps s = [p]" and ev: "core_events s = []"
  shows "core_exec env (Ep_reports q) s = None"
proof -
  let ?p = "nn_fsm_event_process core_get core_upd (core_fn env) (core_shutdown_fn env)" and ?e = "Stopped (EpF q) :: (core_fsm, unit) event_id"
  have cl: "ep_in s q NN_EP_STATE_STOPPING NN_FSM_STATE_STOPPING" "q \<noteq> p" using eps sd ev by (auto simp: core_eps_def ep_closing_def)
  define c where "c = (set_ev ?e (ep_report q) (sk_ctx s))\<lparr>ctx_events := [?e]\<rparr>"
  define s1 where "s1 = s\<lparr>sk_ctx := c\<rparr>"
  have s1: "nn_ep_stopped q s = Some s1" "core_events s1 = [?e]" "core_ev s1 (EpF q) = ep_report q" "sk_state s1 = sk_state s" "sk_eps s1 = [p]" "sk_sdeps s1 = [q]"
    "core_state s1 f = core_state s f" for f
    using ev sd by (simp_all add: s1_def c_def nn_ep_stopped_def nn_ctx_raise_def nn_fsm_event_active_def core_inv_D ep_report_def core_eps_def eps [unfolded core_eps_def])
  have in1: "ep_in s1 q NN_EP_STATE_STOPPING NN_FSM_STATE_STOPPING" using cl(1) by (simp add: s1_def c_def ep_in_def ep_linked_def)
  have "ep_in s1 p NN_EP_STATE_ACTIVE NN_FSM_STATE_ACTIVE" using eps sd by (simp add: core_eps_def s1_def c_def ep_in_def ep_linked_def)
  moreover have "ep_closing s1 q" using in1 s1(2,3) by (simp add: ep_closing_def)
  ultimately have eps1: "core_eps {} s1" using eps sd s1(2) by (auto simp: core_eps_def s1_def c_def)
  note p1 = popped_eps [OF eps1 s1(2)]
  from ep_report_ok [OF p1(1) _ p1(3) [THEN iffD2, OF in1], of env None] s1(6) obtain s2 where
    s2: "nn_ep_shutdown env q NN_FSM_ACTION NN_EP_ACTION_STOPPED None (popped ?e [] s1) = Some s2" "core_eps {} s2" "sk_eps s2 = [p]" "sk_sdeps s2 = [q]"
      "core_events s2 = [?e]" "core_frame (popped ?e [] s1) s2" "sk_ep s2 = (sk_ep s1)(q := map_option (\<lambda>e. e\<lparr>ep_state := NN_EP_STATE_IDLE\<rparr>) (sk_ep s1 q))"
    using s1(5) by auto
  have step1: "?p ?e (core_upd (\<lambda>c. c\<lparr>ctx_events := []\<rparr>) s1) = Some s2"
    using s1(3,7) s2(1) in1 by (simp add: nn_fsm_event_process_def Let_def nn_fsm_feed_def core_shutdown_fn_def ep_report_def ep_in_def)
  have st2: "sk_state s2 = NN_SOCK_STATE_STOPPING_EPS" "core_state s2 SockF = NN_FSM_STATE_STOPPING" using s2(6) st s1(4,7) by (simp_all add: core_frame_def)
  have bye: "core_ev s2 (EpF q) = ep_goodbye q" "ep_in s2 q NN_EP_STATE_IDLE NN_FSM_STATE_IDLE"
    using s2(2,4,5,7) in1 by (auto simp: core_eps_def ep_closing_def ep_in_def)
  note p2 = popped_eps [OF s2(2,5)]
  from sock_ep_gone_ok [OF p2(1) _ p2(3) [THEN iffD2, OF bye(2)], of env] s2(3,4) obtain s3 where
    s3: "sock_ep_gone env (Some q) (popped ?e [] s2) = Some s3" "sk_eps s3 = [p]" "sk_sdeps s3 = []" by auto
  have step2: "?p ?e (core_upd (\<lambda>c. c\<lparr>ctx_events := []\<rparr>) s2) = None"
    using bye(1) st2 s3 by (simp add: nn_fsm_event_process_def Let_def nn_fsm_feed_def core_shutdown_fn_def nn_sock_shutdown_def ep_goodbye_def core_consts sock_finish2_def)
  have "ctx_process_events core_get core_upd ?p s1 = None"
    using s1(2) s2(5) step1 step2 by (simp add: ctx_process_events.simps [of _ _ _ s1] ctx_process_events.simps [of _ _ _ s2])
  then show ?thesis using s1(1) by (simp add: sock_leave_def nn_ctx_leave_def)
qed

text \<open>C8: \<open>nn_sock_add_ep\<close> does not look at the state of the socket. An endpoint that is added while the socket is being closed, which a thread can do
  that has taken its hold before, is not asked to stop; when the last of the other endpoints reports, the assertion that none is left fails.\<close>

theorem sock_add_while_closing_aborts:
  assumes "sock_reach env s" and "sk_state s = NN_SOCK_STATE_STOPPING_EPS" and "sk_sdeps s = [q]" and "sk_ep s p = None"
    and "length addr \<le> NN_SOCKADDR_MAX" and "se_ep_create env bnd p addr (sk_ext s) = (x, Inr ())"
  shows "\<exists>s'. nn_sock_add_ep env p bnd addr s = Some (s', Inr (sk_eid s)) \<and> core_exec env (Ep_reports q) s' = None"
proof -
  have ci: "core_inv env s" using sock_reach_inv [OF assms(1)] by (simp add: sock_inv_def)
  note d = core_inv_D [OF ci]
  have ph: "core_state s SockF = NN_FSM_STATE_STOPPING" "sk_eps s = []" using d(2) assms(2) by (simp_all add: sock_phase_def)
  have qp: "q \<noteq> p" "ep_in s q NN_EP_STATE_STOPPING NN_FSM_STATE_STOPPING" "dom (sk_ep s) = {q}"
    using d(1,3) assms(3,4) ph(2) by (auto simp: core_eps_def ep_closing_def)
  define c where "c = set_fsm (EpF p) (\<lambda>m. m\<lparr>fsm_state := NN_FSM_STATE_ACTIVE\<rparr>) (nn_fsm_init (EpF p) NN_SOCK_SRC_EP (Some p) SockF (sk_ctx s))"
  define ep where "ep = \<lparr>ep_state = NN_EP_STATE_ACTIVE, ep_eid = sk_eid s, ep_options = so_ep_template (sk_options s), ep_addr = addr, ep_last_errno = 0\<rparr>"
  define s' where "s' = s\<lparr>sk_ext := x, sk_ep := (sk_ep s)(p \<mapsto> ep), sk_ctx := c, sk_eid := sk_eid s + 1, sk_eps := [p]\<rparr>"
  have c: "ctx_events c = []" "ctx_eventsto c = []" using d(3,4) by (simp_all add: c_def nn_fsm_init_def)
  have s': "core_events s' = []" "ctx_eventsto (sk_ctx s') = []" "sk_state s' = NN_SOCK_STATE_STOPPING_EPS" "sk_sdeps s' = [q]" "sk_eps s' = [p]"
    "core_state s' SockF = NN_FSM_STATE_STOPPING"
    using assms(2,3) ph c by (simp_all add: s'_def c_def nn_fsm_init_def)
  have "nn_sock_add_ep env p bnd addr s = map_option (\<lambda>t. (t, Inr (sk_eid s))) (sock_leave env s')"
    using assms(5,6) ph(2) d(3,4) c
    by (simp add: nn_sock_add_ep_def nn_ep_init_def nn_ep_start_def nn_fsm_start_def nn_fsm_isidle_def nn_fsm_event_active_def nn_ep_handler_def nn_fsm_init_def
        core_consts s'_def ep_def c_def Let_def map_conv_bind_option comp_def)
  moreover have "sock_leave env s' = Some s'" using s' by (intro sock_leave_idle) simp_all
  moreover have "ep_in s' p NN_EP_STATE_ACTIVE NN_FSM_STATE_ACTIVE" by (simp add: ep_in_def ep_linked_def s'_def c_def nn_fsm_init_def ep_def)
  moreover have "ep_closing s' q" using qp s'(1) by (simp add: ep_closing_def ep_in_def ep_linked_def s'_def c_def nn_fsm_init_def)
  ultimately show ?thesis using s' qp late_report_aborts [of s' q p env] by (auto simp: core_eps_def s'_def)
qed

theorem sock_add_while_closing_aborts_witness:
  "\<exists>s s'. sock_reach demo_env s \<and> nn_sock_add_ep demo_env 8 False ''b'' s = Some (s', Inr (sk_eid s)) \<and> core_exec demo_env (Ep_reports 7) s' = None"
proof -
  from demo_closing obtain s where s: "sock_reach demo_env s" "sk_state s = NN_SOCK_STATE_STOPPING_EPS" "sk_sdeps s = [7]" "sk_ep s 8 = None" by blast
  have "se_ep_create demo_env False 8 ''b'' (sk_ext s) = (sk_ext s, Inr ())" by (simp add: demo_env_def)
  from sock_add_while_closing_aborts [OF s _ this] s(1) show ?thesis by (auto simp: NN_SOCKADDR_MAX_def)
qed

end
