(* ===== verification/Spec2Isabelle.thy ===== *)
theory Spec2Isabelle
  imports Utils_Properties Protocol_Properties Pubsub_Properties Survey_Properties Sock_Properties
begin

text \<open>
  \<^bold>\<open>Verification of nanomsg\<close> (\<open>src/project/nanomsg/src\<close>), the messaging library at the core of this repository.

  \<^bold>\<open>The program.\<close> A nanomsg socket speaks a scalability protocol (pipeline, pair, publish/subscribe, bus,
  request/reply, survey). The protocol code sees pipes: it is told when a pipe is added or removed and when
  it can be read from or written to, and it schedules the messages of the user over its pipes. A transport
  provides the pipes; within a process that is inproc, whose sessions are state machines that exchange
  events and messages. All of it is built from intrusive containers and reference counted message buffers.

  \<^bold>\<open>The theories\<close>, bottom up. A failed assertion, an access outside of a buffer and the use of a null or freed
  pointer are the value \<open>None\<close> of an option; error codes are the left values of a sum.

  \<^item> \<open>Prelude\<close>: names of the machine integers, assertions, facts on lists, options and words.
  \<^item> \<open>Wire\<close> (\<open>utils/wire.c\<close>): the codecs of integers; the locale \<open>wire_codec\<close> holds their laws.
  \<^item> \<open>Nn_List\<close>, \<open>Nn_Queue\<close>, \<open>Nn_Hash\<close> (\<open>utils/list.c, queue.c, hash.c\<close>): the containers, over heaps of items with
    explicit pointers; the locales \<open>intrusive_list\<close>, \<open>fifo\<close> and \<open>key_map\<close> are their contracts.
  \<^item> \<open>Nn_Chunk\<close> (\<open>utils/chunk.c, chunkref.c, msg.c\<close>): buffers with header words in memory, reference counts and the
    small message optimisation; \<open>heap_inv\<close> says that each count is the number of references. The layers
    above use messages by value, as \<open>nn_msg\<close> records of three byte strings.
  \<^item> \<open>Pipe\<close> (\<open>core/pipe.c\<close>, statistics and options of \<open>core/sock.c\<close>): the state machine of a pipe; the locale \<open>transport\<close>
    is what the sockets rely on in a transport.
  \<^item> \<open>Priolist\<close>, \<open>Sched\<close> (\<open>protocols/utils\<close>): priority lists, load balancer, fair queue, distributor and exclusive
    pipe; the locale \<open>pipe_scheduler\<close> is the contract of a scheduler.
  \<^item> \<open>Sockbase\<close> (\<open>core/sock.c, sockbase.c\<close>): the virtual functions of a protocol and the step relation \<open>sys_step\<close> of a
    socket with its pipes: pipes start and stop, the transport finishes sends and receives, events are delivered, the
    user sends and receives. The locale \<open>raw_socket\<close> holds what a protocol must guarantee; in it no step can fail.
  \<^item> \<open>Pipeline\<close>, \<open>Pair_Pub_Bus\<close>, \<open>Xreq\<close>, \<open>Xrep\<close>, \<open>Survey_Raw\<close>, \<open>Rep\<close> (\<open>protocols/\<close>): the protocols; each raw one
    is a sublocale instance of \<open>raw_socket\<close> over any transport.
  \<^item> \<open>Trie\<close>, \<open>Trie_Correct\<close>, \<open>Xsub\<close> (\<open>protocols/pubsub/trie.c, xsub.c\<close>): the patricia trie of subscriptions, its
    correctness against the number of subscriptions of each string, and the SUB socket.
  \<^item> \<open>Timer\<close>, \<open>Timed_Socket\<close> (\<open>aio/timer.c, timerset.c\<close>, the tasks and timeouts of \<open>aio/worker_posix.inc\<close>): a timer, the worker that runs
    it, and the locale \<open>timed_socket\<close>, what a socket with a timer promises so that the worker never sends it an unexpected event.
  \<^item> \<open>Req\<close>, \<open>Req_Safe\<close>, \<open>Surveyor\<close>, \<open>Surveyor_Safe\<close> (\<open>protocols/reqrep/req.c, task.c, protocols/survey/surveyor.c\<close>): the REQ and SURVEYOR
    sockets with their timers; \<open>req_step\<close> and \<open>surv_step\<close> interleave pipes, user and worker, and both are instances of \<open>timed_socket\<close>.
  \<^item> \<open>Msgqueue\<close>, \<open>Fsm\<close>, \<open>Sinproc\<close> (\<open>transports/inproc/msgqueue.c, sinproc.c, aio/fsm.c, ctx.c\<close>): the bounded message queue, the
    state machine and event machinery, the inproc session.
  \<^item> \<open>Inproc_Channel\<close>: two connected sessions as a system, with the history of sent and received messages.
  \<^item> \<open>Inproc_Sockets\<close>: inproc is a \<open>transport\<close>, so every protocol is a \<open>raw_socket\<close> over it.
  \<^item> \<open>Utils_Properties\<close>, \<open>Protocol_Properties\<close>, \<open>Reqrep_Properties\<close>, \<open>Pubsub_Properties\<close>, \<open>Req_Properties\<close>,
    \<open>Survey_Properties\<close> and this theory: the properties.

  \<^bold>\<open>Bounds.\<close> Loops over data are structural or well-founded recursions. Loops that may not end
  (\<open>fq_recv_until\<close>, \<open>req_in_loop\<close>, \<open>surv_recv_loop\<close>, \<open>ctx_process_events\<close>) are partial functions into option, and are proved to return:
  the first three because the number of messages that a transport has available decreases, the last for any measure that the
  handlers decrease. \<open>worker_run n\<close> lets the worker take \<open>n\<close> tasks; the number of queued tasks is enough. Machine integers are words of their width wherever the code computes with them.

  \<^bold>\<open>Assumptions of the model.\<close> The context mutex makes steps atomic. Memory allocation for objects succeeds, as the
  code aborts otherwise; \<open>malloc\<close> for message buffers is a parameter. A pipe is not stopped while an event of it is
  queued (\<open>sys_guard\<close>). A pointer is a non-zero 64 bit number (\<open>xbus_no_echo\<close>). Random numbers, the clock and the option \<open>NN_MAXTTL\<close>
  are arguments. The worker is shown as far as one socket and its timer are concerned. A reply of a REQ socket that has been
  terminated must not be used, whether or not its bytes lie in a buffer that was freed.

  \<^bold>\<open>Not modelled.\<close> The transports ipc, tcp and ws, the pollers, worker threads and operating system wrappers (system calls), the
  blocking of user threads in \<open>core/sock.c\<close>, and the endpoint objects that create inproc sessions.
\<close>

section \<open>The inproc transport\<close>

text \<open>C1: in order, exactly once delivery between two connected inproc sessions. Start from a new channel and let the users of both ends
  and the event machinery do what they like, in any interleaving. At each moment, in both directions: what one end has sent is what
  the other end has received, followed by exactly the messages that the receiver's queue holds and the one message, if any, that the
  sender keeps because its event is on the way or the receiver found its queue full. No operation that either side may perform fails an
  assertion. From every such state the receives, deliveries and notifications alone can bring everything that was sent to the other end; and
  when no notification is pending, nothing can be received and no event can be delivered, everything has arrived.\<close>

theorem inproc_pair_fifo:
  assumes "new_channel w p q" and "(pair_step junk sa sr p q)\<^sup>*\<^sup>* (pair_start w) st"
  shows "(\<exists>xs. mq_rep (si_msgqueue (ses (ps_world st) q)) xs
       \<and> ps_sent st p = ps_got st q @ map body (xs @ in_transit (direction_of (ps_world st) p q)))
     \<and> (\<exists>xs. mq_rep (si_msgqueue (ses (ps_world st) p)) xs
       \<and> ps_sent st q = ps_got st p @ map body (xs @ in_transit (direction_of (ps_world st) q p)))
     \<and> (\<forall>op. pair_guard p q op st \<longrightarrow> (\<exists>st'. pair_exec junk sa sr op st = Some st' \<and> pair_step junk sa sr p q st st'))
     \<and> (\<exists>st'. (pair_step junk sa sr p q)\<^sup>*\<^sup>* st st' \<and> ps_sent st' = ps_sent st
       \<and> ps_got st' q = ps_sent st p \<and> ps_got st' p = ps_sent st q)
     \<and> (w_events (ps_world st) = [] \<and> (\<forall>op. moves op \<longrightarrow> \<not> pair_guard p q op st) \<longrightarrow>
       ps_sent st p = ps_got st q \<and> ps_sent st q = ps_got st p)"
proof -
  have inv: "pair_inv p q st" by (rule pair_reach_inv [OF assms(2) pair_start_inv [OF assms(1)]])
  then have "pair_inv q p st" using pair_inv_sym by blast
  then have "\<exists>xs. mq_rep (si_msgqueue (ses (ps_world st) p)) xs
       \<and> ps_sent st q = ps_got st p @ map body (xs @ in_transit (direction_of (ps_world st) q p))" by (rule pair_accounting)
  moreover have "\<forall>op. pair_guard p q op st \<longrightarrow> (\<exists>st'. pair_exec junk sa sr op st = Some st' \<and> pair_step junk sa sr p q st st')"
    using pair_exec_safe [OF inv] by (meson pair_stepI)
  ultimately show ?thesis
    using pair_accounting [OF inv] pair_drain [OF inv, of junk sa sr] pair_quiescent [OF inv] by blast
qed

theorem inproc_pair_fifo_witness:
  "\<exists>st st'. pair_step ping (\<lambda>w s p. Some (w, s, Inr ())) (\<lambda>w s p. Some (w, s)) 1 2 (pair_start example_world) st
     \<and> ps_sent st 1 = [[0x70, 0x69]] \<and> ps_got st 2 = []
     \<and> (pair_step ping (\<lambda>w s p. Some (w, s, Inr ())) (\<lambda>w s p. Some (w, s)) 1 2)\<^sup>*\<^sup>* st st' \<and> ps_got st' 2 = [[0x70, 0x69]]"
proof -
  let ?sa = "\<lambda>w s p. Some (w, s, Inr ())" and ?sr = "\<lambda>w s p. Some (w, s)"
  have "pair_guard 1 2 (PSend 1 ping) (pair_start example_world)"
    by (simp add: pair_start_def out_idle_def example_world_def example_pipe_def)
  with pair_exec_safe [OF pair_start_inv [OF example_channel], of "PSend 1 ping" ping ?sa ?sr] obtain st where
    1: "pair_exec ping ?sa ?sr (PSend 1 ping) (pair_start example_world) = Some st"
      "pair_step ping ?sa ?sr 1 2 (pair_start example_world) st" by (meson pair_stepI)
  then have sent: "ps_sent st 1 = [[0x70, 0x69]]" "ps_got st 2 = []" by (auto simp: bind_Some_iff pair_start_def ping_def)
  have "(pair_step ping ?sa ?sr 1 2)\<^sup>*\<^sup>* (pair_start example_world) st" using 1(2) by (rule r_into_rtranclp)
  from inproc_pair_fifo [OF example_channel this] obtain st' where
    "(pair_step ping ?sa ?sr 1 2)\<^sup>*\<^sup>* st st'" "ps_got st' 2 = ps_sent st 1" by blast
  then show ?thesis using 1(2) sent by auto
qed

section \<open>Sockets over inproc\<close>

text \<open>C29: the protocol code of PUSH, PULL and PAIR sockets is safe over inproc pipes. From a fresh socket on, no sequence of pipes that are started and stopped,
  notifications of the transport, event deliveries, sends and receives makes an assertion of the protocol, of its scheduler or of the pipe functions fail, and the scheduler knows exactly the
  connected pipes, whose number is the reported number of connections. A second pipe of a PAIR socket is refused
  rather than tracked. The system does not include the session that starts the pipe and that has assertions of its own: a
  connecting one asserts that the pipe is not refused (C38).\<close>

theorem pipeline_safe:
  "socket_safe (nn_xpush_sockbase_vfptr (nn_sinproc_pipebase_vfptr junk)) inproc_inv Ignores (\<lambda>_. True)
     (\<lambda>s. pl_members (xpush_lb s)) (fresh_world, nn_xpush_init)
   \<and> socket_safe (nn_xpull_sockbase_vfptr (nn_sinproc_pipebase_vfptr junk)) inproc_inv Tracks (\<lambda>_. True)
     (\<lambda>s. pl_members (xpull_fq s)) (fresh_world, nn_xpull_init)
   \<and> socket_safe (nn_xpair_sockbase_vfptr (nn_sinproc_pipebase_vfptr junk)) inproc_inv Tracks (\<lambda>_. True)
     (\<lambda>s. set_option (ex_pipe (xpair_excl s))) (fresh_world, nn_xpair_init)"
  using priolist_inv_init priolist_init_sets fresh_world_ok
  by (intro conjI inproc.xpush.socket_safeI inproc.xpull.socket_safeI inproc.xpair.socket_safeI inproc.xpush.SI_fresh
      inproc.xpull.SI_fresh inproc.xpair.SI_fresh)
    (simp_all add: nn_xpush_init_def nn_xpull_init_def nn_lb_init_def nn_fq_init_def nn_xpair_init_def nn_excl_init_def excl_inv_def)

text \<open>C30: the same for the distributing sockets PUB, raw BUS and BUS; a PUB socket is safe as long as no peer sends it anything.\<close>

theorem pub_bus_safe:
  "socket_safe (nn_xpub_sockbase_vfptr (nn_sinproc_pipebase_vfptr junk)) inproc_inv Refuses (\<lambda>_. True)
     (\<lambda>s. dist_members (xpub_outpipes s)) (fresh_world, nn_xpub_init)
   \<and> socket_safe (nn_xbus_sockbase_vfptr (nn_sinproc_pipebase_vfptr junk)) inproc_inv Tracks (\<lambda>_. True)
     (\<lambda>s. dist_members (xbus_outpipes s)) (fresh_world, nn_xbus_init)
   \<and> socket_safe (nn_bus_sockbase_vfptr (nn_sinproc_pipebase_vfptr junk)) inproc_inv Tracks (\<lambda>_. True)
     (\<lambda>s. dist_members (xbus_outpipes s)) (fresh_world, nn_xbus_init)"
  using dist_inv_init priolist_inv_init priolist_init_sets fresh_world_ok
  by (intro conjI inproc.xpub.socket_safeI inproc.xbus.socket_safeI inproc.bus.socket_safeI inproc.xpub.SI_fresh
      inproc.xbus.SI_fresh inproc.bus.SI_fresh)
    (simp_all add: nn_xpub_init_def nn_xbus_init_def nn_fq_init_def nn_dist_init_def dist_members_def xbus_inv_def)

text \<open>C31: the same for a SUB socket whose subscriptions decide every message; on other subscriptions receiving reads beyond
  the end of some message.\<close>

theorem sub_safe:
  assumes "\<forall>data. nn_trie_match t data \<noteq> None"
  shows "socket_safe (nn_xsub_sockbase_vfptr (nn_sinproc_pipebase_vfptr junk)) inproc_inv Tracks (\<lambda>_. True)
     (\<lambda>s. pl_members (xsub_fq s)) (fresh_world, nn_xsub_init\<lparr>xsub_trie := t\<rparr>)"
  using assms priolist_inv_init priolist_init_sets fresh_world_ok
  by (intro inproc.xsub.socket_safeI inproc.xsub.SI_fresh) (simp_all add: nn_xsub_init_def nn_fq_init_def decides_iff)

theorem sub_safe_witness:
  "socket_safe (nn_xsub_sockbase_vfptr (nn_sinproc_pipebase_vfptr empty_msg)) inproc_inv Tracks (\<lambda>_. True)
     (\<lambda>s. pl_members (xsub_fq s)) (fresh_world, nn_xsub_init\<lparr>xsub_trie := abc_trie\<rparr>)"
proof (rule sub_safe)
  have "decides abc_trie" by (simp add: decides_def abc_trie_def nn_node_has_subscribers_def)
  then show "\<forall>data. nn_trie_match abc_trie data \<noteq> None" unfolding decides_iff .
qed

lemma xrep_fresh:
  "xrep_inv (nn_xrep_init key free_store flags)" "pl_members (xrep_inpipes (nn_xrep_init key free_store flags)) = {}"
  "pl_active (xrep_inpipes (nn_xrep_init key free_store flags)) = {}" "xrep_ready (nn_xrep_init key free_store flags) = {}"
  using free_store_inv free_store_facts priolist_inv_init priolist_init_sets
  by (auto simp: xrep_inv_def xrep_ready_def nn_xrep_init_def nn_fq_init_def)

text \<open>C32: the same for the request/reply sockets. A raw REP socket takes connections as long as the key for the next one is not
  in use by a pipe that is still connected.\<close>

theorem reqrep_safe:
  "socket_safe (nn_xreq_sockbase_vfptr (nn_sinproc_pipebase_vfptr junk)) inproc_inv Tracks (\<lambda>_. True)
     (\<lambda>s. pl_members (xreq_lb s)) (fresh_world, nn_xreq_init)
   \<and> socket_safe (nn_xrep_sockbase_vfptr ttl (nn_sinproc_pipebase_vfptr junk)) inproc_inv Tracks xrep_room
     (\<lambda>s. pl_members (xrep_inpipes s)) (fresh_world, nn_xrep_init key free_store flags)"
  using priolist_inv_init priolist_init_sets fresh_world_ok xrep_fresh
  by (intro conjI inproc.xreq.socket_safeI inproc.xrep.socket_safeI inproc.xreq.SI_fresh inproc.xrep.SI_fresh)
    (simp_all add: nn_xreq_init_def nn_lb_init_def nn_fq_init_def xreq_inv_def)

text \<open>C33: the same for the survey sockets.\<close>

theorem survey_safe:
  "socket_safe (nn_xsurveyor_sockbase_vfptr (nn_sinproc_pipebase_vfptr junk)) inproc_inv Tracks (\<lambda>_. True)
     (\<lambda>s. dist_members (xsurv_outpipes s)) (fresh_world, nn_xsurveyor_init)
   \<and> socket_safe (nn_xrespondent_sockbase_vfptr ttl (nn_sinproc_pipebase_vfptr junk)) inproc_inv Tracks
     (\<lambda>s. xrep_room (as_xrep s)) (\<lambda>s. pl_members (xrep_inpipes (as_xrep s))) (fresh_world, nn_xrespondent_init key free_store flags)"
proof -
  have "as_xrep (nn_xrespondent_init key free_store flags) = nn_xrep_init key free_store flags"
    by (simp add: as_xrep_def nn_xrespondent_init_def nn_xrep_init_def)
  then show ?thesis using dist_inv_init priolist_inv_init priolist_init_sets fresh_world_ok xrep_fresh
    by (intro conjI inproc.xsurveyor.socket_safeI inproc.xrespondent.socket_safeI inproc.xsurveyor.SI_fresh
        inproc.xrespondent.SI_fresh)
      (simp_all add: nn_xsurveyor_init_def nn_dist_init_def nn_fq_init_def dist_members_def xsurveyor_inv_def)
qed

text \<open>The states of the safety theorems are not only the fresh one: a PUSH socket can be connected over inproc. Starting the pipe of the
  connected session 1 is a step of the system; it makes the pipe known to the load balancer and announces
  that it can take a message, and the delivery of that announcement makes it the next pipe to send to.\<close>

theorem push_connects:
  "\<exists>w s w' s'. sys_reach (nn_xpush_sockbase_vfptr (nn_sinproc_pipebase_vfptr empty_msg)) inproc_inv Ignores (\<lambda>_. True)
      (fresh_world, nn_xpush_init) (w, s) \<and> pl_members (xpush_lb s) = {1} \<and> current_connections (w_stats w) = 1
    \<and> sys_exec (nn_xpush_sockbase_vfptr (nn_sinproc_pipebase_vfptr empty_msg)) Deliver (w, s) = Some (w', s')
    \<and> pl_active (xpush_lb s') = {1}"
proof -
  let ?vt = "nn_xpush_sockbase_vfptr (nn_sinproc_pipebase_vfptr empty_msg)"
  define w1 where "w1 = upd_pipe 1 (\<lambda>b. b\<lparr>pb_state := NN_PIPEBASE_STATE_ACTIVE, pb_instate := NN_PIPEBASE_INSTATE_ASYNC,
     pb_outstate := NN_PIPEBASE_OUTSTATE_IDLE\<rparr>) fresh_world"
  define w2 where "w2 = w1\<lparr>w_stats := (w_stats w1)\<lparr>current_connections := 1\<rparr>, w_events := [(1, NN_PIPE_OUT)]\<rparr>"
  have prio: "prio_ok (w_pipes w1 1)" and idle: "pb_state (w_pipes fresh_world 1) = NN_PIPEBASE_STATE_IDLE"
    and w1: "w_events w1 = []" "current_connections (w_stats w1) = 0"
    by (simp_all add: w1_def fresh_world_def prio_ok_def example_options_def nn_pipebase_init_def example_stats_def)
  from lb_add_ok [OF priolist_inv_init _ prio] priolist_init_sets obtain v where
    v: "pipe_prio w1 1 NN_SNDPRIO = Some v" "priolist_inv (nn_lb_add nn_priolist_init 1 v)"
      "pl_members (nn_lb_add nn_priolist_init 1 v) = {1}" "pl_active (nn_lb_add nn_priolist_init 1 v) = {}" by auto
  let ?s = "\<lparr>xpush_lb = nn_lb_add nn_priolist_init 1 v\<rparr>"
  have w0: "fresh_world\<lparr>w_trans := w_trans fresh_world\<rparr> = fresh_world" by simp
  have exec: "sys_exec ?vt (Start 1 (w_trans fresh_world)) (fresh_world, nn_xpush_init) = Some (w2, ?s)"
    using idle v(1) w1 unfolding sys_exec.simps w0 nn_pipebase_start_def w1_def [symmetric]
    by (simp add: Let_def nn_sock_add_def nn_xpush_sockbase_vfptr_def nn_xpush_add_def nn_xpush_init_def nn_lb_init_def
        nn_sockbase_stat_increment_def nn_pipe_raise_def w2_def INT_MAX_def flip: w1_def)
  have t: "trans_ok inproc_inv w2" using fresh_start_ok by (simp add: w2_def w1_def trans_ok_def)
  have g: "sys_guard Ignores (\<lambda>_. True) (Start 1 (w_trans fresh_world)) (fresh_world, nn_xpush_init)"
    using idle by (simp add: pending_def prio_ok_def fresh_world_def nn_pipebase_init_def example_options_def)
  have reach: "sys_reach ?vt inproc_inv Ignores (\<lambda>_. True) (fresh_world, nn_xpush_init) (w2, ?s)"
    unfolding sys_reach_def by (rule r_into_rtranclp, rule sys_stepI [OF g exec]) (simp add: t)
  from lb_out_ok [OF v(2), of 1] v(3,4) obtain lb where
    lb: "nn_lb_out (nn_lb_add nn_priolist_init 1 v) 1 = Some lb" "priolist_inv lb" "pl_active lb = {1}" by auto
  from snd_priority_stat [OF lb(2), of "w2\<lparr>w_events := []\<rparr>"] obtain w3 where
    "nn_sockbase_stat_increment (w2\<lparr>w_events := []\<rparr>) NN_STAT_CURRENT_SND_PRIORITY (nn_lb_get_priority lb) = Some w3" by blast
  with lb(1) have "sys_exec ?vt Deliver (w2, ?s) = Some (w3, \<lparr>xpush_lb = lb\<rparr>)"
    by (simp add: w2_def nn_sock_pipe_event_def nn_xpush_sockbase_vfptr_def nn_xpush_out_def)
  moreover have "current_connections (w_stats w2) = 1" by (simp add: w2_def)
  ultimately show ?thesis using reach v(3) lb(3)
    by (intro exI [of _ w2] exI [of _ ?s] exI [of _ w3] exI [of _ "\<lparr>xpush_lb = lb\<rparr>"]) simp
qed

section \<open>Failures\<close>

text \<open>Sessions 1 and 2 are connected, session 3 is connecting and session 4 has been accepted.\<close>

definition connecting_world :: "inproc world" where
  "connecting_world = set_state 4 NN_SINPROC_STATE_READY (set_state 3 NN_SINPROC_STATE_CONNECTING example_world)"

lemma connecting_world_facts:
  "si_state (ses connecting_world 3) = NN_SINPROC_STATE_CONNECTING" "si_peer (ses connecting_world 3) = None"
  "pb_state (w_pipes connecting_world 3) = NN_PIPEBASE_STATE_IDLE" "si_state (ses connecting_world 4) = NN_SINPROC_STATE_READY"
  by (simp_all add: connecting_world_def set_state_def example_facts example_session_def)
    (simp add: example_world_def nn_pipebase_init_def)

theorem pub_aborts_on_incoming:
  "nn_sock_pipe_event (nn_xpub_sockbase_vfptr vf) w s (p, NN_PIPE_IN) = None"
  by (simp add: nn_sock_pipe_event_def nn_xpub_sockbase_vfptr_def nn_xpub_in_def)

text \<open>C38: connecting a PAIR socket a second time over inproc aborts the process. When the peer of the second connection becomes ready the
  socket refuses the new pipe, as it already has one; the connecting session asserts that this does not happen
  (the accepting session handles it).\<close>

theorem pair_second_connect_aborts:
  assumes "si_state (ses w p) = NN_SINPROC_STATE_CONNECTING" and "pb_state (w_pipes w p) = NN_PIPEBASE_STATE_IDLE"
    and "ex_pipe (xpair_excl s) = Some q"
  shows "nn_sinproc_handler junk (nn_sock_add (nn_xpair_sockbase_vfptr vf)) (nn_sock_rm (nn_xpair_sockbase_vfptr vf))
      (Sinproc p) NN_SINPROC_SRC_PEER NN_SINPROC_READY (Some peer) (w, s) = None"
  using assms by (simp add: nn_pipebase_start_def nn_sock_add_def nn_xpair_sockbase_vfptr_def nn_xpair_add_def nn_excl_add_def Let_def
      NN_SINPROC_SRC_PEER_def NN_FSM_ACTION_def)

theorem pair_second_connect_aborts_witness:
  "nn_sinproc_handler empty_msg (nn_sock_add (nn_xpair_sockbase_vfptr (nn_sinproc_pipebase_vfptr empty_msg)))
     (nn_sock_rm (nn_xpair_sockbase_vfptr (nn_sinproc_pipebase_vfptr empty_msg))) (Sinproc 3) NN_SINPROC_SRC_PEER NN_SINPROC_READY (Some 4)
     (connecting_world, \<lparr>xpair_excl = \<lparr>ex_pipe = Some 1, ex_inpipe = None, ex_outpipe = Some 1\<rparr>\<rparr>) = None"
  by (rule pair_second_connect_aborts [where q = 1]) (simp_all only: connecting_world_facts nn_xpair.simps nn_excl.simps)

text \<open>A message that overtakes the acknowledgement of its connection aborts the process: a session that has been accepted but has not seen
  ACCEPTED yet has no case for SENT.\<close>

theorem sinproc_sent_before_accepted_aborts:
  assumes "si_state (ses w p) = NN_SINPROC_STATE_READY"
  shows "nn_sinproc_handler junk sa sr (Sinproc p) NN_SINPROC_SRC_PEER NN_SINPROC_SENT srcptr (w, s) = None"
  using assms by (simp add: NN_SINPROC_SENT_def NN_SINPROC_READY_def NN_SINPROC_ACCEPTED_def)

theorem sinproc_sent_before_accepted_aborts_witness:
  "nn_sinproc_handler empty_msg (nn_sock_add (nn_xpair_sockbase_vfptr (nn_sinproc_pipebase_vfptr empty_msg)))
     (nn_sock_rm (nn_xpair_sockbase_vfptr (nn_sinproc_pipebase_vfptr empty_msg))) (Sinproc 4) NN_SINPROC_SRC_PEER NN_SINPROC_SENT (Some 3)
     (connecting_world, nn_xpair_init) = None"
  by (rule sinproc_sent_before_accepted_aborts) (rule connecting_world_facts)

text \<open>Stopping a session that is still connecting dereferences the null pointer to its peer.\<close>

theorem sinproc_stop_connecting_aborts:
  assumes "si_state (ses w p) = NN_SINPROC_STATE_CONNECTING" and "si_peer (ses w p) = None"
    and "pb_state (w_pipes w p) = NN_PIPEBASE_STATE_IDLE"
  shows "nn_sinproc_shutdown_events sr p NN_FSM_ACTION NN_FSM_STOP (w, s) = None"
  using assms by (simp add: nn_sinproc_shutdown_events_def nn_pipebase_stop_def)

theorem sinproc_stop_connecting_aborts_witness:
  "nn_sinproc_shutdown_events (nn_sock_rm (nn_xpair_sockbase_vfptr (nn_sinproc_pipebase_vfptr empty_msg)))
     3 NN_FSM_ACTION NN_FSM_STOP (connecting_world, nn_xpair_init) = None"
  by (rule sinproc_stop_connecting_aborts) (simp_all add: connecting_world_facts)

section \<open>Event processing\<close>

text \<open>The event loop of a context, which may raise further events while it runs, returns and leaves no event behind
  whenever handling an event decreases some measure of the state.\<close>

theorem ctx_events_terminate:
  fixes \<mu> :: "'w \<Rightarrow> nat"
  assumes "Inv w"
    and "\<And>w e es. Inv w \<Longrightarrow> ctx_events (get w) = e # es \<Longrightarrow>
      \<exists>w'. process e (upd (\<lambda>c. c\<lparr>ctx_events := es\<rparr>) w) = Some w' \<and> Inv w' \<and> \<mu> w' < \<mu> w"
  shows "\<exists>w'. ctx_process_events get upd process w = Some w' \<and> Inv w' \<and> ctx_events (get w') = []"
proof -
  have "\<exists>w'. ctx_process_events get upd process w = Some w' \<and> Inv w'"
    by (rule ctx_process_events_returns [where \<mu> = \<mu>]) (use assms in blast)+
  then obtain w' where w': "ctx_process_events get upd process w = Some w'" "Inv w'" by blast
  from ctx_process_events_empty [OF w'(1)] w' show ?thesis by blast
qed

theorem ctx_events_terminate_witness:
  "\<exists>c. ctx_process_events (\<lambda>c. c) (\<lambda>f. f) (\<lambda>e. Some) (example_ctx\<lparr>ctx_events := [Event (Ev_sent 1), Event (Ev_sent 2)]\<rparr>)
     = Some c \<and> ctx_events c = []"
proof -
  have "\<exists>c. ctx_process_events (\<lambda>c. c) (\<lambda>f. f) (\<lambda>e. Some) (example_ctx\<lparr>ctx_events := [Event (Ev_sent 1), Event (Ev_sent 2)]\<rparr>)
     = Some c \<and> True \<and> ctx_events c = []"
    by (rule ctx_events_terminate [where \<mu> = "\<lambda>c. length (ctx_events c)"]) simp_all
  then show ?thesis by simp
qed

end
